(* ===== verification/Prelude.thy ===== *)
theory Prelude
  imports Main "HOL-Library.Word" "HOL-Library.Multiset" "HOL-Library.Char_ord"
    "HOL-Library.List_Lexorder"
begin

text \<open>
  The vocabulary every component theory shares: the machine integers of the C++ code as words,
  the outcome type that makes an error return and a read outside a buffer visible as values,
  the weakest-precondition calculus for it, the range arithmetic on 64-bit words, and
  \<open>std::sort\<close>, \<open>std::lower_bound\<close> and \<open>std::upper_bound\<close> with the contract the code relies on.
\<close>

unbundle bit_operations_syntax

named_theorems word_nat \<open>64-bit comparisons and range checks read as statements on natural numbers\<close>

section \<open>Machine integers, bytes and strings\<close>

type_synonym u8 = "8 word"
type_synonym u16 = "16 word"
type_synonym u32 = "32 word"
type_synonym u64 = "64 word"

text \<open>A buffer \<open>(const uint8_t *data)\<close>; a pointer into it is a natural number, its index.\<close>
type_synonym bytes = "u8 list"

definition char_of_byte :: "u8 \<Rightarrow> char" where
  "char_of_byte b = char_of (unat b)"

definition byte_of_char :: "char \<Rightarrow> u8" where
  "byte_of_char c = word_of_nat (of_char c)"

lemma char_of_byte_of_char [simp]: "char_of_byte (byte_of_char c) = c"
  by (simp add: char_of_byte_def byte_of_char_def unat_of_nat)

lemma byte_of_char_of_byte [simp]: "byte_of_char (char_of_byte b) = b"
proof -
  have "unat b mod 256 = unat b"
    using unsigned_less [of b, where 'a = nat] by simp
  then show ?thesis
    by (simp add: char_of_byte_def byte_of_char_def)
qed

section \<open>Outcomes: a value, an error return, or a read outside the buffer\<close>

datatype ('e, 'a) outcome = Ok 'a | Err 'e | Fault

primrec obind :: "('e, 'a) outcome \<Rightarrow> ('a \<Rightarrow> ('e, 'b) outcome) \<Rightarrow> ('e, 'b) outcome" where
  "obind (Ok x) f = f x"
| "obind (Err e) f = Err e"
| "obind Fault f = Fault"

text \<open>
  \<open>valid m P\<close> is total in the reads and partial in the errors: \<open>m\<close> never reads outside its
  buffer, and if it returns a value, the value satisfies \<open>P\<close>.
\<close>

primrec valid :: "('e, 'a) outcome \<Rightarrow> ('a \<Rightarrow> bool) \<Rightarrow> bool" where
  "valid (Ok x) P = P x"
| "valid (Err e) P = True"
| "valid Fault P = False"

lemma valid_obind [simp]: "valid (obind m f) P = valid m (\<lambda>x. valid (f x) P)"
  by (cases m) simp_all

lemma valid_mono: "valid m P \<Longrightarrow> (\<And>x. m = Ok x \<Longrightarrow> P x \<Longrightarrow> Q x) \<Longrightarrow> valid m Q"
  by (cases m) simp_all

lemma valid_weaken: "valid m P \<Longrightarrow> (\<And>x. P x \<Longrightarrow> Q x) \<Longrightarrow> valid m Q"
  by (cases m) simp_all

lemma valid_obindI:
  assumes "valid m Q" and "\<And>x. m = Ok x \<Longrightarrow> Q x \<Longrightarrow> valid (f x) P"
  shows "valid (obind m f) P"
  using assms by (cases m) simp_all

lemma valid_not_Fault: "valid m P \<Longrightarrow> m \<noteq> Fault"
  by (cases m) simp_all

lemma valid_of_Ok: "m \<noteq> Fault \<Longrightarrow> (\<And>x. m = Ok x \<Longrightarrow> P x) \<Longrightarrow> valid m P"
  by (cases m) simp_all

lemma validD: "valid m P \<Longrightarrow> m = Ok x \<Longrightarrow> P x"
  by simp

lemma valid_conjI: "valid m P \<Longrightarrow> valid m Q \<Longrightarrow> valid m (\<lambda>x. P x \<and> Q x)"
  by (cases m) simp_all

lemma valid_True_iff [simp]: "valid m (\<lambda>_. True) \<longleftrightarrow> m \<noteq> Fault"
  by (cases m) simp_all

lemma valid_IfI:
  "(b \<Longrightarrow> valid m P) \<Longrightarrow> (\<not> b \<Longrightarrow> valid n P) \<Longrightarrow> valid (if b then m else n) P"
  by simp

lemma obind_eq_ErrE:
  assumes "obind m f = Err e"
  obtains "m = Err e" | x where "m = Ok x" and "f x = Err e"
  using assms by (cases m) auto

lemma obind_eq_Ok [simp]: "obind m f = Ok y \<longleftrightarrow> (\<exists>x. m = Ok x \<and> f x = Ok y)"
  by (cases m) simp_all

lemma obind_eq_Fault [simp]:
  "obind m f = Fault \<longleftrightarrow> m = Fault \<or> (\<exists>x. m = Ok x \<and> f x = Fault)"
  by (cases m) simp_all

lemma Ok_eq_obind [simp]: "Ok y = obind m f \<longleftrightarrow> (\<exists>x. m = Ok x \<and> f x = Ok y)"
  by (cases m) auto

lemma obind_assoc: "obind (obind m f) g = obind m (\<lambda>x. obind (f x) g)"
  by (cases m) simp_all

lemma obind_Ok_right [simp]: "obind m Ok = m"
  by (cases m) simp_all

lemma obind_cong [fundef_cong]:
  "m = n \<Longrightarrow> (\<And>x. n = Ok x \<Longrightarrow> f x = g x) \<Longrightarrow> obind m f = obind n g"
  by (cases n) simp_all

section \<open>64-bit range arithmetic\<close>

text \<open>\<open>checked_add\<close> of the loader and of the runtime: refuse a sum past \<open>UINT64_MAX\<close>.\<close>

definition checked_add :: "u64 \<Rightarrow> u64 \<Rightarrow> u64 option" where
  "checked_add lhs rhs = (if rhs > (- 1) - lhs then None else Some (lhs + rhs))"

lemma unat_max64: "unat (- 1 :: u64) = 2 ^ 64 - 1"
proof -
  have "unat (- 1 :: u64) = nat (uint (- 1 :: u64))" by simp
  also have "uint (- 1 :: u64) = 2 ^ 64 - 1" by (simp add: uint_word_ariths)
  finally show ?thesis by simp
qed

lemma unat_u64_less: "unat (x :: u64) < 18446744073709551616"
  using unsigned_less [of x, where 'a = nat] by simp

lemma unat_u32_less: "unat (x :: u32) < 4294967296"
  using unsigned_less [of x, where 'a = nat] by simp

lemma unat_u16_less: "unat (x :: u16) < 65536"
  using unsigned_less [of x, where 'a = nat] by simp

lemma unat_u8_less: "unat (x :: u8) < 256"
  using unsigned_less [of x, where 'a = nat] by simp

text \<open>Widening keeps the value.\<close>

lemma unat_ucast_up:
  assumes "LENGTH('a) \<le> LENGTH('b)"
  shows "unat (ucast (x :: 'a::len word) :: 'b::len word) = unat x"
proof -
  have "unat x < 2 ^ LENGTH('a)" by (rule unsigned_less)
  also have "(2 :: nat) ^ LENGTH('a) \<le> 2 ^ LENGTH('b)" using assms by simp
  finally show ?thesis by (simp add: unsigned_ucast_eq take_bit_nat_eq_self)
qed

lemma unat_u8_to_u64 [simp]: "unat (ucast (x :: u8) :: u64) = unat x"
  by (rule unat_ucast_up) simp

lemma unat_u16_to_u64 [simp]: "unat (ucast (x :: u16) :: u64) = unat x"
  by (rule unat_ucast_up) simp

lemma unat_u32_to_u64 [simp]: "unat (ucast (x :: u32) :: u64) = unat x"
  by (rule unat_ucast_up) simp

lemma unat_add64:
  "unat a + unat b < 2 ^ 64 \<Longrightarrow> unat (a + b :: u64) = unat a + unat b"
  by (simp add: unat_word_ariths)

lemma unat_sub64: "b \<le> a \<Longrightarrow> unat (a - b :: 'a::len word) = unat a - unat b"
  by (rule unat_sub)

lemma unat_max_minus: "unat ((- 1) - x :: u64) = 2 ^ 64 - 1 - unat x"
proof -
  have "x \<le> - 1" by simp
  then have "unat ((- 1) - x) = unat (- 1 :: u64) - unat x"
    by (rule unat_sub)
  then show ?thesis by (simp only: unat_max64)
qed

lemma unat_of_nat64: "n < 2 ^ 64 \<Longrightarrow> unat (word_of_nat n :: u64) = n"
  by (simp add: unat_of_nat)

lemma checked_add_None: "checked_add a b = None \<longleftrightarrow> 2 ^ 64 \<le> unat a + unat b"
  using unat_u64_less [of a] unat_u64_less [of b]
  by (auto simp: checked_add_def word_less_nat_alt unat_max_minus)

lemma checked_add_Some:
  "checked_add a b = Some c \<longleftrightarrow> unat a + unat b < 2 ^ 64 \<and> c = a + b"
  using unat_u64_less [of a] unat_u64_less [of b]
  by (auto simp: checked_add_def word_less_nat_alt unat_max_minus)

lemma checked_add_SomeD:
  assumes "checked_add a b = Some c"
  shows "unat c = unat a + unat b" and "unat a + unat b < 2 ^ 64"
  using assms by (auto simp: checked_add_Some unat_add64)

lemma uint_of_int64: "0 \<le> i \<Longrightarrow> i < 2 ^ 64 \<Longrightarrow> uint (word_of_int i :: u64) = i"
  by (simp add: unsigned_of_int take_bit_int_eq_self)

lemma word_mod_zero [simp]: "a mod b = (0 :: 'a::len word) \<longleftrightarrow> unat b dvd unat a"
  by (simp add: word_unat_eq_iff unat_mod mod_eq_0_iff_dvd)

text \<open>The address of entry \<open>i\<close> of a table with entries of \<open>k\<close> bytes.\<close>

lemma unat_table_entry:
  assumes "unat t + unat k * i < 2 ^ 64"
  shows "unat (t + of_nat i * k :: u64) = unat t + unat k * i"
proof -
  have "unat (of_nat i * k :: u64) = i * unat k mod 2 ^ 64"
    by (simp add: unat_word_ariths unat_of_nat mod_mult_left_eq)
  also have "\<dots> = unat k * i" using assms by (simp add: mult.commute)
  finally have "unat (of_nat i * k :: u64) = unat k * i" .
  with assms show ?thesis by (simp add: unat_add64)
qed

text \<open>Clearing the low bits rounds down to a multiple of the power of two.\<close>

lemma unat_and_not_mask: "unat (x AND NOT (mask n) :: 'a::len word) = unat x div 2 ^ n * 2 ^ n"
proof -
  have "unat (x AND NOT (mask n)) = push_bit n (drop_bit n (unat x))"
    by (rule bit_eqI) (auto simp: bit_simps bit_imp_le_length)
  then show ?thesis by (simp add: push_bit_eq_mult drop_bit_eq_div)
qed

text \<open>Rounding up to a page, with the overflow test the code makes before it.\<close>

definition page_round :: "nat \<Rightarrow> nat" where
  "page_round n = (n + 4095) div 4096 * 4096"

lemma page_round_bounds: "n \<le> page_round n" "page_round n < n + 4096" "page_round n mod 4096 = 0"
  using div_mult_mod_eq [of "n + 4095" 4096] mod_less_divisor [of 4096 "n + 4095"]
  by (simp_all add: page_round_def)

lemma page_round_overflows: "s > (- 1) - (4096 - 1) \<longleftrightarrow> \<not> unat (s :: u64) \<le> 2 ^ 64 - 4096"
proof -
  have "unat ((- 1) - (4096 - 1) :: u64) = 2 ^ 64 - 4096" by (simp add: unat_max_minus)
  then show ?thesis by (simp only: word_less_nat_alt not_le)
qed

lemma unat_page_round:
  assumes "unat (s :: u64) \<le> 2 ^ 64 - 4096"
  shows "unat ((s + 4096 - 1) AND NOT (4096 - 1)) = page_round (unat s)"
proof -
  have "unat (s + 4095) = unat s + 4095" using assms unat_add64 [of s 4095] by simp
  moreover have "(4095 :: u64) = mask 12" by (simp add: mask_eq_exp_minus_1)
  ultimately show ?thesis
    using unat_and_not_mask [of "s + 4095" 12] by (simp add: page_round_def add.commute)
qed

text \<open>The range test \<open>offset <= size && length <= size - offset\<close> says what it means to.\<close>

lemma range_test [word_nat]:
  "(a \<le> s \<and> l \<le> s - a) \<longleftrightarrow> unat a + unat l \<le> unat (s :: u64)"
  by (auto simp: word_le_nat_alt unat_sub)

lemma interval_disjoint:
  "{a ..< a + n} \<inter> {b ..< b + m} = {} \<longleftrightarrow> n = 0 \<or> m = 0 \<or> a + n \<le> b \<or> b + m \<le> (a :: nat)"
proof (cases "n = 0 \<or> m = 0")
  case False
  then have "max a b \<in> {a ..< a + n} \<inter> {b ..< b + m} \<longleftrightarrow> \<not> (a + n \<le> b \<or> b + m \<le> a)"
    by auto
  with False show ?thesis by fastforce
qed auto

definition is_power_of_two :: "'a::len word \<Rightarrow> bool" where
  "is_power_of_two value = (value \<noteq> 0 \<and> (value AND (value - 1)) = 0)"

text \<open>A power of two as the code tests it.\<close>

lemma bit_top:
  assumes "2 ^ k \<le> unat (w :: 'a::len word)" and "unat w < 2 ^ Suc k"
  shows "bit w k"
proof -
  have "unat w div 2 ^ k = 1" using assms by (intro div_nat_eqI) simp_all
  then have "bit (unat w) k" by (simp add: bit_iff_odd)
  then show ?thesis by (simp add: bit_unsigned_iff)
qed

lemma is_power_of_two_unat:
  assumes "is_power_of_two (w :: 'a::len word)"
  obtains k where "unat w = 2 ^ k"
proof -
  have pos: "1 \<le> unat w" using assms by (auto simp: is_power_of_two_def Suc_le_eq unat_gt_0)
  then obtain k where k: "2 ^ k \<le> unat w" "unat w < 2 ^ Suc k"
    using ex_power_ivl1 [of 2 "unat w"] by auto
  have "unat w = 2 ^ k"
  proof (rule ccontr)
    assume "unat w \<noteq> 2 ^ k"
    have less: "unat (w - 1) = unat w - 1"
      using pos by (simp add: unat_sub word_le_nat_alt)
    have "bit w k" "bit (w - 1) k"
      using k \<open>unat w \<noteq> 2 ^ k\<close> less by (auto intro: bit_top)
    then have "bit (w AND (w - 1)) k" by (simp add: bit_and_iff)
    with assms show False by (simp add: is_power_of_two_def)
  qed
  with that show thesis by blast
qed

end
