(* ===== verification/CodeObject.thy ===== *)
theory CodeObject
  imports Prelude
begin

text \<open>
  The data model of \<open>light-rocr/loader/include/light_rocr/loader/code_object.hpp\<close>: the parse
  error codes, the PT_LOAD segments, the kernel descriptions decoded from the AMDHSA metadata,
  the load plan, and the code object that holds them. A field keeps the name of the C++ member
  with a prefix for its structure, since record fields share one name space. An \<open>int64_t\<close> is an
  \<^typ>\<open>int\<close> read from a 64-bit word in two's complement; the other integers keep their width.
  Error messages are diagnostics only and are not kept: an error is its code and its offset.
\<close>

section \<open>Errors\<close>

datatype ParseErrorCode =
    NoParseError | InvalidArgument | TruncatedElfHeader | InvalidElfMagic
  | UnsupportedElfClass | UnsupportedEndianness | UnsupportedElfVersion | UnsupportedOsAbi
  | UnsupportedAbiVersion | UnsupportedObjectType | UnsupportedMachine | UnsupportedTarget
  | InvalidElfHeaderSize | MissingProgramHeaders | UnsupportedExtendedProgramHeaderCount
  | InvalidProgramHeaderEntrySize | ProgramHeaderTableOutOfBounds | InvalidSegmentFlags
  | SegmentFileSizeExceedsMemorySize | SegmentFileRangeOutOfBounds
  | SegmentVirtualRangeOverflow | InvalidSegmentAlignment | IncongruentSegmentAlignment
  | OverlappingSegmentFileRanges | OverlappingSegmentVirtualRanges | MissingLoadSegments
  | MalformedNote | DuplicateMetadataNote | UnsupportedMetadataEncoding | InvalidMetadata
  | UnsupportedMetadataVersion | MetadataTargetMismatch | MissingDynamicSegment
  | DuplicateDynamicSegment | InvalidDynamicTable | MissingDynamicEntry | InvalidSymbolTable
  | InvalidStringTable | MissingKernelSymbol | InvalidKernelSymbol
  | KernelDescriptorOutOfBounds | InvalidKernelDescriptor | KernelMetadataMismatch
  | KernelEntryOutOfBounds | InvalidRelocationTable | UnsupportedRelocationFormat
  | UnsupportedRelocationType | RelocationSymbolOutOfBounds | RelocationTargetOutOfBounds

record ParseError =
  pe_code :: ParseErrorCode
  pe_offset :: u64

type_synonym 'a parsed = "(ParseError, 'a) outcome"

definition failure :: "ParseErrorCode \<Rightarrow> u64 \<Rightarrow> 'a parsed" where
  "failure code offset = Err \<lparr>pe_code = code, pe_offset = offset\<rparr>"

lemma valid_failure [simp]: "valid (failure c off) P"
  by (simp add: failure_def)

text \<open>A guard with an error return: the rest runs under the negated guard.\<close>

lemma valid_guard [simp]: "valid (if b then failure c off else m) P \<longleftrightarrow> b \<or> valid m P"
  by simp

lemma failure_not_Ok [simp]: "failure c off \<noteq> Ok x" "failure c off \<noteq> Fault"
  by (simp_all add: failure_def)

lemma obind_failure [simp]: "obind (failure c off) f = failure c off"
  by (simp add: failure_def)

primrec parse_error_code_name :: "ParseErrorCode \<Rightarrow> string" where
  "parse_error_code_name NoParseError = ''none''"
| "parse_error_code_name InvalidArgument = ''invalid_argument''"
| "parse_error_code_name TruncatedElfHeader = ''truncated_elf_header''"
| "parse_error_code_name InvalidElfMagic = ''invalid_elf_magic''"
| "parse_error_code_name UnsupportedElfClass = ''unsupported_elf_class''"
| "parse_error_code_name UnsupportedEndianness = ''unsupported_endianness''"
| "parse_error_code_name UnsupportedElfVersion = ''unsupported_elf_version''"
| "parse_error_code_name UnsupportedOsAbi = ''unsupported_os_abi''"
| "parse_error_code_name UnsupportedAbiVersion = ''unsupported_abi_version''"
| "parse_error_code_name UnsupportedObjectType = ''unsupported_object_type''"
| "parse_error_code_name UnsupportedMachine = ''unsupported_machine''"
| "parse_error_code_name UnsupportedTarget = ''unsupported_target''"
| "parse_error_code_name InvalidElfHeaderSize = ''invalid_elf_header_size''"
| "parse_error_code_name MissingProgramHeaders = ''missing_program_headers''"
| "parse_error_code_name UnsupportedExtendedProgramHeaderCount = ''unsupported_extended_program_header_count''"
| "parse_error_code_name InvalidProgramHeaderEntrySize = ''invalid_program_header_entry_size''"
| "parse_error_code_name ProgramHeaderTableOutOfBounds = ''program_header_table_out_of_bounds''"
| "parse_error_code_name InvalidSegmentFlags = ''invalid_segment_flags''"
| "parse_error_code_name SegmentFileSizeExceedsMemorySize = ''segment_file_size_exceeds_memory_size''"
| "parse_error_code_name SegmentFileRangeOutOfBounds = ''segment_file_range_out_of_bounds''"
| "parse_error_code_name SegmentVirtualRangeOverflow = ''segment_virtual_range_overflow''"
| "parse_error_code_name InvalidSegmentAlignment = ''invalid_segment_alignment''"
| "parse_error_code_name IncongruentSegmentAlignment = ''incongruent_segment_alignment''"
| "parse_error_code_name OverlappingSegmentFileRanges = ''overlapping_segment_file_ranges''"
| "parse_error_code_name OverlappingSegmentVirtualRanges = ''overlapping_segment_virtual_ranges''"
| "parse_error_code_name MissingLoadSegments = ''missing_load_segments''"
| "parse_error_code_name MalformedNote = ''malformed_note''"
| "parse_error_code_name DuplicateMetadataNote = ''duplicate_metadata_note''"
| "parse_error_code_name UnsupportedMetadataEncoding = ''unsupported_metadata_encoding''"
| "parse_error_code_name InvalidMetadata = ''invalid_metadata''"
| "parse_error_code_name UnsupportedMetadataVersion = ''unsupported_metadata_version''"
| "parse_error_code_name MetadataTargetMismatch = ''metadata_target_mismatch''"
| "parse_error_code_name MissingDynamicSegment = ''missing_dynamic_segment''"
| "parse_error_code_name DuplicateDynamicSegment = ''duplicate_dynamic_segment''"
| "parse_error_code_name InvalidDynamicTable = ''invalid_dynamic_table''"
| "parse_error_code_name MissingDynamicEntry = ''missing_dynamic_entry''"
| "parse_error_code_name InvalidSymbolTable = ''invalid_symbol_table''"
| "parse_error_code_name InvalidStringTable = ''invalid_string_table''"
| "parse_error_code_name MissingKernelSymbol = ''missing_kernel_symbol''"
| "parse_error_code_name InvalidKernelSymbol = ''invalid_kernel_symbol''"
| "parse_error_code_name KernelDescriptorOutOfBounds = ''kernel_descriptor_out_of_bounds''"
| "parse_error_code_name InvalidKernelDescriptor = ''invalid_kernel_descriptor''"
| "parse_error_code_name KernelMetadataMismatch = ''kernel_metadata_mismatch''"
| "parse_error_code_name KernelEntryOutOfBounds = ''kernel_entry_out_of_bounds''"
| "parse_error_code_name InvalidRelocationTable = ''invalid_relocation_table''"
| "parse_error_code_name UnsupportedRelocationFormat = ''unsupported_relocation_format''"
| "parse_error_code_name UnsupportedRelocationType = ''unsupported_relocation_type''"
| "parse_error_code_name RelocationSymbolOutOfBounds = ''relocation_symbol_out_of_bounds''"
| "parse_error_code_name RelocationTargetOutOfBounds = ''relocation_target_out_of_bounds''"

text \<open>The names are distinct; \<open>"unknown"\<close>, returned for a value outside the enumeration, is none of them.\<close>

definition parse_error_codes :: "ParseErrorCode list" where
  "parse_error_codes = [
    NoParseError, InvalidArgument, TruncatedElfHeader, InvalidElfMagic, UnsupportedElfClass,
    UnsupportedEndianness, UnsupportedElfVersion, UnsupportedOsAbi, UnsupportedAbiVersion,
    UnsupportedObjectType, UnsupportedMachine, UnsupportedTarget, InvalidElfHeaderSize,
    MissingProgramHeaders, UnsupportedExtendedProgramHeaderCount, InvalidProgramHeaderEntrySize,
    ProgramHeaderTableOutOfBounds, InvalidSegmentFlags, SegmentFileSizeExceedsMemorySize,
    SegmentFileRangeOutOfBounds, SegmentVirtualRangeOverflow, InvalidSegmentAlignment,
    IncongruentSegmentAlignment, OverlappingSegmentFileRanges, OverlappingSegmentVirtualRanges,
    MissingLoadSegments, MalformedNote, DuplicateMetadataNote, UnsupportedMetadataEncoding,
    InvalidMetadata, UnsupportedMetadataVersion, MetadataTargetMismatch, MissingDynamicSegment,
    DuplicateDynamicSegment, InvalidDynamicTable, MissingDynamicEntry, InvalidSymbolTable,
    InvalidStringTable, MissingKernelSymbol, InvalidKernelSymbol, KernelDescriptorOutOfBounds,
    InvalidKernelDescriptor, KernelMetadataMismatch, KernelEntryOutOfBounds,
    InvalidRelocationTable, UnsupportedRelocationFormat, UnsupportedRelocationType,
    RelocationSymbolOutOfBounds, RelocationTargetOutOfBounds]"

lemma parse_error_codes_UNIV: "c \<in> set parse_error_codes"
  by (cases c) (simp_all add: parse_error_codes_def)

lemma distinct_parse_error_code_names: "distinct (''unknown'' # map parse_error_code_name parse_error_codes)"
  by (simp add: parse_error_codes_def)

text \<open>Constants of the AMDGPU-HSA ABI.\<close>

abbreviation "kAmdgpuHsaOsAbi \<equiv> (64 :: u8)"
abbreviation "kMinimumSupportedAmdgpuHsaAbiVersion \<equiv> (3 :: u8)"
abbreviation "kMaximumSupportedAmdgpuHsaAbiVersion \<equiv> (4 :: u8)"
abbreviation "kAmdgpuTargetMachineMask \<equiv> (0xff :: u32)"
abbreviation "kAmdgpuMachineGfx1101 \<equiv> (0x46 :: u32)"

section \<open>Segments and kernels\<close>

record LoadSegment =
  ls_file_offset :: u64
  ls_file_size :: u64
  ls_virtual_address :: u64
  ls_memory_size :: u64
  ls_alignment :: u64
  ls_flags :: u32

record MetadataVersion =
  mv_major :: u32
  mv_minor :: u32

datatype KernelArgumentKind =
    ByValue | GlobalBuffer | DynamicSharedPointer | SamplerArg | ImageArg | PipeArg
  | QueueArg | HiddenBlockCountX | HiddenBlockCountY | HiddenBlockCountZ | HiddenGroupSizeX
  | HiddenGroupSizeY | HiddenGroupSizeZ | HiddenRemainderX | HiddenRemainderY
  | HiddenRemainderZ | HiddenGlobalOffsetX | HiddenGlobalOffsetY | HiddenGlobalOffsetZ
  | HiddenGridDims | HiddenNone | HiddenPrintfBuffer | HiddenHostcallBuffer | HiddenHeapV1
  | HiddenDefaultQueue | HiddenCompletionAction | HiddenMultiGridSyncArg
  | HiddenDynamicLdsSize | HiddenPrivateBase | HiddenSharedBase | HiddenQueuePtr

text \<open>The enumerators in declaration order, as the comparison of two kinds reads them.\<close>

primrec kind_value :: "KernelArgumentKind \<Rightarrow> nat" where
  "kind_value ByValue = 0"
| "kind_value GlobalBuffer = 1"
| "kind_value DynamicSharedPointer = 2"
| "kind_value SamplerArg = 3"
| "kind_value ImageArg = 4"
| "kind_value PipeArg = 5"
| "kind_value QueueArg = 6"
| "kind_value HiddenBlockCountX = 7"
| "kind_value HiddenBlockCountY = 8"
| "kind_value HiddenBlockCountZ = 9"
| "kind_value HiddenGroupSizeX = 10"
| "kind_value HiddenGroupSizeY = 11"
| "kind_value HiddenGroupSizeZ = 12"
| "kind_value HiddenRemainderX = 13"
| "kind_value HiddenRemainderY = 14"
| "kind_value HiddenRemainderZ = 15"
| "kind_value HiddenGlobalOffsetX = 16"
| "kind_value HiddenGlobalOffsetY = 17"
| "kind_value HiddenGlobalOffsetZ = 18"
| "kind_value HiddenGridDims = 19"
| "kind_value HiddenNone = 20"
| "kind_value HiddenPrintfBuffer = 21"
| "kind_value HiddenHostcallBuffer = 22"
| "kind_value HiddenHeapV1 = 23"
| "kind_value HiddenDefaultQueue = 24"
| "kind_value HiddenCompletionAction = 25"
| "kind_value HiddenMultiGridSyncArg = 26"
| "kind_value HiddenDynamicLdsSize = 27"
| "kind_value HiddenPrivateBase = 28"
| "kind_value HiddenSharedBase = 29"
| "kind_value HiddenQueuePtr = 30"

record KernelArgumentInfo =
  ka_offset :: u32
  ka_size :: u32
  ka_kind :: KernelArgumentKind

record KernelInfo =
  ki_name :: string
  ki_symbol_name :: string
  ki_descriptor_virtual_address :: u64
  ki_code_entry_byte_offset :: int
  ki_code_entry_virtual_address :: u64
  ki_kernarg_size :: u32
  ki_metadata_kernarg_alignment :: u32
  ki_kernarg_alignment :: u32
  ki_group_segment_size :: u32
  ki_private_segment_size :: u32
  ki_wavefront_size :: u32
  ki_uses_dynamic_stack :: bool
  ki_arguments :: "KernelArgumentInfo list"
  ki_explicit_argument_size :: u32
  ki_compute_pgm_rsrc1 :: u32
  ki_compute_pgm_rsrc2 :: u32
  ki_compute_pgm_rsrc3 :: u32
  ki_kernel_code_properties :: u16
  ki_kernarg_preload :: u16

definition default_KernelInfo :: KernelInfo where
  "default_KernelInfo =
     \<lparr>ki_name = [], ki_symbol_name = [], ki_descriptor_virtual_address = 0,
      ki_code_entry_byte_offset = 0, ki_code_entry_virtual_address = 0, ki_kernarg_size = 0,
      ki_metadata_kernarg_alignment = 0, ki_kernarg_alignment = 0, ki_group_segment_size = 0,
      ki_private_segment_size = 0, ki_wavefront_size = 0, ki_uses_dynamic_stack = False,
      ki_arguments = [], ki_explicit_argument_size = 0, ki_compute_pgm_rsrc1 = 0,
      ki_compute_pgm_rsrc2 = 0, ki_compute_pgm_rsrc3 = 0, ki_kernel_code_properties = 0,
      ki_kernarg_preload = 0\<rparr>"

section \<open>The load plan and the code object\<close>

datatype RelocationEncoding = Rel | Rela

record LoadCopy =
  lc_file_offset :: u64
  lc_virtual_address :: u64
  lc_size :: u64

record LoadZeroFill =
  lz_virtual_address :: u64
  lz_size :: u64

record LoadProtection =
  lp_virtual_address :: u64
  lp_size :: u64
  lp_flags :: u32

record Relocation =
  rl_encoding :: RelocationEncoding
  rl_target_virtual_address :: u64
  rl_type :: u32
  rl_symbol_index :: u32
  rl_addend :: int
  rl_symbol_value :: u64
  rl_symbol_is_absolute :: bool

record LoadPlan =
  plan_image_virtual_address :: u64
  plan_image_size :: u64
  plan_alignment :: u64
  plan_copies :: "LoadCopy list"
  plan_zero_fills :: "LoadZeroFill list"
  plan_protections :: "LoadProtection list"
  plan_relocations :: "Relocation list"

definition default_LoadPlan :: LoadPlan where
  "default_LoadPlan =
     \<lparr>plan_image_virtual_address = 0, plan_image_size = 0, plan_alignment = 1, plan_copies = [],
      plan_zero_fills = [], plan_protections = [], plan_relocations = []\<rparr>"

record CodeObject =
  co_abi_version :: u8
  co_elf_flags :: u32
  co_target_machine :: u32
  co_load_segments :: "LoadSegment list"
  co_has_metadata :: bool
  co_metadata_version :: MetadataVersion
  co_target_isa :: string
  co_kernels :: "KernelInfo list"
  co_load_plan :: LoadPlan

definition default_CodeObject :: CodeObject where
  "default_CodeObject =
     \<lparr>co_abi_version = 0, co_elf_flags = 0, co_target_machine = 0, co_load_segments = [],
      co_has_metadata = False, co_metadata_version = \<lparr>mv_major = 0, mv_minor = 0\<rparr>,
      co_target_isa = [], co_kernels = [], co_load_plan = default_LoadPlan\<rparr>"

text \<open>\<open>ParseResult\<close>: the code object as far as it was filled, and the error (if any).\<close>

record ParseResult =
  pr_code_object :: CodeObject
  pr_error :: ParseError

definition no_error :: ParseError where
  "no_error = \<lparr>pe_code = NoParseError, pe_offset = 0\<rparr>"

definition parse_ok :: "ParseResult \<Rightarrow> bool" where
  "parse_ok r \<longleftrightarrow> pe_code (pr_error r) = NoParseError"

end
