(* ===== verification/ByteReader.thy ===== *)
theory ByteReader
  imports CodeObject
begin

text \<open>
  The little-endian readers the three loader sources share (each source has its own copy in an
  anonymous namespace): a pointer is an index into the code object, and reading a byte at an
  index outside it is a \<^const>\<open>Fault\<close>. \<open>read_u32\<close> and \<open>read_u64\<close> are the byte loops of the code;
  \<open>le_word\<close> is the value a run of bytes stands for, \<open>le_bytes\<close> the bytes of a value.
\<close>

section \<open>Reading\<close>

definition rd8 :: "bytes \<Rightarrow> nat \<Rightarrow> ('e, u8) outcome" where
  "rd8 data p = (if p < length data then Ok (data ! p) else Fault)"

definition read_u16 :: "bytes \<Rightarrow> nat \<Rightarrow> ('e, u16) outcome" where
  "read_u16 data p =
     obind (rd8 data p) (\<lambda>b0.
     obind (rd8 data (p + 1)) (\<lambda>b1.
       Ok (ucast b0 OR push_bit 8 (ucast b1))))"

text \<open>\<open>for (byte = 0; byte < cnt; ++byte) value |= data[byte] << (byte * 8)\<close>\<close>

function read_le_loop :: "bytes \<Rightarrow> nat \<Rightarrow> nat \<Rightarrow> nat \<Rightarrow> 'a::len word \<Rightarrow> ('e, 'a word) outcome" where
  "read_le_loop data p cnt byte value =
     (if byte < cnt
      then obind (rd8 data (p + byte)) (\<lambda>b.
             read_le_loop data p cnt (byte + 1) (value OR push_bit (byte * 8) (ucast b)))
      else Ok value)"
  by pat_completeness auto
termination
  by (relation "measure (\<lambda>(data, p, cnt, byte, value). cnt - byte)") auto

declare read_le_loop.simps [simp del]

definition read_u32 :: "bytes \<Rightarrow> nat \<Rightarrow> ('e, u32) outcome" where
  "read_u32 data p = read_le_loop data p 4 0 0"

definition read_u64 :: "bytes \<Rightarrow> nat \<Rightarrow> ('e, u64) outcome" where
  "read_u64 data p = read_le_loop data p 8 0 0"

text \<open>\<open>read_i64\<close> copies the 64 bits into an \<open>int64_t\<close>.\<close>

definition read_i64 :: "bytes \<Rightarrow> nat \<Rightarrow> ('e, int) outcome" where
  "read_i64 data p = obind (read_u64 data p) (\<lambda>bits. Ok (sint bits))"

text \<open>A run of bytes, as \<open>memcmp\<close> and \<open>memchr\<close> read it.\<close>

primrec read_bytes :: "bytes \<Rightarrow> nat \<Rightarrow> nat \<Rightarrow> ('e, bytes) outcome" where
  "read_bytes data p 0 = Ok []"
| "read_bytes data p (Suc n) =
     obind (rd8 data p) (\<lambda>b. obind (read_bytes data (p + 1) n) (\<lambda>bs. Ok (b # bs)))"

section \<open>The value of a run of bytes\<close>

primrec le_word :: "bytes \<Rightarrow> 'a::len word" where
  "le_word [] = 0"
| "le_word (b # bs) = ucast b OR push_bit 8 (le_word bs)"

definition le_bytes :: "nat \<Rightarrow> 'a::len word \<Rightarrow> bytes" where
  "le_bytes n w = map (\<lambda>i. ucast (drop_bit (8 * i) w)) [0..<n]"

definition u16_at :: "bytes \<Rightarrow> nat \<Rightarrow> u16" where
  "u16_at data p = le_word (take 2 (drop p data))"

definition u32_at :: "bytes \<Rightarrow> nat \<Rightarrow> u32" where
  "u32_at data p = le_word (take 4 (drop p data))"

definition u64_at :: "bytes \<Rightarrow> nat \<Rightarrow> u64" where
  "u64_at data p = le_word (take 8 (drop p data))"

lemma rd8_Ok [simp]: "p < length data \<Longrightarrow> rd8 data p = Ok (data ! p)"
  by (simp add: rd8_def)

lemma rd8_Fault [simp]: "length data \<le> p \<Longrightarrow> rd8 data p = Fault"
  by (simp add: rd8_def)

lemma read_bytes_Ok [simp]:
  "p + n \<le> length data \<Longrightarrow> read_bytes data p n = Ok (take n (drop p data))"
proof (induction n arbitrary: p)
  case (Suc n)
  then have "take (Suc n) (drop p data) = data ! p # take n (drop (Suc p) data)"
    by (simp add: Cons_nth_drop_Suc [symmetric])
  with Suc show ?case by simp
qed simp

lemma read_le_loop_Ok:
  assumes "p + cnt \<le> length data" and "byte \<le> cnt"
  shows "(read_le_loop data p cnt byte (value :: 'a::len word) :: ('e, 'a word) outcome) =
    Ok (value OR push_bit (8 * byte) (le_word (take (cnt - byte) (drop (p + byte) data))))"
  using assms
proof (induction "cnt - byte" arbitrary: byte "value")
  case 0
  then show ?case by (subst read_le_loop.simps) simp
next
  case (Suc n)
  let ?rest = "take (cnt - Suc byte) (drop (p + Suc byte) data)"
  have lt: "byte < cnt" and inside: "p + byte < length data" using Suc by simp_all
  have run: "take (cnt - byte) (drop (p + byte) data) = data ! (p + byte) # ?rest"
    using lt inside by (simp add: Cons_nth_drop_Suc [symmetric] take_Cons')
  have "(read_le_loop data p cnt byte value :: ('e, 'a word) outcome) =
      read_le_loop data p cnt (Suc byte)
        (value OR push_bit (byte * 8) (ucast (data ! (p + byte))))"
    using lt inside by (subst read_le_loop.simps) simp
  also have "\<dots> = Ok ((value OR push_bit (byte * 8) (ucast (data ! (p + byte)))) OR
      push_bit (8 * Suc byte) (le_word ?rest))"
    by (rule Suc.hyps(1)) (use Suc.hyps(2) Suc.prems lt in auto)
  also have "(value OR push_bit (byte * 8) (ucast (data ! (p + byte)))) OR
      push_bit (8 * Suc byte) (le_word ?rest) =
      value OR push_bit (8 * byte) (ucast (data ! (p + byte)) OR push_bit 8 (le_word ?rest))"
    by (simp add: push_bit_or push_bit_push_bit ac_simps)
  finally show ?case by (simp add: run)
qed

lemma read_u16_Ok [simp]: "p + 2 \<le> length data \<Longrightarrow> read_u16 data p = Ok (u16_at data p)"
proof -
  assume "p + 2 \<le> length data"
  then have "take 2 (drop p data) = [data ! p, data ! (p + 1)]"
    by (simp add: Cons_nth_drop_Suc [symmetric] numeral_2_eq_2)
  with \<open>p + 2 \<le> length data\<close> show ?thesis
    by (simp add: read_u16_def u16_at_def)
qed

lemma read_u32_Ok [simp]: "p + 4 \<le> length data \<Longrightarrow> read_u32 data p = Ok (u32_at data p)"
  by (simp add: read_u32_def u32_at_def read_le_loop_Ok)

lemma read_u64_Ok [simp]: "p + 8 \<le> length data \<Longrightarrow> read_u64 data p = Ok (u64_at data p)"
  by (simp add: read_u64_def u64_at_def read_le_loop_Ok)

lemma read_i64_Ok [simp]: "p + 8 \<le> length data \<Longrightarrow> read_i64 data p = Ok (sint (u64_at data p))"
  by (simp add: read_i64_def)

section \<open>Bytes of a value and back\<close>

lemma length_le_bytes [simp]: "length (le_bytes n w) = n"
  by (simp add: le_bytes_def)

lemma le_bytes_Suc: "le_bytes (Suc n) w = ucast w # le_bytes n (drop_bit 8 w)"
  by (simp add: le_bytes_def upt_conv_Cons map_Suc_upt [symmetric] del: upt_Suc)
     (simp add: ac_simps)

lemma le_word_le_bytes:
  "8 * n = LENGTH('a) \<Longrightarrow> le_word (le_bytes n (w :: 'a::len word)) = w"
proof -
  have "le_word (le_bytes k v) = take_bit (8 * k) v" for k and v :: "'a::len word"
  proof (induction k arbitrary: v)
    case 0
    then show ?case by (simp add: le_bytes_def)
  next
    case (Suc k)
    have "le_word (le_bytes (Suc k) v) =
        ucast (ucast v :: u8) OR push_bit 8 (take_bit (8 * k) (drop_bit 8 v))"
      by (simp add: le_bytes_Suc Suc.IH)
    also have "\<dots> = take_bit (8 * Suc k) v"
      by (rule bit_word_eqI) (auto simp: bit_simps)
    finally show ?case .
  qed
  moreover assume "8 * n = LENGTH('a)"
  ultimately show ?thesis by simp
qed

end
