(* ===== verification/Algorithms.thy ===== *)
theory Algorithms
  imports Prelude
begin

text \<open>
  The algorithms of the C++ standard library that the loader and the runtime call, with the
  contract the callers rely on. \<open>std::sort\<close> takes a comparator that has to be a strict weak
  order; that requirement is the locale \<open>strict_weak_order\<close>, and every comparator of the
  sources is shown to be an instance in the theory of the component that owns it.
  \<open>std::lower_bound\<close> and \<open>std::upper_bound\<close> are the halving loop over a partitioned range.
\<close>

section \<open>Sorting\<close>

primrec std_insert :: "('a \<Rightarrow> 'a \<Rightarrow> bool) \<Rightarrow> 'a \<Rightarrow> 'a list \<Rightarrow> 'a list" where
  "std_insert lt x [] = [x]"
| "std_insert lt x (y # ys) = (if lt y x then y # std_insert lt x ys else x # y # ys)"

primrec std_sort :: "('a \<Rightarrow> 'a \<Rightarrow> bool) \<Rightarrow> 'a list \<Rightarrow> 'a list" where
  "std_sort lt [] = []"
| "std_sort lt (x # xs) = std_insert lt x (std_sort lt xs)"

lemma mset_std_insert [simp]: "mset (std_insert lt x ys) = add_mset x (mset ys)"
  by (induction ys) auto

lemma mset_std_sort [simp]: "mset (std_sort lt xs) = mset xs"
  by (induction xs) auto

lemma set_std_insert [simp]: "set (std_insert lt x ys) = insert x (set ys)"
  by (induction ys) auto

lemma set_std_sort [simp]: "set (std_sort lt xs) = set xs"
  by (induction xs) auto

lemma length_std_insert [simp]: "length (std_insert lt x ys) = Suc (length ys)"
  by (induction ys) auto

lemma length_std_sort [simp]: "length (std_sort lt xs) = length xs"
  by (induction xs) auto

lemma distinct_std_sort [simp]: "distinct (std_sort lt xs) \<longleftrightarrow> distinct xs"
  by (rule mset_eq_imp_distinct_iff) simp

lemma std_sort_Nil_iff [simp]: "std_sort lt xs = [] \<longleftrightarrow> xs = []"
  using length_std_sort [of lt xs] by (cases "std_sort lt xs"; cases xs) auto

text \<open>A symmetric relation between all pairs does not depend on the order of the list.\<close>

lemma sorted_wrt_std_insert:
  assumes "\<And>x y. P x y \<Longrightarrow> P y x"
  shows "sorted_wrt P (std_insert lt x ys) \<longleftrightarrow> (\<forall>y \<in> set ys. P x y) \<and> sorted_wrt P ys"
  by (induction ys) (use assms in auto)

lemma sorted_wrt_std_sort:
  assumes "\<And>x y. P x y \<Longrightarrow> P y x"
  shows "sorted_wrt P (std_sort lt xs) \<longleftrightarrow> sorted_wrt P xs"
  by (induction xs) (simp_all add: sorted_wrt_std_insert [OF assms])

lemma sorted_wrt_filter_irrelevant:
  assumes "\<And>x y. \<not> Q x \<or> \<not> Q y \<Longrightarrow> P x y"
  shows "sorted_wrt P (filter Q xs) \<longleftrightarrow> sorted_wrt P xs"
  by (induction xs) (use assms in auto)

text \<open>For non-empty ranges in the order of their starts, disjointness is a comparison of ends and starts.\<close>

lemma sorted_disjoint_iff:
  fixes lo n :: "'a \<Rightarrow> nat"
  assumes "sorted_wrt (\<lambda>x y. lo x \<le> lo y) xs" and "\<forall>x \<in> set xs. 0 < n x"
  shows "sorted_wrt (\<lambda>x y. lo x + n x \<le> lo y) xs \<longleftrightarrow>
    sorted_wrt (\<lambda>x y. {lo x ..< lo x + n x} \<inter> {lo y ..< lo y + n y} = {}) xs"
proof -
  define D where "D = (\<lambda>x y. {lo x ..< lo x + n x} \<inter> {lo y ..< lo y + n y} = {})"
  have D: "D x y \<longleftrightarrow> lo x + n x \<le> lo y" if "lo x \<le> lo y" "0 < n x" "0 < n y" for x y
    using that by (auto simp: D_def interval_disjoint)
  have "sorted_wrt (\<lambda>x y. lo x + n x \<le> lo y) xs \<longleftrightarrow> sorted_wrt D xs"
    using assms by (induction xs) (simp_all add: D)
  then show ?thesis by (simp only: D_def)
qed

locale strict_weak_order =
  fixes lt :: "'a \<Rightarrow> 'a \<Rightarrow> bool"
  assumes lt_irrefl: "\<not> lt x x"
    and lt_trans: "lt x y \<Longrightarrow> lt y z \<Longrightarrow> lt x z"
    and lt_weak: "\<not> lt x y \<Longrightarrow> \<not> lt y z \<Longrightarrow> \<not> lt x z"
begin

text \<open>A list is in order when no element is smaller than an earlier one.\<close>

lemma lt_asym: "lt x y \<Longrightarrow> \<not> lt y x"
  using lt_irrefl [of x] lt_trans [of x y x] by auto

lemma sorted_insert:
  "sorted_wrt (\<lambda>x y. \<not> lt y x) ys \<Longrightarrow> sorted_wrt (\<lambda>x y. \<not> lt y x) (std_insert lt a ys)"
proof (induction ys)
  case Nil
  then show ?case by simp
next
  case (Cons y ys)
  show ?case
  proof (cases "lt y a")
    case True
    then have "\<not> lt a y" by (rule lt_asym)
    with True Cons show ?thesis by simp
  next
    case False
    have "\<not> lt z a" if "z \<in> set ys" for z
      using lt_weak [of z y a] Cons.prems that False by simp
    with False Cons.prems show ?thesis by simp
  qed
qed

lemma sort_sorted: "sorted_wrt (\<lambda>x y. \<not> lt y x) (std_sort lt xs)"
  by (induction xs) (auto intro: sorted_insert)

text \<open>
  Whatever \<open>std::sort\<close> does with incomparable elements, the result is determined when
  incomparable elements of the range are equal.
\<close>

lemma sorted_unique:
  assumes "mset ys = mset zs"
    and "sorted_wrt (\<lambda>x y. \<not> lt y x) ys" and "sorted_wrt (\<lambda>x y. \<not> lt y x) zs"
    and "\<And>x y. x \<in> set ys \<Longrightarrow> y \<in> set ys \<Longrightarrow> \<not> lt x y \<Longrightarrow> \<not> lt y x \<Longrightarrow> x = y"
  shows "ys = zs"
  using assms
proof (induction ys arbitrary: zs)
  case Nil
  then show ?case by simp
next
  case (Cons y ys)
  from Cons.prems(1) obtain z zs' where zs: "zs = z # zs'"
    by (cases zs) auto
  have "set (y # ys) = set (z # zs')"
    using Cons.prems(1) zs mset_eq_setD by blast
  then have in_z: "z \<in> set (y # ys)" and in_y: "y \<in> set (z # zs')"
    by auto
  have "\<not> lt z y"
    using Cons.prems(2) in_z lt_irrefl by auto
  moreover have "\<not> lt y z"
    using Cons.prems(3) in_y zs lt_irrefl by auto
  ultimately have "y = z"
    by (intro Cons.prems(4)) (use in_z in simp_all)
  then have "mset ys = mset zs'"
    using Cons.prems(1) zs by simp
  then have "ys = zs'"
  proof (rule Cons.IH)
    show "sorted_wrt (\<lambda>x y. \<not> lt y x) ys" using Cons.prems(2) by simp
    show "sorted_wrt (\<lambda>x y. \<not> lt y x) zs'" using Cons.prems(3) zs by simp
    show "x = y" if "x \<in> set ys" "y \<in> set ys" "\<not> lt x y" "\<not> lt y x" for x y
      using Cons.prems(4) that by simp
  qed
  with \<open>y = z\<close> zs show ?case by simp
qed

lemma sort_unique:
  assumes "mset ys = mset xs" and "sorted_wrt (\<lambda>x y. \<not> lt y x) ys"
    and "\<And>x y. x \<in> set xs \<Longrightarrow> y \<in> set xs \<Longrightarrow> \<not> lt x y \<Longrightarrow> \<not> lt y x \<Longrightarrow> x = y"
  shows "ys = std_sort lt xs"
proof (rule sorted_unique)
  show "mset ys = mset (std_sort lt xs)" using assms(1) by simp
  show "sorted_wrt (\<lambda>x y. \<not> lt y x) ys" by (rule assms(2))
  show "sorted_wrt (\<lambda>x y. \<not> lt y x) (std_sort lt xs)" by (rule sort_sorted)
  fix x y assume "x \<in> set ys" "y \<in> set ys" "\<not> lt x y" "\<not> lt y x"
  moreover have "set ys = set xs" using assms(1) by (rule mset_eq_setD)
  ultimately show "x = y" using assms(3) by blast
qed

text \<open>Sorting pairwise disjoint ranges by their starts puts them one after the other.\<close>

lemma sort_disjoint:
  fixes lo n :: "'a \<Rightarrow> nat"
  assumes "\<And>x y. \<not> lt y x \<Longrightarrow> lo x \<le> lo y" and "\<forall>x \<in> set xs. 0 < n x"
    and "sorted_wrt (\<lambda>x y. {lo x ..< lo x + n x} \<inter> {lo y ..< lo y + n y} = {}) xs"
  shows "sorted_wrt (\<lambda>x y. lo x + n x \<le> lo y) (std_sort lt xs)"
proof (subst sorted_disjoint_iff)
  show "sorted_wrt (\<lambda>x y. lo x \<le> lo y) (std_sort lt xs)"
    by (rule sorted_wrt_mono_rel [OF _ sort_sorted]) (rule assms(1))
  show "\<forall>x \<in> set (std_sort lt xs). 0 < n x" using assms(2) by simp
  show "sorted_wrt (\<lambda>x y. {lo x ..< lo x + n x} \<inter> {lo y ..< lo y + n y} = {}) (std_sort lt xs)"
    using assms(3) by (subst sorted_wrt_std_sort) (auto simp: Int_commute)
qed

end

text \<open>Comparing by a linearly ordered key is a strict weak order.\<close>

lemma key_order: "strict_weak_order (\<lambda>x y. f x < (f y :: 'k::linorder))"
  by unfold_locales auto

lemma key_order2:
  "strict_weak_order (\<lambda>x y. if f x \<noteq> (f y :: 'k::linorder) then f x < f y
                            else g x < (g y :: 'l::linorder))"
  by unfold_locales (auto split: if_splits)

text \<open>The running minimum and maximum of a loop.\<close>

lemma fold_min_Min: "fold (\<lambda>s m. min m (f s)) xs (a :: 'k::linorder) = Min (insert a (f ` set xs))"
proof -
  have "fold (\<lambda>s m. min m (f s)) xs a = fold min (map f xs) a"
    by (induction xs arbitrary: a) (simp_all add: min.commute)
  also have "\<dots> = Min (set (a # map f xs))" by (simp only: Min.set_eq_fold)
  finally show ?thesis by simp
qed

lemma fold_max_Max: "fold (\<lambda>s m. max m (f s)) xs (a :: 'k::linorder) = Max (insert a (f ` set xs))"
proof -
  have "fold (\<lambda>s m. max m (f s)) xs a = fold max (map f xs) a"
    by (induction xs arbitrary: a) (simp_all add: max.commute)
  also have "\<dots> = Max (set (a # map f xs))" by (simp only: Max.set_eq_fold)
  finally show ?thesis by simp
qed

section \<open>Binary search\<close>

text \<open>
  \<open>partition_point p xs first len\<close> is the loop of \<open>std::lower_bound\<close> and
  \<open>std::upper_bound\<close>: halve the range \<open>[first, first + len)\<close> until it is empty.
\<close>

function partition_point :: "('a \<Rightarrow> bool) \<Rightarrow> 'a list \<Rightarrow> nat \<Rightarrow> nat \<Rightarrow> nat" where
  "partition_point p xs first len =
     (if len = 0 then first
      else let half = len div 2; middle = first + half
           in if p (xs ! middle) then partition_point p xs (middle + 1) (len - half - 1)
              else partition_point p xs first half)"
  by pat_completeness auto
termination
  by (relation "measure (\<lambda>(p, xs, first, len). len)") auto

declare partition_point.simps [simp del]

definition lower_bound :: "('a \<Rightarrow> 'v \<Rightarrow> bool) \<Rightarrow> 'a list \<Rightarrow> 'v \<Rightarrow> nat" where
  "lower_bound cmp xs v = partition_point (\<lambda>x. cmp x v) xs 0 (length xs)"

definition upper_bound :: "('v \<Rightarrow> 'a \<Rightarrow> bool) \<Rightarrow> 'a list \<Rightarrow> 'v \<Rightarrow> nat" where
  "upper_bound cmp xs v = partition_point (\<lambda>x. \<not> cmp v x) xs 0 (length xs)"

lemma partition_point_bounds:
  "first \<le> partition_point p xs first len \<and> partition_point p xs first len \<le> first + len"
proof (induction p xs first len rule: partition_point.induct)
  case (1 p xs first len)
  show ?case
  proof (cases "len = 0")
    case True
    then show ?thesis by (simp add: partition_point.simps)
  next
    case False
    show ?thesis
    proof (cases "p (xs ! (first + len div 2))")
      case True
      then show ?thesis
        using "1.IH"(1) [OF False refl refl] False
        by (simp add: partition_point.simps [of p xs first len] Let_def)
    next
      case pm: False
      then show ?thesis
        using "1.IH"(2) [OF False refl refl] False
        by (auto simp: partition_point.simps [of p xs first len] Let_def)
    qed
  qed
qed

lemma partition_point_correct:
  assumes "first + len \<le> length xs"
    and "\<And>i j. i \<le> j \<Longrightarrow> j < length xs \<Longrightarrow> p (xs ! j) \<Longrightarrow> p (xs ! i)"
    and "\<And>i. i < first \<Longrightarrow> p (xs ! i)"
    and "\<And>i. first + len \<le> i \<Longrightarrow> i < length xs \<Longrightarrow> \<not> p (xs ! i)"
  shows "(\<forall>i < partition_point p xs first len. p (xs ! i)) \<and>
         (\<forall>i. partition_point p xs first len \<le> i \<longrightarrow> i < length xs \<longrightarrow> \<not> p (xs ! i))"
  using assms
proof (induction p xs first len rule: partition_point.induct)
  case (1 p xs first len)
  show ?case
  proof (cases "len = 0")
    case True
    with "1.prems" show ?thesis by (simp add: partition_point.simps)
  next
    case False
    let ?half = "len div 2" and ?middle = "first + len div 2"
    have mid: "?middle < length xs" using False "1.prems"(1) by simp
    show ?thesis
    proof (cases "p (xs ! ?middle)")
      case True
      have unfold: "partition_point p xs first len =
          partition_point p xs (?middle + 1) (len - ?half - 1)"
        using False True by (simp add: partition_point.simps [of p xs first len] Let_def)
      have end_eq: "?middle + 1 + (len - ?half - 1) = first + len" using False by simp
      show ?thesis unfolding unfold
      proof (rule "1.IH"(1) [OF False refl refl True])
        show "?middle + 1 + (len - ?half - 1) \<le> length xs"
          using "1.prems"(1) end_eq by simp
        show "p (xs ! i)" if "i < ?middle + 1" for i
          using "1.prems"(2) [of i ?middle] mid True that by simp
        show "\<not> p (xs ! i)" if "?middle + 1 + (len - ?half - 1) \<le> i" "i < length xs" for i
          using "1.prems"(4) that end_eq by simp
      qed (rule "1.prems"(2))
    next
      case pm: False
      have unfold: "partition_point p xs first len = partition_point p xs first ?half"
        using False pm by (simp add: partition_point.simps [of p xs first len] Let_def)
      show ?thesis unfolding unfold
      proof (rule "1.IH"(2) [OF False refl refl pm])
        show "first + ?half \<le> length xs" using mid by simp
        show "\<not> p (xs ! i)" if "?middle \<le> i" "i < length xs" for i
          using "1.prems"(2) that pm by blast
      qed (use "1.prems"(2,3) in blast)+
    qed
  qed
qed

text \<open>On a range partitioned by \<open>p\<close> the halving loop finds what a linear scan finds.\<close>

lemma partition_point_scan:
  assumes "\<And>i j. i \<le> j \<Longrightarrow> j < length xs \<Longrightarrow> p (xs ! j) \<Longrightarrow> p (xs ! i)"
  shows "partition_point p xs 0 (length xs) = length (takeWhile p xs)"
proof -
  let ?k = "partition_point p xs 0 (length xs)"
  have k: "\<forall>i < ?k. p (xs ! i)" "\<forall>i. ?k \<le> i \<longrightarrow> i < length xs \<longrightarrow> \<not> p (xs ! i)"
    using partition_point_correct [of 0 "length xs" xs p] assms by auto
  have le: "?k \<le> length xs"
    using partition_point_bounds [of 0 p xs "length xs"] by simp
  show ?thesis
  proof (cases "?k < length xs")
    case True
    then have "takeWhile p xs = take ?k xs"
      using k by (intro takeWhile_eq_take_P_nth) auto
    with le show ?thesis by simp
  next
    case False
    with le have "?k = length xs" by simp
    moreover from this k(1) have "takeWhile p xs = xs"
      by (auto simp: takeWhile_eq_all_conv all_set_conv_all_nth)
    ultimately show ?thesis by presburger
  qed
qed

text \<open>Looking up a key in a range sorted by that key.\<close>

lemma lower_bound_key:
  assumes "sorted (map f xs)"
  shows "lower_bound (\<lambda>x v. f x < v) xs (v :: 'k::linorder) = length (takeWhile (\<lambda>x. f x < v) xs)"
  unfolding lower_bound_def
proof (rule partition_point_scan)
  fix i j
  assume "i \<le> j" "j < length xs" "f (xs ! j) < v"
  moreover from this have "f (xs ! i) \<le> f (xs ! j)"
    using sorted_nth_mono [OF assms, of i j] by simp
  ultimately show "f (xs ! i) < v" by simp
qed

lemma filter_key_sorted:
  assumes "sorted (map f xs)"
  shows "filter (\<lambda>x. f x = (v :: 'k::linorder)) xs =
    takeWhile (\<lambda>x. f x = v) (dropWhile (\<lambda>x. f x < v) xs)"
  using assms
proof (induction xs)
  case (Cons x xs)
  consider "f x < v" | "f x = v" | "v < f x" by fastforce
  then show ?case
  proof cases
    case 2
    with Cons.prems have "dropWhile (\<lambda>x. f x < v) xs = xs" by (cases xs) auto
    with 2 Cons show ?thesis by simp
  next
    case 3
    with Cons.prems have "filter (\<lambda>x. f x = v) xs = []" by (fastforce simp: filter_empty_conv)
    with 3 show ?thesis by auto
  qed (use Cons in auto)
qed simp

text \<open>
  \<open>lower_bound\<close> and a comparison of the element found and the next one decide how often a key
  occurs.
\<close>

lemma lower_bound_lookup:
  fixes v :: "'k::linorder"
  assumes "sorted (map f xs)" and k: "k = lower_bound (\<lambda>x v. f x < v) xs v"
  shows "k = length xs \<or> f (xs ! k) \<noteq> v \<longleftrightarrow> filter (\<lambda>x. f x = v) xs = []"
    and "k < length xs \<Longrightarrow> f (xs ! k) = v \<Longrightarrow>
      (k + 1 \<noteq> length xs \<and> f (xs ! (k + 1)) = v) \<longleftrightarrow> 2 \<le> length (filter (\<lambda>x. f x = v) xs)"
    and "k < length xs \<Longrightarrow> f (xs ! k) = v \<Longrightarrow> hd (filter (\<lambda>x. f x = v) xs) = xs ! k"
    and "k \<le> length xs"
proof -
  let ?d = "dropWhile (\<lambda>x. f x < v) xs"
  have k': "k = length (takeWhile (\<lambda>x. f x < v) xs)"
    using lower_bound_key [OF assms(1)] k by simp
  then have d: "?d = drop k xs" by (simp add: dropWhile_eq_drop)
  show le: "k \<le> length xs" using k' length_takeWhile_le [of _ xs] by simp
  note filt = filter_key_sorted [OF assms(1), of v, unfolded d]
  show "k = length xs \<or> f (xs ! k) \<noteq> v \<longleftrightarrow> filter (\<lambda>x. f x = v) xs = []"
    using le unfolding filt by (cases "k < length xs") (auto simp: Cons_nth_drop_Suc [symmetric])
  assume lt: "k < length xs" and fk: "f (xs ! k) = v"
  then have dk: "drop k xs = xs ! k # drop (Suc k) xs" by (simp add: Cons_nth_drop_Suc)
  show "(k + 1 \<noteq> length xs \<and> f (xs ! (k + 1)) = v) \<longleftrightarrow> 2 \<le> length (filter (\<lambda>x. f x = v) xs)"
    unfolding filt dk using lt fk
    by (cases "Suc k < length xs") (auto simp: Cons_nth_drop_Suc [symmetric])
  show "hd (filter (\<lambda>x. f x = v) xs) = xs ! k"
    unfolding filt dk using fk by simp
qed

lemma upper_bound_key:
  assumes "sorted (map f xs)"
  shows "upper_bound (\<lambda>v x. v < f x) xs (v :: 'k::linorder) = length (takeWhile (\<lambda>x. f x \<le> v) xs)"
proof -
  have "partition_point (\<lambda>x. \<not> v < f x) xs 0 (length xs) = length (takeWhile (\<lambda>x. \<not> v < f x) xs)"
  proof (rule partition_point_scan)
    fix i j
    assume "i \<le> j" "j < length xs" "\<not> v < f (xs ! j)"
    moreover from this have "f (xs ! i) \<le> f (xs ! j)"
      using sorted_nth_mono [OF assms, of i j] by simp
    ultimately show "\<not> v < f (xs ! i)" by simp
  qed
  then show ?thesis by (simp add: upper_bound_def not_less)
qed

text \<open>
  Among ranges that follow each other, the element before \<open>upper_bound\<close> is the only one that can
  contain a non-empty range starting at \<open>v\<close>.
\<close>

lemma upper_bound_containing:
  fixes lo len :: "'a \<Rightarrow> nat"
  assumes follows: "sorted_wrt (\<lambda>x y. lo x + len x \<le> lo y) xs" and n: "0 < n"
    and i: "i = upper_bound (\<lambda>v x. v < lo x) xs v"
  shows "(i \<noteq> 0 \<and> Q (xs ! (i - 1)) \<and> lo (xs ! (i - 1)) \<le> v \<and> v + n \<le> lo (xs ! (i - 1)) + len (xs ! (i - 1)))
    \<longleftrightarrow> (\<exists>x \<in> set xs. Q x \<and> lo x \<le> v \<and> v + n \<le> lo x + len x)"
    (is "?lookup \<longleftrightarrow> ?exists")
proof -
  have "sorted (map lo xs)"
    unfolding sorted_map by (rule sorted_wrt_mono_rel [OF _ follows]) simp
  then have i': "i = length (takeWhile (\<lambda>x. lo x \<le> v) xs)" by (simp add: i upper_bound_key)
  then have le: "i \<le> length xs" by (simp add: length_takeWhile_le)
  show ?thesis
  proof
    assume ?lookup
    with le show ?exists by (intro bexI [of _ "xs ! (i - 1)"]) auto
  next
    assume ?exists
    then obtain j where j: "j < length xs" "Q (xs ! j)" "lo (xs ! j) \<le> v"
      "v + n \<le> lo (xs ! j) + len (xs ! j)"
      by (auto simp: in_set_conv_nth)
    have "j < i"
    proof (rule ccontr)
      assume "\<not> j < i"
      then have "i < length xs" using j(1) by simp
      then have "\<not> lo (xs ! i) \<le> v" unfolding i' by (rule nth_length_takeWhile)
      moreover have "lo (xs ! i) \<le> lo (xs ! j)"
        using sorted_wrt_nth_less [OF follows, of i j] \<open>\<not> j < i\<close> j(1) by (cases "i = j") auto
      ultimately show False using j(3) by simp
    qed
    moreover have "\<not> j < i - 1"
    proof
      assume "j < i - 1"
      then have "lo (xs ! j) + len (xs ! j) \<le> lo (xs ! (i - 1))"
        using sorted_wrt_nth_less [OF follows, of j "i - 1"] le by simp
      moreover have "lo (xs ! (i - 1)) \<le> v"
      proof -
        have "xs ! (i - 1) = takeWhile (\<lambda>x. lo x \<le> v) xs ! (i - 1)"
          using \<open>j < i - 1\<close> i' by (simp add: takeWhile_nth)
        also have "\<dots> \<in> set (takeWhile (\<lambda>x. lo x \<le> v) xs)"
          using \<open>j < i - 1\<close> i' by (intro nth_mem) simp
        finally show ?thesis by (auto dest: set_takeWhileD)
      qed
      ultimately show False using j(4) n by simp
    qed
    ultimately have "j = i - 1" "i \<noteq> 0" by auto
    with j show ?lookup by auto
  qed
qed

section \<open>Search and removal\<close>

text \<open>\<open>std::find_if\<close>, and the removal of an element by moving the last one into its place.\<close>

primrec find_index :: "('a \<Rightarrow> bool) \<Rightarrow> 'a list \<Rightarrow> nat option" where
  "find_index P [] = None"
| "find_index P (x # xs) = (if P x then Some 0 else map_option Suc (find_index P xs))"

lemma find_index_None: "find_index P xs = None \<longleftrightarrow> (\<forall>x \<in> set xs. \<not> P x)"
  by (induction xs) auto

lemma find_index_Some:
  "find_index P xs = Some i \<Longrightarrow> i < length xs \<and> P (xs ! i) \<and> (\<forall>j < i. \<not> P (xs ! j))"
proof (induction xs arbitrary: i)
  case (Cons x xs)
  then show ?case
    by (auto split: if_splits simp: nth_Cons' less_Suc_eq_0_disj)
qed simp

definition swap_remove :: "nat \<Rightarrow> 'a list \<Rightarrow> 'a list" where
  "swap_remove i xs = butlast (xs[i := last xs])"

lemma length_swap_remove [simp]: "length (swap_remove i xs) = length xs - 1"
  by (simp add: swap_remove_def)

lemma mset_swap_remove:
  assumes "i < length xs"
  shows "add_mset (xs ! i) (mset (swap_remove i xs)) = mset xs"
proof -
  from assms obtain ys y where xs: "xs = ys @ [y]" by (cases xs rule: rev_cases) auto
  show ?thesis
  proof (cases "i < length ys")
    case True
    then show ?thesis
      by (simp add: swap_remove_def xs list_update_append nth_append mset_update)
  next
    case False
    then show ?thesis using assms by (simp add: swap_remove_def xs list_update_append nth_append)
  qed
qed

lemma set_swap_remove: "i < length xs \<Longrightarrow> set xs = insert (xs ! i) (set (swap_remove i xs))"
  using arg_cong [OF mset_swap_remove, of i xs set_mset] by simp

lemma distinct_swap_remove:
  "i < length xs \<Longrightarrow> distinct xs \<Longrightarrow> distinct (swap_remove i xs) \<and> xs ! i \<notin> set (swap_remove i xs)"
proof -
  assume i: "i < length xs" and "distinct xs"
  then have "distinct (xs ! i # swap_remove i xs)"
    using mset_eq_imp_distinct_iff [of "xs ! i # swap_remove i xs" xs] mset_swap_remove [OF i] by simp
  then show ?thesis by simp
qed

end
