(* ===== verification/ElfReader.thy ===== *)
theory ElfReader
  imports ByteReader Algorithms
begin

text \<open>
  \<open>light-rocr/loader/elf_reader.cpp\<close> up to the two decoders it calls: the ELF64 header checks,
  the PT_LOAD program headers with \<open>validate_load_segment\<close>, and the sort-and-scan overlap test
  \<open>find_overlapping_segment\<close> over file ranges and virtual ranges. The lemmas show that the scan
  of adjacent segments finds an overlap exactly when some pair of ranges intersects, and that
  the parsed segments satisfy \<open>wf_segments\<close>, the invariant the later stages rely on.
\<close>

section \<open>Segments\<close>

abbreviation "kElf64HeaderSize \<equiv> (64 :: u64)"
abbreviation "kElf64ProgramHeaderSize \<equiv> (56 :: u64)"
abbreviation "kKnownSegmentFlags \<equiv> (7 :: u32)"

definition range_is_in_file :: "u64 \<Rightarrow> u64 \<Rightarrow> u64 \<Rightarrow> bool" where
  "range_is_in_file offset len file_size = (offset \<le> file_size \<and> len \<le> file_size - offset)"

definition validate_load_segment :: "LoadSegment \<Rightarrow> u64 \<Rightarrow> u64 \<Rightarrow> unit parsed" where
  "validate_load_segment segment file_size program_header_offset =
     (if ls_flags segment AND NOT kKnownSegmentFlags \<noteq> 0
      then failure InvalidSegmentFlags (program_header_offset + 4)
      else if ls_file_size segment > ls_memory_size segment
      then failure SegmentFileSizeExceedsMemorySize (program_header_offset + 32)
      else if \<not> range_is_in_file (ls_file_offset segment) (ls_file_size segment) file_size
      then failure SegmentFileRangeOutOfBounds (program_header_offset + 8)
      else if checked_add (ls_virtual_address segment) (ls_memory_size segment) = None
      then failure SegmentVirtualRangeOverflow (program_header_offset + 16)
      else if ls_alignment segment > 1 \<and> \<not> is_power_of_two (ls_alignment segment)
      then failure InvalidSegmentAlignment (program_header_offset + 48)
      else if ls_alignment segment > 1 \<and>
              ls_file_offset segment mod ls_alignment segment \<noteq>
              ls_virtual_address segment mod ls_alignment segment
      then failure IncongruentSegmentAlignment (program_header_offset + 48)
      else Ok ())"

record ParsedLoadSegment =
  pls_segment :: LoadSegment
  pls_program_header_offset :: u64

text \<open>The comparator of the sort in \<open>find_overlapping_segment\<close>.\<close>

definition segment_before ::
  "(LoadSegment \<Rightarrow> u64) \<Rightarrow> ParsedLoadSegment \<Rightarrow> ParsedLoadSegment \<Rightarrow> bool" where
  "segment_before offset lhs rhs =
     (if offset (pls_segment lhs) \<noteq> offset (pls_segment rhs)
      then offset (pls_segment lhs) < offset (pls_segment rhs)
      else pls_program_header_offset lhs < pls_program_header_offset rhs)"

fun adjacent_overlap ::
  "(LoadSegment \<Rightarrow> u64) \<Rightarrow> (LoadSegment \<Rightarrow> u64) \<Rightarrow> ParsedLoadSegment list
    \<Rightarrow> ParsedLoadSegment option" where
  "adjacent_overlap offset range_size (previous # current # rest) =
     (if offset (pls_segment current) <
         offset (pls_segment previous) + range_size (pls_segment previous)
      then Some current
      else adjacent_overlap offset range_size (current # rest))"
| "adjacent_overlap offset range_size _ = None"

definition find_overlapping_segment ::
  "ParsedLoadSegment list \<Rightarrow> (LoadSegment \<Rightarrow> u64) \<Rightarrow> (LoadSegment \<Rightarrow> u64)
    \<Rightarrow> ParsedLoadSegment option" where
  "find_overlapping_segment segments offset range_size =
     adjacent_overlap offset range_size
       (std_sort (segment_before offset)
         (filter (\<lambda>s. range_size (pls_segment s) \<noteq> 0) segments))"

section \<open>Header and program headers\<close>

record ElfHeader =
  eh_abi_version :: u8
  eh_flags :: u32
  eh_target_machine :: u32
  eh_program_header_count :: u16
  eh_program_header_entry_size :: u16
  eh_program_header_offset :: u64

text \<open>The checks of \<open>parse_code_object\<close> on the ELF header, in the order of the code.\<close>

definition parse_elf_header :: "bytes \<Rightarrow> u64 \<Rightarrow> ElfHeader parsed" where
  "parse_elf_header data fsize =
     (if fsize < kElf64HeaderSize then failure TruncatedElfHeader fsize
      else
      obind (rd8 data 0) (\<lambda>m0. obind (rd8 data 1) (\<lambda>m1.
      obind (rd8 data 2) (\<lambda>m2. obind (rd8 data 3) (\<lambda>m3.
      if [m0, m1, m2, m3] \<noteq> [0x7f, 0x45, 0x4c, 0x46] then failure InvalidElfMagic 0
      else
      obind (rd8 data 4) (\<lambda>elf_class.
      if elf_class \<noteq> 2 then failure UnsupportedElfClass 4 else
      obind (rd8 data 5) (\<lambda>elf_data.
      if elf_data \<noteq> 1 then failure UnsupportedEndianness 5 else
      obind (rd8 data 6) (\<lambda>ident_version. obind (read_u32 data 20) (\<lambda>header_version.
      if ident_version \<noteq> 1 \<or> header_version \<noteq> 1 then failure UnsupportedElfVersion 6 else
      obind (rd8 data 7) (\<lambda>os_abi.
      if os_abi \<noteq> kAmdgpuHsaOsAbi then failure UnsupportedOsAbi 7 else
      obind (rd8 data 8) (\<lambda>abi_version.
      if abi_version < kMinimumSupportedAmdgpuHsaAbiVersion \<or>
         abi_version > kMaximumSupportedAmdgpuHsaAbiVersion
      then failure UnsupportedAbiVersion 8 else
      obind (read_u16 data 16) (\<lambda>object_type.
      if object_type \<noteq> 3 then failure UnsupportedObjectType 16 else
      obind (read_u16 data 18) (\<lambda>machine.
      if machine \<noteq> 224 then failure UnsupportedMachine 18 else
      obind (read_u16 data 52) (\<lambda>header_size.
      if header_size \<noteq> 64 then failure InvalidElfHeaderSize 52 else
      obind (read_u32 data 48) (\<lambda>elf_flags.
      let target_machine = elf_flags AND kAmdgpuTargetMachineMask in
      if target_machine \<noteq> kAmdgpuMachineGfx1101 then failure UnsupportedTarget 48 else
      obind (read_u16 data 56) (\<lambda>program_header_count.
      if program_header_count = 0 then failure MissingProgramHeaders 56 else
      if program_header_count = 0xffff
      then failure UnsupportedExtendedProgramHeaderCount 56 else
      obind (read_u16 data 54) (\<lambda>program_header_entry_size.
      if program_header_entry_size \<noteq> 56 then failure InvalidProgramHeaderEntrySize 54 else
      obind (read_u64 data 32) (\<lambda>program_header_offset.
      let program_header_table_size = ucast program_header_count * kElf64ProgramHeaderSize in
      if \<not> range_is_in_file program_header_offset program_header_table_size fsize
      then failure ProgramHeaderTableOutOfBounds 32 else
      Ok \<lparr>eh_abi_version = abi_version, eh_flags = elf_flags,
          eh_target_machine = target_machine,
          eh_program_header_count = program_header_count,
          eh_program_header_entry_size = program_header_entry_size,
          eh_program_header_offset = program_header_offset\<rparr>))))))))))))))))))"

text \<open>Offset of program header \<open>index\<close>: \<open>program_header_offset + index * entry_size\<close>.\<close>

definition header_entry_offset :: "u64 \<Rightarrow> u16 \<Rightarrow> nat \<Rightarrow> u64" where
  "header_entry_offset program_header_offset entry_size index =
     program_header_offset + of_nat index * ucast entry_size"

definition read_load_segment :: "bytes \<Rightarrow> nat \<Rightarrow> LoadSegment parsed" where
  "read_load_segment data entry =
     obind (read_u32 data (entry + 4)) (\<lambda>flags.
     obind (read_u64 data (entry + 8)) (\<lambda>file_offset.
     obind (read_u64 data (entry + 16)) (\<lambda>virtual_address.
     obind (read_u64 data (entry + 32)) (\<lambda>file_size.
     obind (read_u64 data (entry + 40)) (\<lambda>memory_size.
     obind (read_u64 data (entry + 48)) (\<lambda>alignment.
       Ok \<lparr>ls_file_offset = file_offset, ls_file_size = file_size,
           ls_virtual_address = virtual_address, ls_memory_size = memory_size,
           ls_alignment = alignment, ls_flags = flags\<rparr>))))))"

text \<open>
  \<open>parse_segments h data fsize index n\<close> is the program-header loop with \<open>n\<close> headers left,
  starting at \<open>index\<close>; headers of another type than PT_LOAD are skipped.
\<close>

primrec parse_segments ::
  "ElfHeader \<Rightarrow> bytes \<Rightarrow> u64 \<Rightarrow> nat \<Rightarrow> nat \<Rightarrow> ParsedLoadSegment list parsed" where
  "parse_segments h data fsize index 0 = Ok []"
| "parse_segments h data fsize index (Suc n) =
     (let entry_offset = header_entry_offset (eh_program_header_offset h)
                           (eh_program_header_entry_size h) index;
          entry = unat entry_offset
      in obind (read_u32 data entry) (\<lambda>header_type.
         if header_type \<noteq> 1 then parse_segments h data fsize (Suc index) n
         else
         obind (read_load_segment data entry) (\<lambda>segment.
         obind (validate_load_segment segment fsize entry_offset) (\<lambda>_.
         obind (parse_segments h data fsize (Suc index) n) (\<lambda>rest.
           Ok (\<lparr>pls_segment = segment, pls_program_header_offset = entry_offset\<rparr> # rest))))))"

definition check_segments :: "ElfHeader \<Rightarrow> ParsedLoadSegment list \<Rightarrow> unit parsed" where
  "check_segments h segments =
     (if segments = [] then failure MissingLoadSegments (eh_program_header_offset h)
      else case find_overlapping_segment segments ls_file_offset ls_file_size of
        Some s \<Rightarrow> failure OverlappingSegmentFileRanges (pls_program_header_offset s + 8)
      | None \<Rightarrow>
        (case find_overlapping_segment segments ls_virtual_address ls_memory_size of
           Some s \<Rightarrow> failure OverlappingSegmentVirtualRanges (pls_program_header_offset s + 16)
         | None \<Rightarrow> Ok ()))"

section \<open>Range checks and validation\<close>

lemma range_is_in_file_iff [word_nat]:
  "range_is_in_file off len n \<longleftrightarrow> unat off + unat len \<le> unat n"
  unfolding range_is_in_file_def by (rule range_test)

text \<open>What a validated PT_LOAD segment satisfies, for a file of \<open>n\<close> bytes.\<close>

definition wf_segment :: "nat \<Rightarrow> LoadSegment \<Rightarrow> bool" where
  "wf_segment n s \<longleftrightarrow>
     ls_flags s AND NOT kKnownSegmentFlags = 0 \<and>
     unat (ls_file_size s) \<le> unat (ls_memory_size s) \<and>
     unat (ls_file_offset s) + unat (ls_file_size s) \<le> n \<and>
     unat (ls_virtual_address s) + unat (ls_memory_size s) < 2 ^ 64 \<and>
     (ls_alignment s > 1 \<longrightarrow> is_power_of_two (ls_alignment s) \<and>
        ls_file_offset s mod ls_alignment s = ls_virtual_address s mod ls_alignment s)"

lemma validate_load_segment_Ok:
  "validate_load_segment s fsize off = Ok () \<longleftrightarrow> wf_segment (unat fsize) s"
  by (auto simp: validate_load_segment_def wf_segment_def word_nat checked_add_None
      word_less_nat_alt not_less not_le)

lemma validate_load_segment_valid:
  "valid (validate_load_segment s fsize off) (\<lambda>_. wf_segment (unat fsize) s)"
  using validate_load_segment_Ok [of s fsize off]
  by (cases "validate_load_segment s fsize off") (auto simp: validate_load_segment_def split: if_splits)

section \<open>The overlap test\<close>

definition seg_range :: "(LoadSegment \<Rightarrow> u64) \<Rightarrow> (LoadSegment \<Rightarrow> u64) \<Rightarrow> LoadSegment \<Rightarrow> nat set" where
  "seg_range off sz s = {unat (off s) ..< unat (off s) + unat (sz s)}"

interpretation segment_order: strict_weak_order "segment_before off" for off
proof -
  have "segment_before off = (\<lambda>x y. if off (pls_segment x) \<noteq> off (pls_segment y)
      then off (pls_segment x) < off (pls_segment y)
      else pls_program_header_offset x < pls_program_header_offset y)"
    by (intro ext) (simp add: segment_before_def)
  then show "strict_weak_order (segment_before off)"
    by (simp only: key_order2)
qed

text \<open>On segments in order, looking at neighbours is enough.\<close>

lemma adjacent_overlap_None:
  assumes "\<forall>s \<in> set xs. unat (off (pls_segment s)) + unat (sz (pls_segment s)) < 2 ^ 64"
  shows "adjacent_overlap off sz xs = None \<longleftrightarrow>
    sorted_wrt (\<lambda>s t. unat (off (pls_segment s)) + unat (sz (pls_segment s))
                      \<le> unat (off (pls_segment t))) xs"
  using assms
proof (induction off sz xs rule: adjacent_overlap.induct)
  case (1 off sz previous current rest)
  let ?lo = "\<lambda>s. unat (off (pls_segment s))" and ?n = "\<lambda>s. unat (sz (pls_segment s))"
  have step: "off (pls_segment current) < off (pls_segment previous) + sz (pls_segment previous)
      \<longleftrightarrow> ?lo current < ?lo previous + ?n previous"
    using "1.prems" by (simp add: word_less_nat_alt unat_add64)
  show ?case
  proof (cases "?lo previous + ?n previous \<le> ?lo current")
    case True
    have "?lo previous + ?n previous \<le> ?lo t"
      if "\<forall>t \<in> set rest. ?lo current + ?n current \<le> ?lo t" and "t \<in> set rest" for t
      using True that by fastforce
    with True step "1.IH" "1.prems" show ?thesis by auto
  next
    case False
    with step show ?thesis by simp
  qed
qed simp_all

lemma find_overlapping_segment_None:
  assumes "\<forall>s \<in> set xs. unat (off (pls_segment s)) + unat (sz (pls_segment s)) < 2 ^ 64"
  shows "find_overlapping_segment xs off sz = None \<longleftrightarrow>
    sorted_wrt (\<lambda>s t. seg_range off sz (pls_segment s) \<inter> seg_range off sz (pls_segment t) = {}) xs"
proof -
  let ?ne = "\<lambda>s. sz (pls_segment s) \<noteq> 0"
  let ?ys = "std_sort (segment_before off) (filter ?ne xs)"
  let ?lo = "\<lambda>s. unat (off (pls_segment s))" and ?n = "\<lambda>s. unat (sz (pls_segment s))"
  let ?D = "\<lambda>s t. seg_range off sz (pls_segment s) \<inter> seg_range off sz (pls_segment t) = {}"
  have ne: "0 < ?n s" if "s \<in> set ?ys" for s
    using that by (simp add: unat_gt_0)
  have sorted: "sorted_wrt (\<lambda>s t. ?lo s \<le> ?lo t) ?ys"
    by (rule sorted_wrt_mono_rel [OF _ segment_order.sort_sorted])
       (auto simp: segment_before_def word_le_nat_alt not_less split: if_splits)
  have "find_overlapping_segment xs off sz = None \<longleftrightarrow>
      sorted_wrt (\<lambda>s t. ?lo s + ?n s \<le> ?lo t) ?ys"
    unfolding find_overlapping_segment_def using assms by (intro adjacent_overlap_None) auto
  also have "\<dots> \<longleftrightarrow> sorted_wrt ?D ?ys"
    using sorted ne by (subst sorted_disjoint_iff) (auto simp: seg_range_def)
  also have "\<dots> \<longleftrightarrow> sorted_wrt ?D xs"
    by (subst sorted_wrt_std_sort, blast, rule sorted_wrt_filter_irrelevant)
       (auto simp: seg_range_def)
  finally show ?thesis .
qed

section \<open>The header and the program-header loop\<close>

text \<open>
  What the header checks establish about the buffer: the later readers fetch the
  program-header table's position from the header again and rely on it.
\<close>

definition elf_ok :: "bytes \<Rightarrow> bool" where
  "elf_ok data \<longleftrightarrow> 64 \<le> length data \<and> length data < 2 ^ 64 \<and>
     u16_at data 54 = 56 \<and> u16_at data 56 \<noteq> 0 \<and>
     unat (u64_at data 32) + 56 * unat (u16_at data 56) \<le> length data"

lemma unat_table_size: "unat (ucast (n :: u16) * 56 :: u64) = 56 * unat n"
  using unat_u16_less [of n] by (simp add: unat_word_ariths)

lemma parse_elf_header_valid:
  assumes "unat fsize = length data"
  shows "valid (parse_elf_header data fsize) (\<lambda>h. elf_ok data \<and>
    eh_program_header_count h = u16_at data 56 \<and> eh_program_header_entry_size h = u16_at data 54 \<and>
    eh_program_header_offset h = u64_at data 32 \<and> eh_target_machine h = kAmdgpuMachineGfx1101 \<and>
    eh_target_machine h = eh_flags h AND kAmdgpuTargetMachineMask \<and>
    eh_abi_version h = data ! 8 \<and>
    kMinimumSupportedAmdgpuHsaAbiVersion \<le> data ! 8 \<and> data ! 8 \<le> kMaximumSupportedAmdgpuHsaAbiVersion)"
proof (cases "fsize < kElf64HeaderSize")
  case True
  then show ?thesis by (simp add: parse_elf_header_def)
next
  case False
  then have len: "64 \<le> length data" using assms by (simp add: word_less_nat_alt)
  then have "data \<noteq> []" by auto
  moreover have "length data < 2 ^ 64" using assms unat_u64_less [of fsize] by simp
  ultimately show ?thesis using False len assms
    by (simp add: parse_elf_header_def Let_def elf_ok_def range_is_in_file_iff unat_table_size) auto
qed

lemma unat_header_entry_offset:
  assumes "unat off + 56 * n < 2 ^ 64" and "i \<le> n"
  shows "unat (header_entry_offset off 56 i) = unat off + 56 * i"
proof -
  have "56 * i < 2 ^ 64" using assms by simp
  then have "unat (of_nat i * ucast (56 :: u16) :: u64) = 56 * i"
    by (simp add: unat_word_ariths unat_of_nat mod_mult_left_eq)
  then show ?thesis
    using assms by (simp add: header_entry_offset_def unat_add64)
qed

text \<open>The segment a program header at \<open>entry\<close> describes, and the PT_LOAD headers of a table.\<close>

definition segment_at :: "bytes \<Rightarrow> nat \<Rightarrow> LoadSegment" where
  "segment_at data entry =
     \<lparr>ls_file_offset = u64_at data (entry + 8), ls_file_size = u64_at data (entry + 32),
      ls_virtual_address = u64_at data (entry + 16), ls_memory_size = u64_at data (entry + 40),
      ls_alignment = u64_at data (entry + 48), ls_flags = u32_at data (entry + 4)\<rparr>"

definition load_headers :: "bytes \<Rightarrow> nat \<Rightarrow> nat \<Rightarrow> nat \<Rightarrow> nat list" where
  "load_headers data table i n =
     filter (\<lambda>entry. u32_at data entry = 1) (map (\<lambda>k. table + 56 * k) [i ..< i + n])"

lemma load_headers_Suc:
  "load_headers data table i (Suc n) =
     (if u32_at data (table + 56 * i) = 1
      then (table + 56 * i) # load_headers data table (Suc i) n
      else load_headers data table (Suc i) n)"
  by (simp add: load_headers_def upt_conv_Cons del: upt_Suc)

lemma read_load_segment_Ok:
  assumes "entry + 56 \<le> length data"
  shows "read_load_segment data entry = Ok (segment_at data entry)"
  using assms by (simp add: read_load_segment_def segment_at_def)

lemma parse_segments_valid:
  assumes "unat fsize = length data"
    and "eh_program_header_entry_size h = 56"
    and "unat (eh_program_header_offset h) + 56 * (i + n) \<le> length data"
  shows "valid (parse_segments h data fsize i n)
    (\<lambda>segs. (\<forall>s \<in> set segs. wf_segment (length data) (pls_segment s)) \<and>
       map pls_segment segs =
         map (segment_at data) (load_headers data (unat (eh_program_header_offset h)) i n))"
  using assms(3)
proof (induction n arbitrary: i)
  case 0
  then show ?case by (simp add: load_headers_def)
next
  case (Suc n)
  have bound: "unat (eh_program_header_offset h) + 56 * Suc i < 2 ^ 64"
    using Suc.prems assms(1) unat_u64_less [of fsize] by simp
  have entry: "unat (header_entry_offset (eh_program_header_offset h) 56 i) =
      unat (eh_program_header_offset h) + 56 * i"
    using bound by (intro unat_header_entry_offset [where n = "Suc i"]) auto
  have inside: "unat (header_entry_offset (eh_program_header_offset h) 56 i) + 56 \<le> length data"
    using Suc.prems entry by simp
  let ?post = "\<lambda>i n segs. (\<forall>s \<in> set segs. wf_segment (length data) (pls_segment s)) \<and>
    map pls_segment segs =
      map (segment_at data) (load_headers data (unat (eh_program_header_offset h)) i n)"
  have rest: "valid (parse_segments h data fsize (Suc i) n) (?post (Suc i) n)"
    using Suc.prems by (intro Suc.IH) simp
  show ?case
    using inside rest
    by (auto simp: Let_def assms(2) read_load_segment_Ok load_headers_Suc entry
        intro!: valid_mono [OF validate_load_segment_valid] valid_mono [OF rest]
        simp flip: assms(1))
qed

text \<open>The segments of an accepted code object.\<close>

definition wf_segments :: "nat \<Rightarrow> LoadSegment list \<Rightarrow> bool" where
  "wf_segments n segs \<longleftrightarrow> segs \<noteq> [] \<and> (\<forall>s \<in> set segs. wf_segment n s) \<and>
     sorted_wrt (\<lambda>s t. seg_range ls_file_offset ls_file_size s \<inter>
                        seg_range ls_file_offset ls_file_size t = {}) segs \<and>
     sorted_wrt (\<lambda>s t. seg_range ls_virtual_address ls_memory_size s \<inter>
                        seg_range ls_virtual_address ls_memory_size t = {}) segs"

lemma check_segments_Ok:
  assumes "\<forall>s \<in> set segs. wf_segment n (pls_segment s)" and "n < 2 ^ 64"
  shows "check_segments h segs = Ok () \<longleftrightarrow> wf_segments n (map pls_segment segs)"
proof -
  have "unat (ls_file_offset (pls_segment s)) + unat (ls_file_size (pls_segment s)) < 2 ^ 64"
    "unat (ls_virtual_address (pls_segment s)) + unat (ls_memory_size (pls_segment s)) < 2 ^ 64"
    if "s \<in> set segs" for s
    using assms that by (auto simp: wf_segment_def)
  then show ?thesis
    using assms(1)
    by (auto simp: check_segments_def wf_segments_def sorted_wrt_map
        find_overlapping_segment_None [symmetric] split: option.splits)
qed

lemma check_segments_not_Fault: "check_segments h segs \<noteq> Fault"
  by (simp add: check_segments_def split: option.splits)

end
