(* ===== verification/MessagePack.thy ===== *)
theory MessagePack
  imports ByteReader
begin

text \<open>
  The MessagePack reader of \<open>light-rocr/loader/metadata_reader.cpp\<close> (\<open>MessagePackValue\<close> and
  \<open>MessagePackReader\<close>). A \<open>MetadataBytes\<close> is a window into the code object: a pointer, a size
  and the file offset the pointer has. The reader's cursor is passed explicitly; every byte is
  fetched with \<^const>\<open>rd8\<close> from the whole code object, so a read outside it would be a
  \<^const>\<open>Fault\<close>. The recursion stops at the nesting limit of 64, which is what the termination
  argument uses; the loops over array elements and map entries count down.

  The lemmas show that the reader stays inside a window that lies inside the code object,
  and that every value it accepts consumes at least one byte, has no repeated key in a map and
  nests within the limit.
\<close>

section \<open>Values and the window\<close>

datatype MessagePackValue =
    MPNil u64
  | MPBoolean u64 bool
  | MPUnsigned u64 u64
  | MPSigned u64 int
  | MPString u64 string
  | MPArray u64 "MessagePackValue list"
  | MPMap u64 "(string \<times> MessagePackValue) list"

primrec mp_offset :: "MessagePackValue \<Rightarrow> u64" where
  "mp_offset (MPNil off) = off"
| "mp_offset (MPBoolean off b) = off"
| "mp_offset (MPUnsigned off u) = off"
| "mp_offset (MPSigned off i) = off"
| "mp_offset (MPString off s) = off"
| "mp_offset (MPArray off vs) = off"
| "mp_offset (MPMap off kvs) = off"

record MetadataBytes =
  mb_data :: nat
  mb_size :: u64
  mb_file_offset :: u64

abbreviation "kMaximumMetadataDepth \<equiv> (64 :: nat)"

definition mp_fail :: "MetadataBytes \<Rightarrow> ParseErrorCode \<Rightarrow> u64 \<Rightarrow> 'a parsed" where
  "mp_fail mb code relative_offset = failure code (mb_file_offset mb + relative_offset)"

text \<open>\<open>take\<close>: the start pointer and the advanced cursor, or \<open>None\<close> for its \<open>false\<close>.\<close>

definition mp_take :: "MetadataBytes \<Rightarrow> u64 \<Rightarrow> u64 \<Rightarrow> (nat \<times> u64) option" where
  "mp_take mb cursor n =
     (if n > mb_size mb - cursor then None
      else Some (mb_data mb + unat cursor, cursor + n))"

primrec be_loop :: "bytes \<Rightarrow> nat \<Rightarrow> nat \<Rightarrow> u64 \<Rightarrow> u64 parsed" where
  "be_loop data p 0 result = Ok result"
| "be_loop data p (Suc n) result =
     obind (rd8 data p) (\<lambda>b. be_loop data (p + 1) n (push_bit 8 result OR ucast b))"

definition read_big_endian ::
  "bytes \<Rightarrow> MetadataBytes \<Rightarrow> u64 \<Rightarrow> nat \<Rightarrow> (u64 \<times> u64) option parsed" where
  "read_big_endian data mb cursor width =
     (case mp_take mb cursor (of_nat width) of
        None \<Rightarrow> Ok None
      | Some (start, cursor') \<Rightarrow>
          obind (be_loop data start width 0) (\<lambda>v. Ok (Some (v, cursor'))))"

definition read_length ::
  "bytes \<Rightarrow> MetadataBytes \<Rightarrow> u64 \<Rightarrow> nat \<Rightarrow> u64 \<Rightarrow> (u64 \<times> u64) parsed" where
  "read_length data mb cursor width marker_offset =
     obind (read_big_endian data mb cursor width) (\<lambda>r.
       case r of
         None \<Rightarrow> mp_fail mb InvalidMetadata marker_offset
       | Some (v, cursor') \<Rightarrow>
           (if v > - 1 then mp_fail mb InvalidMetadata marker_offset else Ok (v, cursor')))"

primrec read_chars :: "bytes \<Rightarrow> nat \<Rightarrow> nat \<Rightarrow> string parsed" where
  "read_chars data p 0 = Ok []"
| "read_chars data p (Suc n) =
     obind (rd8 data p) (\<lambda>b. obind (read_chars data (p + 1) n) (\<lambda>cs. Ok (char_of_byte b # cs)))"

definition parse_string ::
  "bytes \<Rightarrow> MetadataBytes \<Rightarrow> u64 \<Rightarrow> u64 \<Rightarrow> u64 \<Rightarrow> (MessagePackValue \<times> u64) parsed" where
  "parse_string data mb cursor len marker_offset =
     (case mp_take mb cursor len of
        None \<Rightarrow> mp_fail mb InvalidMetadata marker_offset
      | Some (start, cursor') \<Rightarrow>
          obind (read_chars data start (unat len)) (\<lambda>s.
            Ok (MPString (mb_file_offset mb + marker_offset) s, cursor')))"

text \<open>The integer cases \<open>0xcc .. 0xcf\<close> and \<open>0xd0 .. 0xd3\<close>.\<close>

definition parse_unsigned ::
  "bytes \<Rightarrow> MetadataBytes \<Rightarrow> u64 \<Rightarrow> nat \<Rightarrow> u64 \<Rightarrow> (MessagePackValue \<times> u64) parsed" where
  "parse_unsigned data mb cursor width marker_offset =
     obind (read_big_endian data mb cursor width) (\<lambda>r.
       case r of
         None \<Rightarrow> mp_fail mb InvalidMetadata marker_offset
       | Some (v, cursor') \<Rightarrow> Ok (MPUnsigned (mb_file_offset mb + marker_offset) v, cursor'))"

definition sign_extend :: "nat \<Rightarrow> u64 \<Rightarrow> u64" where
  "sign_extend width bits =
     (if width < 8 \<and> bits AND push_bit (width * 8 - 1) 1 \<noteq> 0
      then bits OR push_bit (width * 8) (- 1)
      else bits)"

definition parse_signed ::
  "bytes \<Rightarrow> MetadataBytes \<Rightarrow> u64 \<Rightarrow> nat \<Rightarrow> u64 \<Rightarrow> (MessagePackValue \<times> u64) parsed" where
  "parse_signed data mb cursor width marker_offset =
     obind (read_big_endian data mb cursor width) (\<lambda>r.
       case r of
         None \<Rightarrow> mp_fail mb InvalidMetadata marker_offset
       | Some (v, cursor') \<Rightarrow>
           Ok (MPSigned (mb_file_offset mb + marker_offset) (sint (sign_extend width v)), cursor'))"

section \<open>The recursive reader\<close>

text \<open>
  \<open>parse_value\<close>, \<open>parse_array\<close> and \<open>parse_map\<close>; \<open>parse_elements\<close> and \<open>parse_entries\<close> are the
  loops of the last two with the number of rounds left. \<open>keys\<close> is the \<open>std::set\<close> of seen keys.
\<close>

function (sequential)
  parse_value :: "bytes \<Rightarrow> MetadataBytes \<Rightarrow> nat \<Rightarrow> u64 \<Rightarrow> (MessagePackValue \<times> u64) parsed" and
  parse_array :: "bytes \<Rightarrow> MetadataBytes \<Rightarrow> nat \<Rightarrow> u64 \<Rightarrow> u64 \<Rightarrow> u64 \<Rightarrow> (MessagePackValue \<times> u64) parsed" and
  parse_map :: "bytes \<Rightarrow> MetadataBytes \<Rightarrow> nat \<Rightarrow> u64 \<Rightarrow> u64 \<Rightarrow> u64 \<Rightarrow> (MessagePackValue \<times> u64) parsed" and
  parse_elements :: "bytes \<Rightarrow> MetadataBytes \<Rightarrow> nat \<Rightarrow> u64 \<Rightarrow> nat \<Rightarrow> (MessagePackValue list \<times> u64) parsed" and
  parse_entries :: "bytes \<Rightarrow> MetadataBytes \<Rightarrow> nat \<Rightarrow> u64 \<Rightarrow> nat \<Rightarrow> string list \<Rightarrow>
    ((string \<times> MessagePackValue) list \<times> u64) parsed"
where
  "parse_value data mb depth cursor =
     (if depth > kMaximumMetadataDepth then mp_fail mb InvalidMetadata cursor
      else
      let marker_offset = cursor in
      case mp_take mb cursor 1 of
        None \<Rightarrow> mp_fail mb InvalidMetadata marker_offset
      | Some (start, cursor') \<Rightarrow>
        obind (rd8 data start) (\<lambda>marker.
        let off = mb_file_offset mb + marker_offset in
        if marker \<le> 0x7f then Ok (MPUnsigned off (ucast marker), cursor')
        else if marker \<ge> 0xe0 then Ok (MPSigned off (sint marker), cursor')
        else if marker AND 0xe0 = 0xa0
        then parse_string data mb cursor' (ucast (marker AND 0x1f)) marker_offset
        else if marker AND 0xf0 = 0x90
        then parse_array data mb depth cursor' (ucast (marker AND 0x0f)) marker_offset
        else if marker AND 0xf0 = 0x80
        then parse_map data mb depth cursor' (ucast (marker AND 0x0f)) marker_offset
        else if marker = 0xc0 then Ok (MPNil off, cursor')
        else if marker = 0xc2 \<or> marker = 0xc3 then Ok (MPBoolean off (marker = 0xc3), cursor')
        else if marker \<in> {0xcc, 0xcd, 0xce, 0xcf}
        then parse_unsigned data mb cursor' (2 ^ unat (marker - 0xcc)) marker_offset
        else if marker \<in> {0xd0, 0xd1, 0xd2, 0xd3}
        then parse_signed data mb cursor' (2 ^ unat (marker - 0xd0)) marker_offset
        else if marker \<in> {0xd9, 0xda, 0xdb}
        then obind (read_length data mb cursor' (2 ^ unat (marker - 0xd9)) marker_offset)
               (\<lambda>(len, cursor''). parse_string data mb cursor'' len marker_offset)
        else if marker \<in> {0xdc, 0xdd}
        then obind (read_length data mb cursor' (if marker = 0xdc then 2 else 4) marker_offset)
               (\<lambda>(len, cursor''). parse_array data mb depth cursor'' len marker_offset)
        else if marker \<in> {0xde, 0xdf}
        then obind (read_length data mb cursor' (if marker = 0xde then 2 else 4) marker_offset)
               (\<lambda>(len, cursor''). parse_map data mb depth cursor'' len marker_offset)
        else mp_fail mb UnsupportedMetadataEncoding marker_offset))"
| "parse_array data mb depth cursor n marker_offset =
     (if n > mb_size mb - cursor then mp_fail mb InvalidMetadata marker_offset
      else obind (parse_elements data mb depth cursor (unat n)) (\<lambda>(vs, cursor').
             Ok (MPArray (mb_file_offset mb + marker_offset) vs, cursor')))"
| "parse_map data mb depth cursor n marker_offset =
     (if n > (mb_size mb - cursor) div 2 then mp_fail mb InvalidMetadata marker_offset
      else obind (parse_entries data mb depth cursor (unat n) []) (\<lambda>(kvs, cursor').
             Ok (MPMap (mb_file_offset mb + marker_offset) kvs, cursor')))"
| "parse_elements data mb depth cursor 0 = Ok ([], cursor)"
| "parse_elements data mb depth cursor (Suc n) =
     obind (parse_value data mb (depth + 1) cursor) (\<lambda>(v, cursor').
     obind (parse_elements data mb depth cursor' n) (\<lambda>(vs, cursor'').
       Ok (v # vs, cursor'')))"
| "parse_entries data mb depth cursor 0 keys = Ok ([], cursor)"
| "parse_entries data mb depth cursor (Suc n) keys =
     obind (parse_value data mb (depth + 1) cursor) (\<lambda>(key, cursor').
       case key of
         MPString off s \<Rightarrow>
           (if s \<in> set keys then mp_fail mb InvalidMetadata (off - mb_file_offset mb)
            else
            obind (parse_value data mb (depth + 1) cursor') (\<lambda>(mapped, cursor'').
            obind (parse_entries data mb depth cursor'' n (s # keys)) (\<lambda>(kvs, cursor''').
              Ok ((s, mapped) # kvs, cursor'''))))
       | _ \<Rightarrow> mp_fail mb InvalidMetadata (mp_offset key - mb_file_offset mb))"
  by pat_completeness auto
termination
  by (relation "measures
    [\<lambda>x. case x of
       Inl (Inl (_, _, d, _)) \<Rightarrow> 65 - d
     | Inl (Inr (_, _, d, _, _, _)) \<Rightarrow> 65 - d
     | Inr (Inl (_, _, d, _, _, _)) \<Rightarrow> 65 - d
     | Inr (Inr (Inl (_, _, d, _, _))) \<Rightarrow> 65 - d
     | Inr (Inr (Inr (_, _, d, _, _, _))) \<Rightarrow> 65 - d,
     \<lambda>x. case x of
       Inl (Inl (_, _, d, _)) \<Rightarrow> if d > 64 then 0 else 3
     | Inl (Inr (_, _, d, _, _, _)) \<Rightarrow> 2
     | Inr (Inl (_, _, d, _, _, _)) \<Rightarrow> 2
     | Inr (Inr (Inl (_, _, d, _, _))) \<Rightarrow> 1
     | Inr (Inr (Inr (_, _, d, _, _, _))) \<Rightarrow> 1,
     \<lambda>x. case x of
       Inr (Inr (Inl (_, _, d, _, n))) \<Rightarrow> n
     | Inr (Inr (Inr (_, _, d, _, n, _))) \<Rightarrow> n
     | _ \<Rightarrow> 0]") auto

declare parse_value.simps [simp del] parse_array.simps [simp del] parse_map.simps [simp del]

definition parse_document :: "bytes \<Rightarrow> MetadataBytes \<Rightarrow> MessagePackValue parsed" where
  "parse_document data mb =
     obind (parse_value data mb 0 0) (\<lambda>(v, cursor).
       if cursor \<noteq> mb_size mb then mp_fail mb InvalidMetadata cursor else Ok v)"

section \<open>Staying inside the window\<close>

definition window_ok :: "bytes \<Rightarrow> MetadataBytes \<Rightarrow> bool" where
  "window_ok data mb \<longleftrightarrow> mb_data mb + unat (mb_size mb) \<le> length data"

lemma valid_mp_fail [simp]: "valid (mp_fail mb c off) P"
  by (simp add: mp_fail_def)

lemma mp_fail_not_Ok [simp]: "mp_fail mb c off \<noteq> Ok x" "mp_fail mb c off \<noteq> Fault"
  by (simp_all add: mp_fail_def)

lemma mp_take_Some:
  assumes "unat cursor \<le> unat (mb_size mb)"
  shows "mp_take mb cursor n = Some r \<longleftrightarrow>
    unat cursor + unat n \<le> unat (mb_size mb) \<and> r = (mb_data mb + unat cursor, cursor + n)"
  using assms unat_sub [of cursor "mb_size mb"]
  by (auto simp: mp_take_def word_le_nat_alt word_less_nat_alt)

lemma mp_take_cursor:
  assumes "unat cursor + unat n \<le> unat (mb_size mb)"
  shows "unat (cursor + n :: u64) = unat cursor + unat n"
  using assms unat_u64_less [of "mb_size mb"] by (simp add: unat_add64)

definition be_word :: "bytes \<Rightarrow> u64" where
  "be_word bs = fold (\<lambda>b r. push_bit 8 r OR ucast b) bs 0"

lemma be_loop_Ok:
  "p + n \<le> length data \<Longrightarrow>
   be_loop data p n r = Ok (fold (\<lambda>b r. push_bit 8 r OR ucast b) (take n (drop p data)) r)"
proof (induction n arbitrary: p r)
  case (Suc n)
  then have "take (Suc n) (drop p data) = data ! p # take n (drop (Suc p) data)"
    by (simp add: Cons_nth_drop_Suc [symmetric])
  with Suc show ?case by simp
qed simp

lemma read_chars_Ok:
  "p + n \<le> length data \<Longrightarrow> read_chars data p n = Ok (map char_of_byte (take n (drop p data)))"
proof (induction n arbitrary: p)
  case (Suc n)
  then have "take (Suc n) (drop p data) = data ! p # take n (drop (Suc p) data)"
    by (simp add: Cons_nth_drop_Suc [symmetric])
  with Suc show ?case by simp
qed simp

lemma read_big_endian_valid:
  assumes "window_ok data mb" and "unat cursor \<le> unat (mb_size mb)" and "w < 2 ^ 64"
  shows "valid (read_big_endian data mb cursor w) (\<lambda>r. \<forall>v c'. r = Some (v, c') \<longrightarrow>
    unat c' = unat cursor + w \<and> unat c' \<le> unat (mb_size mb) \<and>
    v = be_word (take w (drop (mb_data mb + unat cursor) data)))"
proof (cases "mp_take mb cursor (of_nat w)")
  case None
  then show ?thesis by (simp add: read_big_endian_def)
next
  case (Some r)
  have w: "unat (of_nat w :: u64) = w" using assms(3) by (simp add: unat_of_nat)
  from Some w have fits: "unat cursor + w \<le> unat (mb_size mb)"
    and r: "r = (mb_data mb + unat cursor, cursor + of_nat w)"
    by (simp_all add: mp_take_Some [OF assms(2)])
  have "unat (cursor + of_nat w) = unat cursor + w"
    using mp_take_cursor [of cursor "of_nat w" mb] fits w by simp
  moreover have "mb_data mb + unat cursor + w \<le> length data"
    using assms(1) fits by (simp add: window_ok_def)
  ultimately show ?thesis
    using Some r fits by (simp add: read_big_endian_def be_loop_Ok be_word_def)
qed

lemma read_length_valid:
  assumes "window_ok data mb" and "unat cursor \<le> unat (mb_size mb)" and "w < 2 ^ 64"
  shows "valid (read_length data mb cursor w m) (\<lambda>(v, c').
    unat cursor \<le> unat c' \<and> unat c' \<le> unat (mb_size mb))"
  unfolding read_length_def
  by (rule valid_obindI [OF read_big_endian_valid [OF assms]]) (auto split: option.splits)

lemma parse_string_valid:
  assumes "window_ok data mb" and "unat cursor \<le> unat (mb_size mb)"
  shows "valid (parse_string data mb cursor len m) (\<lambda>(v, c').
    unat cursor \<le> unat c' \<and> unat c' \<le> unat (mb_size mb) \<and>
    (\<exists>s. v = MPString (mb_file_offset mb + m) s))"
proof (cases "mp_take mb cursor len")
  case None
  then show ?thesis by (simp add: parse_string_def)
next
  case (Some r)
  then have fits: "unat cursor + unat len \<le> unat (mb_size mb)"
    and r: "r = (mb_data mb + unat cursor, cursor + len)"
    by (simp_all add: mp_take_Some [OF assms(2)])
  moreover have "mb_data mb + unat cursor + unat len \<le> length data"
    using assms(1) fits by (simp add: window_ok_def)
  ultimately show ?thesis
    using Some mp_take_cursor [OF fits] by (simp add: parse_string_def read_chars_Ok)
qed

lemma parse_unsigned_valid:
  assumes "window_ok data mb" and "unat cursor \<le> unat (mb_size mb)" and "w < 2 ^ 64"
  shows "valid (parse_unsigned data mb cursor w m) (\<lambda>(v, c').
    unat cursor \<le> unat c' \<and> unat c' \<le> unat (mb_size mb) \<and>
    (\<exists>u. v = MPUnsigned (mb_file_offset mb + m) u))"
  unfolding parse_unsigned_def
  by (rule valid_obindI [OF read_big_endian_valid [OF assms]]) (auto split: option.splits)

lemma parse_signed_valid:
  assumes "window_ok data mb" and "unat cursor \<le> unat (mb_size mb)" and "w < 2 ^ 64"
  shows "valid (parse_signed data mb cursor w m) (\<lambda>(v, c').
    unat cursor \<le> unat c' \<and> unat c' \<le> unat (mb_size mb) \<and>
    (\<exists>i. v = MPSigned (mb_file_offset mb + m) i))"
  unfolding parse_signed_def
  by (rule valid_obindI [OF read_big_endian_valid [OF assms]]) (auto split: option.splits)

text \<open>
  What an accepted value satisfies: the keys of every map are pairwise distinct, and the
  containers nest no deeper than the limit allows.
\<close>

fun mp_distinct :: "MessagePackValue \<Rightarrow> bool" where
  "mp_distinct (MPArray off vs) = (\<forall>v \<in> set vs. mp_distinct v)"
| "mp_distinct (MPMap off kvs) =
     (distinct (map fst kvs) \<and> (\<forall>kv \<in> set kvs. mp_distinct (snd kv)))"
| "mp_distinct _ = True"

fun within_depth :: "nat \<Rightarrow> MessagePackValue \<Rightarrow> bool" where
  "within_depth d (MPArray off vs) = (d \<le> kMaximumMetadataDepth \<and> (\<forall>v \<in> set vs. within_depth (Suc d) v))"
| "within_depth d (MPMap off kvs) =
     (d \<le> kMaximumMetadataDepth \<and> (\<forall>kv \<in> set kvs. within_depth (Suc d) (snd kv)))"
| "within_depth d _ = (d \<le> kMaximumMetadataDepth)"

definition value_post :: "MetadataBytes \<Rightarrow> nat \<Rightarrow> u64 \<Rightarrow> u64 \<Rightarrow> MessagePackValue \<times> u64 \<Rightarrow> bool" where
  "value_post mb d m cursor = (\<lambda>(v, c'). unat cursor \<le> unat c' \<and> unat c' \<le> unat (mb_size mb) \<and>
     mp_distinct v \<and> within_depth d v \<and> mp_offset v = mb_file_offset mb + m)"

definition value_valid :: "bytes \<Rightarrow> MetadataBytes \<Rightarrow> nat \<Rightarrow> bool" where
  "value_valid data mb d \<longleftrightarrow> (\<forall>cursor. unat cursor \<le> unat (mb_size mb) \<longrightarrow>
     valid (parse_value data mb d cursor) (\<lambda>(v, c').
       unat cursor < unat c' \<and> value_post mb d cursor cursor (v, c')))"

lemma value_validD:
  "value_valid data mb d \<Longrightarrow> unat cursor \<le> unat (mb_size mb) \<Longrightarrow>
   valid (parse_value data mb d cursor) (\<lambda>(v, c').
     unat cursor < unat c' \<and> unat c' \<le> unat (mb_size mb) \<and>
     mp_distinct v \<and> within_depth d v \<and> mp_offset v = mb_file_offset mb + cursor)"
  by (auto simp: value_valid_def value_post_def intro: valid_weaken)

lemma parse_elements_valid:
  assumes "value_valid data mb (Suc d)" and "unat cursor \<le> unat (mb_size mb)"
  shows "valid (parse_elements data mb d cursor k) (\<lambda>(vs, c'). unat cursor \<le> unat c' \<and>
    unat c' \<le> unat (mb_size mb) \<and> length vs = k \<and>
    (\<forall>v \<in> set vs. mp_distinct v \<and> within_depth (Suc d) v))"
  using assms(2)
proof (induction k arbitrary: cursor)
  case (Suc k)
  show ?case
    unfolding parse_elements.simps Suc_eq_plus1 [symmetric]
    by (rule valid_obindI [OF value_validD [OF assms(1) Suc.prems]])
      (auto intro!: valid_weaken [OF Suc.IH])
qed simp

lemma parse_entries_valid:
  assumes "value_valid data mb (Suc d)" and "unat cursor \<le> unat (mb_size mb)"
  shows "valid (parse_entries data mb d cursor k keys) (\<lambda>(kvs, c'). unat cursor \<le> unat c' \<and>
    unat c' \<le> unat (mb_size mb) \<and> length kvs = k \<and>
    distinct (map fst kvs) \<and> fst ` set kvs \<inter> set keys = {} \<and>
    (\<forall>kv \<in> set kvs. mp_distinct (snd kv) \<and> within_depth (Suc d) (snd kv)))"
  using assms(2)
proof (induction k arbitrary: cursor keys)
  case (Suc k)
  have tail: "valid (obind (parse_entries data mb d c k (s # keys)) (\<lambda>(kvs, c'). Ok ((s, v) # kvs, c')))
      (\<lambda>(kvs, c'). unat cursor \<le> unat c' \<and> unat c' \<le> unat (mb_size mb) \<and> length kvs = Suc k \<and>
        distinct (map fst kvs) \<and> fst ` set kvs \<inter> set keys = {} \<and>
        (\<forall>kv \<in> set kvs. mp_distinct (snd kv) \<and> within_depth (Suc d) (snd kv)))"
    if "unat cursor \<le> unat c" "unat c \<le> unat (mb_size mb)" "s \<notin> set keys"
      "mp_distinct v" "within_depth (Suc d) v" for c s v
    using that by (auto intro!: valid_weaken [OF Suc.IH])
  show ?case
    unfolding parse_entries.simps Suc_eq_plus1 [symmetric]
    by (rule valid_obindI [OF value_validD [OF assms(1) Suc.prems]])
      (auto split: MessagePackValue.split simp del: valid_obind
        intro!: valid_obindI [OF value_validD [OF assms(1)]] tail)
qed simp

lemma parse_array_valid:
  assumes "value_valid data mb (Suc d)" and "unat cursor \<le> unat (mb_size mb)"
    and "d \<le> kMaximumMetadataDepth"
  shows "valid (parse_array data mb d cursor n m) (value_post mb d m cursor)"
  using assms(2,3)
  by (auto simp: parse_array.simps value_post_def intro!: valid_weaken [OF parse_elements_valid [OF assms(1)]])

lemma parse_map_valid:
  assumes "value_valid data mb (Suc d)" and "unat cursor \<le> unat (mb_size mb)"
    and "d \<le> kMaximumMetadataDepth"
  shows "valid (parse_map data mb d cursor n m) (value_post mb d m cursor)"
  using assms(2,3)
  by (auto simp: parse_map.simps value_post_def intro!: valid_weaken [OF parse_entries_valid [OF assms(1)]])

lemma scalar_valid:
  assumes "window_ok data mb" and "unat cursor \<le> unat (mb_size mb)" and "d \<le> kMaximumMetadataDepth"
  shows "valid (parse_string data mb cursor len m) (value_post mb d m cursor)"
    and "w < 2 ^ 64 \<Longrightarrow> valid (parse_unsigned data mb cursor w m) (value_post mb d m cursor)"
    and "w < 2 ^ 64 \<Longrightarrow> valid (parse_signed data mb cursor w m) (value_post mb d m cursor)"
  using assms(3)
  by (auto simp: value_post_def
      intro!: valid_weaken [OF parse_string_valid [OF assms(1,2)]]
        valid_weaken [OF parse_unsigned_valid [OF assms(1,2)]]
        valid_weaken [OF parse_signed_valid [OF assms(1,2)]])

lemma sized_valid:
  assumes "window_ok data mb" and "unat cursor \<le> unat (mb_size mb)" and "w < 2 ^ 64"
    and "\<And>n c. unat c \<le> unat (mb_size mb) \<Longrightarrow> valid (f n c) (value_post mb d m c)"
  shows "valid (obind (read_length data mb cursor w m) (\<lambda>(n, c). f n c)) (value_post mb d m cursor)"
  by (rule valid_obindI [OF read_length_valid [OF assms(1-3)]])
    (auto simp: value_post_def [of mb d m cursor] intro!: valid_weaken [OF assms(4)]
      simp: value_post_def)

lemma width_small: "e \<in> {1, 2, 4, 8} \<Longrightarrow> (e :: nat) < 2 ^ 64"
  by auto

lemma parse_value_valid_step:
  assumes window: "window_ok data mb" and deeper: "value_valid data mb (Suc d)"
    and d: "d \<le> kMaximumMetadataDepth" and c: "unat cursor \<le> unat (mb_size mb)"
    and take: "mp_take mb cursor 1 = Some r"
  shows "valid (parse_value data mb d cursor) (value_post mb d cursor (cursor + 1))"
    and "unat (cursor + 1) = unat cursor + 1"
proof -
  note parts = parse_array_valid [OF deeper _ d] parse_map_valid [OF deeper _ d]
    scalar_valid [OF window _ d] sized_valid [OF window, where d = d]
  have fits: "unat cursor + 1 \<le> unat (mb_size mb)"
    and r: "r = (mb_data mb + unat cursor, cursor + 1)"
    using take by (simp_all add: mp_take_Some [OF c])
  show c': "unat (cursor + 1) = unat cursor + 1"
    using mp_take_cursor [of cursor 1 mb] fits by simp
  have rd: "rd8 data (mb_data mb + unat cursor) = Ok (data ! (mb_data mb + unat cursor))"
    using window fits by (simp add: window_ok_def)
  have depth: "(kMaximumMetadataDepth < d) = False" using d by simp
  show "valid (parse_value data mb d cursor) (value_post mb d cursor (cursor + 1))"
    unfolding parse_value.simps Let_def take r option.case prod.case rd obind.simps depth if_False
    by (intro valid_IfI parts valid_mp_fail width_small)
      (use fits c' d in \<open>auto simp: value_post_def\<close>)
qed

lemma value_valid_all:
  assumes "window_ok data mb"
  shows "value_valid data mb d"
proof (induction "65 - d" arbitrary: d rule: less_induct)
  case less
  show ?case
    unfolding value_valid_def
  proof (intro allI impI)
    fix cursor :: u64
    assume c: "unat cursor \<le> unat (mb_size mb)"
    show "valid (parse_value data mb d cursor) (\<lambda>(v, c').
      unat cursor < unat c' \<and> value_post mb d cursor cursor (v, c'))"
    proof (cases "d \<le> kMaximumMetadataDepth \<and> mp_take mb cursor 1 \<noteq> None")
      case True
      then obtain r where "mp_take mb cursor 1 = Some r" and d: "d \<le> kMaximumMetadataDepth" by auto
      then have "valid (parse_value data mb d cursor) (value_post mb d cursor (cursor + 1))"
        and "unat (cursor + 1) = unat cursor + 1"
        using parse_value_valid_step [OF assms _ d c] less [of "Suc d"] by simp_all
      then show ?thesis by (auto simp: value_post_def elim: valid_weaken)
    next
      case False
      then consider "kMaximumMetadataDepth < d" | "mp_take mb cursor 1 = None" by fastforce
      then show ?thesis by cases (simp_all add: parse_value.simps)
    qed
  qed
qed

text \<open>The reader as its caller sees it.\<close>

lemma parse_value_valid:
  assumes "window_ok data mb" and "unat cursor \<le> unat (mb_size mb)"
  shows "valid (parse_value data mb d cursor) (\<lambda>(v, c').
     unat cursor < unat c' \<and> unat c' \<le> unat (mb_size mb) \<and>
     mp_distinct v \<and> within_depth d v \<and> mp_offset v = mb_file_offset mb + cursor)"
  using value_validD [OF value_valid_all [OF assms(1)] assms(2)] .

lemma parse_document_valid:
  assumes "window_ok data mb"
  shows "valid (parse_document data mb) (\<lambda>v. mp_distinct v \<and> within_depth 0 v \<and>
    mp_offset v = mb_file_offset mb)"
  unfolding parse_document_def
  by (rule valid_obindI [OF parse_value_valid [OF assms]]) auto

end
