(* ===== verification/NoteReader.thy ===== *)
theory NoteReader
  imports ElfReader MessagePack
begin

text \<open>
  The search for the AMDGPU metadata note: \<open>find_metadata_note\<close> of
  \<open>light-rocr/loader/metadata_reader.cpp\<close>. The result is the window of the note's descriptor, or
  \<open>None\<close> where the code leaves \<open>metadata->data\<close> null. The loop over the notes of one PT_NOTE
  segment ends because every note is at least twelve bytes long and no cursor wraps, which is the
  content of its termination proof.

  The lemmas show that the loops never read outside the code object and that the window found
  lies inside it.
\<close>

section \<open>The loops\<close>

definition align4 :: "u64 \<Rightarrow> u64 option" where
  "align4 value = (case checked_add value 3 of
     None \<Rightarrow> None | Some with_padding \<Rightarrow> Some (with_padding AND NOT 3))"

text \<open>The owner name \<open>"AMDGPU"\<close> with its terminating zero.\<close>

definition kAmdgpuOwner :: bytes where
  "kAmdgpuOwner = [0x41, 0x4d, 0x44, 0x47, 0x50, 0x55, 0]"

text \<open>
  The sizes of one note: the aligned descriptor offset and the offset of the next note, or
  \<open>None\<close> when the note does not fit before \<open>stop\<close> (\<open>end\<close> in the code).
\<close>

definition note_extent :: "u64 \<Rightarrow> u64 \<Rightarrow> u32 \<Rightarrow> u32 \<Rightarrow> (u64 \<times> u64) option" where
  "note_extent cursor stop name_size descriptor_size =
     (case align4 (ucast name_size) of
        None \<Rightarrow> None
      | Some aligned_name_size \<Rightarrow>
        (case align4 (ucast descriptor_size) of
           None \<Rightarrow> None
         | Some aligned_descriptor_size \<Rightarrow>
           (case checked_add (cursor + 12) aligned_name_size of
              None \<Rightarrow> None
            | Some descriptor_offset \<Rightarrow>
              (case checked_add descriptor_offset aligned_descriptor_size of
                 None \<Rightarrow> None
               | Some nxt \<Rightarrow>
                   if nxt > stop then None else Some (descriptor_offset, nxt)))))"

definition is_metadata_note :: "bytes \<Rightarrow> u64 \<Rightarrow> u32 \<Rightarrow> u32 \<Rightarrow> bool parsed" where
  "is_metadata_note data cursor name_size type =
     (if name_size = 7
      then obind (read_bytes data (unat (cursor + 12)) 7) (\<lambda>name.
             Ok (name = kAmdgpuOwner \<and> type = 32))
      else Ok False)"

lemma align4_Some:
  assumes "align4 v = Some a"
  shows "unat v \<le> unat a" and "unat a \<le> unat v + 3" and "unat a mod 4 = 0"
proof -
  from assms have sum: "unat v + 3 < 2 ^ 64" and a: "a = (v + 3) AND NOT 3"
    by (auto simp: align4_def checked_add_Some split: option.splits)
  have "unat (v + 3) = unat v + 3" using unat_add64 [of v 3] sum by simp
  moreover have "(3 :: u64) = mask 2" by (simp add: mask_eq_exp_minus_1)
  then have "unat a = unat (v + 3) div 4 * 4"
    using unat_and_not_mask [of "v + 3" 2] by (simp add: a)
  ultimately show "unat v \<le> unat a" and "unat a \<le> unat v + 3" and "unat a mod 4 = 0"
    by presburger+
qed

lemma note_extent_Some:
  assumes "note_extent cursor stop ns ds = Some (off, nxt)"
    and "unat cursor + 12 < 2 ^ 64"
  shows "unat cursor + 12 + unat ns \<le> unat off" and "unat off + unat ds \<le> unat nxt"
    and "unat nxt \<le> unat stop"
proof -
  obtain an ad where an: "align4 (ucast ns) = Some an" and ad: "align4 (ucast ds) = Some ad"
    and off: "checked_add (cursor + 12) an = Some off"
    and nx: "checked_add off ad = Some nxt" and le: "nxt \<le> stop"
    using assms(1) by (auto simp: note_extent_def split: option.splits if_splits)
  have "unat (cursor + 12) = unat cursor + 12"
    using unat_add64 [of cursor 12] assms(2) by simp
  then show "unat cursor + 12 + unat ns \<le> unat off"
    using align4_Some(1) [OF an] checked_add_SomeD(1) [OF off] by simp
  show "unat off + unat ds \<le> unat nxt"
    using align4_Some(1) [OF ad] checked_add_SomeD(1) [OF nx] by simp
  show "unat nxt \<le> unat stop" using le by (simp add: word_le_nat_alt)
qed

function note_loop ::
  "bytes \<Rightarrow> u64 \<Rightarrow> u64 \<Rightarrow> MetadataBytes option \<Rightarrow> MetadataBytes option parsed" where
  "note_loop data stop cursor metadata =
     (if \<not> cursor < stop then Ok metadata
      else if stop - cursor < 12 then failure MalformedNote cursor
      else
      obind (read_u32 data (unat cursor)) (\<lambda>name_size.
      obind (read_u32 data (unat (cursor + 4))) (\<lambda>descriptor_size.
      obind (read_u32 data (unat (cursor + 8))) (\<lambda>type.
      case note_extent cursor stop name_size descriptor_size of
        None \<Rightarrow> failure MalformedNote cursor
      | Some (descriptor_offset, nxt) \<Rightarrow>
        obind (is_metadata_note data cursor name_size type) (\<lambda>found.
        if found \<and> metadata \<noteq> None then failure DuplicateMetadataNote cursor
        else note_loop data stop nxt
               (if found
                then Some \<lparr>mb_data = unat descriptor_offset, mb_size = ucast descriptor_size,
                           mb_file_offset = descriptor_offset\<rparr>
                else metadata))))))"
  by pat_completeness auto
termination
proof (relation "measure (\<lambda>(data, stop, cursor, metadata). unat stop - unat cursor)", goal_cases)
  case (2 data stop cursor metadata ns ds type r off nxt found)
  then have lt: "unat cursor < unat stop" and room: "12 \<le> unat stop - unat cursor"
    by (auto simp: word_less_nat_alt unat_sub word_le_nat_alt)
  have "unat cursor + 12 < 2 ^ 64" using room lt unat_u64_less [of stop] by simp
  with 2 have "unat cursor + 12 + unat ns \<le> unat off" "unat off + unat ds \<le> unat nxt"
    by (auto dest: note_extent_Some)
  with lt show ?case by simp
qed simp

declare note_loop.simps [simp del]

primrec note_headers ::
  "bytes \<Rightarrow> u64 \<Rightarrow> u64 \<Rightarrow> u16 \<Rightarrow> nat \<Rightarrow> nat \<Rightarrow> MetadataBytes option \<Rightarrow> MetadataBytes option parsed"
where
  "note_headers data fsize table entry_size i 0 metadata = Ok metadata"
| "note_headers data fsize table entry_size i (Suc n) metadata =
     (let header_offset = header_entry_offset table entry_size i; header = unat header_offset in
      obind (read_u32 data header) (\<lambda>type.
      if type \<noteq> 4 then note_headers data fsize table entry_size (i + 1) n metadata
      else
      obind (read_u64 data (header + 8)) (\<lambda>note_offset.
      obind (read_u64 data (header + 32)) (\<lambda>note_size.
      if \<not> range_is_in_file note_offset note_size fsize
      then failure MalformedNote (header_offset + 8)
      else
      obind (note_loop data (note_offset + note_size) note_offset metadata) (\<lambda>metadata'.
        note_headers data fsize table entry_size (i + 1) n metadata')))))"

definition find_metadata_note :: "bytes \<Rightarrow> u64 \<Rightarrow> MetadataBytes option parsed" where
  "find_metadata_note data fsize =
     obind (read_u64 data 32) (\<lambda>program_header_offset.
     obind (read_u16 data 54) (\<lambda>entry_size.
     obind (read_u16 data 56) (\<lambda>cnt.
       note_headers data fsize program_header_offset entry_size 0 (unat cnt) None)))"

section \<open>The search stays inside the code object\<close>

definition found_window :: "bytes \<Rightarrow> MetadataBytes option \<Rightarrow> bool" where
  "found_window data r \<longleftrightarrow>
     (\<forall>mb. r = Some mb \<longrightarrow> window_ok data mb \<and> mb_data mb = unat (mb_file_offset mb))"

lemma is_metadata_note_valid:
  assumes "unat cursor + 12 + unat name_size \<le> length data" and "unat cursor + 12 < 2 ^ 64"
  shows "is_metadata_note data cursor name_size type \<noteq> Fault"
proof -
  have "unat (cursor + 12) = unat cursor + 12" using unat_add64 [of cursor 12] assms(2) by simp
  with assms(1) show ?thesis by (auto simp: is_metadata_note_def)
qed

text \<open>One round of the loop, with a full note header before \<open>stop\<close>.\<close>

lemma note_loop_round:
  assumes stop: "unat stop \<le> length data" and inv: "found_window data metadata"
    and lt: "cursor < stop" and room: "\<not> stop - cursor < 12"
    and rest: "\<And>nxt metadata'. unat cursor < unat nxt \<Longrightarrow> found_window data metadata' \<Longrightarrow>
      valid (note_loop data stop nxt metadata') (found_window data)"
  shows "valid (note_loop data stop cursor metadata) (found_window data)"
proof -
  have "12 \<le> unat stop - unat cursor" "unat cursor < unat stop"
    using lt room by (auto simp: word_less_nat_alt unat_sub word_le_nat_alt)
  then have room': "unat cursor + 12 \<le> length data" "unat cursor + 12 < 2 ^ 64"
    using stop unat_u64_less [of stop] by auto
  then have c: "unat (cursor + 4) = unat cursor + 4" "unat (cursor + 8) = unat cursor + 8"
    using unat_add64 [of cursor 4] unat_add64 [of cursor 8] by simp_all
  let ?ns = "u32_at data (unat cursor)" and ?ds = "u32_at data (unat cursor + 4)"
  have reads: "(read_u32 data (unat cursor) :: u32 parsed) = Ok ?ns"
    "(read_u32 data (unat (cursor + 4)) :: u32 parsed) = Ok ?ds"
    "(read_u32 data (unat (cursor + 8)) :: u32 parsed) = Ok (u32_at data (unat cursor + 8))"
    using room' by (simp_all add: c)
  show ?thesis
  proof (cases "note_extent cursor stop ?ns ?ds")
    case None
    with reads lt room show ?thesis by (subst note_loop.simps) simp
  next
    case (Some r)
    obtain off nxt where r: "r = (off, nxt)" by fastforce
    note ext = note_extent_Some [OF Some [unfolded r] room'(2)]
    have window: "found_window data (Some \<lparr>mb_data = unat off, mb_size = ucast ?ds, mb_file_offset = off\<rparr>)"
      using ext stop by (simp add: found_window_def window_ok_def)
    have "is_metadata_note data cursor ?ns (u32_at data (unat cursor + 8)) \<noteq> Fault"
      using ext stop room' by (intro is_metadata_note_valid) simp_all
    then have found: "valid (is_metadata_note data cursor ?ns (u32_at data (unat cursor + 8))) (\<lambda>_. True)"
      by simp
    have "unat cursor < unat nxt" using ext by simp
    with reads Some r lt room show ?thesis
      by (subst note_loop.simps)
        (auto simp del: valid_obind intro!: valid_obindI [OF found] rest window inv)
  qed
qed

lemma note_loop_valid:
  assumes "unat stop \<le> length data" and "found_window data metadata"
  shows "valid (note_loop data stop cursor metadata) (found_window data)"
  using assms(2)
proof (induction "unat stop - unat cursor" arbitrary: cursor metadata rule: less_induct)
  case less
  show ?case
  proof (cases "cursor < stop \<and> \<not> stop - cursor < 12")
    case True
    then have "unat cursor < unat stop" by (simp add: word_less_nat_alt)
    with True show ?thesis
      by (intro note_loop_round [OF assms(1) less.prems] less.hyps) auto
  next
    case False
    with less.prems show ?thesis by (subst note_loop.simps) auto
  qed
qed

lemma note_headers_valid:
  assumes "unat fsize = length data" and "unat table + 56 * (i + n) \<le> length data"
    and "found_window data metadata"
  shows "valid (note_headers data fsize table 56 i n metadata) (found_window data)"
  using assms(2,3)
proof (induction n arbitrary: i metadata)
  case (Suc n)
  have entry: "unat (header_entry_offset table 56 i) = unat table + 56 * i"
    using Suc.prems(1) assms(1) unat_u64_less [of fsize]
    by (intro unat_header_entry_offset [where n = "Suc i"]) auto
  have rest: "valid (note_headers data fsize table 56 (Suc i) n m) (found_window data)"
    if "found_window data m" for m
    using Suc.prems(1) that by (intro Suc.IH) auto
  have loop: "valid (note_loop data (off + sz) off metadata) (found_window data)"
    if "range_is_in_file off sz fsize" for off sz
  proof (rule note_loop_valid [OF _ Suc.prems(2)])
    have "unat off + unat sz \<le> length data"
      using that assms(1) by (simp add: range_is_in_file_iff)
    then show "unat (off + sz) \<le> length data"
      using assms(1) unat_u64_less [of fsize] unat_add64 [of off sz] by simp
  qed
  show ?case
    using Suc.prems
    by (auto simp: Let_def entry rest simp del: valid_obind
        intro!: valid_obindI [OF loop] rest)
qed simp

lemma find_metadata_note_valid:
  assumes "unat fsize = length data" and "elf_ok data"
  shows "valid (find_metadata_note data fsize) (found_window data)"
proof -
  have "valid (note_headers data fsize (u64_at data 32) 56 0 (unat (u16_at data 56)) None) (found_window data)"
    using assms by (intro note_headers_valid) (auto simp: elf_ok_def found_window_def)
  with assms show ?thesis by (simp add: find_metadata_note_def elf_ok_def)
qed

end
