(* ===== verification/Metadata.thy ===== *)
theory Metadata
  imports NoteReader Algorithms
begin

text \<open>
  Decoding the AMDHSA metadata document: \<open>find_field\<close> .. \<open>decode_metadata_document\<close> of
  \<open>light-rocr/loader/metadata_reader.cpp\<close>. A null pointer that would be dereferenced is a
  \<^const>\<open>Fault\<close>. A kernel is decoded by \<open>decode_kernel\<close>, the body of the loop over
  \<open>amdhsa.kernels\<close>.

  The lemmas show that the kernels of an accepted document satisfy \<open>wf_kernel\<close>: the argument
  ranges are non-empty, pairwise disjoint, sorted, inside the kernarg segment, with every explicit
  argument before every hidden one, and the kernel and symbol names are pairwise distinct.
\<close>

section \<open>Fields\<close>

datatype Kind = KNil | KBoolean | KUnsigned | KSigned | KString | KArray | KMap

primrec mp_kind :: "MessagePackValue \<Rightarrow> Kind" where
  "mp_kind (MPNil off) = KNil"
| "mp_kind (MPBoolean off b) = KBoolean"
| "mp_kind (MPUnsigned off u) = KUnsigned"
| "mp_kind (MPSigned off i) = KSigned"
| "mp_kind (MPString off s) = KString"
| "mp_kind (MPArray off vs) = KArray"
| "mp_kind (MPMap off kvs) = KMap"

text \<open>The members of \<open>MessagePackValue\<close>, with their initial value where the kind does not set them.\<close>

fun mp_boolean :: "MessagePackValue \<Rightarrow> bool" where
  "mp_boolean (MPBoolean off b) = b" | "mp_boolean _ = False"

fun mp_string :: "MessagePackValue \<Rightarrow> string" where
  "mp_string (MPString off s) = s" | "mp_string _ = []"

fun mp_array :: "MessagePackValue \<Rightarrow> MessagePackValue list" where
  "mp_array (MPArray off vs) = vs" | "mp_array _ = []"

definition find_field :: "MessagePackValue \<Rightarrow> string \<Rightarrow> MessagePackValue option" where
  "find_field m name =
     (case m of
        MPMap off kvs \<Rightarrow> map_option snd (find (\<lambda>entry. fst entry = name) kvs)
      | _ \<Rightarrow> None)"

definition required_field ::
  "MessagePackValue \<Rightarrow> string \<Rightarrow> Kind \<Rightarrow> MessagePackValue parsed" where
  "required_field m name kind =
     (case find_field m name of
        None \<Rightarrow> failure InvalidMetadata (mp_offset m)
      | Some v \<Rightarrow>
          if mp_kind v \<noteq> kind then failure InvalidMetadata (mp_offset v) else Ok v)"

definition metadata_uint32 :: "MessagePackValue \<Rightarrow> string \<Rightarrow> u32 parsed" where
  "metadata_uint32 m name =
     (case find_field m name of
        None \<Rightarrow> failure InvalidMetadata (mp_offset m)
      | Some v \<Rightarrow>
          obind (case v of
                   MPUnsigned off u \<Rightarrow> Ok u
                 | MPSigned off i \<Rightarrow>
                     if i \<ge> 0 then Ok (of_int i) else failure InvalidMetadata (mp_offset v)
                 | _ \<Rightarrow> failure InvalidMetadata (mp_offset v))
            (\<lambda>integer. if integer > 0xffffffff then failure InvalidMetadata (mp_offset v)
                       else Ok (ucast integer)))"

section \<open>Kernel arguments\<close>

definition kernel_argument_kinds :: "(string \<times> KernelArgumentKind) list" where
  "kernel_argument_kinds =
     [(''by_value'', ByValue),
      (''global_buffer'', GlobalBuffer),
      (''dynamic_shared_pointer'', DynamicSharedPointer),
      (''sampler'', SamplerArg),
      (''image'', ImageArg),
      (''pipe'', PipeArg),
      (''queue'', QueueArg),
      (''hidden_block_count_x'', HiddenBlockCountX),
      (''hidden_block_count_y'', HiddenBlockCountY),
      (''hidden_block_count_z'', HiddenBlockCountZ),
      (''hidden_group_size_x'', HiddenGroupSizeX),
      (''hidden_group_size_y'', HiddenGroupSizeY),
      (''hidden_group_size_z'', HiddenGroupSizeZ),
      (''hidden_remainder_x'', HiddenRemainderX),
      (''hidden_remainder_y'', HiddenRemainderY),
      (''hidden_remainder_z'', HiddenRemainderZ),
      (''hidden_global_offset_x'', HiddenGlobalOffsetX),
      (''hidden_global_offset_y'', HiddenGlobalOffsetY),
      (''hidden_global_offset_z'', HiddenGlobalOffsetZ),
      (''hidden_grid_dims'', HiddenGridDims),
      (''hidden_none'', HiddenNone),
      (''hidden_printf_buffer'', HiddenPrintfBuffer),
      (''hidden_hostcall_buffer'', HiddenHostcallBuffer),
      (''hidden_heap_v1'', HiddenHeapV1),
      (''hidden_default_queue'', HiddenDefaultQueue),
      (''hidden_completion_action'', HiddenCompletionAction),
      (''hidden_multigrid_sync_arg'', HiddenMultiGridSyncArg),
      (''hidden_dynamic_lds_size'', HiddenDynamicLdsSize),
      (''hidden_private_base'', HiddenPrivateBase),
      (''hidden_shared_base'', HiddenSharedBase),
      (''hidden_queue_ptr'', HiddenQueuePtr)]"

definition kernel_argument_kind :: "string \<Rightarrow> KernelArgumentKind option" where
  "kernel_argument_kind name =
     map_option snd (find (\<lambda>entry. name = fst entry) kernel_argument_kinds)"

definition is_hidden_argument :: "KernelArgumentKind \<Rightarrow> bool" where
  "is_hidden_argument kind = (kind_value kind \<ge> kind_value HiddenBlockCountX)"

definition required_hidden_argument_size :: "KernelArgumentKind \<Rightarrow> u32" where
  "required_hidden_argument_size kind =
     (if kind \<in> {HiddenBlockCountX, HiddenBlockCountY, HiddenBlockCountZ, HiddenDynamicLdsSize,
                  HiddenPrivateBase, HiddenSharedBase}
      then 4
      else if kind \<in> {HiddenGroupSizeX, HiddenGroupSizeY, HiddenGroupSizeZ, HiddenRemainderX,
                       HiddenRemainderY, HiddenRemainderZ, HiddenGridDims}
      then 2
      else if kind \<in> {HiddenGlobalOffsetX, HiddenGlobalOffsetY, HiddenGlobalOffsetZ,
                       HiddenPrintfBuffer, HiddenHostcallBuffer, HiddenHeapV1, HiddenDefaultQueue,
                       HiddenCompletionAction, HiddenMultiGridSyncArg, HiddenQueuePtr}
      then 8
      else 0)"

text \<open>The body of the first loop of \<open>decode_kernel_arguments\<close>, up to the update of the state.\<close>

definition decode_argument :: "u32 \<Rightarrow> MessagePackValue \<Rightarrow> KernelArgumentInfo parsed" where
  "decode_argument kernarg_size v =
     (if mp_kind v \<noteq> KMap then failure InvalidMetadata (mp_offset v)
      else
      obind (metadata_uint32 v ''.offset'') (\<lambda>off.
      obind (metadata_uint32 v ''.size'') (\<lambda>sz.
      obind (required_field v ''.value_kind'' KString) (\<lambda>value_kind.
      case kernel_argument_kind (mp_string value_kind) of
        None \<Rightarrow> failure InvalidMetadata (mp_offset value_kind)
      | Some kind \<Rightarrow>
          if sz = 0 \<or> off > kernarg_size \<or> sz > kernarg_size - off
          then failure InvalidMetadata (mp_offset v)
          else if required_hidden_argument_size kind \<noteq> 0 \<and> sz \<noteq> required_hidden_argument_size kind
          then failure InvalidMetadata (mp_offset v)
          else Ok \<lparr>ka_offset = off, ka_size = sz, ka_kind = kind\<rparr>))))"

primrec argument_loop ::
  "u32 \<Rightarrow> MessagePackValue list \<Rightarrow> u32 \<Rightarrow> KernelArgumentInfo list \<Rightarrow>
   (u32 \<times> KernelArgumentInfo list) parsed" where
  "argument_loop kernarg_size [] first_hidden args = Ok (first_hidden, args)"
| "argument_loop kernarg_size (v # vs) first_hidden args =
     obind (decode_argument kernarg_size v) (\<lambda>a.
       argument_loop kernarg_size vs
         (if is_hidden_argument (ka_kind a) then min first_hidden (ka_offset a) else first_hidden)
         (args @ [a]))"

text \<open>The second loop, over the sorted arguments; the error offset is the one of \<open>.args\<close>.\<close>

primrec layout_loop :: "u64 \<Rightarrow> u32 \<Rightarrow> KernelArgumentInfo list \<Rightarrow> u32 \<Rightarrow> unit parsed" where
  "layout_loop args_offset first_hidden [] previous_end = Ok ()"
| "layout_loop args_offset first_hidden (a # as) previous_end =
     (if ka_offset a < previous_end then failure InvalidMetadata args_offset
      else if \<not> is_hidden_argument (ka_kind a) \<and> ka_offset a + ka_size a > first_hidden
      then failure InvalidMetadata args_offset
      else layout_loop args_offset first_hidden as (ka_offset a + ka_size a))"

definition argument_before :: "KernelArgumentInfo \<Rightarrow> KernelArgumentInfo \<Rightarrow> bool" where
  "argument_before lhs rhs = (ka_offset lhs < ka_offset rhs)"

definition decode_kernel_arguments :: "MessagePackValue \<Rightarrow> KernelInfo \<Rightarrow> KernelInfo parsed" where
  "decode_kernel_arguments kernel_value kern =
     (case find_field kernel_value ''.args'' of
        None \<Rightarrow> Ok (kern\<lparr>ki_explicit_argument_size := ki_kernarg_size kern\<rparr>)
      | Some arguments \<Rightarrow>
          if mp_kind arguments \<noteq> KArray then failure InvalidMetadata (mp_offset arguments)
          else
          obind (argument_loop (ki_kernarg_size kern) (mp_array arguments)
                   (ki_kernarg_size kern) (ki_arguments kern)) (\<lambda>(first_hidden, args).
          let ordered = std_sort argument_before args in
          obind (layout_loop (mp_offset arguments) first_hidden ordered 0) (\<lambda>_.
            Ok (kern\<lparr>ki_arguments := ordered, ki_explicit_argument_size := first_hidden\<rparr>))))"

section \<open>The document\<close>

record MetadataKernel =
  mk_info :: KernelInfo
  mk_metadata_offset :: u64

definition version_integer :: "MessagePackValue \<Rightarrow> u32 option" where
  "version_integer v =
     (let integer = (case v of
          MPUnsigned off u \<Rightarrow> u
        | MPSigned off i \<Rightarrow> if i \<ge> 0 then of_int i else - 1
        | _ \<Rightarrow> (- 1 :: u64))
      in if integer > 0xffffffff then None else Some (ucast integer))"

definition decode_version :: "MessagePackValue \<Rightarrow> MetadataVersion parsed" where
  "decode_version root =
     obind (required_field root ''amdhsa.version'' KArray) (\<lambda>version.
       if length (mp_array version) \<noteq> 2 then failure InvalidMetadata (mp_offset version)
       else
       case (version_integer (mp_array version ! 0), version_integer (mp_array version ! 1)) of
         (Some major, Some minor) \<Rightarrow>
           if major \<noteq> 1 \<or> minor \<noteq> 2
           then failure UnsupportedMetadataVersion (mp_offset version)
           else Ok \<lparr>mv_major = major, mv_minor = minor\<rparr>
       | _ \<Rightarrow> failure InvalidMetadata (mp_offset version))"

definition decode_target :: "MessagePackValue \<Rightarrow> string parsed" where
  "decode_target root =
     obind (required_field root ''amdhsa.target'' KString) (\<lambda>target.
       if mp_string target \<noteq> ''amdgcn-amd-amdhsa--gfx1101'' \<and>
          mp_string target \<noteq> ''amdgcn-amd-amdhsa-unknown-gfx1101''
       then failure MetadataTargetMismatch (mp_offset target)
       else Ok (mp_string target))"

definition has_descriptor_suffix :: "string \<Rightarrow> bool" where
  "has_descriptor_suffix s = (length s \<ge> 3 \<and> drop (length s - 3) s = ''.kd'')"

text \<open>A field's offset through the pointer \<open>find_field\<close> returns, which must not be null.\<close>

definition field_offset :: "MessagePackValue \<Rightarrow> string \<Rightarrow> u64 parsed" where
  "field_offset m name = (case find_field m name of None \<Rightarrow> Fault | Some v \<Rightarrow> Ok (mp_offset v))"

text \<open>The body of the loop over \<open>amdhsa.kernels\<close> up to the insertion of the two names.\<close>

definition decode_kernel_names :: "MessagePackValue \<Rightarrow> KernelInfo parsed" where
  "decode_kernel_names v =
     obind (required_field v ''.name'' KString) (\<lambda>name.
     obind (required_field v ''.symbol'' KString) (\<lambda>symbol.
     let kern = default_KernelInfo\<lparr>ki_name := mp_string name, ki_symbol_name := mp_string symbol\<rparr> in
     if ki_name kern = [] \<or> ki_symbol_name kern = []
     then failure InvalidMetadata (mp_offset symbol)
     else if \<not> has_descriptor_suffix (ki_symbol_name kern)
     then failure InvalidMetadata (mp_offset symbol)
     else Ok kern))"

definition decode_kernel_integers :: "MessagePackValue \<Rightarrow> KernelInfo \<Rightarrow> KernelInfo parsed" where
  "decode_kernel_integers v kern =
     obind (metadata_uint32 v ''.kernarg_segment_size'') (\<lambda>kernarg_size.
     obind (metadata_uint32 v ''.kernarg_segment_align'') (\<lambda>alignment.
     obind (metadata_uint32 v ''.group_segment_fixed_size'') (\<lambda>group_size.
     obind (metadata_uint32 v ''.private_segment_fixed_size'') (\<lambda>private_size.
     obind (metadata_uint32 v ''.wavefront_size'') (\<lambda>wavefront.
     if \<not> is_power_of_two alignment
     then obind (field_offset v ''.kernarg_segment_align'') (failure InvalidMetadata)
     else if wavefront \<noteq> 32 \<and> wavefront \<noteq> 64
     then obind (field_offset v ''.wavefront_size'') (failure InvalidMetadata)
     else Ok (kern\<lparr>ki_kernarg_size := kernarg_size,
                     ki_metadata_kernarg_alignment := alignment,
                     ki_group_segment_size := group_size,
                     ki_private_segment_size := private_size,
                     ki_wavefront_size := wavefront,
                     ki_kernarg_alignment := max alignment 16\<rparr>))))))"

definition decode_kernel :: "MessagePackValue \<Rightarrow> MetadataKernel parsed" where
  "decode_kernel v =
     (if mp_kind v \<noteq> KMap then failure InvalidMetadata (mp_offset v)
      else
      obind (decode_kernel_names v) (\<lambda>k1.
      obind (decode_kernel_integers v k1) (\<lambda>k2.
      obind (decode_kernel_arguments v k2) (\<lambda>k3.
      obind (required_field v ''.uses_dynamic_stack'' KBoolean) (\<lambda>field.
        Ok \<lparr>mk_info = k3\<lparr>ki_uses_dynamic_stack := mp_boolean field\<rparr>,
            mk_metadata_offset = mp_offset v\<rparr>)))))"

primrec kernel_loop ::
  "MessagePackValue list \<Rightarrow> string list \<Rightarrow> string list \<Rightarrow> MetadataKernel list parsed" where
  "kernel_loop [] kernel_names symbol_names = Ok []"
| "kernel_loop (v # vs) kernel_names symbol_names =
     obind (decode_kernel v) (\<lambda>kern.
       if ki_name (mk_info kern) \<in> set kernel_names \<or>
          ki_symbol_name (mk_info kern) \<in> set symbol_names
       then failure InvalidMetadata (mp_offset v)
       else
       obind (kernel_loop vs (ki_name (mk_info kern) # kernel_names)
                (ki_symbol_name (mk_info kern) # symbol_names)) (\<lambda>kernels.
         Ok (kern # kernels)))"

definition decode_metadata_document ::
  "MessagePackValue \<Rightarrow> (MetadataVersion \<times> string \<times> MetadataKernel list) parsed" where
  "decode_metadata_document root =
     (if mp_kind root \<noteq> KMap then failure InvalidMetadata (mp_offset root)
      else
      obind (decode_version root) (\<lambda>version.
      obind (decode_target root) (\<lambda>target.
      obind (required_field root ''amdhsa.kernels'' KArray) (\<lambda>kernel_array.
      if mp_array kernel_array = [] then failure InvalidMetadata (mp_offset kernel_array)
      else
      obind (kernel_loop (mp_array kernel_array) [] []) (\<lambda>kernels.
        Ok (version, target, kernels))))))"

section \<open>Lookups\<close>

lemma find_field_map_of: "find_field (MPMap off kvs) name = map_of kvs name"
  by (induction kvs) (auto simp: find_field_def)

lemma find_field_Some:
  "find_field m name = Some v \<Longrightarrow> \<exists>off kvs. m = MPMap off kvs \<and> (name, v) \<in> set kvs"
  by (cases m) (auto simp: find_field_map_of dest: map_of_SomeD, auto simp: find_field_def)

lemma required_field_valid [simp]:
  "valid (required_field m name kind) P \<longleftrightarrow>
    (\<forall>v. find_field m name = Some v \<longrightarrow> mp_kind v = kind \<longrightarrow> P v)"
  by (auto simp: required_field_def split: option.splits)

lemma required_field_not_Fault [simp]: "required_field m name kind \<noteq> Fault"
  by (auto simp: required_field_def split: option.splits)

lemma metadata_uint32_not_Fault [simp]: "metadata_uint32 m name \<noteq> Fault"
  by (auto simp: metadata_uint32_def split: option.splits MessagePackValue.splits)

lemma metadata_uint32_Some: "metadata_uint32 m name = Ok u \<Longrightarrow> find_field m name \<noteq> None"
  by (auto simp: metadata_uint32_def split: option.splits)

lemma metadata_uint32_valid:
  "(\<And>u. metadata_uint32 m name = Ok u \<Longrightarrow> P u) \<Longrightarrow> valid (metadata_uint32 m name) P"
  using metadata_uint32_not_Fault [of m name] by (cases "metadata_uint32 m name") auto

section \<open>Argument layout\<close>

abbreviation arg_end :: "KernelArgumentInfo \<Rightarrow> nat" where
  "arg_end a \<equiv> unat (ka_offset a) + unat (ka_size a)"

abbreviation arg_range :: "KernelArgumentInfo \<Rightarrow> nat set" where
  "arg_range a \<equiv> {unat (ka_offset a) ..< arg_end a}"

abbreviation hidden :: "KernelArgumentInfo \<Rightarrow> bool" where
  "hidden a \<equiv> is_hidden_argument (ka_kind a)"

definition wf_argument :: "u32 \<Rightarrow> KernelArgumentInfo \<Rightarrow> bool" where
  "wf_argument n a \<longleftrightarrow> 0 < unat (ka_size a) \<and> arg_end a \<le> unat n \<and>
     (required_hidden_argument_size (ka_kind a) \<noteq> 0 \<longrightarrow>
        ka_size a = required_hidden_argument_size (ka_kind a))"

text \<open>\<open>split\<close> is the end of the explicit part of the segment.\<close>

definition wf_arguments :: "u32 \<Rightarrow> u32 \<Rightarrow> KernelArgumentInfo list \<Rightarrow> bool" where
  "wf_arguments n split args \<longleftrightarrow> (\<forall>a \<in> set args. wf_argument n a) \<and> split \<le> n \<and>
     sorted_wrt (\<lambda>a b. arg_end a \<le> unat (ka_offset b)) args \<and>
     (\<forall>a \<in> set args. if hidden a then unat split \<le> unat (ka_offset a) else arg_end a \<le> unat split) \<and>
     (split = n \<or> (\<exists>a \<in> set args. hidden a \<and> split = ka_offset a))"

lemma decode_argument_valid: "valid (decode_argument n v) (wf_argument n)"
proof -
  have "wf_argument n \<lparr>ka_offset = off, ka_size = sz, ka_kind = kind\<rparr>"
    if "\<not> (sz = 0 \<or> off > n \<or> sz > n - off)"
      "\<not> (required_hidden_argument_size kind \<noteq> 0 \<and> sz \<noteq> required_hidden_argument_size kind)"
    for off sz kind
    using that by (auto simp: wf_argument_def word_less_nat_alt unat_sub word_le_nat_alt unat_gt_0)
  then show ?thesis
    by (auto simp: decode_argument_def split: option.splits intro!: metadata_uint32_valid)
qed

lemma argument_loop_valid:
  assumes "\<forall>a \<in> set args. wf_argument n a" and "first \<le> n"
    and "\<forall>a \<in> set args. hidden a \<longrightarrow> first \<le> ka_offset a"
    and "first = n \<or> (\<exists>a \<in> set args. hidden a \<and> first = ka_offset a)"
  shows "valid (argument_loop n vs first args) (\<lambda>(first', args').
    (\<forall>a \<in> set args'. wf_argument n a) \<and> first' \<le> n \<and>
    (\<forall>a \<in> set args'. hidden a \<longrightarrow> first' \<le> ka_offset a) \<and>
    (first' = n \<or> (\<exists>a \<in> set args'. hidden a \<and> first' = ka_offset a)))"
  using assms
proof (induction vs arbitrary: first args)
  case (Cons v vs)
  show ?case
    unfolding argument_loop.simps
    by (rule valid_obindI [OF decode_argument_valid], rule Cons.IH)
      (use Cons.prems in \<open>auto simp: min_def\<close>)
qed simp

lemma unat_arg_end:
  assumes "wf_argument n a"
  shows "unat (ka_offset a + ka_size a) = arg_end a"
  using assms unat_u32_less [of n] by (auto simp: wf_argument_def unat_word_ariths)

lemma layout_loop_Ok:
  assumes "\<forall>a \<in> set args. wf_argument n a"
  shows "layout_loop off first args previous = Ok () \<longleftrightarrow>
    (\<forall>a \<in> set args. unat previous \<le> unat (ka_offset a)) \<and>
    sorted_wrt (\<lambda>a b. arg_end a \<le> unat (ka_offset b)) args \<and>
    (\<forall>a \<in> set args. \<not> hidden a \<longrightarrow> arg_end a \<le> unat first)"
  using assms
proof (induction args arbitrary: previous)
  case (Cons a args)
  have "0 < unat (ka_size a)" using Cons.prems by (simp add: wf_argument_def)
  with Cons.IH [of "ka_offset a + ka_size a"] Cons.prems unat_arg_end [of n a] show ?case
    by (auto simp: word_less_nat_alt not_less) (meson le_add1 le_trans)+
qed simp

lemma layout_loop_not_Fault [simp]: "layout_loop off first args previous \<noteq> Fault"
  by (induction args arbitrary: previous) auto

interpretation argument_order: strict_weak_order argument_before
  unfolding argument_before_def by (rule key_order)

text \<open>
  The sort and the neighbour comparison decide that the ranges are pairwise disjoint and that the
  explicit ones end before \<open>first\<close>.
\<close>

lemma layout_check_Ok:
  assumes "\<forall>a \<in> set args. wf_argument n a"
  shows "layout_loop off first (std_sort argument_before args) 0 = Ok () \<longleftrightarrow>
    sorted_wrt (\<lambda>a b. arg_range a \<inter> arg_range b = {}) args \<and>
    (\<forall>a \<in> set args. \<not> hidden a \<longrightarrow> arg_end a \<le> unat first)"
proof -
  let ?D = "\<lambda>a b. arg_range a \<inter> arg_range b = {}"
  have sorted: "sorted_wrt (\<lambda>a b. \<not> argument_before b a) (std_sort argument_before args)"
    by (rule argument_order.sort_sorted)
  then have "sorted_wrt (\<lambda>a b. unat (ka_offset a) \<le> unat (ka_offset b)) (std_sort argument_before args)"
    by (simp add: argument_before_def not_less word_le_nat_alt)
  then have "sorted_wrt (\<lambda>a b. arg_end a \<le> unat (ka_offset b)) (std_sort argument_before args) \<longleftrightarrow>
      sorted_wrt ?D (std_sort argument_before args)"
    using assms by (intro sorted_disjoint_iff) (auto simp: wf_argument_def)
  also have "\<dots> \<longleftrightarrow> sorted_wrt ?D args"
    by (rule sorted_wrt_std_sort) blast
  finally show ?thesis using assms by (simp add: layout_loop_Ok)
qed

lemma decode_kernel_arguments_valid:
  assumes "ki_arguments k = []"
  shows "valid (decode_kernel_arguments v k) (\<lambda>k'.
    k' = k\<lparr>ki_arguments := ki_arguments k', ki_explicit_argument_size := ki_explicit_argument_size k'\<rparr> \<and>
    wf_arguments (ki_kernarg_size k) (ki_explicit_argument_size k') (ki_arguments k'))"
proof -
  let ?n = "ki_kernarg_size k"
  have none: "wf_arguments ?n ?n []" by (simp add: wf_arguments_def)
  have some: "wf_arguments ?n first (std_sort argument_before args)"
    if "(\<forall>a \<in> set args. wf_argument ?n a) \<and> first \<le> ?n \<and>
      (\<forall>a \<in> set args. hidden a \<longrightarrow> first \<le> ka_offset a) \<and>
      (first = ?n \<or> (\<exists>a \<in> set args. hidden a \<and> first = ka_offset a))"
      and "layout_loop off first (std_sort argument_before args) 0 = Ok ()" for off first args
    using that layout_loop_Ok [of "std_sort argument_before args" ?n off first 0]
    by (auto simp: wf_arguments_def word_le_nat_alt)
  have layout: "valid (layout_loop off first args p) (\<lambda>_. layout_loop off first args p = Ok ())"
    for off first args p
    using layout_loop_not_Fault [of off first args p]
    by (cases "layout_loop off first args p") auto
  have loop: "valid (argument_loop ?n vs ?n []) (\<lambda>(first, args).
      (\<forall>a \<in> set args. wf_argument ?n a) \<and> first \<le> ?n \<and>
      (\<forall>a \<in> set args. hidden a \<longrightarrow> first \<le> ka_offset a) \<and>
      (first = ?n \<or> (\<exists>a \<in> set args. hidden a \<and> first = ka_offset a)))" for vs
    by (rule argument_loop_valid) auto
  show ?thesis
  proof (cases "find_field v ''.args''")
    case None
    with none assms show ?thesis by (cases k) (simp add: decode_kernel_arguments_def)
  next
    case (Some arguments)
    have "valid (obind (argument_loop ?n (mp_array arguments) ?n []) (\<lambda>(first_hidden, args).
        obind (layout_loop (mp_offset arguments) first_hidden (std_sort argument_before args) 0) (\<lambda>_.
          Ok (k\<lparr>ki_arguments := std_sort argument_before args,
                ki_explicit_argument_size := first_hidden\<rparr>))))
      (\<lambda>k'.
    k' = k\<lparr>ki_arguments := ki_arguments k', ki_explicit_argument_size := ki_explicit_argument_size k'\<rparr> \<and>
    wf_arguments (ki_kernarg_size k) (ki_explicit_argument_size k') (ki_arguments k'))"
      by (rule valid_obindI [OF loop], clarify, rule valid_obindI [OF layout])
        (simp add: some)
    with Some assms show ?thesis by (simp add: decode_kernel_arguments_def Let_def del: valid_obind)
  qed
qed

section \<open>Accepted documents\<close>

definition wf_kernel :: "KernelInfo \<Rightarrow> bool" where
  "wf_kernel k \<longleftrightarrow> ki_name k \<noteq> [] \<and> has_descriptor_suffix (ki_symbol_name k) \<and>
     is_power_of_two (ki_metadata_kernarg_alignment k) \<and>
     ki_kernarg_alignment k = max (ki_metadata_kernarg_alignment k) 16 \<and>
     ki_wavefront_size k \<in> {32, 64} \<and>
     wf_arguments (ki_kernarg_size k) (ki_explicit_argument_size k) (ki_arguments k)"

lemma decode_kernel_names_valid:
  "valid (decode_kernel_names v) (\<lambda>k. ki_name k \<noteq> [] \<and> has_descriptor_suffix (ki_symbol_name k) \<and>
     ki_arguments k = [])"
  by (auto simp: decode_kernel_names_def Let_def default_KernelInfo_def)

lemma field_offset_not_Fault: "metadata_uint32 v name = Ok u \<Longrightarrow> field_offset v name \<noteq> Fault"
  using metadata_uint32_Some [of v name u] by (auto simp: field_offset_def)

lemma decode_kernel_integers_valid:
  "valid (decode_kernel_integers v k) (\<lambda>k'. ki_name k' = ki_name k \<and>
     ki_symbol_name k' = ki_symbol_name k \<and> ki_arguments k' = ki_arguments k \<and>
     is_power_of_two (ki_metadata_kernarg_alignment k') \<and>
     ki_kernarg_alignment k' = max (ki_metadata_kernarg_alignment k') 16 \<and>
     ki_wavefront_size k' \<in> {32, 64})"
  unfolding decode_kernel_integers_def valid_obind
  by (intro metadata_uint32_valid valid_IfI) (simp_all add: field_offset_not_Fault)

lemma decode_kernel_valid:
  "valid (decode_kernel v) (\<lambda>k. wf_kernel (mk_info k))"
proof -
  have args: "valid (decode_kernel_arguments v k2)
      (\<lambda>k3. \<forall>b. wf_kernel (k3\<lparr>ki_uses_dynamic_stack := b\<rparr>))"
    if "ki_name k2 \<noteq> []" "has_descriptor_suffix (ki_symbol_name k2)" "ki_arguments k2 = []"
      "is_power_of_two (ki_metadata_kernarg_alignment k2)"
      "ki_kernarg_alignment k2 = max (ki_metadata_kernarg_alignment k2) 16"
      "ki_wavefront_size k2 \<in> {32, 64}" for k2
  proof (rule valid_weaken [OF decode_kernel_arguments_valid [OF that(3)]], elim conjE, intro allI)
    fix k3 b
    assume k3: "k3 = k2\<lparr>ki_arguments := ki_arguments k3, ki_explicit_argument_size := ki_explicit_argument_size k3\<rparr>"
      and "wf_arguments (ki_kernarg_size k2) (ki_explicit_argument_size k3) (ki_arguments k3)"
    moreover obtain args split where
      "k3 = k2\<lparr>ki_arguments := args, ki_explicit_argument_size := split\<rparr>"
      using k3 by blast
    ultimately show "wf_kernel (k3\<lparr>ki_uses_dynamic_stack := b\<rparr>)"
      using that by (simp add: wf_kernel_def)
  qed
  show ?thesis
    unfolding decode_kernel_def
    by (intro valid_IfI valid_failure valid_obindI [OF decode_kernel_names_valid]
        valid_obindI [OF decode_kernel_integers_valid] valid_obindI [OF args]) auto
qed

definition wf_metadata_kernels :: "KernelInfo list \<Rightarrow> bool" where
  "wf_metadata_kernels ks \<longleftrightarrow> (\<forall>k \<in> set ks. wf_kernel k) \<and>
     distinct (map ki_name ks) \<and> distinct (map ki_symbol_name ks)"

lemma kernel_loop_valid:
  "valid (kernel_loop vs names symbols) (\<lambda>ks. length ks = length vs \<and>
     wf_metadata_kernels (map mk_info ks) \<and>
     (\<forall>k \<in> set ks. ki_name (mk_info k) \<notin> set names \<and> ki_symbol_name (mk_info k) \<notin> set symbols))"
proof (induction vs arbitrary: names symbols)
  case (Cons v vs)
  show ?case
    unfolding kernel_loop.simps
    by (rule valid_obindI [OF decode_kernel_valid])
      (auto simp: wf_metadata_kernels_def intro!: valid_weaken [OF Cons.IH])
qed (simp add: wf_metadata_kernels_def)

lemma decode_version_valid:
  "valid (decode_version root) (\<lambda>version. version = \<lparr>mv_major = 1, mv_minor = 2\<rparr>)"
  by (simp add: decode_version_def split: option.split)

definition supported_isa :: "string \<Rightarrow> bool" where
  "supported_isa s \<longleftrightarrow> s \<in> {''amdgcn-amd-amdhsa--gfx1101'', ''amdgcn-amd-amdhsa-unknown-gfx1101''}"

lemma decode_target_valid: "valid (decode_target root) supported_isa"
  by (simp only: decode_target_def valid_obind required_field_valid valid_guard valid.simps
      supported_isa_def) blast

lemma decode_metadata_document_valid:
  "valid (decode_metadata_document root) (\<lambda>(version, target, ks).
     version = \<lparr>mv_major = 1, mv_minor = 2\<rparr> \<and>
     supported_isa target \<and>
     ks \<noteq> [] \<and> wf_metadata_kernels (map mk_info ks))"
proof -
  have kernels: "valid (obind (required_field root ''amdhsa.kernels'' KArray) (\<lambda>kernel_array.
      if mp_array kernel_array = [] then failure InvalidMetadata (mp_offset kernel_array)
      else obind (kernel_loop (mp_array kernel_array) [] []) (\<lambda>ks. Ok (version, target, ks))))
     (\<lambda>(version', target', ks). version' = version \<and> target' = target \<and>
       ks \<noteq> [] \<and> wf_metadata_kernels (map mk_info ks))" for version target
    by (auto intro!: valid_weaken [OF kernel_loop_valid])
  show ?thesis
    unfolding decode_metadata_document_def
    by (intro valid_IfI valid_failure valid_obindI [OF decode_version_valid]
        valid_obindI [OF decode_target_valid] valid_weaken [OF kernels]) auto
qed

end
