(* ===== verification/DynamicTable.thy ===== *)
theory DynamicTable
  imports ElfReader
begin

text \<open>
  The parts the two readers of the PT_DYNAMIC segment share: \<open>virtual_address_to_file\<close>, the scan of
  the program headers for PT_DYNAMIC and the loop over the dynamic entries
  (\<open>read_dynamic_info\<close> of \<open>metadata_reader.cpp\<close> and \<open>read_dynamic_relocation_info\<close> of
  \<open>load_plan_reader.cpp\<close>, which have the same text up to the \<open>switch\<close> on the tag). The \<open>switch\<close> is
  the argument \<open>handle\<close> of \<open>dynamic_loop\<close>, instantiated by each reader. The segment size is a
  multiple of the entry size when the loop starts, so the loop is counted by entries.
\<close>

section \<open>Addresses and file ranges\<close>

primrec virtual_address_to_file :: "LoadSegment list \<Rightarrow> u64 \<Rightarrow> u64 \<Rightarrow> u64 option" where
  "virtual_address_to_file [] address len = None"
| "virtual_address_to_file (s # segs) address len =
     (if address < ls_virtual_address s then virtual_address_to_file segs address len
      else
      let delta = address - ls_virtual_address s in
      if delta \<le> ls_file_size s \<and> len \<le> ls_file_size s - delta
      then Some (ls_file_offset s + delta)
      else virtual_address_to_file segs address len)"

lemma delta_test:
  assumes "\<not> a < (v :: u64)"
  shows "(a - v \<le> f \<and> l \<le> f - (a - v)) \<longleftrightarrow> unat a + unat l \<le> unat v + unat f"
proof -
  have "unat (a - v) = unat a - unat v" and "unat v \<le> unat a"
    using assms by (auto simp: unat_sub not_less word_le_nat_alt)
  then show ?thesis by (subst range_test) auto
qed

text \<open>\<open>file_backed segs a l s\<close>: the bytes \<open>[a, a + l)\<close> lie in the file part of \<open>s\<close>.\<close>

definition file_backed :: "LoadSegment list \<Rightarrow> u64 \<Rightarrow> u64 \<Rightarrow> LoadSegment \<Rightarrow> bool" where
  "file_backed segs a l s \<longleftrightarrow> s \<in> set segs \<and> unat (ls_virtual_address s) \<le> unat a \<and>
     unat a + unat l \<le> unat (ls_virtual_address s) + unat (ls_file_size s)"

lemma virtual_address_to_file_None:
  "virtual_address_to_file segs a l = None \<longleftrightarrow> (\<forall>s. \<not> file_backed segs a l s)"
  by (induction segs)
    (auto simp: file_backed_def Let_def delta_test word_less_nat_alt not_less)

lemma virtual_address_to_file_Some:
  assumes "virtual_address_to_file segs a l = Some off"
    and "\<forall>s \<in> set segs. wf_segment n s" and "n < 2 ^ 64"
  shows "\<exists>s. file_backed segs a l s \<and>
    unat off = unat (ls_file_offset s) + (unat a - unat (ls_virtual_address s)) \<and>
    unat off + unat l \<le> n"
  using assms(1,2)
proof (induction segs)
  case (Cons s segs)
  note test = delta_test [of a "ls_virtual_address s" "ls_file_size s" l]
  show ?case
  proof (cases "\<not> a < ls_virtual_address s \<and> unat a + unat l \<le> unat (ls_virtual_address s) + unat (ls_file_size s)")
    case True
    with Cons.prems(1) test have off: "off = ls_file_offset s + (a - ls_virtual_address s)"
      by (simp add: Let_def)
    have delta: "unat (a - ls_virtual_address s) = unat a - unat (ls_virtual_address s)"
      and le: "unat (ls_virtual_address s) \<le> unat a"
      using True by (auto simp: unat_sub not_less word_le_nat_alt)
    have inside: "unat (ls_file_offset s) + unat (ls_file_size s) \<le> n"
      using Cons.prems(2) by (simp add: wf_segment_def)
    have "unat off = unat (ls_file_offset s) + unat (a - ls_virtual_address s)"
      unfolding off by (rule unat_add64) (use True delta le inside assms(3) in linarith)
    with True le delta inside show ?thesis
      by (intro exI [of _ s]) (auto simp: file_backed_def)
  next
    case False
    with Cons.prems(1) test have "virtual_address_to_file segs a l = Some off"
      by (auto simp: Let_def split: if_splits)
    with Cons show ?thesis by (auto simp: file_backed_def)
  qed
qed simp

lemma virtual_address_to_file_bound:
  assumes "virtual_address_to_file segs a l = Some off" and "wf_segments n segs" and "n < 2 ^ 64"
  shows "unat off + unat l \<le> n"
  using virtual_address_to_file_Some [OF assms(1) _ assms(3)] assms(2) by (auto simp: wf_segments_def)

section \<open>The PT_DYNAMIC segment\<close>

record DynamicValue =
  dv_present :: bool
  dv_value :: u64
  dv_file_offset :: u64

definition default_DynamicValue :: DynamicValue where
  "default_DynamicValue = \<lparr>dv_present = False, dv_value = 0, dv_file_offset = 0\<rparr>"

definition set_dynamic_value :: "DynamicValue \<Rightarrow> u64 \<Rightarrow> u64 \<Rightarrow> DynamicValue parsed" where
  "set_dynamic_value destination value file_offset =
     (if dv_present destination then failure InvalidDynamicTable file_offset
      else Ok \<lparr>dv_present = True, dv_value = value, dv_file_offset = file_offset\<rparr>)"

text \<open>The scan of the program headers: \<open>(dynamic_offset, dynamic_size)\<close> once it is found.\<close>

primrec dynamic_headers ::
  "bytes \<Rightarrow> u64 \<Rightarrow> u64 \<Rightarrow> u16 \<Rightarrow> nat \<Rightarrow> nat \<Rightarrow> (u64 \<times> u64) option \<Rightarrow> (u64 \<times> u64) option parsed"
where
  "dynamic_headers data fsize table entry_size i 0 found = Ok found"
| "dynamic_headers data fsize table entry_size i (Suc n) found =
     (let header_offset = header_entry_offset table entry_size i; header = unat header_offset in
      obind (read_u32 data header) (\<lambda>type.
      if type \<noteq> 2 then dynamic_headers data fsize table entry_size (i + 1) n found
      else if found \<noteq> None then failure DuplicateDynamicSegment header_offset
      else
      obind (read_u64 data (header + 8)) (\<lambda>dynamic_offset.
      obind (read_u64 data (header + 32)) (\<lambda>dynamic_size.
      if \<not> range_is_in_file dynamic_offset dynamic_size fsize \<or> dynamic_size = 0 \<or>
         dynamic_size mod 16 \<noteq> 0
      then failure InvalidDynamicTable (header_offset + 8)
      else dynamic_headers data fsize table entry_size (i + 1) n
             (Some (dynamic_offset, dynamic_size))))))"

definition find_dynamic_segment :: "bytes \<Rightarrow> u64 \<Rightarrow> (u64 \<times> u64) option parsed" where
  "find_dynamic_segment data fsize =
     obind (read_u64 data 32) (\<lambda>program_header_offset.
     obind (read_u16 data 54) (\<lambda>entry_size.
     obind (read_u16 data 56) (\<lambda>cnt.
       dynamic_headers data fsize program_header_offset entry_size 0 (unat cnt) None)))"

text \<open>
  The loop over the entries from entry \<open>i\<close>, with \<open>n\<close> entries left: whether DT_NULL was found,
  and the information collected. \<open>handle\<close> is the \<open>switch\<close>: tag, value, offset of the entry.
\<close>

primrec dynamic_loop ::
  "(int \<Rightarrow> u64 \<Rightarrow> u64 \<Rightarrow> 'i \<Rightarrow> 'i parsed) \<Rightarrow> bytes \<Rightarrow> u64 \<Rightarrow> nat \<Rightarrow> nat \<Rightarrow> 'i \<Rightarrow> (bool \<times> 'i) parsed"
where
  "dynamic_loop handle data dynamic_offset i 0 info = Ok (False, info)"
| "dynamic_loop handle data dynamic_offset i (Suc n) info =
     (let file_offset = dynamic_offset + of_nat i * 16; entry = unat file_offset in
      obind (read_i64 data entry) (\<lambda>tag.
      obind (read_u64 data (entry + 8)) (\<lambda>value.
      if tag = 0 then Ok (True, info)
      else
      obind (handle tag value file_offset info) (\<lambda>info'.
        dynamic_loop handle data dynamic_offset (i + 1) n info'))))"

definition read_dynamic_entries ::
  "(int \<Rightarrow> u64 \<Rightarrow> u64 \<Rightarrow> 'i \<Rightarrow> 'i parsed) \<Rightarrow> bytes \<Rightarrow> u64 \<Rightarrow> u64 \<Rightarrow> 'i \<Rightarrow> 'i parsed" where
  "read_dynamic_entries handle data dynamic_offset dynamic_size info =
     obind (dynamic_loop handle data dynamic_offset 0 (unat (dynamic_size div 16)) info)
       (\<lambda>(found_null, info').
          if \<not> found_null then failure InvalidDynamicTable dynamic_offset else Ok info')"

text \<open>A segment found is a whole number of entries inside the code object.\<close>

definition dynamic_ok :: "bytes \<Rightarrow> (u64 \<times> u64) option \<Rightarrow> bool" where
  "dynamic_ok data found \<longleftrightarrow>
     (\<forall>off sz. found = Some (off, sz) \<longrightarrow> unat off + unat sz \<le> length data)"

lemma set_dynamic_value_not_Fault [simp]: "set_dynamic_value d v off \<noteq> Fault"
  by (simp add: set_dynamic_value_def)

lemma dynamic_headers_valid:
  assumes "unat fsize = length data" and "unat table + 56 * (i + n) \<le> length data"
    and "dynamic_ok data found"
  shows "valid (dynamic_headers data fsize table 56 i n found) (dynamic_ok data)"
  using assms(2,3)
proof (induction n arbitrary: i found)
  case (Suc n)
  have entry: "unat (header_entry_offset table 56 i) = unat table + 56 * i"
    using Suc.prems(1) assms(1) unat_u64_less [of fsize]
    by (intro unat_header_entry_offset [where n = "Suc i"]) auto
  have rest: "valid (dynamic_headers data fsize table 56 (Suc i) n f) (dynamic_ok data)"
    if "dynamic_ok data f" for f
    using Suc.prems(1) that by (intro Suc.IH) auto
  show ?case
    using Suc.prems assms(1)
    by (auto simp: Let_def entry range_is_in_file_iff intro!: rest) (auto simp: dynamic_ok_def)
qed simp

lemma find_dynamic_segment_valid:
  assumes "unat fsize = length data" and "elf_ok data"
  shows "valid (find_dynamic_segment data fsize) (dynamic_ok data)"
proof -
  have "valid (dynamic_headers data fsize (u64_at data 32) 56 0 (unat (u16_at data 56)) None) (dynamic_ok data)"
    using assms by (intro dynamic_headers_valid) (auto simp: elf_ok_def dynamic_ok_def)
  with assms show ?thesis by (simp add: find_dynamic_segment_def elf_ok_def)
qed

text \<open>An invariant of the collected information that the \<open>switch\<close> keeps, the loop keeps.\<close>

lemma dynamic_loop_valid:
  assumes "\<And>tag value off info. I info \<Longrightarrow> valid (handle tag value off info) I"
    and "unat dynamic_offset + 16 * (i + n) \<le> length data" and "length data < 2 ^ 64" and "I info"
  shows "valid (dynamic_loop handle data dynamic_offset i n info) (\<lambda>(found, info'). I info')"
  using assms(2,4)
proof (induction n arbitrary: i info)
  case (Suc n)
  have entry: "unat (dynamic_offset + of_nat i * 16) = unat dynamic_offset + 16 * i"
    using Suc.prems(1) assms(3) unat_table_entry [of dynamic_offset 16 i] by simp
  have rest: "valid (dynamic_loop handle data dynamic_offset (Suc i) n info') (\<lambda>(found, info'). I info')"
    if "I info'" for info'
    using Suc.prems(1) that by (intro Suc.IH) auto
  show ?case
    using Suc.prems
    by (auto simp: Let_def entry simp del: valid_obind
        intro!: valid_obindI [OF assms(1)] rest)
qed simp

lemma read_dynamic_entries_valid:
  assumes "\<And>tag value off info. I info \<Longrightarrow> valid (handle tag value off info) I"
    and "unat dynamic_offset + unat dynamic_size \<le> length data" and "length data < 2 ^ 64" and "I info"
  shows "valid (read_dynamic_entries handle data dynamic_offset dynamic_size info) I"
proof -
  have "unat (dynamic_size div 16) * 16 \<le> unat dynamic_size"
    by (simp add: unat_div)
  then have "unat dynamic_offset + 16 * (0 + unat (dynamic_size div 16)) \<le> length data"
    using assms(2) by simp
  then have "valid (dynamic_loop handle data dynamic_offset 0 (unat (dynamic_size div 16)) info)
      (\<lambda>(found, info'). I info')"
    using assms by (intro dynamic_loop_valid [where I = I])
  then show ?thesis
    unfolding read_dynamic_entries_def by (auto intro: valid_weaken)
qed

end
