(* ===== verification/Symbols.thy ===== *)
theory Symbols
  imports Metadata DynamicTable
begin

text \<open>
  The dynamic symbols and the kernel descriptors: \<open>read_dynamic_info\<close> .. \<open>decode_amdhsa_metadata\<close> of
  \<open>light-rocr/loader/metadata_reader.cpp\<close>.

  The lemmas show that no table is read outside the code object, that \<open>find_kernel_symbol\<close> (a
  binary search in the sorted symbols) succeeds exactly on a name that is defined once, and that
  every decoded kernel is resident: its descriptor is backed by the file part of a segment, agrees
  with the metadata, and its entry point lies in the file part of an executable segment.
\<close>

section \<open>Dynamic information\<close>

record DynamicInfo =
  di_symbol_table :: DynamicValue
  di_symbol_entry_size :: DynamicValue
  di_string_table :: DynamicValue
  di_string_table_size :: DynamicValue
  di_hash_table :: DynamicValue

definition default_DynamicInfo :: DynamicInfo where
  "default_DynamicInfo =
     \<lparr>di_symbol_table = default_DynamicValue, di_symbol_entry_size = default_DynamicValue,
      di_string_table = default_DynamicValue, di_string_table_size = default_DynamicValue,
      di_hash_table = default_DynamicValue\<rparr>"

definition handle_dynamic_info :: "int \<Rightarrow> u64 \<Rightarrow> u64 \<Rightarrow> DynamicInfo \<Rightarrow> DynamicInfo parsed" where
  "handle_dynamic_info tag value file_offset info =
     (if tag = 4
      then obind (set_dynamic_value (di_hash_table info) value (file_offset + 8))
             (\<lambda>v. Ok (info\<lparr>di_hash_table := v\<rparr>))
      else if tag = 5
      then obind (set_dynamic_value (di_string_table info) value (file_offset + 8))
             (\<lambda>v. Ok (info\<lparr>di_string_table := v\<rparr>))
      else if tag = 6
      then obind (set_dynamic_value (di_symbol_table info) value (file_offset + 8))
             (\<lambda>v. Ok (info\<lparr>di_symbol_table := v\<rparr>))
      else if tag = 10
      then obind (set_dynamic_value (di_string_table_size info) value (file_offset + 8))
             (\<lambda>v. Ok (info\<lparr>di_string_table_size := v\<rparr>))
      else if tag = 11
      then obind (set_dynamic_value (di_symbol_entry_size info) value (file_offset + 8))
             (\<lambda>v. Ok (info\<lparr>di_symbol_entry_size := v\<rparr>))
      else Ok info)"

definition read_dynamic_info :: "bytes \<Rightarrow> u64 \<Rightarrow> DynamicInfo parsed" where
  "read_dynamic_info data fsize =
     obind (find_dynamic_segment data fsize) (\<lambda>found.
     case found of
       None \<Rightarrow> failure MissingDynamicSegment 32
     | Some (dynamic_offset, dynamic_size) \<Rightarrow>
       obind (read_dynamic_entries handle_dynamic_info data dynamic_offset dynamic_size
                default_DynamicInfo) (\<lambda>info.
       if \<not> dv_present (di_hash_table info) \<or> \<not> dv_present (di_string_table info) \<or>
          \<not> dv_present (di_string_table_size info) \<or> \<not> dv_present (di_symbol_table info) \<or>
          \<not> dv_present (di_symbol_entry_size info)
       then failure MissingDynamicEntry dynamic_offset
       else if dv_value (di_symbol_entry_size info) \<noteq> 24
       then failure InvalidSymbolTable (dv_file_offset (di_symbol_entry_size info))
       else Ok info))"

section \<open>Symbols\<close>

text \<open>\<open>memchr(begin, 0, n)\<close> and the string before the terminator.\<close>

primrec read_terminated :: "bytes \<Rightarrow> nat \<Rightarrow> nat \<Rightarrow> string option parsed" where
  "read_terminated data p 0 = Ok None"
| "read_terminated data p (Suc n) =
     obind (rd8 data p) (\<lambda>b.
       if b = 0 then Ok (Some [])
       else obind (read_terminated data (p + 1) n) (\<lambda>r.
              Ok (map_option (\<lambda>cs. char_of_byte b # cs) r)))"

definition read_string :: "bytes \<Rightarrow> u64 \<Rightarrow> u64 \<Rightarrow> u32 \<Rightarrow> string option parsed" where
  "read_string data table_offset table_size name_offset =
     (if ucast name_offset \<ge> table_size then Ok None
      else read_terminated data (unat (table_offset + ucast name_offset))
             (unat (table_size - ucast name_offset)))"

record Symbol =
  sy_value :: u64
  sy_size :: u64
  sy_section_index :: u16
  sy_type :: u8
  sy_file_offset :: u64

record NamedSymbol =
  ns_name :: string
  ns_symbol :: Symbol

primrec symbol_loop ::
  "bytes \<Rightarrow> u64 \<Rightarrow> u64 \<Rightarrow> u64 \<Rightarrow> nat \<Rightarrow> nat \<Rightarrow> NamedSymbol list parsed" where
  "symbol_loop data symbol_table_offset string_table_offset string_table_size i 0 = Ok []"
| "symbol_loop data symbol_table_offset string_table_offset string_table_size i (Suc n) =
     (let entry_offset = symbol_table_offset + of_nat i * 24; entry = unat entry_offset in
      obind (read_u32 data entry) (\<lambda>name_offset.
      obind (read_string data string_table_offset string_table_size name_offset) (\<lambda>r.
      case r of
        None \<Rightarrow> failure InvalidStringTable entry_offset
      | Some name \<Rightarrow>
        obind (read_u64 data (entry + 8)) (\<lambda>value.
        obind (read_u64 data (entry + 16)) (\<lambda>sz.
        obind (read_u16 data (entry + 6)) (\<lambda>section_index.
        obind (rd8 data (entry + 4)) (\<lambda>inf.
        obind (symbol_loop data symbol_table_offset string_table_offset string_table_size
                 (i + 1) n) (\<lambda>rest.
          Ok (\<lparr>ns_name = name,
               ns_symbol = \<lparr>sy_value = value, sy_size = sz, sy_section_index = section_index,
                            sy_type = inf AND 0x0f, sy_file_offset = entry_offset\<rparr>\<rparr> # rest)))))))))"

definition symbol_before :: "NamedSymbol \<Rightarrow> NamedSymbol \<Rightarrow> bool" where
  "symbol_before lhs rhs =
     (if ns_name lhs \<noteq> ns_name rhs then ns_name lhs < ns_name rhs
      else sy_file_offset (ns_symbol lhs) < sy_file_offset (ns_symbol rhs))"

text \<open>The sizes DT_HASH gives: the number of symbols, after the table itself is checked.\<close>

definition hash_symbol_count ::
  "bytes \<Rightarrow> LoadSegment list \<Rightarrow> DynamicValue \<Rightarrow> u32 parsed" where
  "hash_symbol_count data segs hash =
     (case virtual_address_to_file segs (dv_value hash) 8 of
        None \<Rightarrow> failure InvalidDynamicTable (dv_file_offset hash)
      | Some hash_offset \<Rightarrow>
        obind (read_u32 data (unat hash_offset)) (\<lambda>bucket_count.
        obind (read_u32 data (unat (hash_offset + 4))) (\<lambda>symbol_count.
        if bucket_count = 0 then failure InvalidDynamicTable (dv_file_offset hash)
        else
        let hash_word_count = ucast bucket_count + ucast symbol_count :: u64;
            hash_size = 8 + hash_word_count * 4 in
        case virtual_address_to_file segs (dv_value hash) hash_size of
          None \<Rightarrow> failure InvalidDynamicTable (dv_file_offset hash)
        | Some _ \<Rightarrow> Ok symbol_count)))"

definition read_dynamic_symbols ::
  "bytes \<Rightarrow> u64 \<Rightarrow> LoadSegment list \<Rightarrow> NamedSymbol list parsed" where
  "read_dynamic_symbols data fsize segs =
     obind (read_dynamic_info data fsize) (\<lambda>dynamic.
     obind (hash_symbol_count data segs (di_hash_table dynamic)) (\<lambda>symbol_count.
     case virtual_address_to_file segs (dv_value (di_symbol_table dynamic))
            (ucast symbol_count * 24) of
       None \<Rightarrow> failure InvalidSymbolTable (dv_file_offset (di_symbol_table dynamic))
     | Some symbol_table_offset \<Rightarrow>
       if dv_value (di_string_table_size dynamic) = 0
       then failure InvalidStringTable (dv_file_offset (di_string_table dynamic))
       else
       case virtual_address_to_file segs (dv_value (di_string_table dynamic))
              (dv_value (di_string_table_size dynamic)) of
         None \<Rightarrow> failure InvalidStringTable (dv_file_offset (di_string_table dynamic))
       | Some string_table_offset \<Rightarrow>
         obind (symbol_loop data symbol_table_offset string_table_offset
                  (dv_value (di_string_table_size dynamic)) 0 (unat symbol_count)) (\<lambda>symbols.
           Ok (std_sort symbol_before symbols))))"

definition find_kernel_symbol :: "NamedSymbol list \<Rightarrow> MetadataKernel \<Rightarrow> Symbol parsed" where
  "find_kernel_symbol symbols kern =
     (let name = ki_symbol_name (mk_info kern);
          found = lower_bound (\<lambda>candidate n. ns_name candidate < n) symbols name in
      if found = length symbols \<or> ns_name (symbols ! found) \<noteq> name
      then failure MissingKernelSymbol (mk_metadata_offset kern)
      else if found + 1 \<noteq> length symbols \<and> ns_name (symbols ! (found + 1)) = name
      then failure InvalidKernelSymbol (sy_file_offset (ns_symbol (symbols ! (found + 1))))
      else
      let symbol = ns_symbol (symbols ! found) in
      if sy_type symbol \<noteq> 1 \<or> sy_section_index symbol = 0 \<or> sy_section_index symbol \<ge> 0xff00 \<or>
         sy_size symbol \<noteq> 64
      then failure InvalidKernelSymbol (sy_file_offset symbol)
      else Ok symbol)"

section \<open>Kernel descriptors\<close>

primrec address_has_executable_bytes :: "LoadSegment list \<Rightarrow> u64 \<Rightarrow> bool" where
  "address_has_executable_bytes [] address = False"
| "address_has_executable_bytes (s # segs) address =
     (if ls_flags s AND 1 = 0 \<or> address < ls_virtual_address s
      then address_has_executable_bytes segs address
      else if address - ls_virtual_address s < ls_file_size s then True
      else address_has_executable_bytes segs address)"

definition add_signed_offset :: "u64 \<Rightarrow> int \<Rightarrow> u64 option" where
  "add_signed_offset base offset =
     (if offset \<ge> 0 then checked_add base (of_int offset)
      else
      let magnitude = 0 - of_int offset in
      if magnitude > base then None else Some (base - magnitude))"

text \<open>\<open>std::all_of(p, p + n, is_zero)\<close>\<close>

primrec all_zero :: "bytes \<Rightarrow> nat \<Rightarrow> nat \<Rightarrow> bool parsed" where
  "all_zero data p 0 = Ok True"
| "all_zero data p (Suc n) =
     obind (rd8 data p) (\<lambda>b. if b = 0 then all_zero data (p + 1) n else Ok False)"

definition descriptor_reserved_ok :: "bytes \<Rightarrow> u64 \<Rightarrow> nat \<Rightarrow> bool parsed" where
  "descriptor_reserved_ok data address descriptor =
     (if address mod 64 \<noteq> 0 then Ok False
      else
      obind (all_zero data (descriptor + 12) 4) (\<lambda>z1.
      if \<not> z1 then Ok False
      else
      obind (all_zero data (descriptor + 24) 20) (\<lambda>z2.
      if \<not> z2 then Ok False
      else all_zero data (descriptor + 60) 4)))"

definition decode_descriptor_entry ::
  "bytes \<Rightarrow> LoadSegment list \<Rightarrow> Symbol \<Rightarrow> u64 \<Rightarrow> KernelInfo \<Rightarrow> KernelInfo parsed" where
  "decode_descriptor_entry data segs symbol descriptor_offset kern =
     obind (read_i64 data (unat descriptor_offset + 16)) (\<lambda>entry_offset.
     case add_signed_offset (sy_value symbol) entry_offset of
       None \<Rightarrow> failure KernelEntryOutOfBounds (descriptor_offset + 16)
     | Some address \<Rightarrow>
         if \<not> address_has_executable_bytes segs address
         then failure KernelEntryOutOfBounds (descriptor_offset + 16)
         else Ok (kern\<lparr>ki_descriptor_virtual_address := sy_value symbol,
                       ki_code_entry_byte_offset := entry_offset,
                       ki_code_entry_virtual_address := address\<rparr>))"

definition decode_descriptor_properties :: "bytes \<Rightarrow> u64 \<Rightarrow> KernelInfo \<Rightarrow> KernelInfo parsed" where
  "decode_descriptor_properties data descriptor_offset kern =
     (let descriptor = unat descriptor_offset in
      obind (read_u32 data (descriptor + 44)) (\<lambda>rsrc3.
      obind (read_u32 data (descriptor + 48)) (\<lambda>rsrc1.
      obind (read_u32 data (descriptor + 52)) (\<lambda>rsrc2.
      obind (read_u16 data (descriptor + 56)) (\<lambda>properties.
      obind (read_u16 data (descriptor + 58)) (\<lambda>preload.
      if properties AND NOT 0x0c7f \<noteq> 0
      then failure InvalidKernelDescriptor (descriptor_offset + 56)
      else
      let wavefront = (if properties AND 0x400 \<noteq> 0 then 32 else 64);
          dynamic_stack = (properties AND 0x800 \<noteq> 0) in
      if wavefront \<noteq> ki_wavefront_size kern \<or> dynamic_stack \<noteq> ki_uses_dynamic_stack kern
      then failure KernelMetadataMismatch (descriptor_offset + 56)
      else Ok (kern\<lparr>ki_compute_pgm_rsrc3 := rsrc3, ki_compute_pgm_rsrc1 := rsrc1,
                    ki_compute_pgm_rsrc2 := rsrc2, ki_kernel_code_properties := properties,
                    ki_kernarg_preload := preload\<rparr>)))))))"

definition decode_kernel_descriptor ::
  "bytes \<Rightarrow> LoadSegment list \<Rightarrow> Symbol \<Rightarrow> KernelInfo \<Rightarrow> KernelInfo parsed" where
  "decode_kernel_descriptor data segs symbol kern =
     (case virtual_address_to_file segs (sy_value symbol) 64 of
        None \<Rightarrow> failure KernelDescriptorOutOfBounds (sy_file_offset symbol)
      | Some descriptor_offset \<Rightarrow>
        let descriptor = unat descriptor_offset in
        obind (descriptor_reserved_ok data (sy_value symbol) descriptor) (\<lambda>ok.
        if \<not> ok then failure InvalidKernelDescriptor descriptor_offset
        else
        obind (decode_descriptor_entry data segs symbol descriptor_offset kern) (\<lambda>kern1.
        obind (read_u32 data descriptor) (\<lambda>descriptor_group.
        obind (read_u32 data (descriptor + 4)) (\<lambda>descriptor_private.
        obind (read_u32 data (descriptor + 8)) (\<lambda>descriptor_kernarg.
        if descriptor_group \<noteq> ki_group_segment_size kern1 \<or>
           descriptor_private \<noteq> ki_private_segment_size kern1 \<or>
           descriptor_kernarg \<noteq> ki_kernarg_size kern1
        then failure KernelMetadataMismatch descriptor_offset
        else decode_descriptor_properties data descriptor_offset kern1))))))"

primrec descriptor_loop ::
  "bytes \<Rightarrow> LoadSegment list \<Rightarrow> NamedSymbol list \<Rightarrow> MetadataKernel list \<Rightarrow> KernelInfo list parsed"
where
  "descriptor_loop data segs symbols [] = Ok []"
| "descriptor_loop data segs symbols (k # ks) =
     obind (find_kernel_symbol symbols k) (\<lambda>symbol.
     obind (decode_kernel_descriptor data segs symbol (mk_info k)) (\<lambda>inf.
     obind (descriptor_loop data segs symbols ks) (\<lambda>infs. Ok (inf # infs))))"

definition decode_amdhsa_metadata :: "bytes \<Rightarrow> u64 \<Rightarrow> CodeObject \<Rightarrow> CodeObject parsed" where
  "decode_amdhsa_metadata data fsize code_object =
     obind (find_metadata_note data fsize) (\<lambda>note.
     case note of
       None \<Rightarrow> Ok code_object
     | Some metadata \<Rightarrow>
       obind (parse_document data metadata) (\<lambda>root.
       obind (decode_metadata_document root) (\<lambda>(metadata_version, target_isa, kernels).
       obind (read_dynamic_symbols data fsize (co_load_segments code_object)) (\<lambda>symbols.
       obind (descriptor_loop data (co_load_segments code_object) symbols kernels)
         (\<lambda>decoded_kernels.
            Ok (code_object\<lparr>co_metadata_version := metadata_version, co_target_isa := target_isa,
                            co_kernels := decoded_kernels, co_has_metadata := True\<rparr>))))))"

section \<open>The tables stay inside the code object\<close>

lemma handle_dynamic_info_valid:
  "valid (handle_dynamic_info tag value off info) (\<lambda>_. True)"
  by (simp add: handle_dynamic_info_def)

lemma read_dynamic_info_valid:
  assumes "unat fsize = length data" and "elf_ok data"
  shows "read_dynamic_info data fsize \<noteq> Fault"
proof -
  have "valid (read_dynamic_entries handle_dynamic_info data off sz info) (\<lambda>_. True)"
    if "dynamic_ok data (Some (off, sz))" for off sz info
    using that assms(2)
    by (intro read_dynamic_entries_valid handle_dynamic_info_valid) (auto simp: dynamic_ok_def elf_ok_def)
  then have "valid (read_dynamic_info data fsize) (\<lambda>_. True)"
    unfolding read_dynamic_info_def
    by (intro valid_obindI [OF find_dynamic_segment_valid [OF assms]])
      (auto split: option.split intro!: valid_weaken [where P = "\<lambda>_. True"])
  then show ?thesis by simp
qed

lemma read_terminated_Ok:
  assumes "p + n \<le> length data"
  shows "read_terminated data p n =
    Ok (if 0 \<in> set (take n (drop p data))
        then Some (map char_of_byte (takeWhile (\<lambda>b. b \<noteq> 0) (drop p data))) else None)"
  using assms
proof (induction n arbitrary: p)
  case (Suc n)
  then have "drop p data = data ! p # drop (Suc p) data"
    by (simp add: Cons_nth_drop_Suc)
  with Suc show ?case by auto
qed simp

lemma read_string_valid:
  assumes "unat table_offset + unat table_size \<le> length data" and "length data < 2 ^ 64"
  shows "read_string data table_offset table_size name_offset \<noteq> Fault"
proof (cases "ucast name_offset \<ge> table_size")
  case False
  then have lt: "unat name_offset < unat table_size" by (simp add: word_le_nat_alt)
  then have "unat (table_offset + ucast name_offset) = unat table_offset + unat name_offset"
    using assms by (subst unat_add64) auto
  moreover have "unat (table_size - ucast name_offset) = unat table_size - unat name_offset"
    using False by (simp add: unat_sub)
  ultimately show ?thesis using False lt assms(1) by (simp add: read_string_def read_terminated_Ok)
qed (simp add: read_string_def)

lemma symbol_loop_valid:
  assumes "unat st + 24 * (i + n) \<le> length data" and "length data < 2 ^ 64"
    and "unat strings + unat sz \<le> length data"
  shows "valid (symbol_loop data st strings sz i n) (\<lambda>symbols. length symbols = n)"
  using assms(1)
proof (induction n arbitrary: i)
  case (Suc n)
  have entry: "unat (st + of_nat i * 24) = unat st + 24 * i"
    using Suc.prems(1) assms(2) unat_table_entry [of st 24 i] by simp
  have rest: "valid (symbol_loop data st strings sz (Suc i) n) (\<lambda>symbols. length symbols = n)"
    using Suc.prems(1) by (intro Suc.IH) auto
  have str: "valid (read_string data strings sz off) (\<lambda>_. True)" for off
    using read_string_valid [OF assms(3,2)] by simp
  show ?case
    using Suc.prems
    by (auto simp: Let_def entry simp del: valid_True_iff split: option.split
        intro!: valid_weaken [OF str] valid_weaken [OF rest])
qed simp

lemma unat_hash_offset:
  assumes "unat off + 8 \<le> n" and "n < 2 ^ 64"
  shows "unat (off + 4 :: u64) = unat off + 4"
  using assms unat_add64 [of off 4] by simp

lemma hash_symbol_count_valid:
  assumes "wf_segments (length data) segs" and "length data < 2 ^ 64"
  shows "hash_symbol_count data segs hash \<noteq> Fault"
proof (cases "virtual_address_to_file segs (dv_value hash) 8")
  case (Some off)
  from virtual_address_to_file_bound [OF this assms] have "unat off + 8 \<le> length data" by simp
  with unat_hash_offset [OF this assms(2)] Some show ?thesis
    by (simp add: hash_symbol_count_def Let_def split: option.split)
qed (simp add: hash_symbol_count_def)

lemma unat_mul24: "unat (ucast (n :: u32) * 24 :: u64) = 24 * unat n"
  using unat_u32_less [of n] by (simp add: unat_word_ariths)

interpretation symbol_order: strict_weak_order symbol_before
  unfolding symbol_before_def [abs_def] by (rule key_order2)

definition symbols_sorted :: "NamedSymbol list \<Rightarrow> bool" where
  "symbols_sorted symbols \<longleftrightarrow> sorted (map ns_name symbols)"

lemma std_sort_symbols_sorted: "symbols_sorted (std_sort symbol_before symbols)"
  unfolding symbols_sorted_def sorted_map
  by (rule sorted_wrt_mono_rel [OF _ symbol_order.sort_sorted])
    (auto simp: symbol_before_def split: if_splits)

lemma read_dynamic_symbols_valid:
  assumes "unat fsize = length data" and "elf_ok data" and "wf_segments (length data) segs"
  shows "valid (read_dynamic_symbols data fsize segs) symbols_sorted"
proof -
  have len: "length data < 2 ^ 64" using assms(2) by (simp add: elf_ok_def)
  note bound = virtual_address_to_file_bound [OF _ assms(3) len]
  have info: "valid (read_dynamic_info data fsize) (\<lambda>_. True)"
    using read_dynamic_info_valid [OF assms(1,2)] by simp
  have cnt: "valid (hash_symbol_count data segs hash) (\<lambda>_. True)" for hash
    using hash_symbol_count_valid [OF assms(3) len] by simp
  have loop: "valid (symbol_loop data st strings sz 0 (unat n)) (\<lambda>symbols. symbols_sorted (std_sort symbol_before symbols))"
    if "virtual_address_to_file segs a (ucast n * 24) = Some st"
      "virtual_address_to_file segs b sz = Some strings" for a b st strings sz and n :: u32
    using bound [OF that(1)] bound [OF that(2)] len unat_mul24 [of n]
    by (intro valid_weaken [OF symbol_loop_valid] std_sort_symbols_sorted) auto
  show ?thesis
    unfolding read_dynamic_symbols_def
    by (rule valid_obindI [OF info], rule valid_obindI [OF cnt])
      (auto split: option.split intro: loop)
qed

section \<open>The lookup of a kernel's symbol\<close>

definition kernel_symbol_ok :: "Symbol \<Rightarrow> bool" where
  "kernel_symbol_ok symbol \<longleftrightarrow> sy_type symbol = 1 \<and> sy_section_index symbol \<noteq> 0 \<and>
     sy_section_index symbol < 0xff00 \<and> sy_size symbol = 64"

lemma find_kernel_symbol_Ok:
  assumes "symbols_sorted symbols"
  shows "find_kernel_symbol symbols k = Ok symbol \<longleftrightarrow>
    map ns_symbol (filter (\<lambda>s. ns_name s = ki_symbol_name (mk_info k)) symbols) = [symbol] \<and>
    kernel_symbol_ok symbol"
proof -
  let ?name = "ki_symbol_name (mk_info k)"
  let ?f = "filter (\<lambda>s. ns_name s = ?name) symbols"
  let ?k = "lower_bound (\<lambda>candidate n. ns_name candidate < n) symbols ?name"
  note look = lower_bound_lookup [where f = ns_name and v = ?name, OF assms [unfolded symbols_sorted_def] refl]
  show ?thesis
  proof (cases "?f = []")
    case True
    with look(1) show ?thesis by (auto simp: find_kernel_symbol_def Let_def)
  next
    case False
    then have lt: "?k < length symbols" and nm: "ns_name (symbols ! ?k) = ?name"
      using look(1,4) by auto
    have one: "map ns_symbol ?f = [symbol] \<longleftrightarrow> length ?f < 2 \<and> ns_symbol (symbols ! ?k) = symbol"
      using False look(3) [OF lt nm] by (cases ?f; cases "tl ?f") auto
    show ?thesis
      using look(2) [OF lt nm] lt nm
      by (auto simp: find_kernel_symbol_def Let_def one kernel_symbol_ok_def not_less not_le)
  qed
qed

lemma find_kernel_symbol_not_Fault [simp]: "find_kernel_symbol symbols k \<noteq> Fault"
  by (simp add: find_kernel_symbol_def Let_def)

section \<open>Resident kernels\<close>

text \<open>The address arithmetic is the one of the integers, refused where it leaves the 64-bit range.\<close>

lemma add_signed_offset_eq:
  assumes "- (2 ^ 63) \<le> i" and "i < 2 ^ 63"
  shows "add_signed_offset b i =
    (if 0 \<le> uint b + i \<and> uint b + i < 2 ^ 64 then Some (word_of_int (uint b + i)) else None)"
proof -
  have b: "0 \<le> uint b" "uint b < 2 ^ 64" using uint_lt2p [of b] by simp_all
  have sum: "(word_of_int (uint b + j) :: u64) = b + word_of_int j" for j
    by (simp add: of_int_add)
  show ?thesis
  proof (cases "i \<ge> 0")
    case True
    with assms(2) have "int (unat (word_of_int i :: u64)) = i"
      using uint_of_int64 [of i] by simp
    moreover have "uint b = int (unat b)" by simp
    moreover have "2 ^ 64 \<le> x + y \<longleftrightarrow> \<not> int x + int y < 2 ^ 64" for x y :: nat
      by auto
    ultimately have "2 ^ 64 \<le> unat b + unat (word_of_int i :: u64) \<longleftrightarrow> \<not> uint b + i < 2 ^ 64"
      by metis
    then show ?thesis
      using True b checked_add_None [of b "word_of_int i"] checked_add_Some [of b "word_of_int i"]
      by (auto simp: add_signed_offset_def sum)
  next
    case False
    then have m: "uint (word_of_int (- i) :: u64) = - i"
      using assms(1) by (intro uint_of_int64) auto
    then have "word_of_int (- i) > b \<longleftrightarrow> \<not> 0 \<le> uint b + i"
      by (auto simp: word_less_def)
    then show ?thesis
      using False assms b sum [of i] by (auto simp: add_signed_offset_def Let_def)
  qed
qed

lemma address_has_executable_bytes_iff:
  "address_has_executable_bytes segs a \<longleftrightarrow> (\<exists>s \<in> set segs. ls_flags s AND 1 \<noteq> 0 \<and>
     unat (ls_virtual_address s) \<le> unat a \<and>
     unat a < unat (ls_virtual_address s) + unat (ls_file_size s))"
proof (induction segs)
  case (Cons s segs)
  have "a - ls_virtual_address s < ls_file_size s \<longleftrightarrow>
      unat a < unat (ls_virtual_address s) + unat (ls_file_size s)"
    if "\<not> a < ls_virtual_address s"
    using that by (auto simp: word_less_nat_alt unat_sub word_le_nat_alt not_less)
  with Cons show ?case by (auto simp: word_less_nat_alt)
qed simp

lemma all_zero_Ok:
  "p + n \<le> length data \<Longrightarrow> all_zero data p n = Ok (\<forall>b \<in> set (take n (drop p data)). b = 0)"
proof (induction n arbitrary: p)
  case (Suc n)
  then have "drop p data = data ! p # drop (Suc p) data"
    by (simp add: Cons_nth_drop_Suc)
  with Suc show ?case by auto
qed simp

definition same_metadata :: "KernelInfo \<Rightarrow> KernelInfo \<Rightarrow> bool" where
  "same_metadata k k' \<longleftrightarrow> ki_name k' = ki_name k \<and> ki_symbol_name k' = ki_symbol_name k \<and>
     ki_kernarg_size k' = ki_kernarg_size k \<and>
     ki_metadata_kernarg_alignment k' = ki_metadata_kernarg_alignment k \<and>
     ki_kernarg_alignment k' = ki_kernarg_alignment k \<and>
     ki_group_segment_size k' = ki_group_segment_size k \<and>
     ki_private_segment_size k' = ki_private_segment_size k \<and>
     ki_wavefront_size k' = ki_wavefront_size k \<and>
     ki_uses_dynamic_stack k' = ki_uses_dynamic_stack k \<and>
     ki_arguments k' = ki_arguments k \<and> ki_explicit_argument_size k' = ki_explicit_argument_size k"

lemma same_metadata_wf: "same_metadata k k' \<Longrightarrow> wf_kernel k \<Longrightarrow> wf_kernel k'"
  by (simp add: same_metadata_def wf_kernel_def)

text \<open>
  A kernel whose descriptor and entry point lie where the code object says; the descriptor's
  fields at file offset \<open>off\<close> agree with the kernel's.
\<close>

definition descriptor_agrees :: "bytes \<Rightarrow> nat \<Rightarrow> KernelInfo \<Rightarrow> bool" where
  "descriptor_agrees data off k \<longleftrightarrow>
     u32_at data off = ki_group_segment_size k \<and>
     u32_at data (off + 4) = ki_private_segment_size k \<and>
     u32_at data (off + 8) = ki_kernarg_size k \<and>
     sint (u64_at data (off + 16)) = ki_code_entry_byte_offset k \<and>
     u32_at data (off + 44) = ki_compute_pgm_rsrc3 k \<and>
     u32_at data (off + 48) = ki_compute_pgm_rsrc1 k \<and>
     u32_at data (off + 52) = ki_compute_pgm_rsrc2 k \<and>
     u16_at data (off + 56) = ki_kernel_code_properties k \<and>
     u16_at data (off + 58) = ki_kernarg_preload k \<and>
     ki_wavefront_size k = (if ki_kernel_code_properties k AND 0x400 \<noteq> 0 then 32 else 64) \<and>
     ki_uses_dynamic_stack k = (ki_kernel_code_properties k AND 0x800 \<noteq> 0)"

definition resident_kernel :: "bytes \<Rightarrow> LoadSegment list \<Rightarrow> KernelInfo \<Rightarrow> bool" where
  "resident_kernel data segs k \<longleftrightarrow>
     (\<exists>s. file_backed segs (ki_descriptor_virtual_address k) 64 s \<and>
        descriptor_agrees data (unat (ls_file_offset s) +
          (unat (ki_descriptor_virtual_address k) - unat (ls_virtual_address s))) k) \<and>
     64 dvd unat (ki_descriptor_virtual_address k) \<and>
     uint (ki_code_entry_virtual_address k) =
       uint (ki_descriptor_virtual_address k) + ki_code_entry_byte_offset k \<and>
     - (2 ^ 63) \<le> ki_code_entry_byte_offset k \<and> ki_code_entry_byte_offset k < 2 ^ 63 \<and>
     address_has_executable_bytes segs (ki_code_entry_virtual_address k)"

lemma decode_descriptor_entry_valid:
  assumes "unat off + 64 \<le> length data"
  shows "valid (decode_descriptor_entry data segs symbol off k) (\<lambda>k'. same_metadata k k' \<and>
     ki_descriptor_virtual_address k' = sy_value symbol \<and>
     ki_code_entry_byte_offset k' = sint (u64_at data (unat off + 16)) \<and>
     uint (ki_code_entry_virtual_address k') = uint (sy_value symbol) + ki_code_entry_byte_offset k' \<and>
     address_has_executable_bytes segs (ki_code_entry_virtual_address k'))"
proof -
  let ?i = "sint (u64_at data (unat off + 16))"
  have range: "- (2 ^ 63) \<le> ?i" "?i < 2 ^ 63"
    using sint_ge [of "u64_at data (unat off + 16)"] sint_lt [of "u64_at data (unat off + 16)"]
    by simp_all
  have "uint a = uint (sy_value symbol) + ?i" if "add_signed_offset (sy_value symbol) ?i = Some a" for a
    using that uint_of_int64 [of "uint (sy_value symbol) + ?i"]
    by (auto simp: add_signed_offset_eq [OF range] split: if_splits)
  with assms show ?thesis
    by (auto simp: decode_descriptor_entry_def same_metadata_def split: option.split)
qed

lemma decode_descriptor_properties_valid:
  assumes "unat off + 64 \<le> length data"
  shows "valid (decode_descriptor_properties data off k) (\<lambda>k'. same_metadata k k' \<and>
     ki_descriptor_virtual_address k' = ki_descriptor_virtual_address k \<and>
     ki_code_entry_byte_offset k' = ki_code_entry_byte_offset k \<and>
     ki_code_entry_virtual_address k' = ki_code_entry_virtual_address k \<and>
     (u32_at data (unat off) = ki_group_segment_size k \<longrightarrow>
      u32_at data (unat off + 4) = ki_private_segment_size k \<longrightarrow>
      u32_at data (unat off + 8) = ki_kernarg_size k \<longrightarrow>
      sint (u64_at data (unat off + 16)) = ki_code_entry_byte_offset k \<longrightarrow>
      descriptor_agrees data (unat off) k'))"
  using assms
  by (auto simp: decode_descriptor_properties_def Let_def same_metadata_def descriptor_agrees_def)

lemma descriptor_reserved_ok_valid:
  assumes "descriptor + 64 \<le> length data"
  shows "valid (descriptor_reserved_ok data a descriptor) (\<lambda>ok. ok \<longrightarrow> 64 dvd unat a)"
  using assms by (simp add: descriptor_reserved_ok_def all_zero_Ok)

lemma decode_kernel_descriptor_valid:
  assumes "wf_segments (length data) segs" and "length data < 2 ^ 64"
  shows "valid (decode_kernel_descriptor data segs symbol k) (\<lambda>k'. same_metadata k k' \<and>
     ki_descriptor_virtual_address k' = sy_value symbol \<and> resident_kernel data segs k')"
proof (cases "virtual_address_to_file segs (sy_value symbol) 64")
  case None
  then show ?thesis by (simp add: decode_kernel_descriptor_def)
next
  case (Some off)
  obtain s where s: "file_backed segs (sy_value symbol) 64 s"
    and off: "unat off = unat (ls_file_offset s) + (unat (sy_value symbol) - unat (ls_virtual_address s))"
    and in_file: "unat off + 64 \<le> length data"
    using virtual_address_to_file_Some [OF Some _ assms(2)] assms(1) by (auto simp: wf_segments_def)
  have resident: "resident_kernel data segs k'"
    if "ki_descriptor_virtual_address k' = sy_value symbol" "descriptor_agrees data (unat off) k'"
      "64 dvd unat (sy_value symbol)"
      "uint (ki_code_entry_virtual_address k') = uint (sy_value symbol) + ki_code_entry_byte_offset k'"
      "ki_code_entry_byte_offset k' = sint (u64_at data (unat off + 16))"
      "address_has_executable_bytes segs (ki_code_entry_virtual_address k')" for k'
    using that s off sint_ge [of "u64_at data (unat off + 16)"] sint_lt [of "u64_at data (unat off + 16)"]
    by (auto simp: resident_kernel_def)
  have props: "valid (decode_descriptor_properties data off k1) (\<lambda>k'. same_metadata k k' \<and>
     ki_descriptor_virtual_address k' = sy_value symbol \<and> resident_kernel data segs k')"
    if "same_metadata k k1" "ki_descriptor_virtual_address k1 = sy_value symbol"
      "64 dvd unat (sy_value symbol)"
      "ki_code_entry_byte_offset k1 = sint (u64_at data (unat off + 16))"
      "uint (ki_code_entry_virtual_address k1) = uint (sy_value symbol) + ki_code_entry_byte_offset k1"
      "address_has_executable_bytes segs (ki_code_entry_virtual_address k1)"
      "u32_at data (unat off) = ki_group_segment_size k1"
      "u32_at data (unat off + 4) = ki_private_segment_size k1"
      "u32_at data (unat off + 8) = ki_kernarg_size k1" for k1
    by (rule valid_weaken [OF decode_descriptor_properties_valid [OF in_file]], intro conjI resident)
      (use that in \<open>auto simp: same_metadata_def\<close>)
  show ?thesis
    unfolding decode_kernel_descriptor_def Some option.case Let_def
    by (rule valid_obindI [OF descriptor_reserved_ok_valid [OF in_file]],
        intro valid_IfI valid_failure valid_obindI [OF decode_descriptor_entry_valid [OF in_file]])
      (use in_file in \<open>auto intro!: props\<close>)
qed

text \<open>What the kernels of a code object with metadata satisfy.\<close>

definition wf_kernels :: "bytes \<Rightarrow> LoadSegment list \<Rightarrow> KernelInfo list \<Rightarrow> bool" where
  "wf_kernels data segs ks \<longleftrightarrow> wf_metadata_kernels ks \<and> (\<forall>k \<in> set ks. resident_kernel data segs k)"

lemma descriptor_loop_valid:
  assumes "wf_segments (length data) segs" and "length data < 2 ^ 64"
  shows "valid (descriptor_loop data segs symbols ks) (\<lambda>infos.
    list_all2 (\<lambda>k inf. same_metadata (mk_info k) inf \<and> resident_kernel data segs inf) ks infos)"
proof (induction ks)
  case (Cons k ks)
  have sym: "valid (find_kernel_symbol symbols k) (\<lambda>_. True)" by simp
  show ?case
    unfolding descriptor_loop.simps
    by (rule valid_obindI [OF sym], rule valid_obindI [OF decode_kernel_descriptor_valid [OF assms]],
        rule valid_obindI [OF Cons]) simp
qed simp

lemma same_metadata_list:
  assumes "list_all2 (\<lambda>k inf. same_metadata (mk_info k) inf \<and> resident_kernel data segs inf) ks infos"
    and "wf_metadata_kernels (map mk_info ks)"
  shows "wf_kernels data segs infos"
proof -
  have "map ki_name infos = map (ki_name \<circ> mk_info) ks"
    "map ki_symbol_name infos = map (ki_symbol_name \<circ> mk_info) ks"
    "\<forall>k \<in> set infos. wf_kernel k \<and> resident_kernel data segs k"
    using assms(1) assms(2) [unfolded wf_metadata_kernels_def, THEN conjunct1]
    by (induction ks infos rule: list_all2_induct)
      (auto simp: same_metadata_def intro: same_metadata_wf)
  with assms(2) show ?thesis by (simp add: wf_kernels_def wf_metadata_kernels_def)
qed

text \<open>The code object after the metadata decoder: the segments and header fields are kept.\<close>

definition metadata_ok :: "bytes \<Rightarrow> CodeObject \<Rightarrow> bool" where
  "metadata_ok data co \<longleftrightarrow>
     (if co_has_metadata co
      then co_metadata_version co = \<lparr>mv_major = 1, mv_minor = 2\<rparr> \<and> supported_isa (co_target_isa co) \<and>
           co_kernels co \<noteq> [] \<and> wf_kernels data (co_load_segments co) (co_kernels co)
      else co_kernels co = [])"

lemma decode_amdhsa_metadata_valid:
  assumes "unat fsize = length data" and "elf_ok data"
    and "wf_segments (length data) (co_load_segments co)"
    and "\<not> co_has_metadata co" and "co_kernels co = []"
  shows "valid (decode_amdhsa_metadata data fsize co) (\<lambda>co'. metadata_ok data co' \<and>
    co_load_segments co' = co_load_segments co \<and> co_load_plan co' = co_load_plan co \<and>
    co_abi_version co' = co_abi_version co \<and> co_elf_flags co' = co_elf_flags co \<and>
    co_target_machine co' = co_target_machine co)"
proof -
  have len: "length data < 2 ^ 64" using assms(2) by (simp add: elf_ok_def)
  have doc: "valid (parse_document data mb) (\<lambda>_. True)" if "found_window data (Some mb)" for mb
    using that by (intro valid_weaken [OF parse_document_valid]) (auto simp: found_window_def)
  note steps = valid_obindI [OF decode_metadata_document_valid]
    valid_obindI [OF read_dynamic_symbols_valid [OF assms(1-3)]]
    valid_obindI [OF descriptor_loop_valid [OF assms(3) len]]
  show ?thesis
    unfolding decode_amdhsa_metadata_def
    apply (rule valid_obindI [OF find_metadata_note_valid [OF assms(1,2)]])
    subgoal for found
      apply (cases found)
       apply (simp add: metadata_ok_def assms(4,5))
      apply (simp del: valid_obind)
      apply (rule valid_obindI [OF doc], assumption)
      apply (rule steps(1), clarsimp simp del: valid_obind)
      apply (rule steps(2), rule steps(3))
      apply (auto simp: metadata_ok_def intro: same_metadata_list)
      done
    done
qed

end
