(* ===== verification/LoadPlanReader.thy ===== *)
theory LoadPlanReader
  imports DynamicTable Algorithms "HOL-Library.Product_Lexorder"
begin

text \<open>
  The load plan: \<open>light-rocr/loader/load_plan_reader.cpp\<close>. \<open>build_load_plan\<close> turns the validated
  PT_LOAD segments into copies, zero fills and protections, and appends the relocations of the
  DT_REL and DT_RELA tables.

  The lemmas show that no table is read outside the code object, that an accepted plan is
  \<open>wf_plan\<close> (its copies, zero fills and protections are exactly those of the segments with memory,
  in address order, its image is the smallest range around them), and that every relocation is of a
  known type with its target and its symbol inside the segments' memory. The comparators are strict
  weak orders, and the sorted relocations are a function of the multiset of the entries read.
\<close>

section \<open>Dynamic relocation information\<close>

primrec virtual_address_in_memory :: "LoadSegment list \<Rightarrow> u64 \<Rightarrow> u64 \<Rightarrow> bool" where
  "virtual_address_in_memory [] address len = False"
| "virtual_address_in_memory (s # segs) address len =
     (if address < ls_virtual_address s then virtual_address_in_memory segs address len
      else
      let delta = address - ls_virtual_address s in
      if delta \<le> ls_memory_size s \<and> len \<le> ls_memory_size s - delta then True
      else virtual_address_in_memory segs address len)"

record RelocationTableInfo =
  rt_address :: DynamicValue
  rt_size :: DynamicValue
  rt_entry_size :: DynamicValue
  rt_relative_count :: DynamicValue

record DynamicRelocationInfo =
  dr_hash :: DynamicValue
  dr_symbol_table :: DynamicValue
  dr_symbol_entry_size :: DynamicValue
  dr_rel :: RelocationTableInfo
  dr_rela :: RelocationTableInfo

definition default_RelocationTableInfo :: RelocationTableInfo where
  "default_RelocationTableInfo =
     \<lparr>rt_address = default_DynamicValue, rt_size = default_DynamicValue,
      rt_entry_size = default_DynamicValue, rt_relative_count = default_DynamicValue\<rparr>"

definition default_DynamicRelocationInfo :: DynamicRelocationInfo where
  "default_DynamicRelocationInfo =
     \<lparr>dr_hash = default_DynamicValue, dr_symbol_table = default_DynamicValue,
      dr_symbol_entry_size = default_DynamicValue, dr_rel = default_RelocationTableInfo,
      dr_rela = default_RelocationTableInfo\<rparr>"

text \<open>The \<open>switch\<close> of \<open>read_dynamic_relocation_info\<close>.\<close>

definition handle_relocation_info ::
  "int \<Rightarrow> u64 \<Rightarrow> u64 \<Rightarrow> DynamicRelocationInfo \<Rightarrow> DynamicRelocationInfo parsed" where
  "handle_relocation_info tag value file_offset info =
     (let set_value = (\<lambda>destination. set_dynamic_value destination value (file_offset + 8)) in
      if tag = 4 then obind (set_value (dr_hash info)) (\<lambda>v. Ok (info\<lparr>dr_hash := v\<rparr>))
      else if tag = 6
      then obind (set_value (dr_symbol_table info)) (\<lambda>v. Ok (info\<lparr>dr_symbol_table := v\<rparr>))
      else if tag = 11
      then obind (set_value (dr_symbol_entry_size info)) (\<lambda>v. Ok (info\<lparr>dr_symbol_entry_size := v\<rparr>))
      else if tag = 17
      then obind (set_value (rt_address (dr_rel info)))
             (\<lambda>v. Ok (info\<lparr>dr_rel := (dr_rel info)\<lparr>rt_address := v\<rparr>\<rparr>))
      else if tag = 18
      then obind (set_value (rt_size (dr_rel info)))
             (\<lambda>v. Ok (info\<lparr>dr_rel := (dr_rel info)\<lparr>rt_size := v\<rparr>\<rparr>))
      else if tag = 19
      then obind (set_value (rt_entry_size (dr_rel info)))
             (\<lambda>v. Ok (info\<lparr>dr_rel := (dr_rel info)\<lparr>rt_entry_size := v\<rparr>\<rparr>))
      else if tag = 0x6ffffffa
      then obind (set_value (rt_relative_count (dr_rel info)))
             (\<lambda>v. Ok (info\<lparr>dr_rel := (dr_rel info)\<lparr>rt_relative_count := v\<rparr>\<rparr>))
      else if tag = 7
      then obind (set_value (rt_address (dr_rela info)))
             (\<lambda>v. Ok (info\<lparr>dr_rela := (dr_rela info)\<lparr>rt_address := v\<rparr>\<rparr>))
      else if tag = 8
      then obind (set_value (rt_size (dr_rela info)))
             (\<lambda>v. Ok (info\<lparr>dr_rela := (dr_rela info)\<lparr>rt_size := v\<rparr>\<rparr>))
      else if tag = 9
      then obind (set_value (rt_entry_size (dr_rela info)))
             (\<lambda>v. Ok (info\<lparr>dr_rela := (dr_rela info)\<lparr>rt_entry_size := v\<rparr>\<rparr>))
      else if tag = 0x6ffffff9
      then obind (set_value (rt_relative_count (dr_rela info)))
             (\<lambda>v. Ok (info\<lparr>dr_rela := (dr_rela info)\<lparr>rt_relative_count := v\<rparr>\<rparr>))
      else if tag \<in> {2, 20, 23} then failure UnsupportedRelocationFormat file_offset
      else if tag \<in> {36, 35, 37} then failure UnsupportedRelocationFormat file_offset
      else Ok info)"

definition read_dynamic_relocation_info :: "bytes \<Rightarrow> u64 \<Rightarrow> DynamicRelocationInfo parsed" where
  "read_dynamic_relocation_info data fsize =
     obind (find_dynamic_segment data fsize) (\<lambda>found.
     case found of
       None \<Rightarrow> Ok default_DynamicRelocationInfo
     | Some (dynamic_offset, dynamic_size) \<Rightarrow>
         read_dynamic_entries handle_relocation_info data dynamic_offset dynamic_size
           default_DynamicRelocationInfo)"

definition table_is_present :: "RelocationTableInfo \<Rightarrow> bool" where
  "table_is_present table =
     (dv_present (rt_address table) \<or> dv_present (rt_size table) \<or> dv_present (rt_entry_size table))"

definition validate_relocation_table_info :: "RelocationTableInfo \<Rightarrow> u64 \<Rightarrow> unit parsed" where
  "validate_relocation_table_info table expected_entry_size =
     (if \<not> table_is_present table
      then
        if dv_present (rt_relative_count table) \<and> dv_value (rt_relative_count table) \<noteq> 0
        then failure InvalidRelocationTable (dv_file_offset (rt_relative_count table))
        else Ok ()
      else if \<not> dv_present (rt_address table) \<or> \<not> dv_present (rt_size table) \<or>
              \<not> dv_present (rt_entry_size table)
      then failure InvalidRelocationTable
             (if dv_present (rt_address table) then dv_file_offset (rt_address table)
              else if dv_present (rt_size table) then dv_file_offset (rt_size table)
              else dv_file_offset (rt_entry_size table))
      else if dv_value (rt_entry_size table) \<noteq> expected_entry_size
      then failure InvalidRelocationTable (dv_file_offset (rt_entry_size table))
      else if dv_value (rt_size table) mod expected_entry_size \<noteq> 0
      then failure InvalidRelocationTable (dv_file_offset (rt_size table))
      else
      let entry_count = dv_value (rt_size table) div expected_entry_size in
      if dv_present (rt_relative_count table) \<and> dv_value (rt_relative_count table) > entry_count
      then failure InvalidRelocationTable (dv_file_offset (rt_relative_count table))
      else Ok ())"

definition validate_disjoint_relocation_tables ::
  "RelocationTableInfo \<Rightarrow> RelocationTableInfo \<Rightarrow> unit parsed" where
  "validate_disjoint_relocation_tables rel rela =
     (if \<not> table_is_present rel \<or> \<not> table_is_present rela \<or> dv_value (rt_size rel) = 0 \<or>
         dv_value (rt_size rela) = 0
      then Ok ()
      else
      case (checked_add (dv_value (rt_address rel)) (dv_value (rt_size rel)),
            checked_add (dv_value (rt_address rela)) (dv_value (rt_size rela))) of
        (Some rel_end, Some rela_end) \<Rightarrow>
          if dv_value (rt_address rel) < rela_end \<and> dv_value (rt_address rela) < rel_end
          then failure InvalidRelocationTable (dv_file_offset (rt_address rela))
          else Ok ()
      | _ \<Rightarrow> failure InvalidRelocationTable (dv_file_offset (rt_address rela)))"

section \<open>Relocation entries\<close>

definition is_known_amdgpu_relocation :: "u32 \<Rightarrow> bool" where
  "is_known_amdgpu_relocation type = (type \<in> {0, 1, 2, 3, 4, 5, 6, 7, 8, 9, 10, 11, 13, 14})"

definition relocation_width :: "u32 \<Rightarrow> u64" where
  "relocation_width type =
     (if type = 0 then 0
      else if type = 14 then 2
      else if type \<in> {1, 2, 4, 6, 7, 8, 9, 10, 11} then 4
      else if type \<in> {3, 5, 13} then 8
      else 0)"

definition relocation_uses_symbol :: "u32 \<Rightarrow> bool" where
  "relocation_uses_symbol type = (type \<noteq> 0 \<and> type \<noteq> 13)"

record DynamicSymbol =
  ds_value :: u64
  ds_defined :: bool
  ds_absolute :: bool

definition read_symbol_count :: "bytes \<Rightarrow> LoadSegment list \<Rightarrow> DynamicValue \<Rightarrow> u32 parsed" where
  "read_symbol_count data segs hash =
     (if \<not> dv_present hash then failure InvalidRelocationTable 0
      else
      case virtual_address_to_file segs (dv_value hash) 8 of
        None \<Rightarrow> failure InvalidRelocationTable (dv_file_offset hash)
      | Some hash_offset \<Rightarrow>
        obind (read_u32 data (unat hash_offset)) (\<lambda>bucket_count.
        obind (read_u32 data (unat (hash_offset + 4))) (\<lambda>symbol_count.
        if bucket_count = 0 then failure InvalidRelocationTable (dv_file_offset hash)
        else
        let word_count = ucast bucket_count + ucast symbol_count :: u64 in
        if word_count > (- 1 - 8) div 4 then failure InvalidRelocationTable (dv_file_offset hash)
        else
        case virtual_address_to_file segs (dv_value hash) (8 + word_count * 4) of
          None \<Rightarrow> failure InvalidRelocationTable (dv_file_offset hash)
        | Some _ \<Rightarrow> Ok symbol_count)))"

primrec dynamic_symbol_loop :: "bytes \<Rightarrow> u64 \<Rightarrow> nat \<Rightarrow> nat \<Rightarrow> DynamicSymbol list parsed" where
  "dynamic_symbol_loop data table_offset i 0 = Ok []"
| "dynamic_symbol_loop data table_offset i (Suc n) =
     (let entry = unat table_offset + i * 24 in
      obind (read_u16 data (entry + 6)) (\<lambda>section_index.
      obind (read_u64 data (entry + 8)) (\<lambda>value.
      obind (dynamic_symbol_loop data table_offset (i + 1) n) (\<lambda>rest.
        Ok (\<lparr>ds_value = value, ds_defined = (section_index \<noteq> 0),
             ds_absolute = (section_index = 0xfff1)\<rparr> # rest)))))"

text \<open>\<open>read_dynamic_symbols\<close> of \<open>load_plan_reader.cpp\<close>.\<close>

definition read_relocation_symbols ::
  "bytes \<Rightarrow> LoadSegment list \<Rightarrow> DynamicRelocationInfo \<Rightarrow> u32 \<Rightarrow> DynamicSymbol list parsed" where
  "read_relocation_symbols data segs dynamic symbol_count =
     (if \<not> dv_present (dr_symbol_table dynamic) \<or> \<not> dv_present (dr_symbol_entry_size dynamic) \<or>
         dv_value (dr_symbol_entry_size dynamic) \<noteq> 24
      then failure InvalidRelocationTable
             (if dv_present (dr_symbol_table dynamic)
              then dv_file_offset (dr_symbol_entry_size dynamic)
              else dv_file_offset (dr_hash dynamic))
      else
      case virtual_address_to_file segs (dv_value (dr_symbol_table dynamic))
             (ucast symbol_count * 24) of
        None \<Rightarrow> failure InvalidRelocationTable (dv_file_offset (dr_symbol_table dynamic))
      | Some table_offset \<Rightarrow> dynamic_symbol_loop data table_offset 0 (unat symbol_count))"

text \<open>The checks of one entry after its words are read; \<open>addend\<close> is 0 for DT_REL.\<close>

definition check_relocation ::
  "LoadSegment list \<Rightarrow> RelocationTableInfo \<Rightarrow> RelocationEncoding \<Rightarrow> DynamicSymbol list \<Rightarrow> u64 \<Rightarrow>
   u64 \<Rightarrow> u64 \<Rightarrow> u64 \<Rightarrow> int \<Rightarrow> Relocation parsed" where
  "check_relocation segs table encoding symbols index entry_offset target info addend =
     (let type = ucast (info AND 0xffffffff);
          symbol_index = ucast (drop_bit 32 info);
          relocation = \<lparr>rl_encoding = encoding, rl_target_virtual_address = target, rl_type = type,
                        rl_symbol_index = symbol_index, rl_addend = addend, rl_symbol_value = 0,
                        rl_symbol_is_absolute = False\<rparr> in
      if \<not> is_known_amdgpu_relocation type
      then failure UnsupportedRelocationType (entry_offset + 8)
      else if unat symbol_index \<ge> length symbols
      then failure RelocationSymbolOutOfBounds (entry_offset + 8)
      else if index < dv_value (rt_relative_count table) \<and> (type \<noteq> 13 \<or> symbol_index \<noteq> 0)
      then failure InvalidRelocationTable (entry_offset + 8)
      else
      let symbol = symbols ! unat symbol_index in
      if relocation_uses_symbol type \<and> \<not> ds_defined symbol
      then failure InvalidRelocationTable (entry_offset + 8)
      else if relocation_uses_symbol type \<and> \<not> ds_absolute symbol \<and>
              \<not> virtual_address_in_memory segs (ds_value symbol) 1
      then failure InvalidRelocationTable (entry_offset + 8)
      else
      if relocation_width type \<noteq> 0 \<and>
         \<not> virtual_address_in_memory segs target (relocation_width type)
      then failure RelocationTargetOutOfBounds entry_offset
      else Ok (if relocation_uses_symbol type
               then relocation\<lparr>rl_symbol_value := ds_value symbol,
                               rl_symbol_is_absolute := ds_absolute symbol\<rparr>
               else relocation))"

primrec relocation_loop ::
  "bytes \<Rightarrow> LoadSegment list \<Rightarrow> RelocationTableInfo \<Rightarrow> RelocationEncoding \<Rightarrow> DynamicSymbol list \<Rightarrow>
   u64 \<Rightarrow> u64 \<Rightarrow> nat \<Rightarrow> nat \<Rightarrow> Relocation list \<Rightarrow> Relocation list parsed" where
  "relocation_loop data segs table encoding symbols table_offset entry_size i 0 relocations =
     Ok relocations"
| "relocation_loop data segs table encoding symbols table_offset entry_size i (Suc n) relocations =
     (let entry_offset = table_offset + of_nat i * entry_size; entry = unat entry_offset in
      obind (read_u64 data entry) (\<lambda>target.
      obind (read_u64 data (entry + 8)) (\<lambda>info.
      obind (if encoding = Rela then read_i64 data (entry + 16) else Ok 0) (\<lambda>addend.
      obind (check_relocation segs table encoding symbols (of_nat i) entry_offset target info addend)
        (\<lambda>relocation.
           relocation_loop data segs table encoding symbols table_offset entry_size (i + 1) n
             (relocations @ [relocation]))))))"

definition read_relocation_table ::
  "bytes \<Rightarrow> LoadSegment list \<Rightarrow> RelocationTableInfo \<Rightarrow> RelocationEncoding \<Rightarrow> DynamicSymbol list \<Rightarrow>
   Relocation list \<Rightarrow> Relocation list parsed" where
  "read_relocation_table data segs table encoding symbols relocations =
     (if \<not> table_is_present table \<or> dv_value (rt_size table) = 0 then Ok relocations
      else
      let entry_size = (if encoding = Rela then 24 else 16) in
      case virtual_address_to_file segs (dv_value (rt_address table)) (dv_value (rt_size table)) of
        None \<Rightarrow> failure InvalidRelocationTable (dv_file_offset (rt_address table))
      | Some table_offset \<Rightarrow>
          relocation_loop data segs table encoding symbols table_offset entry_size 0
            (unat (dv_value (rt_size table) div entry_size)) relocations)"

primrec encoding_value :: "RelocationEncoding \<Rightarrow> nat" where
  "encoding_value Rel = 0" | "encoding_value Rela = 1"

definition relocation_before :: "Relocation \<Rightarrow> Relocation \<Rightarrow> bool" where
  "relocation_before lhs rhs =
     (if rl_target_virtual_address lhs \<noteq> rl_target_virtual_address rhs
      then rl_target_virtual_address lhs < rl_target_virtual_address rhs
      else if rl_encoding lhs \<noteq> rl_encoding rhs
      then encoding_value (rl_encoding lhs) < encoding_value (rl_encoding rhs)
      else if rl_type lhs \<noteq> rl_type rhs then rl_type lhs < rl_type rhs
      else if rl_symbol_index lhs \<noteq> rl_symbol_index rhs
      then rl_symbol_index lhs < rl_symbol_index rhs
      else rl_addend lhs < rl_addend rhs)"

definition append_relocations ::
  "bytes \<Rightarrow> u64 \<Rightarrow> LoadSegment list \<Rightarrow> LoadPlan \<Rightarrow> LoadPlan parsed" where
  "append_relocations data fsize segs plan =
     obind (read_dynamic_relocation_info data fsize) (\<lambda>dynamic.
     obind (validate_relocation_table_info (dr_rel dynamic) 16) (\<lambda>_.
     obind (validate_relocation_table_info (dr_rela dynamic) 24) (\<lambda>_.
     obind (validate_disjoint_relocation_tables (dr_rel dynamic) (dr_rela dynamic)) (\<lambda>_.
     let has_relocations =
           (table_is_present (dr_rel dynamic) \<and> dv_value (rt_size (dr_rel dynamic)) \<noteq> 0) \<or>
           (table_is_present (dr_rela dynamic) \<and> dv_value (rt_size (dr_rela dynamic)) \<noteq> 0) in
     if \<not> has_relocations then Ok plan
     else
     obind (read_symbol_count data segs (dr_hash dynamic)) (\<lambda>symbol_count.
     obind (read_relocation_symbols data segs dynamic symbol_count) (\<lambda>symbols.
     obind (read_relocation_table data segs (dr_rel dynamic) Rel symbols (plan_relocations plan))
       (\<lambda>relocations.
     obind (read_relocation_table data segs (dr_rela dynamic) Rela symbols relocations)
       (\<lambda>relocations'.
        Ok (plan\<lparr>plan_relocations := std_sort relocation_before relocations'\<rparr>)))))))))"

section \<open>The plan\<close>

text \<open>The loop over the segments: the plan and \<open>image_end\<close>.\<close>

primrec plan_loop :: "LoadSegment list \<Rightarrow> LoadPlan \<Rightarrow> u64 \<Rightarrow> (LoadPlan \<times> u64) parsed" where
  "plan_loop [] plan image_end = Ok (plan, image_end)"
| "plan_loop (s # segs) plan image_end =
     (if ls_memory_size s = 0 then plan_loop segs plan image_end
      else
      case checked_add (ls_virtual_address s) (ls_memory_size s) of
        None \<Rightarrow> failure SegmentVirtualRangeOverflow (ls_virtual_address s)
      | Some segment_end \<Rightarrow>
        let plan1 = plan\<lparr>plan_image_virtual_address :=
                          min (plan_image_virtual_address plan) (ls_virtual_address s),
                        plan_alignment := max (plan_alignment plan) (ls_alignment s),
                        plan_copies := plan_copies plan @
                          (if ls_file_size s \<noteq> 0
                           then [\<lparr>lc_file_offset = ls_file_offset s,
                                  lc_virtual_address = ls_virtual_address s,
                                  lc_size = ls_file_size s\<rparr>]
                           else [])\<rparr> in
        obind (if ls_memory_size s > ls_file_size s
               then (case checked_add (ls_virtual_address s) (ls_file_size s) of
                       None \<Rightarrow> failure SegmentVirtualRangeOverflow (ls_virtual_address s)
                     | Some zero_address \<Rightarrow>
                         Ok (plan1\<lparr>plan_zero_fills := plan_zero_fills plan1 @
                               [\<lparr>lz_virtual_address = zero_address,
                                 lz_size = ls_memory_size s - ls_file_size s\<rparr>]\<rparr>))
               else Ok plan1) (\<lambda>plan2.
          plan_loop segs
            (plan2\<lparr>plan_protections := plan_protections plan2 @
               [\<lparr>lp_virtual_address = ls_virtual_address s, lp_size = ls_memory_size s,
                 lp_flags = ls_flags s\<rparr>]\<rparr>)
            (max image_end segment_end)))"

definition copy_before :: "LoadCopy \<Rightarrow> LoadCopy \<Rightarrow> bool" where
  "copy_before lhs rhs =
     (if lc_virtual_address lhs \<noteq> lc_virtual_address rhs
      then lc_virtual_address lhs < lc_virtual_address rhs
      else lc_file_offset lhs < lc_file_offset rhs)"

definition zero_fill_before :: "LoadZeroFill \<Rightarrow> LoadZeroFill \<Rightarrow> bool" where
  "zero_fill_before lhs rhs = (lz_virtual_address lhs < lz_virtual_address rhs)"

definition protection_before :: "LoadProtection \<Rightarrow> LoadProtection \<Rightarrow> bool" where
  "protection_before lhs rhs = (lp_virtual_address lhs < lp_virtual_address rhs)"

definition segment_plan :: "LoadSegment list \<Rightarrow> LoadPlan parsed" where
  "segment_plan segs =
     obind (plan_loop segs (default_LoadPlan\<lparr>plan_image_virtual_address := - 1\<rparr>) 0)
       (\<lambda>(plan, image_end).
          let plan1 =
                (if plan_image_virtual_address plan = - 1
                 then plan\<lparr>plan_image_virtual_address := 0\<rparr>
                 else plan\<lparr>plan_image_size := image_end - plan_image_virtual_address plan\<rparr>) in
          Ok (plan1\<lparr>plan_copies := std_sort copy_before (plan_copies plan1),
                    plan_zero_fills := std_sort zero_fill_before (plan_zero_fills plan1),
                    plan_protections := std_sort protection_before (plan_protections plan1)\<rparr>))"

definition build_load_plan :: "bytes \<Rightarrow> u64 \<Rightarrow> CodeObject \<Rightarrow> CodeObject parsed" where
  "build_load_plan data fsize code_object =
     obind (segment_plan (co_load_segments code_object)) (\<lambda>plan.
     obind (append_relocations data fsize (co_load_segments code_object) plan) (\<lambda>plan'.
       Ok (code_object\<lparr>co_load_plan := plan'\<rparr>)))"

text \<open>The name of a relocation type.\<close>

definition amdgpu_relocation_type_name :: "u32 \<Rightarrow> string" where
  "amdgpu_relocation_type_name type =
     (if type = 0 then ''R_AMDGPU_NONE''
      else if type = 1 then ''R_AMDGPU_ABS32_LO''
      else if type = 2 then ''R_AMDGPU_ABS32_HI''
      else if type = 3 then ''R_AMDGPU_ABS64''
      else if type = 4 then ''R_AMDGPU_REL32''
      else if type = 5 then ''R_AMDGPU_REL64''
      else if type = 6 then ''R_AMDGPU_ABS32''
      else if type = 7 then ''R_AMDGPU_GOTPCREL''
      else if type = 8 then ''R_AMDGPU_GOTPCREL32_LO''
      else if type = 9 then ''R_AMDGPU_GOTPCREL32_HI''
      else if type = 10 then ''R_AMDGPU_REL32_LO''
      else if type = 11 then ''R_AMDGPU_REL32_HI''
      else if type = 13 then ''R_AMDGPU_RELATIVE64''
      else if type = 14 then ''R_AMDGPU_REL16''
      else ''R_AMDGPU_UNKNOWN'')"

section \<open>The relocation tables stay inside the code object\<close>

definition in_memory :: "LoadSegment list \<Rightarrow> u64 \<Rightarrow> u64 \<Rightarrow> bool" where
  "in_memory segs a l \<longleftrightarrow> (\<exists>s \<in> set segs. unat (ls_virtual_address s) \<le> unat a \<and>
     unat a + unat l \<le> unat (ls_virtual_address s) + unat (ls_memory_size s))"

lemma virtual_address_in_memory_iff: "virtual_address_in_memory segs a l \<longleftrightarrow> in_memory segs a l"
  by (induction segs)
    (auto simp: in_memory_def Let_def delta_test word_less_nat_alt not_less)

lemma handle_relocation_info_not_Fault: "handle_relocation_info tag value off info \<noteq> Fault"
  unfolding handle_relocation_info_def Let_def by simp

lemma read_dynamic_relocation_info_valid:
  assumes "unat fsize = length data" and "elf_ok data"
  shows "read_dynamic_relocation_info data fsize \<noteq> Fault"
proof -
  have "valid (read_dynamic_entries handle_relocation_info data off sz info) (\<lambda>_. True)"
    if "dynamic_ok data (Some (off, sz))" for off sz info
    using that assms(2)
    by (intro read_dynamic_entries_valid)
      (auto simp: dynamic_ok_def elf_ok_def handle_relocation_info_not_Fault)
  then have "valid (read_dynamic_relocation_info data fsize) (\<lambda>_. True)"
    unfolding read_dynamic_relocation_info_def
    by (intro valid_obindI [OF find_dynamic_segment_valid [OF assms]]) (auto split: option.split)
  then show ?thesis by simp
qed

lemma validate_relocation_table_info_Ok:
  assumes "k \<noteq> 0" and "table_is_present table"
  shows "valid (validate_relocation_table_info table k) (\<lambda>_. dv_value (rt_size table) mod k = 0)"
  using assms by (simp add: validate_relocation_table_info_def Let_def)

lemma validate_relocation_table_info_not_Fault [simp]:
  "validate_relocation_table_info table k \<noteq> Fault"
  by (simp add: validate_relocation_table_info_def Let_def)

lemma validate_disjoint_relocation_tables_not_Fault [simp]:
  "validate_disjoint_relocation_tables rel rela \<noteq> Fault"
  by (simp add: validate_disjoint_relocation_tables_def split: option.split)

text \<open>The overlap test of two present, non-empty tables decides disjointness of their ranges.\<close>

lemma validate_disjoint_relocation_tables_Ok:
  assumes "table_is_present rel" and "table_is_present rela"
    and "dv_value (rt_size rel) \<noteq> 0" and "dv_value (rt_size rela) \<noteq> 0"
  shows "validate_disjoint_relocation_tables rel rela = Ok () \<longleftrightarrow>
    (let a = unat (dv_value (rt_address rel)); n = unat (dv_value (rt_size rel));
         b = unat (dv_value (rt_address rela)); m = unat (dv_value (rt_size rela))
     in a + n < 2 ^ 64 \<and> b + m < 2 ^ 64 \<and> {a ..< a + n} \<inter> {b ..< b + m} = {})"
proof -
  have "0 < unat (dv_value (rt_size rel))" "0 < unat (dv_value (rt_size rela))"
    using assms(3,4) by (simp_all add: unat_gt_0)
  with assms show ?thesis
    by (auto simp: validate_disjoint_relocation_tables_def Let_def interval_disjoint
        checked_add_None word_less_nat_alt not_less dest: checked_add_SomeD split: option.split)
qed

lemma read_symbol_count_not_Fault:
  assumes "wf_segments (length data) segs" and "length data < 2 ^ 64"
  shows "read_symbol_count data segs hash \<noteq> Fault"
proof (cases "virtual_address_to_file segs (dv_value hash) 8")
  case (Some off)
  from virtual_address_to_file_bound [OF this assms] have off: "unat off + 8 \<le> length data" by simp
  then have "unat (off + 4) = unat off + 4" using assms(2) unat_add64 [of off 4] by simp
  with off Some show ?thesis
    by (simp add: read_symbol_count_def Let_def split: option.split)
qed (simp add: read_symbol_count_def)

lemma dynamic_symbol_loop_valid:
  assumes "unat table_offset + 24 * (i + n) \<le> length data"
  shows "valid (dynamic_symbol_loop data table_offset i n) (\<lambda>symbols. length symbols = n)"
  using assms
proof (induction n arbitrary: i)
  case (Suc n)
  have "valid (dynamic_symbol_loop data table_offset (Suc i) n) (\<lambda>symbols. length symbols = n)"
    using Suc.prems by (intro Suc.IH) auto
  with Suc.prems show ?case by (auto simp: Let_def mult.commute elim: valid_weaken)
qed simp

lemma read_relocation_symbols_not_Fault:
  assumes "wf_segments (length data) segs" and "length data < 2 ^ 64"
  shows "read_relocation_symbols data segs dynamic symbol_count \<noteq> Fault"
proof (cases "virtual_address_to_file segs (dv_value (dr_symbol_table dynamic)) (ucast symbol_count * 24)")
  case (Some off)
  have "unat (ucast symbol_count * 24 :: u64) = 24 * unat symbol_count"
    using unat_u32_less [of symbol_count] by (simp add: unat_word_ariths)
  with virtual_address_to_file_bound [OF Some assms]
  have "valid (dynamic_symbol_loop data off 0 (unat symbol_count)) (\<lambda>symbols. length symbols = unat symbol_count)"
    by (intro dynamic_symbol_loop_valid) simp
  with Some show ?thesis by (auto simp: read_relocation_symbols_def dest: valid_not_Fault)
qed (simp add: read_relocation_symbols_def)

text \<open>An accepted relocation: known type, target and symbol inside the segments' memory.\<close>

definition wf_relocation :: "LoadSegment list \<Rightarrow> DynamicSymbol list \<Rightarrow> Relocation \<Rightarrow> bool" where
  "wf_relocation segs symbols r \<longleftrightarrow> is_known_amdgpu_relocation (rl_type r) \<and>
     unat (rl_symbol_index r) < length symbols \<and>
     (relocation_width (rl_type r) \<noteq> 0 \<longrightarrow>
        in_memory segs (rl_target_virtual_address r) (relocation_width (rl_type r))) \<and>
     (let symbol = symbols ! unat (rl_symbol_index r) in
      if relocation_uses_symbol (rl_type r)
      then rl_symbol_value r = ds_value symbol \<and> rl_symbol_is_absolute r = ds_absolute symbol \<and>
           ds_defined symbol \<and> (ds_absolute symbol \<or> in_memory segs (ds_value symbol) 1)
      else rl_symbol_value r = 0 \<and> \<not> rl_symbol_is_absolute r) \<and>
     - (2 ^ 63) \<le> rl_addend r \<and> rl_addend r < 2 ^ 63 \<and>
     (rl_encoding r = Rel \<longrightarrow> rl_addend r = 0)"

lemma check_relocation_valid:
  assumes "- (2 ^ 63) \<le> addend" and "addend < 2 ^ 63" and "encoding = Rel \<Longrightarrow> addend = 0"
  shows "valid (check_relocation segs table encoding symbols index off target info addend)
    (wf_relocation segs symbols)"
  using assms
  by (simp add: check_relocation_def Let_def)
    (auto simp: wf_relocation_def virtual_address_in_memory_iff Let_def)

lemma relocation_loop_valid:
  assumes "unat table_offset + unat entry_size * (i + n) \<le> length data" and "length data < 2 ^ 64"
    and "entry_size = (if encoding = Rela then 24 else 16)"
    and "\<forall>r \<in> set rs. wf_relocation segs symbols r"
  shows "valid (relocation_loop data segs table encoding symbols table_offset entry_size i n rs)
    (\<lambda>rs'. \<forall>r \<in> set rs'. wf_relocation segs symbols r)"
  using assms(1,4)
proof (induction n arbitrary: i rs)
  case (Suc n)
  have entry: "unat (table_offset + of_nat i * entry_size) = unat table_offset + unat entry_size * i"
    using Suc.prems(1) assms(2) by (intro unat_table_entry) (simp add: distrib_left)
  have addend: "valid (if encoding = Rela then read_i64 data (unat table_offset + unat entry_size * i + 16)
        else Ok 0 :: int parsed)
      (\<lambda>a. - (2 ^ 63) \<le> a \<and> a < 2 ^ 63 \<and> (encoding = Rel \<longrightarrow> a = 0))"
  proof (cases encoding)
    case Rela
    then show ?thesis
      using Suc.prems(1) assms(3) sint_ge [where 'a = 64] sint_lt [where 'a = 64] by simp
  qed simp
  have rest: "valid (relocation_loop data segs table encoding symbols table_offset entry_size (Suc i) n (rs @ [r]))
      (\<lambda>rs'. \<forall>r \<in> set rs'. wf_relocation segs symbols r)" if "wf_relocation segs symbols r" for r
    using Suc.prems that by (intro Suc.IH) auto
  have reads: "unat table_offset + unat entry_size * i + 16 \<le> length data"
    using Suc.prems(1) assms(3) by (simp split: if_splits)
  then show ?case
    apply (simp add: Let_def entry del: valid_obind split del: if_split)
    apply (rule valid_obindI [OF addend [folded entry]], rule valid_obindI [OF check_relocation_valid])
    by (auto intro: rest)
qed simp

lemma read_relocation_table_valid:
  assumes "wf_segments (length data) segs" and "length data < 2 ^ 64"
    and "\<forall>r \<in> set rs. wf_relocation segs symbols r"
  shows "valid (read_relocation_table data segs table encoding symbols rs)
    (\<lambda>rs'. \<forall>r \<in> set rs'. wf_relocation segs symbols r)"
proof (cases "virtual_address_to_file segs (dv_value (rt_address table)) (dv_value (rt_size table))")
  case None
  with assms(3) show ?thesis by (simp add: read_relocation_table_def Let_def)
next
  case (Some off)
  let ?k = "if encoding = Rela then 24 else 16 :: u64"
  have "unat ?k * unat (dv_value (rt_size table) div ?k) \<le> unat (dv_value (rt_size table))"
    by (simp add: unat_div)
  with virtual_address_to_file_bound [OF Some assms(1,2)]
  have "unat off + unat ?k * (0 + unat (dv_value (rt_size table) div ?k)) \<le> length data" by simp
  from relocation_loop_valid [OF this assms(2) refl assms(3)] Some assms(3) show ?thesis
    by (simp add: read_relocation_table_def Let_def)
qed

section \<open>Sorting the relocations\<close>

definition relocation_key :: "Relocation \<Rightarrow> u64 \<times> nat \<times> u32 \<times> u32 \<times> int" where
  "relocation_key r = (rl_target_virtual_address r, encoding_value (rl_encoding r), rl_type r,
     rl_symbol_index r, rl_addend r)"

lemma encoding_value_inj [simp]: "encoding_value a = encoding_value b \<longleftrightarrow> a = b"
  by (cases a; cases b) simp_all

lemma relocation_before_key: "relocation_before x y \<longleftrightarrow> relocation_key x < relocation_key y"
  by (cases "rl_encoding x"; cases "rl_encoding y")
    (auto simp: relocation_before_def relocation_key_def)

interpretation relocation_order: strict_weak_order relocation_before
  unfolding relocation_before_key [abs_def] by (rule key_order)

text \<open>Two accepted relocations that the comparator does not separate are the same relocation.\<close>

lemma wf_relocation_key:
  assumes "wf_relocation segs symbols x" and "wf_relocation segs symbols y"
    and "\<not> relocation_before x y" and "\<not> relocation_before y x"
  shows "x = y"
proof -
  have "relocation_key x = relocation_key y"
    using assms(3,4) by (simp add: relocation_before_key not_less)
  with assms(1,2) show ?thesis
    by (cases x; cases y) (auto simp: wf_relocation_def relocation_key_def Let_def split: if_splits)
qed

definition relocations_ok :: "LoadSegment list \<Rightarrow> Relocation list \<Rightarrow> bool" where
  "relocations_ok segs rs \<longleftrightarrow>
     (\<exists>symbols. \<forall>r \<in> set rs. wf_relocation segs symbols r) \<and>
     sorted_wrt (\<lambda>x y. \<not> relocation_before y x) rs"

lemma append_relocations_valid:
  assumes "unat fsize = length data" and "elf_ok data" and "wf_segments (length data) segs"
    and "plan_relocations plan = []"
  shows "valid (append_relocations data fsize segs plan) (\<lambda>plan'.
    plan' = plan\<lparr>plan_relocations := plan_relocations plan'\<rparr> \<and>
    relocations_ok segs (plan_relocations plan'))"
proof -
  have len: "length data < 2 ^ 64" using assms(2) by (simp add: elf_ok_def)
  have info: "valid (read_dynamic_relocation_info data fsize) (\<lambda>_. True)"
    using read_dynamic_relocation_info_valid [OF assms(1,2)] by simp
  have checks: "valid (validate_relocation_table_info table k) (\<lambda>_. True)"
    "valid (validate_disjoint_relocation_tables rel rela) (\<lambda>_. True)" for table k rel rela
    by simp_all
  have cnt: "valid (read_symbol_count data segs hash) (\<lambda>_. True)" for hash
    using read_symbol_count_not_Fault [OF assms(3) len] by simp
  have syms: "valid (read_relocation_symbols data segs dynamic n) (\<lambda>_. True)" for dynamic n
    using read_relocation_symbols_not_Fault [OF assms(3) len] by simp
  have sorted: "relocations_ok segs (std_sort relocation_before rs)"
    if "\<forall>r \<in> set rs. wf_relocation segs symbols r" for symbols rs
    using that relocation_order.sort_sorted by (auto simp: relocations_ok_def)
  have same: "plan = plan\<lparr>plan_relocations := plan_relocations plan\<rparr>" by simp
  show ?thesis
    unfolding append_relocations_def Let_def
    apply (rule valid_obindI [OF info], rule valid_obindI [OF checks(1)],
        rule valid_obindI [OF checks(1)], rule valid_obindI [OF checks(2)], rule valid_IfI)
     apply (simp add: assms(4) relocations_ok_def)
    apply (rule valid_obindI [OF cnt], rule valid_obindI [OF syms],
        rule valid_obindI [OF read_relocation_table_valid [OF assms(3) len]], simp add: assms(4),
        rule valid_obindI [OF read_relocation_table_valid [OF assms(3) len]], assumption)
    apply (simp add: sorted)
    done
qed

section \<open>The plan of a list of segments\<close>

abbreviation live :: "LoadSegment list \<Rightarrow> LoadSegment list" where
  "live segs \<equiv> filter (\<lambda>s. ls_memory_size s \<noteq> 0) segs"

definition seg_copy :: "LoadSegment \<Rightarrow> LoadCopy" where
  "seg_copy s = \<lparr>lc_file_offset = ls_file_offset s, lc_virtual_address = ls_virtual_address s,
     lc_size = ls_file_size s\<rparr>"

definition seg_zero_fill :: "LoadSegment \<Rightarrow> LoadZeroFill" where
  "seg_zero_fill s = \<lparr>lz_virtual_address = ls_virtual_address s + ls_file_size s,
     lz_size = ls_memory_size s - ls_file_size s\<rparr>"

definition seg_protection :: "LoadSegment \<Rightarrow> LoadProtection" where
  "seg_protection s = \<lparr>lp_virtual_address = ls_virtual_address s, lp_size = ls_memory_size s,
     lp_flags = ls_flags s\<rparr>"

text \<open>\<open>image_low\<close> and \<open>image_high\<close>: the smallest start and the largest end of a live segment.\<close>

definition image_low :: "LoadSegment list \<Rightarrow> u64" where
  "image_low segs = fold (\<lambda>s m. min m (ls_virtual_address s)) (live segs) (- 1)"

definition image_high :: "LoadSegment list \<Rightarrow> u64" where
  "image_high segs = fold (\<lambda>s m. max m (ls_virtual_address s + ls_memory_size s)) (live segs) 0"

definition plan_of :: "LoadSegment list \<Rightarrow> LoadPlan" where
  "plan_of segs =
     \<lparr>plan_image_virtual_address = (if live segs = [] then 0 else image_low segs),
      plan_image_size = (if live segs = [] then 0 else image_high segs - image_low segs),
      plan_alignment = fold (\<lambda>s m. max m (ls_alignment s)) (live segs) 1,
      plan_copies = std_sort copy_before (map seg_copy (filter (\<lambda>s. ls_file_size s \<noteq> 0) segs)),
      plan_zero_fills = std_sort zero_fill_before
        (map seg_zero_fill (filter (\<lambda>s. ls_file_size s < ls_memory_size s) segs)),
      plan_protections = std_sort protection_before (map seg_protection (live segs)),
      plan_relocations = []\<rparr>"

lemma plan_loop_eq:
  assumes "\<forall>s \<in> set segs. wf_segment n s"
  shows "plan_loop segs plan e = Ok
    (plan\<lparr>plan_image_virtual_address :=
            fold (\<lambda>s m. min m (ls_virtual_address s)) (live segs) (plan_image_virtual_address plan),
          plan_alignment := fold (\<lambda>s m. max m (ls_alignment s)) (live segs) (plan_alignment plan),
          plan_copies := plan_copies plan @ map seg_copy (filter (\<lambda>s. ls_file_size s \<noteq> 0) segs),
          plan_zero_fills := plan_zero_fills plan @
            map seg_zero_fill (filter (\<lambda>s. ls_file_size s < ls_memory_size s) segs),
          plan_protections := plan_protections plan @ map seg_protection (live segs)\<rparr>,
     fold (\<lambda>s m. max m (ls_virtual_address s + ls_memory_size s)) (live segs) e)"
  using assms
proof (induction segs arbitrary: plan e)
  case (Cons s segs)
  have wf: "unat (ls_file_size s) \<le> unat (ls_memory_size s)"
    "unat (ls_virtual_address s) + unat (ls_memory_size s) < 2 ^ 64"
    using Cons.prems by (simp_all add: wf_segment_def)
  have "checked_add (ls_virtual_address s) (ls_memory_size s) =
      Some (ls_virtual_address s + ls_memory_size s)"
    "checked_add (ls_virtual_address s) (ls_file_size s) =
      Some (ls_virtual_address s + ls_file_size s)"
    using wf by (simp_all add: checked_add_Some)
  moreover have "ls_file_size s = 0" if "ls_memory_size s = 0"
    using wf(1) that by (simp add: unat_eq_zero)
  ultimately show ?case
    using Cons
    by (simp add: Let_def seg_copy_def seg_zero_fill_def seg_protection_def)
qed simp

text \<open>Where the image lies.\<close>

lemma image_bounds:
  assumes "\<forall>s \<in> set segs. wf_segment n s" and "s \<in> set (live segs)"
  shows "unat (image_low segs) \<le> unat (ls_virtual_address s)"
    and "unat (ls_virtual_address s) + unat (ls_memory_size s) \<le> unat (image_high segs)"
proof -
  have "image_low segs \<le> ls_virtual_address s"
    unfolding image_low_def fold_min_Min using assms(2) by (intro Min_le) auto
  then show "unat (image_low segs) \<le> unat (ls_virtual_address s)" by (simp add: word_le_nat_alt)
  have "ls_virtual_address s + ls_memory_size s \<le> image_high segs"
    unfolding image_high_def fold_max_Max using assms(2) by (intro Max_ge) auto
  moreover have "unat (ls_virtual_address s + ls_memory_size s) =
      unat (ls_virtual_address s) + unat (ls_memory_size s)"
    using assms by (intro unat_add64) (auto simp: wf_segment_def)
  ultimately show "unat (ls_virtual_address s) + unat (ls_memory_size s) \<le> unat (image_high segs)"
    by (simp add: word_le_nat_alt)
qed

lemma image_attained:
  assumes "\<forall>s \<in> set segs. wf_segment n s" and "live segs \<noteq> []"
  obtains s t where "s \<in> set (live segs)" and "t \<in> set (live segs)"
    and "image_low segs = ls_virtual_address s"
    and "unat (image_high segs) = unat (ls_virtual_address t) + unat (ls_memory_size t)"
proof -
  have bound: "unat (ls_virtual_address s) + unat (ls_memory_size s) < 2 ^ 64" "0 < unat (ls_memory_size s)"
    if "s \<in> set (live segs)" for s
    using assms(1) that by (auto simp: wf_segment_def unat_gt_0)
  obtain u where u: "u \<in> set (live segs)" using assms(2) by (cases "live segs") auto
  have "image_low segs \<in> insert (- 1) (ls_virtual_address ` set (live segs))"
    unfolding image_low_def fold_min_Min by (rule Min_in) auto
  moreover have "image_low segs \<noteq> - 1"
    using image_bounds(1) [OF assms(1) u] bound [OF u] unat_max64 by auto
  ultimately obtain s where s: "s \<in> set (live segs)" "image_low segs = ls_virtual_address s" by auto
  have "image_high segs \<in> insert 0 ((\<lambda>s. ls_virtual_address s + ls_memory_size s) ` set (live segs))"
    unfolding image_high_def fold_max_Max by (rule Max_in) auto
  moreover have "image_high segs \<noteq> 0"
    using image_bounds(2) [OF assms(1) u] bound [OF u] by auto
  ultimately obtain t where t: "t \<in> set (live segs)"
    "image_high segs = ls_virtual_address t + ls_memory_size t" by auto
  from t(2) have "unat (image_high segs) = unat (ls_virtual_address t) + unat (ls_memory_size t)"
    using bound [OF t(1)] by (simp add: unat_add64)
  with s t(1) that show thesis by blast
qed

lemma image_low_not_max:
  assumes "\<forall>s \<in> set segs. wf_segment n s"
  shows "image_low segs = - 1 \<longleftrightarrow> live segs = []"
proof
  assume max: "image_low segs = - 1"
  show "live segs = []"
  proof (rule ccontr)
    assume "live segs \<noteq> []"
    then obtain s where s: "s \<in> set (live segs)" "image_low segs = ls_virtual_address s"
      using image_attained [OF assms] by metis
    with max have "unat (ls_virtual_address s) = 2 ^ 64 - 1" by (simp only: unat_max64)
    moreover have "unat (ls_virtual_address s) + unat (ls_memory_size s) < 2 ^ 64" "0 < unat (ls_memory_size s)"
      using assms s(1) by (auto simp: wf_segment_def unat_gt_0)
    ultimately show False by simp
  qed
qed (simp add: image_low_def)

lemma segment_plan_eq:
  assumes "\<forall>s \<in> set segs. wf_segment n s"
  shows "segment_plan segs = Ok (plan_of segs)"
proof -
  have low: "fold (\<lambda>s m. min m (ls_virtual_address s)) (live segs) (- 1) = image_low segs"
    and high: "fold (\<lambda>s m. max m (ls_virtual_address s + ls_memory_size s)) (live segs) 0 = image_high segs"
    by (simp_all add: image_low_def image_high_def)
  show ?thesis
    using image_low_not_max [OF assms]
    by (simp add: segment_plan_def plan_loop_eq [OF assms] plan_of_def default_LoadPlan_def low high Let_def)
qed

text \<open>Every live segment lies in the image, and the image is exactly as large as needed.\<close>

lemma plan_of_image:
  assumes "\<forall>s \<in> set segs. wf_segment n s" and "s \<in> set (live segs)"
  shows "unat (plan_image_virtual_address (plan_of segs)) \<le> unat (ls_virtual_address s)"
    and "unat (ls_virtual_address s) + unat (ls_memory_size s) \<le>
      unat (plan_image_virtual_address (plan_of segs)) + unat (plan_image_size (plan_of segs))"
    and "unat (plan_image_virtual_address (plan_of segs)) + unat (plan_image_size (plan_of segs)) < 2 ^ 64"
proof -
  note b = image_bounds [OF assms]
  have ne: "live segs \<noteq> []" using assms(2) by (auto simp: filter_empty_conv)
  have "unat (image_high segs - image_low segs) = unat (image_high segs) - unat (image_low segs)"
    using b by (intro unat_sub) (simp add: word_le_nat_alt)
  then have "unat (image_low segs) + unat (image_high segs - image_low segs) = unat (image_high segs)"
    using b by simp
  then show "unat (plan_image_virtual_address (plan_of segs)) \<le> unat (ls_virtual_address s)"
    and "unat (ls_virtual_address s) + unat (ls_memory_size s) \<le>
      unat (plan_image_virtual_address (plan_of segs)) + unat (plan_image_size (plan_of segs))"
    and "unat (plan_image_virtual_address (plan_of segs)) + unat (plan_image_size (plan_of segs)) < 2 ^ 64"
    using b ne unat_u64_less [of "image_high segs"] by (simp_all add: plan_of_def)
qed

text \<open>The comparators of the plan.\<close>

interpretation copy_order: strict_weak_order copy_before
  unfolding copy_before_def [abs_def] by (rule key_order2)

interpretation zero_fill_order: strict_weak_order zero_fill_before
  unfolding zero_fill_before_def [abs_def] by (rule key_order)

interpretation protection_order: strict_weak_order protection_before
  unfolding protection_before_def [abs_def] by (rule key_order)

text \<open>
  A list of operations one after the other: non-empty ranges, none past the address space, in
  increasing address order without overlap.
\<close>

definition laid_out :: "('a \<Rightarrow> u64) \<Rightarrow> ('a \<Rightarrow> u64) \<Rightarrow> 'a list \<Rightarrow> bool" where
  "laid_out address sz ops \<longleftrightarrow>
     (\<forall>x \<in> set ops. 0 < unat (sz x) \<and> unat (address x) + unat (sz x) < 2 ^ 64) \<and>
     sorted_wrt (\<lambda>x y. unat (address x) + unat (sz x) \<le> unat (address y)) ops"

lemma segment_parts:
  assumes "wf_segment n s"
  shows "unat (lz_virtual_address (seg_zero_fill s)) = unat (ls_virtual_address s) + unat (ls_file_size s)"
    and "unat (lz_size (seg_zero_fill s)) = unat (ls_memory_size s) - unat (ls_file_size s)"
proof -
  have "unat (ls_file_size s) \<le> unat (ls_memory_size s)"
    "unat (ls_virtual_address s) + unat (ls_memory_size s) < 2 ^ 64"
    using assms by (simp_all add: wf_segment_def)
  then show "unat (lz_virtual_address (seg_zero_fill s)) = unat (ls_virtual_address s) + unat (ls_file_size s)"
    and "unat (lz_size (seg_zero_fill s)) = unat (ls_memory_size s) - unat (ls_file_size s)"
    by (simp_all add: seg_zero_fill_def unat_add64 unat_sub word_le_nat_alt)
qed

text \<open>Sub-ranges of pairwise disjoint segments are pairwise disjoint.\<close>

lemma disjoint_parts:
  assumes "wf_segments n segs"
    and "\<And>s. s \<in> set segs \<Longrightarrow> P s \<Longrightarrow> lo (f s) = unat (ls_virtual_address s) + d s \<and>
      d s + len (f s) \<le> unat (ls_memory_size s)"
  shows "sorted_wrt (\<lambda>x y. {lo x ..< lo x + len x} \<inter> {lo y ..< lo y + len y} = {}) (map f (filter P segs))"
proof -
  have disj: "sorted_wrt (\<lambda>s t. seg_range ls_virtual_address ls_memory_size s \<inter>
      seg_range ls_virtual_address ls_memory_size t = {}) (filter P segs)"
    using assms(1) by (auto simp: wf_segments_def intro: sorted_wrt_filter)
  have sub: "{lo (f s) ..< lo (f s) + len (f s)} \<subseteq> seg_range ls_virtual_address ls_memory_size s"
    if "s \<in> set (filter P segs)" for s
    using assms(2) [of s] that by (auto simp: seg_range_def)
  show ?thesis
    unfolding sorted_wrt_map
  proof (rule sorted_wrt_mono_rel [OF _ disj])
    fix x y
    assume "x \<in> set (filter P segs)" and "y \<in> set (filter P segs)"
      and "seg_range ls_virtual_address ls_memory_size x \<inter>
        seg_range ls_virtual_address ls_memory_size y = {}"
    with sub [of x] sub [of y]
    show "{lo (f x) ..< lo (f x) + len (f x)} \<inter> {lo (f y) ..< lo (f y) + len (f y)} = {}"
      by blast
  qed
qed

lemma plan_of_laid_out:
  assumes "wf_segments n segs"
  shows "laid_out lc_virtual_address lc_size (plan_copies (plan_of segs))"
    and "laid_out lz_virtual_address lz_size (plan_zero_fills (plan_of segs))"
    and "laid_out lp_virtual_address lp_size (plan_protections (plan_of segs))"
proof -
  have wf: "wf_segment n s" if "s \<in> set segs" for s using assms that by (simp add: wf_segments_def)
  have sizes: "unat (ls_file_size s) \<le> unat (ls_memory_size s)"
    "unat (ls_virtual_address s) + unat (ls_memory_size s) < 2 ^ 64" if "s \<in> set segs" for s
    using wf [OF that] by (simp_all add: wf_segment_def)
  have "sorted_wrt (\<lambda>x y. unat (lc_virtual_address x) + unat (lc_size x) \<le> unat (lc_virtual_address y))
      (std_sort copy_before (map seg_copy (filter (\<lambda>s. ls_file_size s \<noteq> 0) segs)))"
    by (rule copy_order.sort_disjoint, simp add: copy_before_def word_le_nat_alt not_less split: if_splits,
        simp add: seg_copy_def unat_gt_0, rule disjoint_parts [OF assms, where d = "\<lambda>_. 0"])
      (use sizes in \<open>simp add: seg_copy_def\<close>)
  then show "laid_out lc_virtual_address lc_size (plan_copies (plan_of segs))"
    using sizes by (fastforce simp: laid_out_def plan_of_def seg_copy_def unat_gt_0)
  have "sorted_wrt (\<lambda>x y. unat (lz_virtual_address x) + unat (lz_size x) \<le> unat (lz_virtual_address y))
      (std_sort zero_fill_before (map seg_zero_fill (filter (\<lambda>s. ls_file_size s < ls_memory_size s) segs)))"
    by (rule zero_fill_order.sort_disjoint, simp add: zero_fill_before_def word_le_nat_alt not_less,
        simp add: segment_parts [OF wf] word_less_nat_alt,
        rule disjoint_parts [OF assms, where d = "\<lambda>s. unat (ls_file_size s)"])
      (use sizes in \<open>simp add: segment_parts [OF wf]\<close>)
  then show "laid_out lz_virtual_address lz_size (plan_zero_fills (plan_of segs))"
    using sizes by (fastforce simp: laid_out_def plan_of_def segment_parts [OF wf] word_less_nat_alt)
  have "sorted_wrt (\<lambda>x y. unat (lp_virtual_address x) + unat (lp_size x) \<le> unat (lp_virtual_address y))
      (std_sort protection_before (map seg_protection (live segs)))"
    by (rule protection_order.sort_disjoint, simp add: protection_before_def word_le_nat_alt not_less,
        simp add: seg_protection_def unat_gt_0, rule disjoint_parts [OF assms, where d = "\<lambda>_. 0"])
      (simp add: seg_protection_def)
  then show "laid_out lp_virtual_address lp_size (plan_protections (plan_of segs))"
    using sizes by (fastforce simp: laid_out_def plan_of_def seg_protection_def unat_gt_0)
qed

text \<open>An accepted plan is the plan of the segments with accepted relocations.\<close>

definition wf_plan :: "LoadSegment list \<Rightarrow> LoadPlan \<Rightarrow> bool" where
  "wf_plan segs plan \<longleftrightarrow> plan = (plan_of segs)\<lparr>plan_relocations := plan_relocations plan\<rparr> \<and>
     relocations_ok segs (plan_relocations plan)"

lemma build_load_plan_valid:
  assumes "unat fsize = length data" and "elf_ok data"
    and "wf_segments (length data) (co_load_segments co)"
  shows "valid (build_load_plan data fsize co) (\<lambda>co'. co' = co\<lparr>co_load_plan := co_load_plan co'\<rparr> \<and>
    wf_plan (co_load_segments co) (co_load_plan co'))"
proof -
  have "segment_plan (co_load_segments co) = Ok (plan_of (co_load_segments co))"
    using assms(3) by (intro segment_plan_eq) (auto simp: wf_segments_def)
  moreover have "plan_relocations (plan_of (co_load_segments co)) = []" by (simp add: plan_of_def)
  ultimately show ?thesis
    unfolding build_load_plan_def wf_plan_def
    using append_relocations_valid [OF assms] by (auto elim!: valid_weaken)
qed

end
