(* ===== verification/Loader.thy ===== *)
theory Loader
  imports Symbols LoadPlanReader
begin

text \<open>
  The loader's entry point, \<open>parse_code_object\<close> of \<open>light-rocr/loader/elf_reader.cpp\<close>: the header
  and segment checks, then the metadata decoder, then the load plan. The result carries the error
  and the code object as far as it was filled: a failing decoder leaves the header fields and
  segments in place, as the code does. A null data pointer is \<^const>\<open>None\<close>.

  The lemmas show that every error has a code other than \<open>None\<close>, so that a result without error
  comes from the full run, and that such a result satisfies \<open>wf_code_object\<close>.
\<close>

section \<open>The entry point\<close>

definition buffer_bytes :: "bytes option \<Rightarrow> bytes" where
  "buffer_bytes buffer = (case buffer of None \<Rightarrow> [] | Some data \<Rightarrow> data)"

definition read_segments :: "bytes \<Rightarrow> u64 \<Rightarrow> ElfHeader \<Rightarrow> CodeObject parsed" where
  "read_segments data fsize h =
     obind (parse_segments h data fsize 0 (unat (eh_program_header_count h))) (\<lambda>segs.
     obind (check_segments h segs) (\<lambda>_.
       Ok (default_CodeObject\<lparr>co_abi_version := eh_abi_version h, co_elf_flags := eh_flags h,
                             co_target_machine := eh_target_machine h,
                             co_load_segments := map pls_segment segs\<rparr>)))"

definition parse_load_segments :: "bytes option \<Rightarrow> u64 \<Rightarrow> CodeObject parsed" where
  "parse_load_segments buffer fsize =
     (if buffer = None \<and> fsize \<noteq> 0 then failure InvalidArgument 0
      else obind (parse_elf_header (buffer_bytes buffer) fsize)
             (read_segments (buffer_bytes buffer) fsize))"

definition parse_code_object :: "bytes option \<Rightarrow> u64 \<Rightarrow> (ParseError, ParseResult) outcome" where
  "parse_code_object buffer fsize =
     (case parse_load_segments buffer fsize of
        Fault \<Rightarrow> Fault
      | Err e \<Rightarrow> Ok \<lparr>pr_code_object = default_CodeObject, pr_error = e\<rparr>
      | Ok co \<Rightarrow>
        (case decode_amdhsa_metadata (buffer_bytes buffer) fsize co of
           Fault \<Rightarrow> Fault
         | Err e \<Rightarrow> Ok \<lparr>pr_code_object = co, pr_error = e\<rparr>
         | Ok co1 \<Rightarrow>
           (case build_load_plan (buffer_bytes buffer) fsize co1 of
              Fault \<Rightarrow> Fault
            | Err e \<Rightarrow> Ok \<lparr>pr_code_object = co1, pr_error = e\<rparr>
            | Ok co2 \<Rightarrow> Ok \<lparr>pr_code_object = co2, pr_error = no_error\<rparr>)))"

section \<open>Errors carry an error code\<close>

definition errs :: "'a parsed \<Rightarrow> bool" where
  "errs m \<longleftrightarrow> (\<forall>e. m = Err e \<longrightarrow> pe_code e \<noteq> NoParseError)"

named_theorems errs_intro

lemma errs_simps [simp]:
  "errs (Ok x)" "errs Fault" "errs (failure c off) \<longleftrightarrow> c \<noteq> NoParseError"
  by (simp_all add: errs_def failure_def)

lemma errs_obind [errs_intro]: "errs m \<Longrightarrow> (\<And>x. errs (f x)) \<Longrightarrow> errs (obind m f)"
  by (cases m) (auto simp: errs_def)

lemma errs_If [errs_intro]: "(b \<Longrightarrow> errs m) \<Longrightarrow> (\<not> b \<Longrightarrow> errs n) \<Longrightarrow> errs (if b then m else n)"
  by simp

lemma errs_option [errs_intro]:
  "errs m \<Longrightarrow> (\<And>x. r = Some x \<Longrightarrow> errs (f x)) \<Longrightarrow> errs (case r of None \<Rightarrow> m | Some x \<Rightarrow> f x)"
  by (cases r) simp_all

lemma errs_prod [errs_intro]: "(\<And>a b. p = (a, b) \<Longrightarrow> errs (f a b)) \<Longrightarrow> errs (case p of (a, b) \<Rightarrow> f a b)"
  by (cases p) simp

lemma errs_Let [errs_intro]: "(\<And>x. errs (f x)) \<Longrightarrow> errs (let x = a in f x)"
  by simp

lemma errs_value [errs_intro]:
  assumes "\<And>off. errs (f1 off)" "\<And>off b. errs (f2 off b)" "\<And>off u. errs (f3 off u)"
    "\<And>off i. errs (f4 off i)" "\<And>off s. errs (f5 off s)" "\<And>off vs. errs (f6 off vs)"
    "\<And>off kvs. errs (f7 off kvs)"
  shows "errs (case_MessagePackValue f1 f2 f3 f4 f5 f6 f7 v)"
  by (cases v) (use assms in simp_all)

lemma errs_rd8 [errs_intro]: "errs (rd8 data p)"
  by (simp add: rd8_def)

lemma errs_read_le_loop [errs_intro]: "errs (read_le_loop data p n i w)"
proof (induction "n - i" arbitrary: i w)
  case 0
  then show ?case by (subst read_le_loop.simps) simp
next
  case (Suc k)
  show ?case using Suc.hyps(2) by (subst read_le_loop.simps) (auto intro!: errs_intro Suc.hyps(1))
qed

lemma errs_reads [errs_intro]:
  "errs (read_u16 data p)" "errs (read_u32 data p)" "errs (read_u64 data p)"
  "errs (read_i64 data p)"
  unfolding read_u16_def read_u32_def read_u64_def read_i64_def
  by (intro errs_intro errs_simps)+

lemma errs_read_bytes [errs_intro]: "errs (read_bytes data p n)"
  by (induction n arbitrary: p) (auto intro!: errs_intro)

text \<open>Header and segments.\<close>

lemma errs_parse_elf_header [errs_intro]: "errs (parse_elf_header data fsize)"
  unfolding parse_elf_header_def by (intro errs_intro) simp_all

lemma errs_validate_load_segment [errs_intro]: "errs (validate_load_segment s fsize off)"
  unfolding validate_load_segment_def by (intro errs_intro) simp_all

lemma errs_read_load_segment [errs_intro]: "errs (read_load_segment data entry)"
  unfolding read_load_segment_def by (intro errs_intro) simp_all

lemma errs_parse_segments [errs_intro]: "errs (parse_segments h data fsize i n)"
  by (induction n arbitrary: i) (auto simp: Let_def intro!: errs_intro)

lemma errs_check_segments [errs_intro]: "errs (check_segments h segs)"
  unfolding check_segments_def by (intro errs_intro) simp_all

text \<open>MessagePack and notes.\<close>

lemma errs_mp_fail [simp]: "errs (mp_fail mb c off) \<longleftrightarrow> c \<noteq> NoParseError"
  by (simp add: mp_fail_def)

lemma errs_be_loop [errs_intro]: "errs (be_loop data p n r)"
  by (induction n arbitrary: p r) (auto simp: Let_def intro!: errs_intro)

lemma errs_read_big_endian [errs_intro]: "errs (read_big_endian data mb cursor w)"
  unfolding read_big_endian_def by (intro errs_intro) simp_all

lemma errs_read_length [errs_intro]: "errs (read_length data mb cursor w m)"
  unfolding read_length_def by (intro errs_intro) simp_all

lemma errs_read_chars [errs_intro]: "errs (read_chars data p n)"
  by (induction n arbitrary: p) (auto simp: Let_def intro!: errs_intro)

lemma errs_parse_string [errs_intro]: "errs (parse_string data mb cursor len m)"
  unfolding parse_string_def by (intro errs_intro) simp_all

lemma errs_parse_unsigned [errs_intro]: "errs (parse_unsigned data mb cursor w m)"
  unfolding parse_unsigned_def by (intro errs_intro) simp_all

lemma errs_parse_signed [errs_intro]: "errs (parse_signed data mb cursor w m)"
  unfolding parse_signed_def by (intro errs_intro) simp_all

lemma errs_containers:
  assumes "\<And>c. errs (parse_value data mb (d + 1) c)"
  shows "errs (parse_array data mb d cursor n m)" and "errs (parse_map data mb d cursor n m)"
proof -
  have "errs (parse_elements data mb d c k)" for c k
    by (induction k arbitrary: c) (auto intro!: errs_intro assms [simplified])
  moreover have "errs (parse_entries data mb d c k keys)" for c k keys
    by (induction k arbitrary: c keys) (auto intro!: errs_intro assms [simplified])
  ultimately show "errs (parse_array data mb d cursor n m)" and "errs (parse_map data mb d cursor n m)"
    unfolding parse_array.simps parse_map.simps by (auto intro!: errs_intro)
qed

lemma errs_parse_value [errs_intro]: "errs (parse_value data mb d cursor)"
proof (induction "65 - d" arbitrary: d cursor rule: less_induct)
  case less
  show ?case
  proof (cases "d \<le> kMaximumMetadataDepth")
    case True
    then have "errs (parse_value data mb (d + 1) c)" for c by (intro less) simp
    note containers = errs_containers [OF this]
    show ?thesis
      unfolding parse_value.simps by (intro errs_intro containers) simp_all
  qed (simp add: parse_value.simps)
qed

lemma errs_parse_document [errs_intro]: "errs (parse_document data mb)"
  unfolding parse_document_def by (intro errs_intro) simp_all

lemma errs_is_metadata_note [errs_intro]: "errs (is_metadata_note data cursor ns type)"
  unfolding is_metadata_note_def by (intro errs_intro) simp_all

lemma errs_note_loop [errs_intro]: "errs (note_loop data stop cursor metadata)"
proof (induction "unat stop - unat cursor" arbitrary: cursor metadata rule: less_induct)
  case less
  have "errs (note_loop data stop nxt metadata')"
    if "note_extent cursor stop ns ds = Some (off, nxt)" "cursor < stop" "\<not> stop - cursor < 12"
    for ns ds off nxt metadata'
  proof (rule less)
    have lt: "unat cursor < unat stop" "12 \<le> unat stop - unat cursor"
      using that(2,3) by (auto simp: word_less_nat_alt unat_sub word_le_nat_alt)
    then have "unat cursor + 12 < 2 ^ 64" using unat_u64_less [of stop] by simp
    from note_extent_Some [OF that(1) this] lt
    show "unat stop - unat nxt < unat stop - unat cursor" by simp
  qed
  then show ?case by (subst note_loop.simps) (auto intro!: errs_intro)
qed

lemma errs_note_headers [errs_intro]: "errs (note_headers data fsize table k i n found)"
  by (induction n arbitrary: i found) (auto simp: Let_def intro!: errs_intro)

lemma errs_find_metadata_note [errs_intro]: "errs (find_metadata_note data fsize)"
  unfolding find_metadata_note_def by (intro errs_intro)

text \<open>The metadata document.\<close>

lemma errs_required_field [errs_intro]: "errs (required_field v name kind)"
  unfolding required_field_def by (intro errs_intro) simp_all

lemma errs_metadata_uint32 [errs_intro]: "errs (metadata_uint32 v name)"
  unfolding metadata_uint32_def by (intro errs_intro) simp_all

lemma errs_field_offset [errs_intro]: "errs (field_offset v name)"
  unfolding field_offset_def by (intro errs_intro) simp_all

lemma errs_decode_argument [errs_intro]: "errs (decode_argument n v)"
  unfolding decode_argument_def by (intro errs_intro) simp_all

lemma errs_argument_loop [errs_intro]: "errs (argument_loop n vs first args)"
  by (induction vs arbitrary: first args) (auto simp: Let_def intro!: errs_intro)

lemma errs_layout_loop [errs_intro]: "errs (layout_loop off first args previous)"
  by (induction args arbitrary: previous) (auto simp: Let_def intro!: errs_intro)

lemma errs_decode_kernel_arguments [errs_intro]: "errs (decode_kernel_arguments v k)"
  unfolding decode_kernel_arguments_def by (intro errs_intro) simp_all

lemma errs_decode_version [errs_intro]: "errs (decode_version root)"
  unfolding decode_version_def by (intro errs_intro) simp_all

lemma errs_decode_target [errs_intro]: "errs (decode_target root)"
  unfolding decode_target_def by (intro errs_intro) simp_all

lemma errs_decode_kernel_names [errs_intro]: "errs (decode_kernel_names v)"
  unfolding decode_kernel_names_def by (intro errs_intro) simp_all

lemma errs_decode_kernel_integers [errs_intro]: "errs (decode_kernel_integers v k)"
  unfolding decode_kernel_integers_def by (intro errs_intro) simp_all

lemma errs_decode_kernel [errs_intro]: "errs (decode_kernel v)"
  unfolding decode_kernel_def by (intro errs_intro) simp_all

lemma errs_kernel_loop [errs_intro]: "errs (kernel_loop vs names symbols)"
  by (induction vs arbitrary: names symbols) (auto simp: Let_def intro!: errs_intro)

lemma errs_decode_metadata_document [errs_intro]: "errs (decode_metadata_document root)"
  unfolding decode_metadata_document_def by (intro errs_intro) simp_all

text \<open>Dynamic tables, symbols and descriptors.\<close>

lemma errs_set_dynamic_value [errs_intro]: "errs (set_dynamic_value v value off)"
  unfolding set_dynamic_value_def by (intro errs_intro) simp_all

lemma errs_dynamic_headers [errs_intro]: "errs (dynamic_headers data fsize table k i n found)"
  by (induction n arbitrary: i found) (auto simp: Let_def intro!: errs_intro)

lemma errs_find_dynamic_segment [errs_intro]: "errs (find_dynamic_segment data fsize)"
  unfolding find_dynamic_segment_def by (intro errs_intro)

lemma errs_dynamic_loop:
  "(\<And>tag value off info. errs (handle tag value off info)) \<Longrightarrow> errs (dynamic_loop handle data off i n info)"
  by (induction n arbitrary: i info) (auto simp: Let_def intro!: errs_intro)

lemma errs_read_dynamic_entries:
  "(\<And>tag value off info. errs (handle tag value off info)) \<Longrightarrow> errs (read_dynamic_entries handle data off sz info)"
  unfolding read_dynamic_entries_def by (auto intro!: errs_intro errs_dynamic_loop)

lemma errs_handle_dynamic_info [errs_intro]: "errs (handle_dynamic_info tag value off info)"
  unfolding handle_dynamic_info_def by (intro errs_intro) simp_all

lemma errs_read_dynamic_info [errs_intro]: "errs (read_dynamic_info data fsize)"
  unfolding read_dynamic_info_def by (intro errs_intro errs_read_dynamic_entries) simp_all

lemma errs_read_terminated [errs_intro]: "errs (read_terminated data p n)"
  by (induction n arbitrary: p) (auto simp: Let_def intro!: errs_intro)

lemma errs_read_string [errs_intro]: "errs (read_string data off sz name)"
  unfolding read_string_def by (intro errs_intro) simp_all

lemma errs_symbol_loop [errs_intro]: "errs (symbol_loop data st strings sz i n)"
  by (induction n arbitrary: i) (auto simp: Let_def intro!: errs_intro)

lemma errs_hash_symbol_count [errs_intro]: "errs (hash_symbol_count data segs hash)"
  unfolding hash_symbol_count_def by (intro errs_intro) simp_all

lemma errs_read_dynamic_symbols [errs_intro]: "errs (read_dynamic_symbols data fsize segs)"
  unfolding read_dynamic_symbols_def by (intro errs_intro) simp_all

lemma errs_find_kernel_symbol [errs_intro]: "errs (find_kernel_symbol symbols k)"
  unfolding find_kernel_symbol_def by (intro errs_intro) simp_all

lemma errs_all_zero [errs_intro]: "errs (all_zero data p n)"
  by (induction n arbitrary: p) (auto simp: Let_def intro!: errs_intro)

lemma errs_descriptor_reserved_ok [errs_intro]: "errs (descriptor_reserved_ok data a p)"
  unfolding descriptor_reserved_ok_def by (intro errs_intro) simp_all

lemma errs_decode_descriptor_entry [errs_intro]: "errs (decode_descriptor_entry data segs symbol off k)"
  unfolding decode_descriptor_entry_def by (intro errs_intro) simp_all

lemma errs_decode_descriptor_properties [errs_intro]: "errs (decode_descriptor_properties data off k)"
  unfolding decode_descriptor_properties_def by (intro errs_intro) simp_all

lemma errs_decode_kernel_descriptor [errs_intro]: "errs (decode_kernel_descriptor data segs symbol k)"
  unfolding decode_kernel_descriptor_def by (intro errs_intro) simp_all

lemma errs_descriptor_loop [errs_intro]: "errs (descriptor_loop data segs symbols ks)"
  by (induction ks) (auto simp: Let_def intro!: errs_intro)

lemma errs_decode_amdhsa_metadata [errs_intro]: "errs (decode_amdhsa_metadata data fsize co)"
  unfolding decode_amdhsa_metadata_def by (intro errs_intro) simp_all

text \<open>The load plan.\<close>

lemma errs_handle_relocation_info [errs_intro]: "errs (handle_relocation_info tag value off info)"
  unfolding handle_relocation_info_def Let_def by (intro errs_intro) simp_all

lemma errs_read_dynamic_relocation_info [errs_intro]: "errs (read_dynamic_relocation_info data fsize)"
  unfolding read_dynamic_relocation_info_def by (intro errs_intro errs_read_dynamic_entries) simp_all

lemma errs_validate_relocation_table_info [errs_intro]: "errs (validate_relocation_table_info table k)"
  unfolding validate_relocation_table_info_def by (intro errs_intro) simp_all

lemma errs_validate_disjoint_relocation_tables [errs_intro]: "errs (validate_disjoint_relocation_tables rel rela)"
  unfolding validate_disjoint_relocation_tables_def by (intro errs_intro) simp_all

lemma errs_read_symbol_count [errs_intro]: "errs (read_symbol_count data segs hash)"
  unfolding read_symbol_count_def by (intro errs_intro) simp_all

lemma errs_dynamic_symbol_loop [errs_intro]: "errs (dynamic_symbol_loop data off i n)"
  by (induction n arbitrary: i) (auto simp: Let_def intro!: errs_intro)

lemma errs_read_relocation_symbols [errs_intro]: "errs (read_relocation_symbols data segs dynamic n)"
  unfolding read_relocation_symbols_def by (intro errs_intro) simp_all

lemma errs_check_relocation [errs_intro]: "errs (check_relocation segs table encoding symbols index off target info addend)"
  unfolding check_relocation_def by (intro errs_intro) simp_all

lemma errs_relocation_loop [errs_intro]: "errs (relocation_loop data segs table encoding symbols off k i n rs)"
  by (induction n arbitrary: i rs) (auto simp: Let_def intro!: errs_intro)

lemma errs_read_relocation_table [errs_intro]: "errs (read_relocation_table data segs table encoding symbols rs)"
  unfolding read_relocation_table_def by (intro errs_intro) simp_all

lemma errs_append_relocations [errs_intro]: "errs (append_relocations data fsize segs plan)"
  unfolding append_relocations_def by (intro errs_intro) simp_all

lemma errs_plan_loop [errs_intro]: "errs (plan_loop segs plan image_end)"
  by (induction segs arbitrary: plan image_end) (auto simp: Let_def intro!: errs_intro)

lemma errs_segment_plan [errs_intro]: "errs (segment_plan segs)"
  unfolding segment_plan_def by (intro errs_intro) simp_all

lemma errs_build_load_plan [errs_intro]: "errs (build_load_plan data fsize co)"
  unfolding build_load_plan_def by (intro errs_intro) simp_all

lemma errs_read_segments [errs_intro]: "errs (read_segments data fsize h)"
  unfolding read_segments_def by (intro errs_intro) simp_all

lemma errs_parse_load_segments [errs_intro]: "errs (parse_load_segments buffer fsize)"
  unfolding parse_load_segments_def by (intro errs_intro) simp_all

section \<open>Accepted code objects\<close>

text \<open>The contract of the caller: a non-null pointer comes with its size.\<close>

definition buffer_ok :: "bytes option \<Rightarrow> u64 \<Rightarrow> bool" where
  "buffer_ok buffer fsize \<longleftrightarrow> (\<forall>data. buffer = Some data \<longrightarrow> unat fsize = length data)"

text \<open>What holds when the header and the segments are accepted.\<close>

definition segments_ok :: "bytes \<Rightarrow> CodeObject \<Rightarrow> bool" where
  "segments_ok data co \<longleftrightarrow> elf_ok data \<and>
     co_load_segments co =
       map (segment_at data) (load_headers data (unat (u64_at data 32)) 0 (unat (u16_at data 56))) \<and>
     wf_segments (length data) (co_load_segments co) \<and>
     co_target_machine co = kAmdgpuMachineGfx1101"

lemma segments_ok_cong:
  assumes "segments_ok data co" and "co_load_segments co' = co_load_segments co"
    and "co_target_machine co' = co_target_machine co"
  shows "segments_ok data co'"
  using assms(1) unfolding segments_ok_def assms(2,3) .

definition wf_code_object :: "bytes \<Rightarrow> CodeObject \<Rightarrow> bool" where
  "wf_code_object data co \<longleftrightarrow>
     segments_ok data co \<and> metadata_ok data co \<and> wf_plan (co_load_segments co) (co_load_plan co)"

lemma read_segments_valid:
  assumes size: "unat fsize = length data" and ok: "elf_ok data"
    and h: "eh_program_header_count h = u16_at data 56"
      "eh_program_header_entry_size h = u16_at data 54" "eh_program_header_offset h = u64_at data 32"
      "eh_target_machine h = kAmdgpuMachineGfx1101"
  shows "valid (read_segments data fsize h) (\<lambda>co. segments_ok data co \<and> \<not> co_has_metadata co \<and>
    co_kernels co = [])"
proof -
  let ?list = "map (segment_at data) (load_headers data (unat (u64_at data 32)) 0 (unat (u16_at data 56)))"
  have parse: "valid (parse_segments h data fsize 0 (unat (eh_program_header_count h)))
      (\<lambda>segs. (\<forall>s \<in> set segs. wf_segment (length data) (pls_segment s)) \<and> map pls_segment segs = ?list)"
    using parse_segments_valid [OF size, of h 0 "unat (eh_program_header_count h)"] ok h
    by (simp add: elf_ok_def)
  have check: "valid (check_segments h segs) (\<lambda>_. wf_segments (length data) (map pls_segment segs))"
    if "\<forall>s \<in> set segs. wf_segment (length data) (pls_segment s)" for segs
    using check_segments_Ok [OF that, of h] check_segments_not_Fault [of h segs] ok
    by (cases "check_segments h segs") (auto simp: elf_ok_def)
  show ?thesis
    unfolding read_segments_def
    by (rule valid_obindI [OF parse], rule valid_obindI [OF check])
      (use ok h(4) in \<open>auto simp: segments_ok_def default_CodeObject_def\<close>)
qed

lemma parse_load_segments_valid:
  assumes "buffer_ok buffer fsize"
  shows "valid (parse_load_segments buffer fsize) (\<lambda>co. unat fsize = length (buffer_bytes buffer) \<and>
    segments_ok (buffer_bytes buffer) co \<and> \<not> co_has_metadata co \<and> co_kernels co = [])"
proof (cases "buffer = None \<and> fsize \<noteq> 0")
  case True
  then show ?thesis by (simp add: parse_load_segments_def)
next
  case False
  have size: "unat fsize = length (buffer_bytes buffer)"
    using assms False by (cases buffer) (auto simp: buffer_ok_def buffer_bytes_def)
  have "valid (obind (parse_elf_header (buffer_bytes buffer) fsize)
      (read_segments (buffer_bytes buffer) fsize)) (\<lambda>co. unat fsize = length (buffer_bytes buffer) \<and>
    segments_ok (buffer_bytes buffer) co \<and> \<not> co_has_metadata co \<and> co_kernels co = [])"
    by (rule valid_obindI [OF parse_elf_header_valid [OF size]],
        rule valid_weaken [OF read_segments_valid [OF size]]) (use size in auto)
  with False show ?thesis unfolding parse_load_segments_def by simp
qed

lemma metadata_decoder_valid:
  assumes "unat fsize = length data" and "segments_ok data co"
    and "\<not> co_has_metadata co" and "co_kernels co = []"
  shows "valid (decode_amdhsa_metadata data fsize co) (\<lambda>co'. segments_ok data co' \<and> metadata_ok data co')"
proof -
  have "elf_ok data" "wf_segments (length data) (co_load_segments co)"
    using assms(2) unfolding segments_ok_def by blast+
  then show ?thesis
    by (rule valid_weaken [OF decode_amdhsa_metadata_valid [OF assms(1) _ _ assms(3,4)]])
      (auto intro: segments_ok_cong [OF assms(2)])
qed

lemma load_plan_builder_valid:
  assumes "unat fsize = length data" and "segments_ok data co" and "metadata_ok data co"
  shows "valid (build_load_plan data fsize co) (wf_code_object data)"
proof (rule valid_weaken [OF build_load_plan_valid [OF assms(1)]])
  show "elf_ok data" "wf_segments (length data) (co_load_segments co)"
    using assms(2) unfolding segments_ok_def by blast+
  fix co'
  assume "co' = co\<lparr>co_load_plan := co_load_plan co'\<rparr> \<and> wf_plan (co_load_segments co) (co_load_plan co')"
  moreover obtain plan where "co' = co\<lparr>co_load_plan := plan\<rparr>" using calculation by blast
  ultimately show "wf_code_object data co'"
    using assms(3) segments_ok_cong [OF assms(2), of co']
    by (simp add: wf_code_object_def metadata_ok_def)
qed

text \<open>The loader on every buffer: it returns, and a result without error is well formed.\<close>

lemma parse_code_object_total:
  assumes "buffer_ok buffer fsize"
  shows "\<exists>r. parse_code_object buffer fsize = Ok r \<and>
    (parse_ok r \<longrightarrow> wf_code_object (buffer_bytes buffer) (pr_code_object r))"
proof -
  let ?data = "buffer_bytes buffer"
  have bad: "\<not> parse_ok \<lparr>pr_code_object = c, pr_error = e\<rparr>" if "errs m" "m = Err e" for m :: "'b parsed" and c e
    using that by (simp add: errs_def parse_ok_def)
  show ?thesis
  proof (cases "parse_load_segments buffer fsize")
    case (Ok co)
    with parse_load_segments_valid [OF assms] have size: "unat fsize = length ?data"
      and co: "segments_ok ?data co" "\<not> co_has_metadata co" "co_kernels co = []" by simp_all
    show ?thesis
    proof (cases "decode_amdhsa_metadata ?data fsize co")
      case co1: (Ok co1)
      with metadata_decoder_valid [OF size co]
      have c1: "segments_ok ?data co1" "metadata_ok ?data co1" by simp_all
      show ?thesis
        using load_plan_builder_valid [OF size c1] bad [OF errs_build_load_plan] Ok co1
        by (cases "build_load_plan ?data fsize co1") (auto simp: parse_code_object_def)
    qed (use metadata_decoder_valid [OF size co] bad [OF errs_decode_amdhsa_metadata] Ok in
        \<open>auto simp: parse_code_object_def\<close>)
  qed (use parse_load_segments_valid [OF assms] bad [OF errs_parse_load_segments] in
      \<open>auto simp: parse_code_object_def\<close>)
qed

end
