(* ===== verification/Samples.thy ===== *)
theory Samples
  imports Loader
begin

text \<open>
  A small code object, evaluated. \<open>sample_elf\<close> is a complete AMDGPU-HSA ELF file of 120 bytes: the
  header and one PT_LOAD program header that maps the whole file at address 4096 and 80 zero
  bytes after it. \<open>wide_elf\<close> asks for an alignment of 64 KiB, which the loader accepts and the image
  builder does not. The theorems of the library are applied to it where they need a code object that
  the loader accepts.
\<close>

definition sample_elf :: bytes where
  "sample_elf =
   [127, 69, 76, 70, 2, 1, 1, 64, 4, 0, 0, 0, 0, 0, 0, 0,
    3, 0, 224, 0, 1, 0, 0, 0, 0, 0, 0, 0, 0, 0, 0, 0,
    64, 0, 0, 0, 0, 0, 0, 0, 0, 0, 0, 0, 0, 0, 0, 0,
    70, 0, 0, 0, 64, 0, 56, 0, 1, 0, 0, 0, 0, 0, 0, 0,
    1, 0, 0, 0, 5, 0, 0, 0, 0, 0, 0, 0, 0, 0, 0, 0,
    0, 16, 0, 0, 0, 0, 0, 0, 0, 16, 0, 0, 0, 0, 0, 0,
    120, 0, 0, 0, 0, 0, 0, 0, 200, 0, 0, 0, 0, 0, 0, 0,
    8, 0, 0, 0, 0, 0, 0, 0]"

definition sample_segment :: LoadSegment where
  "sample_segment = \<lparr>ls_file_offset = 0, ls_file_size = 120, ls_virtual_address = 4096,
     ls_memory_size = 200, ls_alignment = 8, ls_flags = 5\<rparr>"

definition sample_plan :: LoadPlan where
  "sample_plan = \<lparr>plan_image_virtual_address = 4096, plan_image_size = 200, plan_alignment = 8,
     plan_copies = [\<lparr>lc_file_offset = 0, lc_virtual_address = 4096, lc_size = 120\<rparr>],
     plan_zero_fills = [\<lparr>lz_virtual_address = 4216, lz_size = 80\<rparr>],
     plan_protections = [\<lparr>lp_virtual_address = 4096, lp_size = 200, lp_flags = 5\<rparr>],
     plan_relocations = []\<rparr>"

definition sample_code_object :: CodeObject where
  "sample_code_object = \<lparr>co_abi_version = 4, co_elf_flags = 0x46, co_target_machine = 0x46,
     co_load_segments = [sample_segment], co_has_metadata = False,
     co_metadata_version = \<lparr>mv_major = 0, mv_minor = 0\<rparr>, co_target_isa = [], co_kernels = [],
     co_load_plan = sample_plan\<rparr>"

definition sample_result :: ParseResult where
  "sample_result = \<lparr>pr_code_object = sample_code_object, pr_error = no_error\<rparr>"

lemma sample_parsed: "parse_code_object (Some sample_elf) 120 = Ok sample_result"
  by code_simp

lemma length_sample_elf: "length sample_elf = 120"
  by (simp add: sample_elf_def)

lemma sample_buffer_ok: "buffer_ok (Some sample_elf) 120"
  by (simp add: buffer_ok_def length_sample_elf)

lemma sample_parse_ok: "parse_ok sample_result"
  by (simp add: parse_ok_def sample_result_def no_error_def)

lemma sample_elf_ok: "elf_ok sample_elf"
  by (simp add: elf_ok_def length_sample_elf) (simp add: sample_elf_def u16_at_def u64_at_def)

lemma sample_segment_wf: "wf_segment 120 sample_segment"
  by (simp add: wf_segment_def sample_segment_def is_power_of_two_def)

section \<open>An alignment above the page size\<close>

definition wide_elf :: bytes where
  "wide_elf =
   [127, 69, 76, 70, 2, 1, 1, 64, 4, 0, 0, 0, 0, 0, 0, 0,
    3, 0, 224, 0, 1, 0, 0, 0, 0, 0, 0, 0, 0, 0, 0, 0,
    64, 0, 0, 0, 0, 0, 0, 0, 0, 0, 0, 0, 0, 0, 0, 0,
    70, 0, 0, 0, 64, 0, 56, 0, 1, 0, 0, 0, 0, 0, 0, 0,
    1, 0, 0, 0, 5, 0, 0, 0, 0, 0, 0, 0, 0, 0, 0, 0,
    0, 0, 1, 0, 0, 0, 0, 0, 0, 0, 1, 0, 0, 0, 0, 0,
    120, 0, 0, 0, 0, 0, 0, 0, 120, 0, 0, 0, 0, 0, 0, 0,
    0, 0, 1, 0, 0, 0, 0, 0]"

definition wide_segment :: LoadSegment where
  "wide_segment = \<lparr>ls_file_offset = 0, ls_file_size = 120, ls_virtual_address = 65536,
     ls_memory_size = 120, ls_alignment = 65536, ls_flags = 5\<rparr>"

definition wide_result :: ParseResult where
  "wide_result = \<lparr>pr_code_object = sample_code_object\<lparr>
       co_load_segments := [wide_segment],
       co_load_plan := \<lparr>plan_image_virtual_address = 65536, plan_image_size = 120, plan_alignment = 65536,
         plan_copies = [\<lparr>lc_file_offset = 0, lc_virtual_address = 65536, lc_size = 120\<rparr>],
         plan_zero_fills = [],
         plan_protections = [\<lparr>lp_virtual_address = 65536, lp_size = 120, lp_flags = 5\<rparr>],
         plan_relocations = []\<rparr>\<rparr>,
     pr_error = no_error\<rparr>"

lemma wide_parsed: "parse_code_object (Some wide_elf) 120 = Ok wide_result"
  by code_simp

lemma wide_buffer_ok: "buffer_ok (Some wide_elf) 120"
  by (simp add: buffer_ok_def wide_elf_def)

lemma wide_parse_ok: "parse_ok wide_result"
  by (simp add: parse_ok_def wide_result_def no_error_def)

end
