(* ===== verification/LoaderProperties.thy ===== *)
theory LoaderProperties
  imports Samples
begin

text \<open>
  The properties of the loader's parts, each applied at a concrete input. They rest on the lemmas
  of the component theories; the properties of the whole loader and of its use by the image builder
  are in the root theory.
\<close>

section \<open>Bytes, header and segments\<close>

text \<open>
  C26. Reading an integer back from its little-endian bytes: whatever bytes are before and after, the three
  readers return the value that was encoded at the position.
\<close>

theorem little_endian_round_trip:
  "read_u64 (pre @ le_bytes 8 v @ post) (length pre) = Ok v \<and>
   read_u32 (pre @ le_bytes 4 w @ post) (length pre) = Ok w \<and>
   read_u16 (pre @ le_bytes 2 h @ post) (length pre) = Ok h"
  by (simp add: u64_at_def u32_at_def u16_at_def le_word_le_bytes)

text \<open>
  C22. A PT_LOAD segment is accepted exactly when its flags are known, its file part is not larger than its
  memory part, its file range lies in the file, its address range does not wrap, and its alignment, if
  above one, is a power of two to which file offset and address are congruent.
\<close>

theorem segment_check_exact:
  "validate_load_segment s fsize off = Ok () \<longleftrightarrow> wf_segment (unat fsize) s"
  by (rule validate_load_segment_Ok)

text \<open>
  C8. The overlap search of \<open>parse_code_object\<close> (sort the non-empty ranges by start, compare
  neighbours) finds nothing exactly when the ranges of all segments are pairwise disjoint, for
  ranges that do not wrap around the 64-bit space.
\<close>

theorem overlap_search_correct:
  assumes "\<forall>s \<in> set segs. unat (off (pls_segment s)) + unat (sz (pls_segment s)) < 2 ^ 64"
  shows "find_overlapping_segment segs off sz = None \<longleftrightarrow>
    sorted_wrt (\<lambda>s t. seg_range off sz (pls_segment s) \<inter> seg_range off sz (pls_segment t) = {}) segs"
  by (rule find_overlapping_segment_None [OF assms])

theorem overlap_search_correct_witness:
  "let s = \<lparr>pls_segment = sample_segment, pls_program_header_offset = 64\<rparr> in
   find_overlapping_segment [s, s] ls_virtual_address ls_memory_size \<noteq> None"
proof -
  let ?s = "\<lparr>pls_segment = sample_segment, pls_program_header_offset = 64\<rparr>"
  have "\<forall>s \<in> set [?s, ?s]. unat (ls_virtual_address (pls_segment s)) + unat (ls_memory_size (pls_segment s)) < 2 ^ 64"
    by (simp add: sample_segment_def)
  from overlap_search_correct [OF this] show ?thesis
    by (simp add: seg_range_def sample_segment_def)
qed

section \<open>Metadata\<close>

text \<open>
  C7. The MessagePack reader on a window inside the code object never reads outside it, whatever
  the bytes are, and always returns; a value it accepts ends inside the window, consumes at least
  one byte, has no map with a repeated key and nests within the limit.
\<close>

theorem message_pack_safe:
  assumes "window_ok data mb" and "unat cursor \<le> unat (mb_size mb)"
  shows "valid (parse_value data mb d cursor) (\<lambda>(v, c').
     unat cursor < unat c' \<and> unat c' \<le> unat (mb_size mb) \<and>
     mp_distinct v \<and> within_depth d v \<and> mp_offset v = mb_file_offset mb + cursor)"
  by (rule parse_value_valid [OF assms])

theorem message_pack_safe_witness:
  "valid (parse_value [0x92, 0x01, 0xa1, 0x78] \<lparr>mb_data = 0, mb_size = 4, mb_file_offset = 100\<rparr> 0 0)
     (\<lambda>(v, c'). 0 < unat c' \<and> unat c' \<le> 4 \<and> mp_distinct v \<and> within_depth 0 v \<and> mp_offset v = 100)"
  using message_pack_safe [of "[0x92, 0x01, 0xa1, 0x78]" "\<lparr>mb_data = 0, mb_size = 4, mb_file_offset = 100\<rparr>" 0 0]
  by (simp add: window_ok_def)

text \<open>
  C13. The note search reads only inside the code object and returns at most one window, which lies
  inside the code object; every note loop ends.
\<close>

theorem metadata_note_inside:
  assumes "unat fsize = length data" and "elf_ok data"
  shows "valid (find_metadata_note data fsize) (found_window data)"
  by (rule find_metadata_note_valid [OF assms])

theorem metadata_note_inside_witness:
  "valid (find_metadata_note sample_elf 120) (found_window sample_elf)"
proof (rule metadata_note_inside)
  show "unat (120 :: u64) = length sample_elf" by (simp add: length_sample_elf)
  show "elf_ok sample_elf" by (rule sample_elf_ok)
qed

text \<open>
  C10. The argument check (sort by offset, then compare each argument with the end of the one before)
  accepts exactly the lists whose ranges are pairwise disjoint and whose explicit arguments end
  before the first hidden one.
\<close>

theorem argument_layout_exact:
  assumes "\<forall>a \<in> set args. wf_argument n a"
  shows "layout_loop off first (std_sort argument_before args) 0 = Ok () \<longleftrightarrow>
    sorted_wrt (\<lambda>a b. arg_range a \<inter> arg_range b = {}) args \<and>
    (\<forall>a \<in> set args. \<not> hidden a \<longrightarrow> arg_end a \<le> unat first)"
  by (rule layout_check_Ok [OF assms])

theorem argument_layout_exact_witness:
  "layout_loop 0 16 (std_sort argument_before
     [\<lparr>ka_offset = 8, ka_size = 8, ka_kind = GlobalBuffer\<rparr>, \<lparr>ka_offset = 0, ka_size = 8, ka_kind = ByValue\<rparr>]) 0
   = Ok ()"
proof -
  let ?args = "[\<lparr>ka_offset = 8, ka_size = 8, ka_kind = GlobalBuffer\<rparr>, \<lparr>ka_offset = 0, ka_size = 8, ka_kind = ByValue\<rparr>]"
  have "\<forall>a \<in> set ?args. wf_argument 16 a"
    by (simp add: wf_argument_def required_hidden_argument_size_def)
  from argument_layout_exact [OF this, of 0 16] show ?thesis
    by (simp add: is_hidden_argument_def)
qed

text \<open>
  C11. Decoding the arguments of a kernel never faults and yields arguments in offset order without
  overlap inside the kernarg segment, hidden ones of their required size and after the explicit
  part, whose recorded size is the offset of the first hidden argument or the whole segment.
\<close>

theorem kernel_arguments_well_formed:
  assumes "ki_arguments k = []"
  shows "valid (decode_kernel_arguments v k) (\<lambda>k'.
    k' = k\<lparr>ki_arguments := ki_arguments k', ki_explicit_argument_size := ki_explicit_argument_size k'\<rparr> \<and>
    wf_arguments (ki_kernarg_size k) (ki_explicit_argument_size k') (ki_arguments k'))"
  by (rule decode_kernel_arguments_valid [OF assms])

theorem kernel_arguments_well_formed_witness:
  "let k = default_KernelInfo\<lparr>ki_kernarg_size := 8\<rparr>;
       v = MPMap 0 [(''.args'', MPArray 0 [MPMap 0 [(''.offset'', MPUnsigned 0 0), (''.size'', MPUnsigned 0 8),
             (''.value_kind'', MPString 0 ''by_value'')]])] in
   (case decode_kernel_arguments v k of Ok k' \<Rightarrow> wf_arguments 8 (ki_explicit_argument_size k') (ki_arguments k') |
      _ \<Rightarrow> False)"
proof -
  let ?k = "default_KernelInfo\<lparr>ki_kernarg_size := 8\<rparr>"
  let ?v = "MPMap 0 [(''.args'', MPArray 0 [MPMap 0 [(''.offset'', MPUnsigned 0 0), (''.size'', MPUnsigned 0 8),
    (''.value_kind'', MPString 0 ''by_value'')]])]"
  have ok: "(case decode_kernel_arguments ?v ?k of Ok k' \<Rightarrow> True | _ \<Rightarrow> False)" by code_simp
  have "ki_arguments ?k = []" by (simp add: default_KernelInfo_def)
  from kernel_arguments_well_formed [OF this, of ?v] ok show ?thesis
    by (cases "decode_kernel_arguments ?v ?k") (auto simp: default_KernelInfo_def)
qed

text \<open>
  C12. A decoded metadata document has version 1.2, the one supported target, at least one kernel, and
  kernels with distinct names and distinct descriptor symbols, each with a power-of-two alignment,
  a wavefront size of 32 or 64 and well-formed arguments.
\<close>

theorem metadata_document_well_formed:
  "valid (decode_metadata_document root) (\<lambda>(version, target, ks).
     version = \<lparr>mv_major = 1, mv_minor = 2\<rparr> \<and> supported_isa target \<and>
     ks \<noteq> [] \<and> wf_metadata_kernels (map mk_info ks))"
  by (rule decode_metadata_document_valid)

section \<open>Symbols and descriptors\<close>

text \<open>
  C9. Looking a kernel's descriptor symbol up by binary search in the sorted symbol table succeeds exactly when one symbol
  has that name and this symbol is a defined 64-byte object in an ordinary section; none, a second one or
  a symbol of another kind are refused.
\<close>

theorem kernel_symbol_lookup_exact:
  assumes "symbols_sorted symbols"
  shows "find_kernel_symbol symbols k = Ok symbol \<longleftrightarrow>
    map ns_symbol (filter (\<lambda>s. ns_name s = ki_symbol_name (mk_info k)) symbols) = [symbol] \<and>
    kernel_symbol_ok symbol"
  by (rule find_kernel_symbol_Ok [OF assms])

theorem kernel_symbol_lookup_exact_witness:
  "let sym = \<lparr>sy_value = 4096, sy_size = 64, sy_section_index = 1, sy_type = 1, sy_file_offset = 0\<rparr>;
       k = \<lparr>mk_info = default_KernelInfo\<lparr>ki_symbol_name := ''k.kd''\<rparr>, mk_metadata_offset = 0\<rparr> in
   find_kernel_symbol [\<lparr>ns_name = ''a'', ns_symbol = sym\<rparr>, \<lparr>ns_name = ''k.kd'', ns_symbol = sym\<rparr>] k = Ok sym"
proof -
  let ?sym = "\<lparr>sy_value = 4096, sy_size = 64, sy_section_index = 1, sy_type = 1, sy_file_offset = 0\<rparr>"
  let ?symbols = "[\<lparr>ns_name = ''a'', ns_symbol = ?sym\<rparr>, \<lparr>ns_name = ''k.kd'', ns_symbol = ?sym\<rparr>]"
  have "symbols_sorted ?symbols" by code_simp
  from kernel_symbol_lookup_exact [OF this] show ?thesis
    by (simp add: kernel_symbol_ok_def)
qed

text \<open>
  C23. The code-entry address of a descriptor is the mathematical sum of its address and its signed
  offset, for every \<open>int64_t\<close> offset, and is refused exactly when the sum is not a 64-bit address.
\<close>

theorem code_entry_arithmetic:
  assumes "- (2 ^ 63) \<le> i" and "i < 2 ^ 63"
  shows "add_signed_offset b i =
    (if 0 \<le> uint b + i \<and> uint b + i < 2 ^ 64 then Some (word_of_int (uint b + i)) else None)"
  by (rule add_signed_offset_eq [OF assms])

theorem code_entry_arithmetic_witness:
  "add_signed_offset 256 (- 16) = Some 240 \<and> add_signed_offset 8 (- 16) = None"
  using code_entry_arithmetic [of "- 16" 256] code_entry_arithmetic [of "- 16" 8] by simp

text \<open>
  C25. An address translates to a file offset only through a segment that backs the whole range with
  file bytes; the offset is the corresponding one and the range lies in the file.
\<close>

theorem address_to_file_sound:
  assumes "virtual_address_to_file segs a l = Some off"
    and "\<forall>s \<in> set segs. wf_segment n s" and "n < 2 ^ 64"
  shows "\<exists>s. file_backed segs a l s \<and>
    unat off = unat (ls_file_offset s) + (unat a - unat (ls_virtual_address s)) \<and>
    unat off + unat l \<le> n"
  by (rule virtual_address_to_file_Some [OF assms])

theorem address_to_file_sound_witness:
  "\<exists>s. file_backed [sample_segment] 4100 16 s \<and>
    unat (4 :: u64) = unat (ls_file_offset s) + (unat (4100 :: u64) - unat (ls_virtual_address s)) \<and>
    unat (4 :: u64) + unat (16 :: u64) \<le> 120"
proof (rule address_to_file_sound)
  show "virtual_address_to_file [sample_segment] 4100 16 = Some 4" by code_simp
  show "\<forall>s \<in> set [sample_segment]. wf_segment 120 s" by (simp add: sample_segment_wf)
qed simp

section \<open>The load plan\<close>

text \<open>
  C14. The plan loop computes the plan of the segments: for segments the loader accepted it returns no error, the copies,
  zero fills and protections are the segments' parts, and the image runs from the lowest start to the
  highest end of a non-empty segment.
\<close>

theorem segment_plan_exact:
  assumes "\<forall>s \<in> set segs. wf_segment n s"
  shows "segment_plan segs = Ok (plan_of segs)"
  by (rule segment_plan_eq [OF assms])

theorem segment_plan_exact_witness: "segment_plan [sample_segment] = Ok (plan_of [sample_segment])"
proof (rule segment_plan_exact)
  show "\<forall>s \<in> set [sample_segment]. wf_segment 120 s" by (simp add: sample_segment_wf)
qed



text \<open>
  C16. The order of the relocations in the plan does not depend on the sorting algorithm: any ordered
  arrangement of relocations that passed the checks is the one the plan has, since the comparison
  tells every two different accepted relocations apart.
\<close>

theorem relocation_order_unique:
  assumes "\<forall>r \<in> set rs. wf_relocation segs symbols r"
    and "mset ys = mset rs" and "sorted_wrt (\<lambda>x y. \<not> relocation_before y x) ys"
  shows "ys = std_sort relocation_before rs"
  using assms by (intro relocation_order.sort_unique) (auto intro: wf_relocation_key)

theorem relocation_order_unique_witness:
  "let r = \<lparr>rl_encoding = Rela, rl_target_virtual_address = 4104, rl_type = 13, rl_symbol_index = 0,
       rl_addend = 8, rl_symbol_value = 0, rl_symbol_is_absolute = False\<rparr>;
       s = r\<lparr>rl_target_virtual_address := 4096\<rparr> in
   [s, r] = std_sort relocation_before [r, s]"
proof -
  let ?r = "\<lparr>rl_encoding = Rela, rl_target_virtual_address = 4104, rl_type = 13, rl_symbol_index = 0,
    rl_addend = 8, rl_symbol_value = 0, rl_symbol_is_absolute = False\<rparr>"
  let ?s = "?r\<lparr>rl_target_virtual_address := 4096\<rparr>"
  let ?sym = "\<lparr>ds_value = 0, ds_defined = False, ds_absolute = False\<rparr>"
  have "\<forall>x \<in> set [?r, ?s]. wf_relocation [sample_segment] [?sym] x"
    by (simp add: wf_relocation_def is_known_amdgpu_relocation_def relocation_width_def
        relocation_uses_symbol_def in_memory_def sample_segment_def)
  moreover have "mset [?s, ?r] = mset [?r, ?s]" by simp
  moreover have "sorted_wrt (\<lambda>x y. \<not> relocation_before y x) [?s, ?r]" by (simp add: relocation_before_def)
  ultimately have "[?s, ?r] = std_sort relocation_before [?r, ?s]" by (rule relocation_order_unique)
  then show ?thesis by (simp only: Let_def)
qed

text \<open>
  C17. Two non-empty relocation tables are accepted exactly when neither wraps around the address
  space and their ranges are disjoint.
\<close>

theorem relocation_tables_disjoint:
  assumes "table_is_present rel" and "table_is_present rela"
    and "dv_value (rt_size rel) \<noteq> 0" and "dv_value (rt_size rela) \<noteq> 0"
  shows "validate_disjoint_relocation_tables rel rela = Ok () \<longleftrightarrow>
    (let a = unat (dv_value (rt_address rel)); n = unat (dv_value (rt_size rel));
         b = unat (dv_value (rt_address rela)); m = unat (dv_value (rt_size rela))
     in a + n < 2 ^ 64 \<and> b + m < 2 ^ 64 \<and> {a ..< a + n} \<inter> {b ..< b + m} = {})"
  by (rule validate_disjoint_relocation_tables_Ok [OF assms])

theorem relocation_tables_disjoint_witness:
  "let t = (\<lambda>a. \<lparr>rt_address = \<lparr>dv_present = True, dv_value = a, dv_file_offset = 0\<rparr>,
       rt_size = \<lparr>dv_present = True, dv_value = 24, dv_file_offset = 0\<rparr>,
       rt_entry_size = \<lparr>dv_present = True, dv_value = 24, dv_file_offset = 0\<rparr>,
       rt_relative_count = default_DynamicValue\<rparr>) in
   validate_disjoint_relocation_tables (t 4096) (t 8192) = Ok ()"
proof -
  let ?t = "\<lambda>a. \<lparr>rt_address = \<lparr>dv_present = True, dv_value = a, dv_file_offset = 0\<rparr>,
       rt_size = \<lparr>dv_present = True, dv_value = 24, dv_file_offset = 0\<rparr>,
       rt_entry_size = \<lparr>dv_present = True, dv_value = 24, dv_file_offset = 0\<rparr>,
       rt_relative_count = default_DynamicValue\<rparr>"
  have p: "table_is_present (?t a)" "dv_value (rt_size (?t a)) \<noteq> 0" for a
    by (simp_all add: table_is_present_def)
  from relocation_tables_disjoint [OF p(1) p(1) p(2) p(2), of 4096 8192] show ?thesis by simp
qed

end
