(* ===== verification/ExecutableImage.thy ===== *)
theory ExecutableImage
  imports Loader
begin

text \<open>
  Materialising a load plan: \<open>light-rocr/runtime/executable_image.cpp\<close> and its header. \<open>validate_plan\<close>
  checks a plan that may come from anywhere; \<open>materialize_executable_image\<close> writes the image into a
  destination buffer and applies the relocations. The destination is a byte list; a write or a
  read outside a buffer is a \<^const>\<open>Fault\<close>. \<open>memcpy\<close> between an integer and the image is
  little-endian, as on the hosts the runtime supports. A status is an \<open>ExecutableImageError\<close>; the
  messages are dropped.

  The lemmas show that \<open>validate_plan\<close> decides the declarative \<open>plan_valid\<close>. What the image holds
  after materialisation is in the theory \<open>ImageContents\<close>.
\<close>

section \<open>Errors and small checks\<close>

datatype ExecutableImageError =
    ImageNoError | ImageInvalidArgument | EmptyImage | ImageSizeOverflow | UnsupportedAlignment
  | UnsupportedRelocations | InvalidCopyOperation | InvalidZeroFillOperation
  | InvalidProtectionOperation | ImageInvalidKernelDescriptor | AllocationFailed
  | MisalignedAllocation | InvalidVirtualAddress | GpuAddressOverflow

type_synonym 'a imaged = "(ExecutableImageError, 'a) outcome"

primrec executable_image_error_name :: "ExecutableImageError \<Rightarrow> string" where
  "executable_image_error_name ImageNoError = ''none''"
| "executable_image_error_name ImageInvalidArgument = ''invalid_argument''"
| "executable_image_error_name EmptyImage = ''empty_image''"
| "executable_image_error_name ImageSizeOverflow = ''image_size_overflow''"
| "executable_image_error_name UnsupportedAlignment = ''unsupported_alignment''"
| "executable_image_error_name UnsupportedRelocations = ''unsupported_relocations''"
| "executable_image_error_name InvalidCopyOperation = ''invalid_copy_operation''"
| "executable_image_error_name InvalidZeroFillOperation = ''invalid_zero_fill_operation''"
| "executable_image_error_name InvalidProtectionOperation = ''invalid_protection_operation''"
| "executable_image_error_name ImageInvalidKernelDescriptor = ''invalid_kernel_descriptor''"
| "executable_image_error_name AllocationFailed = ''allocation_failed''"
| "executable_image_error_name MisalignedAllocation = ''misaligned_allocation''"
| "executable_image_error_name InvalidVirtualAddress = ''invalid_virtual_address''"
| "executable_image_error_name GpuAddressOverflow = ''gpu_address_overflow''"

text \<open>\<open>checked_add\<close> of this file tests the other operand; the result is the same.\<close>

definition image_checked_add :: "u64 \<Rightarrow> u64 \<Rightarrow> u64 option" where
  "image_checked_add lhs rhs = (if lhs > (- 1) - rhs then None else Some (lhs + rhs))"

lemma image_checked_add_eq [simp]: "image_checked_add a b = checked_add a b"
  using unat_u64_less [of a] unat_u64_less [of b]
  by (auto simp: image_checked_add_def checked_add_def word_less_nat_alt unat_max_minus)

definition image_offset :: "LoadPlan \<Rightarrow> u64 \<Rightarrow> u64 \<Rightarrow> u64 option" where
  "image_offset plan virtual_address sz =
     (if sz = 0 \<or> virtual_address < plan_image_virtual_address plan then None
      else
      let candidate = virtual_address - plan_image_virtual_address plan in
      if candidate > plan_image_size plan \<or> sz > plan_image_size plan - candidate then None
      else Some candidate)"

definition file_range_is_valid :: "u64 \<Rightarrow> u64 \<Rightarrow> u64 \<Rightarrow> bool" where
  "file_range_is_valid offset sz file_size = (offset \<le> file_size \<and> sz \<le> file_size - offset)"

primrec operations_loop ::
  "('a \<Rightarrow> u64) \<Rightarrow> ('a \<Rightarrow> u64) \<Rightarrow> 'a list \<Rightarrow> u64 \<Rightarrow> bool \<Rightarrow> bool" where
  "operations_loop address sz [] previous_end has_previous = True"
| "operations_loop address sz (operation # operations) previous_end has_previous =
     (if sz operation = 0 then False
      else
      case image_checked_add (address operation) (sz operation) of
        None \<Rightarrow> False
      | Some operation_end \<Rightarrow>
          if has_previous \<and> address operation < previous_end then False
          else operations_loop address sz operations operation_end True)"

definition operations_are_ordered :: "('a \<Rightarrow> u64) \<Rightarrow> ('a \<Rightarrow> u64) \<Rightarrow> 'a list \<Rightarrow> bool" where
  "operations_are_ordered address sz operations = operations_loop address sz operations 0 False"

text \<open>The merge loop over the two sorted lists; the indices are the remaining suffixes.\<close>

fun overlap_loop :: "LoadCopy list \<Rightarrow> LoadZeroFill list \<Rightarrow> bool" where
  "overlap_loop (c # cs) (z # zs) =
     (let copy_end = lc_virtual_address c + lc_size c;
          zero_fill_end = lz_virtual_address z + lz_size z in
      if lc_virtual_address c < zero_fill_end \<and> lz_virtual_address z < copy_end then True
      else if copy_end \<le> lz_virtual_address z then overlap_loop cs (z # zs)
      else overlap_loop (c # cs) zs)"
| "overlap_loop _ _ = False"

definition copy_and_zero_fill_ranges_overlap :: "LoadPlan \<Rightarrow> bool" where
  "copy_and_zero_fill_ranges_overlap plan = overlap_loop (plan_copies plan) (plan_zero_fills plan)"

definition range_has_protection :: "LoadPlan \<Rightarrow> u64 \<Rightarrow> u64 \<Rightarrow> u32 \<Rightarrow> bool" where
  "range_has_protection plan address sz required_flags =
     (let i = upper_bound (\<lambda>candidate operation. candidate < lp_virtual_address operation)
                (plan_protections plan) address in
      if i = 0 then False
      else
      let protection = plan_protections plan ! (i - 1) in
      if lp_flags protection AND required_flags \<noteq> required_flags \<or>
         address < lp_virtual_address protection
      then False
      else
      let offset = address - lp_virtual_address protection in
      offset \<le> lp_size protection \<and> sz \<le> lp_size protection - offset)"

definition range_is_file_backed :: "LoadPlan \<Rightarrow> u64 \<Rightarrow> u64 \<Rightarrow> bool" where
  "range_is_file_backed plan address sz =
     (let i = upper_bound (\<lambda>candidate operation. candidate < lc_virtual_address operation)
                (plan_copies plan) address in
      if i = 0 then False
      else
      let copy = plan_copies plan ! (i - 1) in
      if address < lc_virtual_address copy then False
      else
      let offset = address - lc_virtual_address copy in
      offset \<le> lc_size copy \<and> sz \<le> lc_size copy - offset)"

definition image_add_signed_offset :: "u64 \<Rightarrow> int \<Rightarrow> u64 option" where
  "image_add_signed_offset base offset =
     (if offset \<ge> 0 then image_checked_add base (of_int offset)
      else
      let magnitude = of_int (- (offset + 1)) + 1 in
      if base < magnitude then None else Some (base - magnitude))"

definition image_relocation_width :: "u32 \<Rightarrow> u64" where
  "image_relocation_width type =
     (if type = 0 then 0 else if type = 3 \<or> type = 13 then 8 else 0)"

section \<open>Validation\<close>

definition validate_image_geometry :: "LoadPlan \<Rightarrow> u64 imaged" where
  "validate_image_geometry plan =
     (if plan_image_size plan = 0 then Err EmptyImage
      else if image_checked_add (plan_image_virtual_address plan) (plan_image_size plan) = None
      then Err ImageSizeOverflow
      else if \<not> is_power_of_two (plan_alignment plan) \<or> plan_alignment plan > 4096 \<or>
              plan_image_virtual_address plan mod plan_alignment plan \<noteq> 0
      then Err UnsupportedAlignment
      else if plan_image_size plan > (- 1) - (4096 - 1) then Err ImageSizeOverflow
      else
      let allocation_size = (plan_image_size plan + 4096 - 1) AND NOT (4096 - 1) in
      if allocation_size > - 1 then Err ImageSizeOverflow else Ok allocation_size)"

definition validate_copies :: "LoadPlan \<Rightarrow> u64 \<Rightarrow> unit imaged" where
  "validate_copies plan hsaco_size =
     (if \<not> operations_are_ordered lc_virtual_address lc_size (plan_copies plan)
      then Err InvalidCopyOperation
      else if \<exists>copy \<in> set (plan_copies plan).
                \<not> file_range_is_valid (lc_file_offset copy) (lc_size copy) hsaco_size \<or>
                image_offset plan (lc_virtual_address copy) (lc_size copy) = None
      then Err InvalidCopyOperation
      else Ok ())"

definition validate_zero_fills :: "LoadPlan \<Rightarrow> unit imaged" where
  "validate_zero_fills plan =
     (if \<not> operations_are_ordered lz_virtual_address lz_size (plan_zero_fills plan)
      then Err InvalidZeroFillOperation
      else if \<exists>zero_fill \<in> set (plan_zero_fills plan).
                image_offset plan (lz_virtual_address zero_fill) (lz_size zero_fill) = None
      then Err InvalidZeroFillOperation
      else Ok ())"

primrec relocations_loop :: "LoadPlan \<Rightarrow> Relocation list \<Rightarrow> u64 \<Rightarrow> bool \<Rightarrow> unit imaged" where
  "relocations_loop plan [] previous_end has_previous = Ok ()"
| "relocations_loop plan (relocation # relocations) previous_end has_previous =
     (let width = image_relocation_width (rl_type relocation);
          target = rl_target_virtual_address relocation in
      if rl_type relocation \<noteq> 0 \<and> width = 0 then Err UnsupportedRelocations
      else if rl_type relocation = 13 \<and> rl_symbol_index relocation \<noteq> 0
      then Err UnsupportedRelocations
      else if width = 0 then relocations_loop plan relocations previous_end has_previous
      else
      case (image_offset plan target width, image_checked_add target width) of
        (Some _, Some relocation_end) \<Rightarrow>
          if has_previous \<and> target < previous_end then Err UnsupportedRelocations
          else relocations_loop plan relocations relocation_end True
      | _ \<Rightarrow> Err UnsupportedRelocations)"

definition validate_protections :: "LoadPlan \<Rightarrow> unit imaged" where
  "validate_protections plan =
     (if \<not> operations_are_ordered lp_virtual_address lp_size (plan_protections plan)
      then Err InvalidProtectionOperation
      else if \<exists>protection \<in> set (plan_protections plan).
                lp_flags protection AND NOT 7 \<noteq> 0 \<or>
                image_offset plan (lp_virtual_address protection) (lp_size protection) = None
      then Err InvalidProtectionOperation
      else if \<exists>copy \<in> set (plan_copies plan).
                \<not> range_has_protection plan (lc_virtual_address copy) (lc_size copy) 0
      then Err InvalidProtectionOperation
      else if \<exists>zero_fill \<in> set (plan_zero_fills plan).
                \<not> range_has_protection plan (lz_virtual_address zero_fill) (lz_size zero_fill) 0
      then Err InvalidProtectionOperation
      else Ok ())"

definition kernel_consistent :: "LoadPlan \<Rightarrow> KernelInfo \<Rightarrow> bool" where
  "kernel_consistent plan k =
     (case image_offset plan (ki_descriptor_virtual_address k) 64 of
        None \<Rightarrow> False
      | Some descriptor_offset \<Rightarrow>
          ki_descriptor_virtual_address k mod 64 = 0 \<and> descriptor_offset mod 64 = 0 \<and>
          range_is_file_backed plan (ki_descriptor_virtual_address k) 64 \<and>
          image_add_signed_offset (ki_descriptor_virtual_address k) (ki_code_entry_byte_offset k) =
            Some (ki_code_entry_virtual_address k) \<and>
          range_is_file_backed plan (ki_code_entry_virtual_address k) 1 \<and>
          range_has_protection plan (ki_code_entry_virtual_address k) 1 1)"

definition validate_plan :: "bytes option \<Rightarrow> u64 \<Rightarrow> CodeObject \<Rightarrow> u64 imaged" where
  "validate_plan hsaco hsaco_size code_object =
     (let plan = co_load_plan code_object in
      if hsaco = None \<and> hsaco_size \<noteq> 0 then Err ImageInvalidArgument
      else
      obind (validate_image_geometry plan) (\<lambda>allocation_size.
      obind (validate_copies plan hsaco_size) (\<lambda>_.
      obind (validate_zero_fills plan) (\<lambda>_.
      obind (relocations_loop plan (plan_relocations plan) 0 False) (\<lambda>_.
      if copy_and_zero_fill_ranges_overlap plan then Err InvalidZeroFillOperation
      else
      obind (validate_protections plan) (\<lambda>_.
      if \<exists>k \<in> set (co_kernels code_object). \<not> kernel_consistent plan k
      then Err ImageInvalidKernelDescriptor
      else Ok allocation_size))))))"

section \<open>The image and its addresses\<close>

record ResolvedKernel =
  rk_descriptor_gpu_address :: u64
  rk_code_entry_gpu_address :: u64

record ExecutableImageInfo =
  ii_code_object :: CodeObject
  ii_allocation_size :: u64
  ii_gpu_address :: u64
  ii_kernels :: "ResolvedKernel list"
  ii_valid :: bool

definition reset_image :: "ExecutableImageInfo \<Rightarrow> ExecutableImageInfo" where
  "reset_image img = \<lparr>ii_code_object = default_CodeObject, ii_allocation_size = 0,
     ii_gpu_address = 0, ii_kernels = [], ii_valid = False\<rparr>"

text \<open>The move operations: the new value of \<open>*this\<close> and of \<open>other\<close>.\<close>

definition move_construct_image ::
  "ExecutableImageInfo \<Rightarrow> ExecutableImageInfo \<times> ExecutableImageInfo" where
  "move_construct_image other =
     (\<lparr>ii_code_object = ii_code_object other, ii_allocation_size = ii_allocation_size other,
       ii_gpu_address = ii_gpu_address other, ii_kernels = ii_kernels other,
       ii_valid = ii_valid other\<rparr>, reset_image other)"

definition move_assign_image ::
  "bool \<Rightarrow> ExecutableImageInfo \<Rightarrow> ExecutableImageInfo \<Rightarrow> ExecutableImageInfo \<times> ExecutableImageInfo"
where
  "move_assign_image same_object this other =
     (if same_object then (this, other)
      else (this\<lparr>ii_code_object := ii_code_object other, ii_allocation_size := ii_allocation_size other,
                ii_gpu_address := ii_gpu_address other, ii_kernels := ii_kernels other,
                ii_valid := ii_valid other\<rparr>, reset_image other))"

definition executable_image_requirements :: "bytes option \<Rightarrow> u64 \<Rightarrow> CodeObject \<Rightarrow> u64 imaged" where
  "executable_image_requirements hsaco hsaco_size code_object =
     validate_plan hsaco hsaco_size code_object"

definition translate_executable_address ::
  "LoadPlan \<Rightarrow> u64 \<Rightarrow> u64 \<Rightarrow> u64 \<Rightarrow> u64 \<Rightarrow> u64 imaged" where
  "translate_executable_address plan gpu_address virtual_address sz alignment =
     (if \<not> is_power_of_two alignment then Err InvalidVirtualAddress
      else
      case image_offset plan virtual_address sz of
        None \<Rightarrow> Err InvalidVirtualAddress
      | Some offset \<Rightarrow>
        (case image_checked_add gpu_address offset of
           None \<Rightarrow> Err GpuAddressOverflow
         | Some translated_address \<Rightarrow>
             if translated_address mod alignment \<noteq> 0 then Err InvalidVirtualAddress
             else Ok translated_address))"

definition translate_image :: "ExecutableImageInfo \<Rightarrow> u64 \<Rightarrow> u64 \<Rightarrow> u64 \<Rightarrow> u64 imaged" where
  "translate_image img virtual_address sz alignment =
     (if \<not> ii_valid img then Err ImageInvalidArgument
      else translate_executable_address (co_load_plan (ii_code_object img)) (ii_gpu_address img)
             virtual_address sz alignment)"

section \<open>Materialisation\<close>

text \<open>A write of bytes at an offset of a buffer.\<close>

definition write_bytes :: "bytes \<Rightarrow> nat \<Rightarrow> bytes \<Rightarrow> ('e, bytes) outcome" where
  "write_bytes buffer offset bs =
     (if offset + length bs \<le> length buffer
      then Ok (take offset buffer @ bs @ drop (offset + length bs) buffer) else Fault)"

definition check_placement :: "LoadPlan \<Rightarrow> u64 \<Rightarrow> u64 \<Rightarrow> u64 imaged" where
  "check_placement plan allocation_size gpu_address =
     (if gpu_address mod 4096 \<noteq> 0 \<or>
         gpu_address mod plan_alignment plan \<noteq>
           plan_image_virtual_address plan mod plan_alignment plan
      then Err MisalignedAllocation
      else if image_checked_add gpu_address allocation_size = None then Err GpuAddressOverflow
      else if gpu_address < plan_image_virtual_address plan then Err GpuAddressOverflow
      else
      let load_bias = gpu_address - plan_image_virtual_address plan in
      if \<exists>relocation \<in> set (plan_relocations plan).
           rl_type relocation = 3 \<and> \<not> rl_symbol_is_absolute relocation \<and>
           image_checked_add load_bias (rl_symbol_value relocation) = None
      then Err GpuAddressOverflow
      else Ok load_bias)"

primrec resolve_kernels :: "LoadPlan \<Rightarrow> u64 \<Rightarrow> KernelInfo list \<Rightarrow> ResolvedKernel list imaged" where
  "resolve_kernels plan gpu_address [] = Ok []"
| "resolve_kernels plan gpu_address (k # ks) =
     obind (translate_executable_address plan gpu_address (ki_descriptor_virtual_address k) 64 64)
       (\<lambda>descriptor.
     obind (translate_executable_address plan gpu_address (ki_code_entry_virtual_address k) 1 1)
       (\<lambda>code_entry.
     obind (resolve_kernels plan gpu_address ks) (\<lambda>rest.
       Ok (\<lparr>rk_descriptor_gpu_address = descriptor, rk_code_entry_gpu_address = code_entry\<rparr> # rest))))"

primrec copy_loop :: "LoadPlan \<Rightarrow> bytes \<Rightarrow> LoadCopy list \<Rightarrow> bytes \<Rightarrow> bytes imaged" where
  "copy_loop plan hsaco [] img = Ok img"
| "copy_loop plan hsaco (c # cs) img =
     obind (read_bytes hsaco (unat (lc_file_offset c)) (unat (lc_size c))) (\<lambda>bs.
     obind (write_bytes img (unat (lc_virtual_address c - plan_image_virtual_address plan)) bs)
       (\<lambda>img'. copy_loop plan hsaco cs img'))"

primrec zero_fill_loop :: "LoadPlan \<Rightarrow> LoadZeroFill list \<Rightarrow> bytes \<Rightarrow> bytes imaged" where
  "zero_fill_loop plan [] img = Ok img"
| "zero_fill_loop plan (z # zs) img =
     obind (write_bytes img (unat (lz_virtual_address z - plan_image_virtual_address plan))
              (replicate (unat (lz_size z)) 0))
       (\<lambda>img'. zero_fill_loop plan zs img')"

definition relocated_value :: "u64 \<Rightarrow> Relocation \<Rightarrow> u64 \<Rightarrow> u64" where
  "relocated_value load_bias relocation addend =
     (if rl_type relocation = 13 then load_bias + addend
      else (if rl_symbol_is_absolute relocation then rl_symbol_value relocation
            else load_bias + rl_symbol_value relocation) + addend)"

primrec relocate_loop :: "LoadPlan \<Rightarrow> u64 \<Rightarrow> Relocation list \<Rightarrow> bytes \<Rightarrow> bytes imaged" where
  "relocate_loop plan load_bias [] img = Ok img"
| "relocate_loop plan load_bias (r # rs) img =
     (if rl_type r = 0 then relocate_loop plan load_bias rs img
      else
      let target_offset = unat (rl_target_virtual_address r - plan_image_virtual_address plan) in
      obind (if rl_encoding r = Rel then read_u64 img target_offset else Ok (of_int (rl_addend r)))
        (\<lambda>addend.
      obind (write_bytes img target_offset (le_bytes 8 (relocated_value load_bias r addend)))
        (\<lambda>img'. relocate_loop plan load_bias rs img')))"

text \<open>The destination after the call and the image description.\<close>

definition materialize_executable_image ::
  "bytes option \<Rightarrow> u64 \<Rightarrow> CodeObject \<Rightarrow> bytes option \<Rightarrow> u64 \<Rightarrow> u64 \<Rightarrow>
   (bytes \<times> ExecutableImageInfo) imaged" where
  "materialize_executable_image hsaco hsaco_size code_object destination destination_size gpu_address =
     (let plan = co_load_plan code_object in
      obind (executable_image_requirements hsaco hsaco_size code_object) (\<lambda>allocation_size.
      case destination of
        None \<Rightarrow> Err ImageInvalidArgument
      | Some buffer \<Rightarrow>
        if destination_size < allocation_size then Err ImageInvalidArgument
        else
        obind (check_placement plan allocation_size gpu_address) (\<lambda>load_bias.
        obind (resolve_kernels plan gpu_address (co_kernels code_object)) (\<lambda>kernels.
        obind (write_bytes buffer 0 (replicate (unat allocation_size) 0)) (\<lambda>image0.
        obind (copy_loop plan (buffer_bytes hsaco) (plan_copies plan) image0) (\<lambda>image1.
        obind (zero_fill_loop plan (plan_zero_fills plan) image1) (\<lambda>image2.
        obind (relocate_loop plan load_bias (plan_relocations plan) image2) (\<lambda>image3.
          Ok (image3, \<lparr>ii_code_object = code_object, ii_allocation_size = allocation_size,
                       ii_gpu_address = gpu_address, ii_kernels = kernels,
                       ii_valid = True\<rparr>)))))))))"

section \<open>What the checks decide\<close>

abbreviation op_range :: "('a \<Rightarrow> u64) \<Rightarrow> ('a \<Rightarrow> u64) \<Rightarrow> 'a \<Rightarrow> nat set" where
  "op_range address sz x \<equiv> {unat (address x) ..< unat (address x) + unat (sz x)}"

definition in_image :: "LoadPlan \<Rightarrow> u64 \<Rightarrow> u64 \<Rightarrow> bool" where
  "in_image plan a n \<longleftrightarrow> 0 < unat n \<and> unat (plan_image_virtual_address plan) \<le> unat a \<and>
     unat a + unat n \<le> unat (plan_image_virtual_address plan) + unat (plan_image_size plan)"

lemma inside_test:
  "(\<not> a < (v :: u64) \<and> (a - v \<le> f \<and> l \<le> f - (a - v))) \<longleftrightarrow>
   unat v \<le> unat a \<and> unat a + unat l \<le> unat v + unat f"
  using delta_test [of a v f l] by (auto simp: word_less_nat_alt not_less)

lemma image_offset_Some:
  "image_offset plan a n = Some off \<longleftrightarrow> in_image plan a n \<and> off = a - plan_image_virtual_address plan"
proof -
  let ?v = "plan_image_virtual_address plan" and ?f = "plan_image_size plan"
  have "image_offset plan a n = Some off \<longleftrightarrow>
      n \<noteq> 0 \<and> (\<not> a < ?v \<and> (a - ?v \<le> ?f \<and> n \<le> ?f - (a - ?v))) \<and> off = a - ?v"
    by (auto simp: image_offset_def Let_def not_less)
  then show ?thesis unfolding inside_test by (auto simp: in_image_def unat_gt_0)
qed

lemma image_offset_None: "image_offset plan a n = None \<longleftrightarrow> \<not> in_image plan a n"
  using image_offset_Some [of plan a n] by (cases "image_offset plan a n") auto

lemma unat_image_offset:
  "in_image plan a n \<Longrightarrow> unat (a - plan_image_virtual_address plan) =
     unat a - unat (plan_image_virtual_address plan)"
  by (simp add: in_image_def unat_sub word_le_nat_alt)

lemma file_range_is_valid_iff: "file_range_is_valid off n size' \<longleftrightarrow> unat off + unat n \<le> unat size'"
  unfolding file_range_is_valid_def by (rule range_test)

lemma operations_loop_iff:
  "operations_loop address sz ops previous has \<longleftrightarrow> laid_out address sz ops \<and>
     (has \<longrightarrow> (\<forall>x \<in> set ops. unat previous \<le> unat (address x)))"
proof (induction ops arbitrary: previous has)
  case Nil
  then show ?case by (simp add: laid_out_def)
next
  case (Cons x ops)
  show ?case
  proof (cases "checked_add (address x) (sz x)")
    case None
    then have "\<not> unat (address x) + unat (sz x) < 2 ^ 64" by (simp only: checked_add_None not_less)
    with None show ?thesis by (simp add: laid_out_def)
  next
    case (Some e)
    note e' = checked_add_SomeD [OF Some]
    show ?thesis
    proof (cases "sz x = 0")
      case False
      then have "0 < unat (sz x)" by (simp add: unat_gt_0)
      with False Some e' show ?thesis
        by (auto simp: Cons laid_out_def word_less_nat_alt not_less dest: order_trans)
    qed (simp add: laid_out_def)
  qed
qed

lemma operations_are_ordered_iff: "operations_are_ordered address sz ops \<longleftrightarrow> laid_out address sz ops"
  by (simp add: operations_are_ordered_def operations_loop_iff)

lemma laid_out_end:
  "laid_out address sz ops \<Longrightarrow> x \<in> set ops \<Longrightarrow> unat (address x + sz x) = unat (address x) + unat (sz x)"
  by (intro unat_add64) (auto simp: laid_out_def)

definition meets :: "LoadCopy \<Rightarrow> LoadZeroFill \<Rightarrow> bool" where
  "meets c z \<longleftrightarrow> op_range lc_virtual_address lc_size c \<inter> op_range lz_virtual_address lz_size z \<noteq> {}"

lemma meets_iff:
  assumes "0 < unat (lc_size c)" and "0 < unat (lz_size z)"
  shows "meets c z \<longleftrightarrow>
    unat (lc_virtual_address c) < unat (lz_virtual_address z) + unat (lz_size z) \<and>
    unat (lz_virtual_address z) < unat (lc_virtual_address c) + unat (lc_size c)"
  unfolding meets_def interval_disjoint using assms by linarith

lemma overlap_loop_iff:
  assumes "laid_out lc_virtual_address lc_size cs" and "laid_out lz_virtual_address lz_size zs"
  shows "overlap_loop cs zs \<longleftrightarrow> (\<exists>c \<in> set cs. \<exists>z \<in> set zs. meets c z)"
  using assms
proof (induction cs zs rule: overlap_loop.induct)
  case (1 c cs z zs)
  note ends = laid_out_end [OF "1.prems"(1), of c, simplified] laid_out_end [OF "1.prems"(2), of z, simplified]
  have pos: "0 < unat (lc_size x)" "0 < unat (lz_size y)" if "x \<in> set (c # cs)" "y \<in> set (z # zs)" for x y
    using "1.prems" that by (auto simp: laid_out_def)
  have first: "unat (lc_virtual_address c) \<le> unat (lc_virtual_address x)"
      "unat (lz_virtual_address z) \<le> unat (lz_virtual_address y)"
    if "x \<in> set (c # cs)" "y \<in> set (z # zs)" for x y
    using "1.prems" that by (auto simp: laid_out_def)
  have tails: "laid_out lc_virtual_address lc_size cs" "laid_out lz_virtual_address lz_size zs"
    using "1.prems" by (simp_all add: laid_out_def)
  consider (hit) "lc_virtual_address c < lz_virtual_address z + lz_size z"
      "lz_virtual_address z < lc_virtual_address c + lc_size c"
    | (copy) "lc_virtual_address c + lc_size c \<le> lz_virtual_address z"
    | (zero) "lz_virtual_address z + lz_size z \<le> lc_virtual_address c"
    by fastforce
  then show ?case
  proof cases
    case hit
    then have "meets c z" using pos [of c z] ends by (simp add: meets_iff word_less_nat_alt)
    with hit show ?thesis by (auto simp: Let_def)
  next
    case copy
    then have "\<not> meets c y" if "y \<in> set (z # zs)" for y
      using pos [OF _ that, of c] first(2) [OF _ that, of c] ends by (auto simp: meets_iff word_le_nat_alt)
    with copy "1.IH"(1) [OF refl refl _ _ tails(1) "1.prems"(2)] show ?thesis
      by (auto simp: Let_def not_less)
  next
    case zero
    then have "\<not> meets x z" if "x \<in> set (c # cs)" for x
      using pos [OF that, of z] first(1) [OF that, of z] ends by (auto simp: meets_iff word_le_nat_alt)
    moreover have "\<not> lc_virtual_address c + lc_size c \<le> lz_virtual_address z"
      using zero pos [of c z] ends by (simp add: word_le_nat_alt)
    ultimately show ?thesis
      using zero "1.IH"(2) [OF refl refl _ _ "1.prems"(1) tails(2)]
      by (auto simp: Let_def not_less)
  qed
qed simp_all

lemma upper_bound_unat:
  "upper_bound (\<lambda>v x. v < (f x :: u64)) xs a = upper_bound (\<lambda>v x. v < unat (f x)) xs (unat a)"
  by (simp add: upper_bound_def word_less_nat_alt)

text \<open>The two lookups find the one operation that contains the range, if there is one.\<close>

lemma range_has_protection_iff:
  assumes "laid_out lp_virtual_address lp_size (plan_protections plan)" and "0 < unat n"
  shows "range_has_protection plan a n flags \<longleftrightarrow> (\<exists>p \<in> set (plan_protections plan).
    lp_flags p AND flags = flags \<and> unat (lp_virtual_address p) \<le> unat a \<and>
    unat a + unat n \<le> unat (lp_virtual_address p) + unat (lp_size p))"
proof -
  let ?i = "upper_bound (\<lambda>v x. v < lp_virtual_address x) (plan_protections plan) a"
  let ?p = "plan_protections plan ! (?i - 1)"
  have "range_has_protection plan a n flags \<longleftrightarrow> ?i \<noteq> 0 \<and> lp_flags ?p AND flags = flags \<and>
      (\<not> a < lp_virtual_address ?p \<and> (a - lp_virtual_address ?p \<le> lp_size ?p \<and>
        n \<le> lp_size ?p - (a - lp_virtual_address ?p)))"
    by (auto simp: range_has_protection_def Let_def)
  also have "\<dots> \<longleftrightarrow> (\<exists>p \<in> set (plan_protections plan).
      lp_flags p AND flags = flags \<and> unat (lp_virtual_address p) \<le> unat a \<and>
      unat a + unat n \<le> unat (lp_virtual_address p) + unat (lp_size p))"
    unfolding inside_test
    using assms(1) by (intro upper_bound_containing [OF _ assms(2)]) (simp_all add: laid_out_def upper_bound_unat)
  finally show ?thesis .
qed

lemma range_is_file_backed_iff:
  assumes "laid_out lc_virtual_address lc_size (plan_copies plan)" and "0 < unat n"
  shows "range_is_file_backed plan a n \<longleftrightarrow> (\<exists>c \<in> set (plan_copies plan).
    unat (lc_virtual_address c) \<le> unat a \<and>
    unat a + unat n \<le> unat (lc_virtual_address c) + unat (lc_size c))"
proof -
  let ?i = "upper_bound (\<lambda>v x. v < lc_virtual_address x) (plan_copies plan) a"
  let ?c = "plan_copies plan ! (?i - 1)"
  have "range_is_file_backed plan a n \<longleftrightarrow> ?i \<noteq> 0 \<and> True \<and>
      (\<not> a < lc_virtual_address ?c \<and> (a - lc_virtual_address ?c \<le> lc_size ?c \<and>
        n \<le> lc_size ?c - (a - lc_virtual_address ?c)))"
    by (auto simp: range_is_file_backed_def Let_def)
  also have "\<dots> \<longleftrightarrow> (\<exists>c \<in> set (plan_copies plan). True \<and> unat (lc_virtual_address c) \<le> unat a \<and>
      unat a + unat n \<le> unat (lc_virtual_address c) + unat (lc_size c))"
    unfolding inside_test
    using assms(1)
    by (intro upper_bound_containing [OF _ assms(2), where Q = "\<lambda>_. True"])
      (simp_all add: laid_out_def upper_bound_unat)
  finally show ?thesis by simp
qed

text \<open>The two files' address arithmetic agrees on every \<open>int64_t\<close> offset.\<close>

lemma image_add_signed_offset_eq:
  assumes "- (2 ^ 63) \<le> i" and "i < 2 ^ 63"
  shows "image_add_signed_offset b i = add_signed_offset b i"
proof -
  have "(word_of_int (- (i + 1)) + 1 :: u64) = 0 - word_of_int i" by simp
  then show ?thesis
    by (simp add: image_add_signed_offset_def add_signed_offset_def Let_def)
qed

section \<open>Valid plans\<close>

definition geometry_ok :: "LoadPlan \<Rightarrow> bool" where
  "geometry_ok plan \<longleftrightarrow> 0 < unat (plan_image_size plan) \<and>
     unat (plan_image_virtual_address plan) + unat (plan_image_size plan) < 2 ^ 64 \<and>
     is_power_of_two (plan_alignment plan) \<and> unat (plan_alignment plan) \<le> 4096 \<and>
     unat (plan_alignment plan) dvd unat (plan_image_virtual_address plan) \<and>
     unat (plan_image_size plan) \<le> 2 ^ 64 - 4096"

text \<open>The allocation: the image size rounded up to whole pages.\<close>

lemma validate_image_geometry_Ok:
  "validate_image_geometry plan = Ok n \<longleftrightarrow>
   geometry_ok plan \<and> unat n = page_round (unat (plan_image_size plan))"
proof -
  let ?s = "plan_image_size plan"
  define alloc where "alloc = (?s + 4096 - 1) AND NOT (4096 - 1)"
  note big = page_round_overflows [of ?s]
  note alloc = unat_page_round [of ?s, folded alloc_def]
  have top_alloc: "(alloc > - 1) = False" by simp
  have "validate_image_geometry plan = Ok n \<longleftrightarrow> geometry_ok plan \<and> n = alloc"
    unfolding validate_image_geometry_def Let_def alloc_def [symmetric] geometry_ok_def big top_alloc if_False
    by (auto simp: checked_add_None unat_gt_0 not_less word_less_nat_alt word_le_nat_alt)
  also have "\<dots> \<longleftrightarrow> geometry_ok plan \<and> unat n = page_round (unat ?s)"
    using alloc by (auto simp: geometry_ok_def word_unat_eq_iff)
  finally show ?thesis .
qed

abbreviation applied :: "Relocation list \<Rightarrow> Relocation list" where
  "applied rs \<equiv> filter (\<lambda>r. rl_type r \<noteq> 0) rs"

definition relocations_supported :: "LoadPlan \<Rightarrow> Relocation list \<Rightarrow> bool" where
  "relocations_supported plan rs \<longleftrightarrow>
     (\<forall>r \<in> set rs. rl_type r \<in> {0, 3, 13} \<and> (rl_type r = 13 \<longrightarrow> rl_symbol_index r = 0)) \<and>
     (\<forall>r \<in> set (applied rs). in_image plan (rl_target_virtual_address r) 8) \<and>
     sorted_wrt (\<lambda>r s. unat (rl_target_virtual_address r) + 8 \<le> unat (rl_target_virtual_address s)) (applied rs)"

lemma relocations_loop_Ok:
  assumes "unat (plan_image_virtual_address plan) + unat (plan_image_size plan) < 2 ^ 64"
  shows "relocations_loop plan rs previous has = Ok () \<longleftrightarrow> relocations_supported plan rs \<and>
    (has \<longrightarrow> (\<forall>r \<in> set (applied rs). unat previous \<le> unat (rl_target_virtual_address r)))"
proof (induction rs arbitrary: previous has)
  case Nil
  then show ?case by (simp add: relocations_supported_def)
next
  case (Cons r rs)
  let ?t = "rl_target_virtual_address r"
  consider (none) "rl_type r = 0" | (bad) "rl_type r \<notin> {0, 3, 13} \<or> rl_type r = 13 \<and> rl_symbol_index r \<noteq> 0"
    | (out) "rl_type r \<in> {3, 13}" "rl_type r = 13 \<longrightarrow> rl_symbol_index r = 0" "\<not> in_image plan ?t 8"
    | (ok) "rl_type r \<in> {3, 13}" "rl_type r = 13 \<longrightarrow> rl_symbol_index r = 0" "in_image plan ?t 8"
    by auto
  then show ?case
  proof cases
    case none
    then show ?thesis by (simp add: Cons relocations_supported_def image_relocation_width_def)
  next
    case bad
    then show ?thesis by (auto simp: relocations_supported_def image_relocation_width_def Let_def)
  next
    case out
    then have "image_offset plan ?t 8 = None" by (simp add: image_offset_None)
    with out show ?thesis
      by (auto simp: relocations_supported_def image_relocation_width_def Let_def)
  next
    case ok
    then have off: "image_offset plan ?t 8 = Some (?t - plan_image_virtual_address plan)"
      by (simp add: image_offset_Some)
    have fit: "unat ?t + 8 < 2 ^ 64" using ok(3) assms by (simp add: in_image_def)
    then have add: "checked_add ?t 8 = Some (?t + 8)" by (simp add: checked_add_Some)
    have "unat (?t + 8) = unat ?t + 8" using fit unat_add64 [of ?t 8] by simp
    with ok off add show ?thesis
      by (auto simp: Cons relocations_supported_def image_relocation_width_def Let_def word_less_nat_alt
          not_less dest: order_trans)
  qed
qed

text \<open>The declarative meaning of an accepted plan.\<close>

definition covered :: "('a \<Rightarrow> u64) \<Rightarrow> ('a \<Rightarrow> u64) \<Rightarrow> 'a list \<Rightarrow> u64 \<Rightarrow> u64 \<Rightarrow> bool" where
  "covered address sz ops a n \<longleftrightarrow> (\<exists>x \<in> set ops. unat (address x) \<le> unat a \<and>
     unat a + unat n \<le> unat (address x) + unat (sz x))"

definition kernel_placed :: "LoadPlan \<Rightarrow> KernelInfo \<Rightarrow> bool" where
  "kernel_placed plan k \<longleftrightarrow> in_image plan (ki_descriptor_virtual_address k) 64 \<and>
     64 dvd unat (ki_descriptor_virtual_address k) \<and>
     64 dvd unat (ki_descriptor_virtual_address k) - unat (plan_image_virtual_address plan) \<and>
     covered lc_virtual_address lc_size (plan_copies plan) (ki_descriptor_virtual_address k) 64 \<and>
     image_add_signed_offset (ki_descriptor_virtual_address k) (ki_code_entry_byte_offset k) =
       Some (ki_code_entry_virtual_address k) \<and>
     covered lc_virtual_address lc_size (plan_copies plan) (ki_code_entry_virtual_address k) 1 \<and>
     covered lp_virtual_address lp_size (filter (\<lambda>p. lp_flags p AND 1 = 1) (plan_protections plan))
       (ki_code_entry_virtual_address k) 1"

definition plan_valid :: "nat \<Rightarrow> LoadPlan \<Rightarrow> KernelInfo list \<Rightarrow> bool" where
  "plan_valid n plan ks \<longleftrightarrow> geometry_ok plan \<and>
     laid_out lc_virtual_address lc_size (plan_copies plan) \<and>
     (\<forall>c \<in> set (plan_copies plan). unat (lc_file_offset c) + unat (lc_size c) \<le> n \<and>
        in_image plan (lc_virtual_address c) (lc_size c)) \<and>
     laid_out lz_virtual_address lz_size (plan_zero_fills plan) \<and>
     (\<forall>z \<in> set (plan_zero_fills plan). in_image plan (lz_virtual_address z) (lz_size z)) \<and>
     relocations_supported plan (plan_relocations plan) \<and>
     (\<forall>c \<in> set (plan_copies plan). \<forall>z \<in> set (plan_zero_fills plan). \<not> meets c z) \<and>
     laid_out lp_virtual_address lp_size (plan_protections plan) \<and>
     (\<forall>p \<in> set (plan_protections plan). lp_flags p AND NOT 7 = 0 \<and>
        in_image plan (lp_virtual_address p) (lp_size p)) \<and>
     (\<forall>c \<in> set (plan_copies plan).
        covered lp_virtual_address lp_size (plan_protections plan) (lc_virtual_address c) (lc_size c)) \<and>
     (\<forall>z \<in> set (plan_zero_fills plan).
        covered lp_virtual_address lp_size (plan_protections plan) (lz_virtual_address z) (lz_size z)) \<and>
     (\<forall>k \<in> set ks. kernel_placed plan k)"

lemma kernel_consistent_iff:
  assumes "laid_out lc_virtual_address lc_size (plan_copies plan)"
    and "laid_out lp_virtual_address lp_size (plan_protections plan)"
  shows "kernel_consistent plan k \<longleftrightarrow> kernel_placed plan k"
proof (cases "in_image plan (ki_descriptor_virtual_address k) 64")
  case True
  then have "image_offset plan (ki_descriptor_virtual_address k) 64 =
      Some (ki_descriptor_virtual_address k - plan_image_virtual_address plan)"
    by (simp add: image_offset_Some)
  with True show ?thesis
    unfolding kernel_consistent_def kernel_placed_def covered_def
    by (auto simp: unat_image_offset [OF True] range_is_file_backed_iff [OF assms(1)]
        range_has_protection_iff [OF assms(2)])
next
  case False
  then have "image_offset plan (ki_descriptor_virtual_address k) 64 = None"
    by (simp add: image_offset_None)
  with False show ?thesis by (simp add: kernel_consistent_def kernel_placed_def)
qed

lemma validate_copies_Ok:
  "validate_copies plan n = Ok () \<longleftrightarrow> laid_out lc_virtual_address lc_size (plan_copies plan) \<and>
     (\<forall>c \<in> set (plan_copies plan). unat (lc_file_offset c) + unat (lc_size c) \<le> unat n \<and>
        in_image plan (lc_virtual_address c) (lc_size c))"
  by (auto simp: validate_copies_def operations_are_ordered_iff file_range_is_valid_iff image_offset_None)

lemma validate_zero_fills_Ok:
  "validate_zero_fills plan = Ok () \<longleftrightarrow> laid_out lz_virtual_address lz_size (plan_zero_fills plan) \<and>
     (\<forall>z \<in> set (plan_zero_fills plan). in_image plan (lz_virtual_address z) (lz_size z))"
  by (auto simp: validate_zero_fills_def operations_are_ordered_iff image_offset_None)

lemma validate_protections_Ok:
  assumes "laid_out lc_virtual_address lc_size (plan_copies plan)"
    and "laid_out lz_virtual_address lz_size (plan_zero_fills plan)"
  shows "validate_protections plan = Ok () \<longleftrightarrow>
    laid_out lp_virtual_address lp_size (plan_protections plan) \<and>
     (\<forall>p \<in> set (plan_protections plan). lp_flags p AND NOT 7 = 0 \<and>
        in_image plan (lp_virtual_address p) (lp_size p)) \<and>
     (\<forall>c \<in> set (plan_copies plan).
        covered lp_virtual_address lp_size (plan_protections plan) (lc_virtual_address c) (lc_size c)) \<and>
     (\<forall>z \<in> set (plan_zero_fills plan).
        covered lp_virtual_address lp_size (plan_protections plan) (lz_virtual_address z) (lz_size z))"
proof (cases "laid_out lp_virtual_address lp_size (plan_protections plan)")
  case True
  have "range_has_protection plan a n 0 \<longleftrightarrow>
      covered lp_virtual_address lp_size (plan_protections plan) a n" if "0 < unat n" for a n
    using range_has_protection_iff [OF True that, of a 0] by (auto simp: covered_def)
  with True assms show ?thesis
    by (auto simp: validate_protections_def operations_are_ordered_iff image_offset_None laid_out_def)
qed (simp add: validate_protections_def operations_are_ordered_iff)

lemma validate_plan_Ok:
  "validate_plan hsaco n co = Ok size' \<longleftrightarrow>
   (hsaco = None \<longrightarrow> n = 0) \<and> plan_valid (unat n) (co_load_plan co) (co_kernels co) \<and>
   unat size' = page_round (unat (plan_image_size (co_load_plan co)))"
proof -
  let ?p = "co_load_plan co"
  have geo: "relocations_loop ?p rs 0 False = Ok () \<longleftrightarrow> relocations_supported ?p rs"
    if "geometry_ok ?p" for rs
    using that by (subst relocations_loop_Ok) (auto simp: geometry_ok_def)
  have "validate_plan hsaco n co = Ok size' \<longleftrightarrow> (hsaco = None \<longrightarrow> n = 0) \<and>
      validate_image_geometry ?p = Ok size' \<and> validate_copies ?p n = Ok () \<and>
      validate_zero_fills ?p = Ok () \<and>
      relocations_loop ?p (plan_relocations ?p) 0 False = Ok () \<and>
      \<not> overlap_loop (plan_copies ?p) (plan_zero_fills ?p) \<and> validate_protections ?p = Ok () \<and>
      (\<forall>k \<in> set (co_kernels co). kernel_consistent ?p k)"
    by (auto simp: validate_plan_def Let_def copy_and_zero_fill_ranges_overlap_def)
  also have "\<dots> \<longleftrightarrow> (hsaco = None \<longrightarrow> n = 0) \<and> plan_valid (unat n) ?p (co_kernels co) \<and>
      unat size' = page_round (unat (plan_image_size ?p))"
    unfolding plan_valid_def validate_image_geometry_Ok validate_copies_Ok validate_zero_fills_Ok
    by (auto simp: geo overlap_loop_iff validate_protections_Ok kernel_consistent_iff)
  finally show ?thesis .
qed

text \<open>Validation reads nothing but the plan.\<close>

lemma relocations_loop_not_Fault: "relocations_loop plan rs previous has \<noteq> Fault"
  by (induction rs arbitrary: previous has) (auto simp: Let_def split: option.split)

lemma validate_plan_not_Fault: "validate_plan hsaco n co \<noteq> Fault"
  by (simp add: validate_plan_def validate_image_geometry_def validate_copies_def
      validate_zero_fills_def validate_protections_def relocations_loop_not_Fault Let_def)

end
