(* ===== verification/ImageContents.thy ===== *)
theory ImageContents
  imports ExecutableImage
begin

text \<open>
  What \<open>materialize_executable_image\<close> leaves in the destination. The copy, the zero-fill and the
  relocation loop are sequences of writes to disjoint ranges; an accepted plan makes every one of
  them fit, so the call never leaves a buffer, and the destination is described byte by byte by
  \<open>materialized\<close>.
\<close>

section \<open>Writing the image\<close>

definition splice :: "bytes \<Rightarrow> nat \<Rightarrow> bytes \<Rightarrow> bytes" where
  "splice buffer offset bs = take offset buffer @ bs @ drop (offset + length bs) buffer"

lemma write_bytes_Ok:
  "offset + length bs \<le> length buffer \<Longrightarrow> write_bytes buffer offset bs = Ok (splice buffer offset bs)"
  by (simp add: write_bytes_def splice_def)

lemma length_splice [simp]: "offset + length bs \<le> length buffer \<Longrightarrow> length (splice buffer offset bs) = length buffer"
  by (simp add: splice_def)

lemma nth_splice:
  assumes "offset + length bs \<le> length buffer" and "i < length buffer"
  shows "splice buffer offset bs ! i =
    (if offset \<le> i \<and> i < offset + length bs then bs ! (i - offset) else buffer ! i)"
  using assms by (auto simp: splice_def nth_append min_def)

text \<open>A sequence of writes to pairwise disjoint ranges of a buffer.\<close>

type_synonym writes = "(nat \<times> bytes) list"

primrec write_all :: "writes \<Rightarrow> bytes \<Rightarrow> bytes" where
  "write_all [] buffer = buffer"
| "write_all (w # ws) buffer = write_all ws (splice buffer (fst w) (snd w))"

definition in_write :: "nat \<Rightarrow> nat \<times> bytes \<Rightarrow> bool" where
  "in_write i w \<longleftrightarrow> fst w \<le> i \<and> i < fst w + length (snd w)"

definition writes_ok :: "nat \<Rightarrow> writes \<Rightarrow> bool" where
  "writes_ok n ws \<longleftrightarrow> (\<forall>w \<in> set ws. fst w + length (snd w) \<le> n) \<and>
     sorted_wrt (\<lambda>w v. \<forall>i. \<not> (in_write i w \<and> in_write i v)) ws"

lemma write_all_outside:
  assumes "writes_ok (length buffer) ws" and "\<And>w. w \<in> set ws \<Longrightarrow> \<not> in_write i w"
    and "i < length buffer"
  shows "write_all ws buffer ! i = buffer ! i"
  using assms
  by (induction ws arbitrary: buffer) (auto simp: writes_ok_def nth_splice in_write_def)

lemma length_write_all: "writes_ok (length buffer) ws \<Longrightarrow> length (write_all ws buffer) = length buffer"
  by (induction ws arbitrary: buffer) (auto simp: writes_ok_def)

lemma write_all_inside:
  assumes "writes_ok (length buffer) ws" and "w \<in> set ws" and "in_write i w"
  shows "write_all ws buffer ! i = snd w ! (i - fst w)"
  using assms
proof (induction ws arbitrary: buffer)
  case (Cons v ws)
  have ok: "writes_ok (length (splice buffer (fst v) (snd v))) ws"
    using Cons.prems(1) by (simp add: writes_ok_def)
  show ?case
  proof (cases "w \<in> set ws")
    case True
    with Cons.IH [OF ok True] Cons.prems(3) show ?thesis by simp
  next
    case False
    with Cons.prems(2) have w: "w = v" by simp
    have "write_all ws (splice buffer (fst v) (snd v)) ! i = splice buffer (fst v) (snd v) ! i"
      using Cons.prems w by (intro write_all_outside [OF ok]) (auto simp: writes_ok_def in_write_def)
    with Cons.prems w show ?thesis
      by (auto simp: nth_splice writes_ok_def in_write_def)
  qed
qed simp

lemma writes_ok_Cons:
  "writes_ok n (w # ws) \<longleftrightarrow> fst w + length (snd w) \<le> n \<and>
     (\<forall>v \<in> set ws. \<forall>i. \<not> (in_write i w \<and> in_write i v)) \<and> writes_ok n ws"
  by (auto simp: writes_ok_def)

text \<open>The three loops are such sequences.\<close>

definition place :: "LoadPlan \<Rightarrow> u64 \<Rightarrow> nat" where
  "place plan a = unat (a - plan_image_virtual_address plan)"

definition copy_write :: "LoadPlan \<Rightarrow> bytes \<Rightarrow> LoadCopy \<Rightarrow> nat \<times> bytes" where
  "copy_write plan hsaco c =
     (place plan (lc_virtual_address c), take (unat (lc_size c)) (drop (unat (lc_file_offset c)) hsaco))"

definition zero_write :: "LoadPlan \<Rightarrow> LoadZeroFill \<Rightarrow> nat \<times> bytes" where
  "zero_write plan z = (place plan (lz_virtual_address z), replicate (unat (lz_size z)) 0)"

definition reloc_addend :: "LoadPlan \<Rightarrow> bytes \<Rightarrow> Relocation \<Rightarrow> u64" where
  "reloc_addend plan img r =
     (if rl_encoding r = Rel then u64_at img (place plan (rl_target_virtual_address r))
      else of_int (rl_addend r))"

definition reloc_write :: "LoadPlan \<Rightarrow> u64 \<Rightarrow> bytes \<Rightarrow> Relocation \<Rightarrow> nat \<times> bytes" where
  "reloc_write plan bias img r =
     (place plan (rl_target_virtual_address r),
      le_bytes 8 (relocated_value bias r (reloc_addend plan img r)))"

lemma reloc_write_simps [simp]:
  "fst (reloc_write plan bias img r) = place plan (rl_target_virtual_address r)"
  "length (snd (reloc_write plan bias img r)) = 8"
  by (simp_all add: reloc_write_def)

lemma copy_loop_eq:
  assumes "writes_ok (length img) (map (copy_write plan hsaco) cs)"
    and "\<forall>c \<in> set cs. unat (lc_file_offset c) + unat (lc_size c) \<le> length hsaco"
  shows "copy_loop plan hsaco cs img = Ok (write_all (map (copy_write plan hsaco) cs) img)"
  using assms
  by (induction cs arbitrary: img)
    (auto simp: writes_ok_Cons copy_write_def place_def write_bytes_Ok)

lemma zero_fill_loop_eq:
  assumes "writes_ok (length img) (map (zero_write plan) zs)"
  shows "zero_fill_loop plan zs img = Ok (write_all (map (zero_write plan) zs) img)"
  using assms
  by (induction zs arbitrary: img)
    (auto simp: writes_ok_Cons zero_write_def place_def write_bytes_Ok)

lemma u64_at_cong:
  assumes "\<And>i. p \<le> i \<Longrightarrow> i < p + 8 \<Longrightarrow> xs ! i = ys ! i" and "p + 8 \<le> length xs" and "p + 8 \<le> length ys"
  shows "u64_at xs p = u64_at ys p"
proof -
  have "take 8 (drop p xs) = take 8 (drop p ys)"
    using assms by (intro nth_equalityI) auto
  then show ?thesis by (simp add: u64_at_def)
qed

lemma relocate_loop_eq:
  assumes "writes_ok (length img) (map (reloc_write plan bias img) (applied rs))"
  shows "relocate_loop plan bias rs img =
    Ok (write_all (map (reloc_write plan bias img) (applied rs)) img)"
  using assms
proof (induction rs arbitrary: img)
  case (Cons r rs)
  show ?case
  proof (cases "rl_type r = 0")
    case True
    with Cons show ?thesis by simp
  next
    case False
    let ?p = "place plan (rl_target_virtual_address r)"
    let ?w = "reloc_write plan bias img"
    have fits: "?p + 8 \<le> length img"
      and rest: "writes_ok (length img) (map ?w (applied rs))"
      and apart: "\<And>s i. s \<in> set (applied rs) \<Longrightarrow> \<not> (in_write i (?w r) \<and> in_write i (?w s))"
      using Cons.prems False by (auto simp: writes_ok_Cons)
    define img' where "img' = splice img ?p (snd (?w r))"
    have len: "length img' = length img" using fits by (simp add: img'_def)
    have same: "reloc_write plan bias img' s = ?w s" if "s \<in> set (applied rs)" for s
    proof -
      have inside: "place plan (rl_target_virtual_address s) + 8 \<le> length img"
        using rest that by (auto simp: writes_ok_def)
      have "u64_at img' (place plan (rl_target_virtual_address s)) = u64_at img (place plan (rl_target_virtual_address s))"
        using apart [OF that] inside fits len
        by (intro u64_at_cong) (auto simp: img'_def nth_splice in_write_def)
      then show ?thesis by (simp add: reloc_write_def reloc_addend_def)
    qed
    then have "map (reloc_write plan bias img') (applied rs) = map ?w (applied rs)" by simp
    with Cons.IH [of img'] rest len
    have IH: "relocate_loop plan bias rs img' = Ok (write_all (map ?w (applied rs)) img')" by simp
    have "relocate_loop plan bias (r # rs) img = relocate_loop plan bias rs img'"
      using False fits
      by (simp add: Let_def img'_def reloc_write_def reloc_addend_def place_def write_bytes_Ok)
    with IH False show ?thesis by (simp add: img'_def)
  qed
qed simp

text \<open>
  What the plan says the loaded image holds before relocation: the file's bytes where a copy
  covers the offset, zero elsewhere.
\<close>

definition copy_at :: "LoadPlan \<Rightarrow> nat \<Rightarrow> LoadCopy option" where
  "copy_at plan i = find (\<lambda>c. place plan (lc_virtual_address c) \<le> i \<and>
     i < place plan (lc_virtual_address c) + unat (lc_size c)) (plan_copies plan)"

definition loaded_byte :: "LoadPlan \<Rightarrow> bytes \<Rightarrow> nat \<Rightarrow> u8" where
  "loaded_byte plan hsaco i = (case copy_at plan i of
     None \<Rightarrow> 0
   | Some c \<Rightarrow> hsaco ! (unat (lc_file_offset c) + (i - place plan (lc_virtual_address c))))"

definition loaded_image :: "LoadPlan \<Rightarrow> bytes \<Rightarrow> nat \<Rightarrow> bytes" where
  "loaded_image plan hsaco n = map (loaded_byte plan hsaco) [0 ..< n]"

lemma place_eq:
  "in_image plan a n \<Longrightarrow> place plan a = unat a - unat (plan_image_virtual_address plan)"
  by (simp add: place_def unat_image_offset)

lemma in_image_place:
  "in_image plan a n \<Longrightarrow> place plan a + unat n \<le> unat (plan_image_size plan)"
  by (auto simp: place_eq in_image_def)

text \<open>Operations laid out in the image give disjoint writes.\<close>

lemma laid_out_writes:
  assumes "laid_out address sz ops" and "\<forall>x \<in> set ops. in_image plan (address x) (sz x)"
    and "unat (plan_image_size plan) \<le> n"
    and "\<And>x. x \<in> set ops \<Longrightarrow> fst (w x) = place plan (address x) \<and> length (snd (w x)) = unat (sz x)"
  shows "writes_ok n (map w ops)"
proof -
  have apart: "\<forall>i. \<not> (in_write i (w x) \<and> in_write i (w y))"
    if "x \<in> set ops" "y \<in> set ops" "unat (address x) + unat (sz x) \<le> unat (address y)" for x y
    using that assms(2) assms(4) [of x] assms(4) [of y]
      place_eq [of plan "address x" "sz x"] place_eq [of plan "address y" "sz y"]
    by (auto simp: in_write_def in_image_def)
  have "sorted_wrt (\<lambda>x y. unat (address x) + unat (sz x) \<le> unat (address y)) ops"
    using assms(1) by (simp add: laid_out_def)
  from sorted_wrt_mono_rel [OF apart this]
  have sorted: "sorted_wrt (\<lambda>x y. \<forall>i. \<not> (in_write i (w x) \<and> in_write i (w y))) ops" by simp
  have "fst (w x) + length (snd (w x)) \<le> n" if "x \<in> set ops" for x
  proof -
    from assms(2) that have "in_image plan (address x) (sz x)" by blast
    from in_image_place [OF this] assms(3) assms(4) [OF that] show ?thesis by simp
  qed
  with sorted show ?thesis unfolding writes_ok_def sorted_wrt_map by simp
qed

lemma plan_valid_writes:
  assumes "plan_valid (length hsaco) plan ks" and "unat (plan_image_size plan) \<le> n"
  shows "writes_ok n (map (copy_write plan hsaco) (plan_copies plan))"
    and "writes_ok n (map (zero_write plan) (plan_zero_fills plan))"
    and "writes_ok n (map (reloc_write plan bias img) (applied (plan_relocations plan)))"
proof -
  show "writes_ok n (map (copy_write plan hsaco) (plan_copies plan))"
    using assms by (intro laid_out_writes [where address = lc_virtual_address and sz = lc_size])
      (auto simp: plan_valid_def copy_write_def min_def)
  show "writes_ok n (map (zero_write plan) (plan_zero_fills plan))"
    using assms by (intro laid_out_writes [where address = lz_virtual_address and sz = lz_size])
      (auto simp: plan_valid_def zero_write_def)
  have rs: "relocations_supported plan (plan_relocations plan)" and geo: "geometry_ok plan"
    using assms(1) by (simp_all add: plan_valid_def)
  have "unat (rl_target_virtual_address r) + 8 < 2 ^ 64" if "r \<in> set (applied (plan_relocations plan))" for r
  proof -
    have "in_image plan (rl_target_virtual_address r) 8"
      using rs that unfolding relocations_supported_def by blast
    with geo show ?thesis by (simp add: in_image_def geometry_ok_def)
  qed
  then have "laid_out rl_target_virtual_address (\<lambda>_. 8) (applied (plan_relocations plan))"
    using rs by (simp add: relocations_supported_def laid_out_def)
  then show "writes_ok n (map (reloc_write plan bias img) (applied (plan_relocations plan)))"
    using assms
    by (intro laid_out_writes [where address = rl_target_virtual_address and sz = "\<lambda>_. 8"])
      (use rs in \<open>auto simp: relocations_supported_def\<close>)
qed

lemma copy_at_Some:
  "copy_at plan i = Some c \<Longrightarrow> c \<in> set (plan_copies plan) \<and> place plan (lc_virtual_address c) \<le> i \<and>
     i < place plan (lc_virtual_address c) + unat (lc_size c)"
  by (auto simp: copy_at_def find_Some_iff)

lemma copy_at_None:
  "copy_at plan i = None \<longleftrightarrow> (\<forall>c \<in> set (plan_copies plan). \<not> (place plan (lc_virtual_address c) \<le> i \<and>
     i < place plan (lc_virtual_address c) + unat (lc_size c)))"
  unfolding copy_at_def find_None_iff by blast

text \<open>After the copies and the zero fills the allocation holds the loaded image.\<close>

lemma copied_image:
  assumes "plan_valid (length hsaco) plan ks" and "unat (plan_image_size plan) \<le> n" and "n \<le> length buffer"
  shows "write_all (map (copy_write plan hsaco) (plan_copies plan)) (splice buffer 0 (replicate n 0)) =
    loaded_image plan hsaco n @ drop n buffer"
proof -
  let ?b = "splice buffer 0 (replicate n 0)" and ?ws = "map (copy_write plan hsaco) (plan_copies plan)"
  have len: "length ?b = length buffer" using assms(3) by simp
  have ok: "writes_ok (length ?b) ?ws"
    using plan_valid_writes(1) [OF assms(1)] assms(2,3) len by simp
  have lenc: "length (snd (copy_write plan hsaco c)) = unat (lc_size c)" if "c \<in> set (plan_copies plan)" for c
    using assms(1) that by (auto simp: plan_valid_def copy_write_def min_def)
  show ?thesis
  proof (rule nth_equalityI)
    show "length (write_all ?ws ?b) = length (loaded_image plan hsaco n @ drop n buffer)"
      using length_write_all [OF ok] len assms(3) by (simp add: loaded_image_def)
  next
    fix i
    assume "i < length (write_all ?ws ?b)"
    then have i: "i < length buffer" using length_write_all [OF ok] len by simp
    show "write_all ?ws ?b ! i = (loaded_image plan hsaco n @ drop n buffer) ! i"
    proof (cases "copy_at plan i")
      case None
      then have "write_all ?ws ?b ! i = ?b ! i"
        using lenc i len
        by (intro write_all_outside [OF ok]) (auto simp: copy_at_None in_write_def copy_write_def)
      with None i assms(3) show ?thesis
        by (auto simp: nth_splice nth_append loaded_image_def loaded_byte_def)
    next
      case (Some c)
      note c = copy_at_Some [OF Some]
      have inw: "in_write i (copy_write plan hsaco c)"
        using c lenc [of c] by (auto simp: in_write_def copy_write_def)
      have ci: "in_image plan (lc_virtual_address c) (lc_size c)"
        and fits: "unat (lc_file_offset c) + unat (lc_size c) \<le> length hsaco"
        using assms(1) c by (simp_all add: plan_valid_def)
      have "i < n" using c in_image_place [OF ci] assms(2) by simp
      moreover have "write_all ?ws ?b ! i = snd (copy_write plan hsaco c) ! (i - fst (copy_write plan hsaco c))"
        using c by (intro write_all_inside [OF ok _ inw]) simp
      moreover have "i - place plan (lc_virtual_address c) < unat (lc_size c)" using c by linarith
      ultimately show ?thesis
        using fits by (simp add: nth_append loaded_image_def loaded_byte_def Some copy_write_def)
    qed
  qed
qed

lemma zeroed_image:
  assumes "plan_valid (length hsaco) plan ks" and "unat (plan_image_size plan) \<le> n" and "n \<le> length buffer"
  shows "write_all (map (zero_write plan) (plan_zero_fills plan)) (loaded_image plan hsaco n @ drop n buffer) =
    loaded_image plan hsaco n @ drop n buffer"
proof -
  let ?b = "loaded_image plan hsaco n @ drop n buffer" and ?ws = "map (zero_write plan) (plan_zero_fills plan)"
  have len: "length ?b = length buffer" using assms(3) by (simp add: loaded_image_def)
  have ok: "writes_ok (length ?b) ?ws"
    using plan_valid_writes(2) [OF assms(1)] assms(2,3) len by simp
  show ?thesis
  proof (rule nth_equalityI [OF length_write_all [OF ok]])
    fix i
    assume "i < length (write_all ?ws ?b)"
    then have i: "i < length ?b" using length_write_all [OF ok] by simp
    show "write_all ?ws ?b ! i = ?b ! i"
    proof (cases "\<exists>z \<in> set (plan_zero_fills plan). in_write i (zero_write plan z)")
      case False
      with i show ?thesis by (intro write_all_outside [OF ok]) auto
    next
      case True
      then obtain z where z: "z \<in> set (plan_zero_fills plan)" and inw: "in_write i (zero_write plan z)" by blast
      have zi: "in_image plan (lz_virtual_address z) (lz_size z)" using assms(1) z by (simp add: plan_valid_def)
      have "copy_at plan i = None"
        unfolding copy_at_None
      proof (intro ballI notI)
        fix c
        assume c: "c \<in> set (plan_copies plan)"
          and ci: "place plan (lc_virtual_address c) \<le> i \<and> i < place plan (lc_virtual_address c) + unat (lc_size c)"
        have "in_image plan (lc_virtual_address c) (lc_size c)" "\<not> meets c z"
          using assms(1) c z by (simp_all add: plan_valid_def)
        with ci zi inw place_eq [of plan "lc_virtual_address c" "lc_size c"] place_eq [OF zi] show False
          by (auto simp: meets_iff in_image_def in_write_def zero_write_def)
      qed
      moreover have "i < n"
        using in_image_place [OF zi] inw assms(2) by (auto simp: in_write_def zero_write_def)
      moreover have "write_all ?ws ?b ! i = 0"
        using write_all_inside [OF ok _ inw] z inw by (auto simp: zero_write_def in_write_def)
      ultimately show ?thesis by (simp add: nth_append loaded_image_def loaded_byte_def)
    qed
  qed
qed

lemma u64_at_write_all:
  assumes "writes_ok (length img) ws" and "(p, le_bytes 8 v) \<in> set ws"
  shows "u64_at (write_all ws img) p = v"
proof -
  have fits: "p + 8 \<le> length img" using assms by (auto simp: writes_ok_def)
  have "write_all ws img ! (p + i) = le_bytes 8 v ! i" if "i < 8" for i
    using write_all_inside [OF assms, of "p + i"] that by (simp add: in_write_def)
  then have "take 8 (drop p (write_all ws img)) = le_bytes 8 v"
    using fits length_write_all [OF assms(1)] by (intro nth_equalityI) simp_all
  then show ?thesis by (simp add: u64_at_def le_word_le_bytes)
qed

text \<open>
  The value a relocation stores, by the ABI: a relative relocation adds the load bias to the addend, an
  absolute one adds the address of the symbol, which moves with the image unless it is absolute; sums wrap at 64 bits.
\<close>

definition relocation_sum :: "u64 \<Rightarrow> Relocation \<Rightarrow> u64 \<Rightarrow> int" where
  "relocation_sum bias r addend =
     (if rl_type r = 13 then uint bias
      else if rl_symbol_is_absolute r then uint (rl_symbol_value r)
      else uint bias + uint (rl_symbol_value r)) + uint addend"

lemma uint_relocated_value: "uint (relocated_value bias r addend) = relocation_sum bias r addend mod 2 ^ 64"
  by (simp add: relocated_value_def relocation_sum_def uint_word_ariths mod_simps)

text \<open>
  What the destination holds after materialisation: beyond the allocation nothing changed, every
  applied relocation's target holds the relocated value, every other byte is the loaded image's.
\<close>

definition at_target :: "LoadPlan \<Rightarrow> nat \<Rightarrow> bool" where
  "at_target plan i \<longleftrightarrow> (\<exists>r \<in> set (applied (plan_relocations plan)).
     place plan (rl_target_virtual_address r) \<le> i \<and> i < place plan (rl_target_virtual_address r) + 8)"

definition materialized :: "LoadPlan \<Rightarrow> bytes \<Rightarrow> u64 \<Rightarrow> nat \<Rightarrow> bytes \<Rightarrow> bytes \<Rightarrow> bool" where
  "materialized plan hsaco bias n before after \<longleftrightarrow> length after = length before \<and>
     (\<forall>i. n \<le> i \<and> i < length before \<longrightarrow> after ! i = before ! i) \<and>
     (\<forall>i < n. \<not> at_target plan i \<longrightarrow> after ! i = loaded_byte plan hsaco i) \<and>
     (\<forall>r \<in> set (applied (plan_relocations plan)).
        uint (u64_at after (place plan (rl_target_virtual_address r))) =
          relocation_sum bias r (reloc_addend plan (loaded_image plan hsaco n) r) mod 2 ^ 64)"

lemma relocated_image:
  assumes "plan_valid (length hsaco) plan ks" and "unat (plan_image_size plan) \<le> n" and "n \<le> length buffer"
  shows "\<exists>out. relocate_loop plan bias (plan_relocations plan) (loaded_image plan hsaco n @ drop n buffer) = Ok out \<and>
    materialized plan hsaco bias n buffer out"
proof -
  let ?img = "loaded_image plan hsaco n @ drop n buffer" and ?rs = "applied (plan_relocations plan)"
  let ?ws = "map (reloc_write plan bias ?img) ?rs"
  let ?out = "write_all ?ws ?img"
  have len: "length ?img = length buffer" using assms(3) by (simp add: loaded_image_def)
  have ok: "writes_ok (length ?img) ?ws" and okn: "writes_ok n ?ws"
    using plan_valid_writes(3) [OF assms(1)] assms(2,3) len by simp_all
  have inside: "place plan (rl_target_virtual_address r) + 8 \<le> n" if "r \<in> set ?rs" for r
    using okn that by (auto simp: writes_ok_def)
  have other: "?out ! i = ?img ! i" if "i < length buffer" "\<not> at_target plan i" for i
    using that len by (intro write_all_outside [OF ok]) (auto simp: at_target_def in_write_def)
  have "\<not> at_target plan i" if "n \<le> i" for i
    using inside that by (fastforce simp: at_target_def)
  moreover have "u64_at ?out (place plan (rl_target_virtual_address r)) =
      relocated_value bias r (reloc_addend plan (loaded_image plan hsaco n) r)" if r: "r \<in> set ?rs" for r
  proof -
    have "u64_at ?img (place plan (rl_target_virtual_address r)) =
        u64_at (loaded_image plan hsaco n) (place plan (rl_target_virtual_address r))"
      using inside [OF r] assms(3) by (intro u64_at_cong) (auto simp: nth_append loaded_image_def)
    then have "reloc_addend plan ?img r = reloc_addend plan (loaded_image plan hsaco n) r"
      by (simp add: reloc_addend_def)
    moreover have "u64_at ?out (place plan (rl_target_virtual_address r)) =
        relocated_value bias r (reloc_addend plan ?img r)"
      using r by (intro u64_at_write_all [OF ok]) (simp add: reloc_write_def image_iff, blast)
    ultimately show ?thesis by simp
  qed
  ultimately have "materialized plan hsaco bias n buffer ?out"
    using other length_write_all [OF ok] len assms(3)
    by (auto simp: materialized_def nth_append loaded_image_def uint_relocated_value)
  with relocate_loop_eq [OF ok] show ?thesis by blast
qed

text \<open>Address translation.\<close>

lemma translate_Ok:
  "translate_executable_address plan gpu a n al = Ok t \<longleftrightarrow> is_power_of_two al \<and> in_image plan a n \<and>
     unat t = unat gpu + (unat a - unat (plan_image_virtual_address plan)) \<and> unat al dvd unat t"
proof (cases "in_image plan a n")
  case True
  let ?off = "a - plan_image_virtual_address plan"
  have "checked_add gpu ?off = Some t \<longleftrightarrow> unat t = unat gpu + unat ?off"
  proof
    assume "checked_add gpu ?off = Some t"
    from checked_add_SomeD [OF this] show "unat t = unat gpu + unat ?off" by simp
  next
    assume t: "unat t = unat gpu + unat ?off"
    then have "unat gpu + unat ?off < 2 ^ 64" using unat_u64_less [of t] by simp
    with t show "checked_add gpu ?off = Some t"
      by (simp add: checked_add_Some word_unat_eq_iff unat_add64)
  qed
  with True show ?thesis
    using unat_image_offset [OF True]
    by (auto simp: translate_executable_address_def image_offset_Some [THEN iffD2, OF conjI, OF True refl]
        split: option.split)
next
  case False
  then show ?thesis by (simp add: translate_executable_address_def image_offset_None [THEN iffD2])
qed

lemma translate_not_Fault: "translate_executable_address plan gpu a n al \<noteq> Fault"
  by (simp add: translate_executable_address_def split: option.split)

definition kernel_resolved :: "LoadPlan \<Rightarrow> u64 \<Rightarrow> KernelInfo \<Rightarrow> ResolvedKernel \<Rightarrow> bool" where
  "kernel_resolved plan gpu k r \<longleftrightarrow>
     unat (rk_descriptor_gpu_address r) = unat gpu +
       (unat (ki_descriptor_virtual_address k) - unat (plan_image_virtual_address plan)) \<and>
     64 dvd unat (rk_descriptor_gpu_address r) \<and>
     unat (rk_code_entry_gpu_address r) = unat gpu +
       (unat (ki_code_entry_virtual_address k) - unat (plan_image_virtual_address plan))"

lemma resolve_kernels_valid:
  "valid (resolve_kernels plan gpu ks) (list_all2 (kernel_resolved plan gpu) ks)"
proof (induction ks)
  case (Cons k ks)
  have t: "valid (translate_executable_address plan gpu a n al) (\<lambda>t. unat al dvd unat t \<and>
      unat t = unat gpu + (unat a - unat (plan_image_virtual_address plan)))" for a n al
    by (rule valid_of_Ok [OF translate_not_Fault], unfold translate_Ok) blast
  have "kernel_resolved plan gpu k \<lparr>rk_descriptor_gpu_address = d, rk_code_entry_gpu_address = c\<rparr>"
    if "unat (64 :: u64) dvd unat d \<and>
        unat d = unat gpu + (unat (ki_descriptor_virtual_address k) - unat (plan_image_virtual_address plan))"
      "unat c = unat gpu + (unat (ki_code_entry_virtual_address k) - unat (plan_image_virtual_address plan))"
    for d c
    using that unfolding kernel_resolved_def by auto
  then show ?case
    unfolding resolve_kernels.simps
    by (intro valid_obindI [OF t] valid_obindI [OF Cons]) simp
qed simp

text \<open>The whole operation.\<close>

lemma image_written:
  assumes "plan_valid (length hsaco) plan ks" and "unat (plan_image_size plan) \<le> n" and "n \<le> length buffer"
  obtains image0 image1 out where "(write_bytes buffer 0 (replicate n 0) :: bytes imaged) = Ok image0"
    and "copy_loop plan hsaco (plan_copies plan) image0 = Ok image1"
    and "zero_fill_loop plan (plan_zero_fills plan) image1 = Ok image1"
    and "relocate_loop plan bias (plan_relocations plan) image1 = Ok out"
    and "materialized plan hsaco bias n buffer out"
proof -
  let ?b = "splice buffer 0 (replicate n 0)" and ?img = "loaded_image plan hsaco n @ drop n buffer"
  have "writes_ok (length ?b) (map (copy_write plan hsaco) (plan_copies plan))"
    using plan_valid_writes(1) [OF assms(1)] assms(2,3) by simp
  moreover have "\<forall>c \<in> set (plan_copies plan). unat (lc_file_offset c) + unat (lc_size c) \<le> length hsaco"
    using assms(1) by (simp add: plan_valid_def)
  ultimately have "copy_loop plan hsaco (plan_copies plan) ?b = Ok ?img"
    using copied_image [OF assms] by (simp add: copy_loop_eq)
  moreover have "writes_ok (length ?img) (map (zero_write plan) (plan_zero_fills plan))"
    using plan_valid_writes(2) [OF assms(1)] assms(2,3) by (simp add: loaded_image_def)
  then have "zero_fill_loop plan (plan_zero_fills plan) ?img = Ok ?img"
    using zeroed_image [OF assms] by (simp add: zero_fill_loop_eq)
  moreover have "(write_bytes buffer 0 (replicate n 0) :: bytes imaged) = Ok ?b"
    using assms(3) by (simp add: write_bytes_Ok)
  ultimately show thesis using relocated_image [OF assms] that by blast
qed

lemma check_placement_Ok:
  "check_placement plan n gpu = Ok bias \<Longrightarrow> bias = gpu - plan_image_virtual_address plan \<and>
     4096 dvd unat gpu \<and> unat gpu + unat n < 2 ^ 64 \<and> unat (plan_image_virtual_address plan) \<le> unat gpu"
  by (auto simp: check_placement_def Let_def checked_add_None not_le word_le_nat_alt not_less
      split: if_splits)

lemma check_placement_not_Fault: "check_placement plan n gpu \<noteq> Fault"
  by (simp add: check_placement_def Let_def)

definition image_described :: "CodeObject \<Rightarrow> u64 \<Rightarrow> ExecutableImageInfo \<Rightarrow> bool" where
  "image_described co gpu info \<longleftrightarrow> ii_valid info \<and> ii_code_object info = co \<and> ii_gpu_address info = gpu \<and>
     unat (ii_allocation_size info) = page_round (unat (plan_image_size (co_load_plan co))) \<and>
     list_all2 (kernel_resolved (co_load_plan co) gpu) (co_kernels co) (ii_kernels info)"

lemma materialize_valid:
  assumes "buffer_ok hsaco n" and "buffer_ok destination m"
  shows "valid (materialize_executable_image hsaco n co destination m gpu) (\<lambda>(after, info).
    plan_valid (length (buffer_bytes hsaco)) (co_load_plan co) (co_kernels co) \<and>
    image_described co gpu info \<and>
    materialized (co_load_plan co) (buffer_bytes hsaco) (gpu - plan_image_virtual_address (co_load_plan co))
      (unat (ii_allocation_size info)) (buffer_bytes destination) after)"
proof -
  let ?p = "co_load_plan co" and ?h = "buffer_bytes hsaco"
  have req: "valid (executable_image_requirements hsaco n co) (\<lambda>a. plan_valid (length ?h) ?p (co_kernels co) \<and>
      unat a = page_round (unat (plan_image_size ?p)))"
  proof (rule valid_of_Ok)
    show "executable_image_requirements hsaco n co \<noteq> Fault"
      by (simp add: executable_image_requirements_def validate_plan_not_Fault)
  next
    fix a
    assume "executable_image_requirements hsaco n co = Ok a"
    then have "(hsaco = None \<longrightarrow> n = 0) \<and> plan_valid (unat n) ?p (co_kernels co) \<and>
        unat a = page_round (unat (plan_image_size ?p))"
      unfolding executable_image_requirements_def validate_plan_Ok .
    moreover have "hsaco = None \<longrightarrow> n = 0 \<Longrightarrow> unat n = length ?h"
      using assms(1) by (cases hsaco) (auto simp: buffer_ok_def buffer_bytes_def)
    ultimately show "plan_valid (length ?h) ?p (co_kernels co) \<and> unat a = page_round (unat (plan_image_size ?p))"
      by auto
  qed
  have place: "valid (check_placement ?p a gpu) (\<lambda>bias. bias = gpu - plan_image_virtual_address ?p)" for a
    using check_placement_Ok [of ?p a gpu] by (intro valid_of_Ok [OF check_placement_not_Fault]) blast
  show ?thesis
  proof (cases destination)
    case None
    then show ?thesis
      unfolding materialize_executable_image_def Let_def
      by (intro valid_obindI [OF req]) simp
  next
    case (Some buffer)
    have size: "unat m = length buffer" using assms(2) Some by (simp add: buffer_ok_def)
    show ?thesis
      unfolding materialize_executable_image_def Let_def Some option.case
    proof (rule valid_obindI [OF req], intro valid_IfI valid_obindI [OF place]
        valid_obindI [OF resolve_kernels_valid], simp, elim conjE)
      fix a bias ks
      assume a: "\<not> m < a" and ok: "plan_valid (length ?h) ?p (co_kernels co)"
        and round: "unat a = page_round (unat (plan_image_size ?p))"
        and bias: "bias = gpu - plan_image_virtual_address ?p"
        and ks: "list_all2 (kernel_resolved ?p gpu) (co_kernels co) ks"
      have fits: "unat (plan_image_size ?p) \<le> unat a" "unat a \<le> length buffer"
        using page_round_bounds(1) [of "unat (plan_image_size ?p)"] round a size
        by (simp_all add: word_less_nat_alt)
      obtain image0 image1 out where "(write_bytes buffer 0 (replicate (unat a) 0) :: bytes imaged) = Ok image0"
        "copy_loop ?p ?h (plan_copies ?p) image0 = Ok image1"
        "zero_fill_loop ?p (plan_zero_fills ?p) image1 = Ok image1"
        "relocate_loop ?p bias (plan_relocations ?p) image1 = Ok out"
        "materialized ?p ?h bias (unat a) buffer out"
        by (rule image_written [OF ok fits])
      then show "valid (obind (write_bytes buffer 0 (replicate (unat a) 0)) (\<lambda>image0.
          obind (copy_loop ?p ?h (plan_copies ?p) image0) (\<lambda>image1.
          obind (zero_fill_loop ?p (plan_zero_fills ?p) image1) (\<lambda>image2.
          obind (relocate_loop ?p bias (plan_relocations ?p) image2) (\<lambda>image3.
            Ok (image3, \<lparr>ii_code_object = co, ii_allocation_size = a, ii_gpu_address = gpu,
              ii_kernels = ks, ii_valid = True\<rparr>)))))) (\<lambda>(after, info).
        plan_valid (length ?h) ?p (co_kernels co) \<and> image_described co gpu info \<and>
        materialized ?p ?h (gpu - plan_image_virtual_address ?p) (unat (ii_allocation_size info))
          (buffer_bytes (Some buffer)) after)"
        using ok round ks bias by (simp add: image_described_def buffer_bytes_def)
    qed
  qed
qed

section \<open>When materialisation succeeds\<close>

text \<open>A power of two not above the page size divides a page-aligned address.\<close>

lemma power_of_two_dvd_page:
  assumes "is_power_of_two (a :: u64)" and "unat a \<le> 4096" and "4096 dvd unat g"
  shows "unat a dvd unat g"
proof -
  obtain k where k: "unat a = 2 ^ k" by (rule is_power_of_two_unat [OF assms(1)])
  with assms(2) have "2 ^ k \<le> (2 ^ 12 :: nat)" by simp
  then have "k \<le> 12" by (rule power_le_imp_le_exp [rotated]) simp
  then have "2 ^ k dvd (2 ^ 12 :: nat)" by (rule le_imp_power_dvd)
  with k assms(3) show ?thesis by (auto intro: dvd_trans)
qed

definition placement_ok :: "LoadPlan \<Rightarrow> nat \<Rightarrow> u64 \<Rightarrow> bool" where
  "placement_ok plan n gpu \<longleftrightarrow> 4096 dvd unat gpu \<and> unat gpu + n < 2 ^ 64 \<and>
     unat (plan_image_virtual_address plan) \<le> unat gpu \<and>
     (\<forall>r \<in> set (plan_relocations plan). rl_type r = 3 \<and> \<not> rl_symbol_is_absolute r \<longrightarrow>
        unat gpu - unat (plan_image_virtual_address plan) + unat (rl_symbol_value r) < 2 ^ 64)"

lemma check_placement_iff:
  assumes "geometry_ok plan"
  shows "(\<exists>bias. check_placement plan n gpu = Ok bias) \<longleftrightarrow> placement_ok plan (unat n) gpu"
proof -
  let ?v = "plan_image_virtual_address plan" and ?a = "plan_alignment plan"
  have "gpu mod ?a = ?v mod ?a" if "4096 dvd unat gpu"
  proof -
    have "unat ?a dvd unat gpu" "unat ?a dvd unat ?v"
      using power_of_two_dvd_page [OF _ _ that] assms by (simp_all add: geometry_ok_def)
    then have "gpu mod ?a = 0" "?v mod ?a = 0" by simp_all
    then show ?thesis by (simp only:)
  qed
  moreover have "unat (gpu - ?v) = unat gpu - unat ?v" if "unat ?v \<le> unat gpu"
    using that by (simp add: unat_sub word_le_nat_alt)
  ultimately show ?thesis
    by (auto simp: check_placement_def placement_ok_def Let_def checked_add_None not_le
        word_less_nat_alt not_less)
qed

lemma resolve_kernels_Ok:
  assumes "unat gpu + page_round (unat (plan_image_size plan)) < 2 ^ 64" and "4096 dvd unat gpu"
    and "\<forall>k \<in> set ks. kernel_placed plan k"
    and "\<forall>c \<in> set (plan_copies plan). in_image plan (lc_virtual_address c) (lc_size c)"
  shows "\<exists>rs. resolve_kernels plan gpu ks = Ok rs"
  using assms(3)
proof (induction ks)
  case (Cons k ks)
  have translate: "\<exists>t. translate_executable_address plan gpu a n al = Ok t"
    if "in_image plan a n" "is_power_of_two al"
      "unat al dvd unat gpu + (unat a - unat (plan_image_virtual_address plan))" for a n al
  proof -
    let ?t = "unat gpu + (unat a - unat (plan_image_virtual_address plan))"
    have "?t < 2 ^ 64"
      using assms(1) that(1) page_round_bounds(1) [of "unat (plan_image_size plan)"]
      unfolding in_image_def by linarith
    then have "unat (word_of_nat ?t :: u64) = ?t" by (rule unat_of_nat64)
    with that show ?thesis unfolding translate_Ok by (intro exI [of _ "word_of_nat ?t"]) (simp only: simp_thms)
  qed
  have k: "kernel_placed plan k" using Cons.prems by simp
  have "64 dvd unat gpu" using assms(2) by (rule dvd_trans [rotated]) simp
  then have "\<exists>t. translate_executable_address plan gpu (ki_descriptor_virtual_address k) 64 64 = Ok t"
    using k by (intro translate) (auto simp: kernel_placed_def is_power_of_two_def)
  moreover have "in_image plan (ki_code_entry_virtual_address k) 1"
    using k assms(4) by (fastforce simp: kernel_placed_def covered_def in_image_def)
  then have "\<exists>t. translate_executable_address plan gpu (ki_code_entry_virtual_address k) 1 1 = Ok t"
    by (intro translate) (simp_all add: is_power_of_two_def)
  moreover obtain rs where "resolve_kernels plan gpu ks = Ok rs" using Cons by auto
  ultimately show ?case by auto
qed simp

text \<open>An exact condition for success.\<close>

lemma materialize_Ok_iff:
  assumes "buffer_ok hsaco n" and "buffer_ok destination m"
  shows "(\<exists>after info. materialize_executable_image hsaco n co destination m gpu = Ok (after, info)) \<longleftrightarrow>
    (hsaco = None \<longrightarrow> n = 0) \<and> plan_valid (unat n) (co_load_plan co) (co_kernels co) \<and>
    destination \<noteq> None \<and> page_round (unat (plan_image_size (co_load_plan co))) \<le> unat m \<and>
    placement_ok (co_load_plan co) (page_round (unat (plan_image_size (co_load_plan co)))) gpu"
    (is "?ok \<longleftrightarrow> ?rhs")
proof
  let ?p = "co_load_plan co"
  assume ?ok
  then obtain a buffer bias where req: "validate_plan hsaco n co = Ok a" and d: "destination = Some buffer"
    and fits: "\<not> m < a" and place: "check_placement ?p a gpu = Ok bias"
    by (auto simp: materialize_executable_image_def executable_image_requirements_def Let_def
        split: option.splits if_splits)
  from req have v: "(hsaco = None \<longrightarrow> n = 0) \<and> plan_valid (unat n) ?p (co_kernels co) \<and>
      unat a = page_round (unat (plan_image_size ?p))"
    unfolding validate_plan_Ok .
  then have "geometry_ok ?p" by (simp add: plan_valid_def)
  with place v have "placement_ok ?p (page_round (unat (plan_image_size ?p))) gpu"
    using check_placement_iff [of ?p a gpu] by auto
  with v d fits show ?rhs by (auto simp: word_less_nat_alt not_less)
next
  let ?p = "co_load_plan co" and ?s = "page_round (unat (plan_image_size (co_load_plan co)))"
  assume rhs: ?rhs
  define a :: u64 where "a = word_of_nat ?s"
  have "?s < 2 ^ 64" using rhs unat_u64_less [of m] by simp
  then have a: "unat a = ?s" by (simp add: a_def unat_of_nat64)
  have req: "validate_plan hsaco n co = Ok a" unfolding validate_plan_Ok using rhs a by blast
  obtain buffer where d: "destination = Some buffer" using rhs by auto
  have pv: "plan_valid (unat n) ?p (co_kernels co)" and "geometry_ok ?p" using rhs by (simp_all add: plan_valid_def)
  then obtain bias where place: "check_placement ?p a gpu = Ok bias"
    using rhs check_placement_iff [of ?p a gpu] a by auto
  have "\<exists>rs. resolve_kernels ?p gpu (co_kernels co) = Ok rs"
    using rhs pv by (intro resolve_kernels_Ok) (auto simp: placement_ok_def plan_valid_def)
  then obtain rs where ks: "resolve_kernels ?p gpu (co_kernels co) = Ok rs" by blast
  have len: "length (buffer_bytes hsaco) = unat n" "length buffer = unat m"
    using assms rhs d by (auto simp: buffer_ok_def buffer_bytes_def split: option.splits)
  have fit: "unat (plan_image_size ?p) \<le> unat a" "unat a \<le> length buffer"
    using a rhs len page_round_bounds(1) by auto
  obtain image0 image1 out where "(write_bytes buffer 0 (replicate (unat a) 0) :: bytes imaged) = Ok image0"
    "copy_loop ?p (buffer_bytes hsaco) (plan_copies ?p) image0 = Ok image1"
    "zero_fill_loop ?p (plan_zero_fills ?p) image1 = Ok image1"
    "relocate_loop ?p bias (plan_relocations ?p) image1 = Ok out"
    using image_written [OF _ fit, of "buffer_bytes hsaco" "co_kernels co" bias] pv len by metis
  moreover have "\<not> m < a" using a rhs by (simp add: word_less_nat_alt)
  ultimately show ?ok
    using req d place ks
    by (simp add: materialize_executable_image_def executable_image_requirements_def Let_def)
qed

end
