(* ===== verification/LoadedCode.thy ===== *)
theory LoadedCode
  imports ImageContents
begin

text \<open>
  The loader and the image builder together. A code object that \<open>parse_code_object\<close> accepts has a
  plan whose copies, zero fills and protections \<open>validate_plan\<close> never refuses: what is left to the
  builder is the placement (page alignment, the size of the address space) and the relocation
  types it supports. The image then holds every segment's file bytes at its virtual address,
  followed by zeros.
\<close>

section \<open>The plan of accepted segments\<close>

lemma wf_plan_fields:
  assumes "wf_plan segs plan"
  shows "plan_image_virtual_address plan = plan_image_virtual_address (plan_of segs)"
    and "plan_image_size plan = plan_image_size (plan_of segs)"
    and "plan_alignment plan = plan_alignment (plan_of segs)"
    and "plan_copies plan = plan_copies (plan_of segs)"
    and "plan_zero_fills plan = plan_zero_fills (plan_of segs)"
    and "plan_protections plan = plan_protections (plan_of segs)"
proof -
  have "plan = (plan_of segs)\<lparr>plan_relocations := plan_relocations plan\<rparr>"
    using assms by (simp add: wf_plan_def)
  then obtain rs where plan: "plan = (plan_of segs)\<lparr>plan_relocations := rs\<rparr>" by blast
  show "plan_image_virtual_address plan = plan_image_virtual_address (plan_of segs)"
    and "plan_image_size plan = plan_image_size (plan_of segs)"
    and "plan_alignment plan = plan_alignment (plan_of segs)"
    and "plan_copies plan = plan_copies (plan_of segs)"
    and "plan_zero_fills plan = plan_zero_fills (plan_of segs)"
    and "plan_protections plan = plan_protections (plan_of segs)"
    unfolding plan by simp_all
qed

lemma plan_members:
  "set (plan_copies (plan_of segs)) = seg_copy ` {s \<in> set segs. ls_file_size s \<noteq> 0}"
  "set (plan_zero_fills (plan_of segs)) = seg_zero_fill ` {s \<in> set segs. ls_file_size s < ls_memory_size s}"
  "set (plan_protections (plan_of segs)) = seg_protection ` {s \<in> set segs. ls_memory_size s \<noteq> 0}"
  by (simp_all add: plan_of_def)

lemma wf_segment_sizes:
  assumes "wf_segment n s"
  shows "unat (ls_file_size s) \<le> unat (ls_memory_size s)"
    and "unat (ls_file_offset s) + unat (ls_file_size s) \<le> n"
    and "unat (ls_virtual_address s) + unat (ls_memory_size s) < 2 ^ 64"
    and "ls_flags s AND NOT 7 = 0"
  using assms by (simp_all add: wf_segment_def)

text \<open>The image alignment is the largest segment alignment, a power of two.\<close>

lemma plan_of_alignment:
  assumes "\<forall>s \<in> set segs. wf_segment n s"
  shows "is_power_of_two (plan_alignment (plan_of segs))"
proof -
  have "is_power_of_two (max m (ls_alignment s))"
    if "is_power_of_two m" "wf_segment n s" for m s
  proof (cases "ls_alignment s > 1")
    case False
    moreover have "m \<ge> 1" using that(1) by (auto simp: is_power_of_two_def word_le_nat_alt unat_gt_0 Suc_le_eq)
    ultimately have "max m (ls_alignment s) = m" by (auto simp: max_def)
    with that(1) show ?thesis by simp
  qed (use that in \<open>auto simp: wf_segment_def max_def\<close>)
  then have "is_power_of_two (fold (\<lambda>s m. max m (ls_alignment s)) xs m)"
    if "is_power_of_two m" "\<forall>s \<in> set xs. wf_segment n s" for xs m
    using that by (induction xs arbitrary: m) auto
  with assms show ?thesis by (simp add: plan_of_def is_power_of_two_def)
qed

lemma live_in_image:
  assumes "wf_plan segs plan" and "wf_segments n segs" and "s \<in> set segs"
    and "unat (ls_virtual_address s) \<le> unat a"
    and "unat a + unat k \<le> unat (ls_virtual_address s) + unat (ls_memory_size s)" and "0 < unat k"
  shows "in_image plan a k"
proof -
  have wf: "\<forall>s \<in> set segs. wf_segment n s" using assms(2) by (simp add: wf_segments_def)
  have "ls_memory_size s \<noteq> 0" using assms(4-6) by (auto simp: unat_eq_0)
  then have "s \<in> set (live segs)" using assms(3) by simp
  from plan_of_image [OF wf this] assms(4-6) show ?thesis
    by (simp add: in_image_def wf_plan_fields [OF assms(1)])
qed

text \<open>The operations of the plan come from segments.\<close>

lemma copy_in_plan:
  assumes "wf_plan segs plan" and "wf_segments n segs" and "c \<in> set (plan_copies plan)"
  obtains s where "s \<in> set segs" and "c = seg_copy s" and "wf_segment n s" and "0 < unat (ls_file_size s)"
  using assms by (auto simp: wf_plan_fields [OF assms(1)] plan_members wf_segments_def unat_gt_0)

lemma zero_fill_in_plan:
  assumes "wf_plan segs plan" and "wf_segments n segs" and "z \<in> set (plan_zero_fills plan)"
  obtains s where "s \<in> set segs" and "z = seg_zero_fill s" and "wf_segment n s"
    and "unat (ls_file_size s) < unat (ls_memory_size s)"
  using assms by (auto simp: wf_plan_fields [OF assms(1)] plan_members wf_segments_def word_less_nat_alt)

lemma protection_covers:
  assumes "wf_plan segs plan" and "s \<in> set segs"
    and "unat (ls_virtual_address s) \<le> unat a"
    and "unat a + unat k \<le> unat (ls_virtual_address s) + unat (ls_memory_size s)" and "0 < unat k"
    and "P (ls_flags s)"
  shows "covered lp_virtual_address lp_size (filter (\<lambda>p. P (lp_flags p)) (plan_protections plan)) a k"
proof -
  have "ls_memory_size s \<noteq> 0" using assms(3-5) by (auto simp: unat_eq_0)
  then have "seg_protection s \<in> set (plan_protections plan)"
    using assms(2) by (simp add: wf_plan_fields [OF assms(1)] plan_members)
  with assms(3,4,6) show ?thesis by (force simp: covered_def seg_protection_def)
qed

lemma copy_covers:
  assumes "wf_plan segs plan" and "s \<in> set segs"
    and "unat (ls_virtual_address s) \<le> unat a"
    and "unat a + unat k \<le> unat (ls_virtual_address s) + unat (ls_file_size s)" and "0 < unat k"
  shows "covered lc_virtual_address lc_size (plan_copies plan) a k"
proof -
  have "ls_file_size s \<noteq> 0" using assms(3-5) by (auto simp: unat_eq_0)
  then have "seg_copy s \<in> set (plan_copies plan)"
    using assms(2) by (simp add: wf_plan_fields [OF assms(1)] plan_members)
  with assms(3,4) show ?thesis by (force simp: covered_def seg_copy_def)
qed

lemma sorted_wrt_two:
  assumes "sorted_wrt R xs" and "x \<in> set xs" and "y \<in> set xs" and "x \<noteq> y"
  shows "R x y \<or> R y x"
  using assms by (induction xs) auto

lemma segments_apart:
  assumes "wf_segments n segs" and "s \<in> set segs" and "t \<in> set segs" and "s \<noteq> t"
  shows "seg_range ls_virtual_address ls_memory_size s \<inter> seg_range ls_virtual_address ls_memory_size t = {}"
proof -
  have "sorted_wrt (\<lambda>s t. seg_range ls_virtual_address ls_memory_size s \<inter>
      seg_range ls_virtual_address ls_memory_size t = {}) segs"
    using assms(1) by (simp add: wf_segments_def)
  from sorted_wrt_two [OF this assms(2-4)] show ?thesis by blast
qed

lemma plan_never_meets:
  assumes "wf_plan segs plan" and "wf_segments n segs"
    and "c \<in> set (plan_copies plan)" and "z \<in> set (plan_zero_fills plan)"
  shows "\<not> meets c z"
proof -
  obtain s where s: "s \<in> set segs" "c = seg_copy s" "wf_segment n s" "0 < unat (ls_file_size s)"
    by (rule copy_in_plan [OF assms(1-3)])
  obtain t where t: "t \<in> set segs" "z = seg_zero_fill t" "wf_segment n t"
    "unat (ls_file_size t) < unat (ls_memory_size t)"
    by (rule zero_fill_in_plan [OF assms(1,2,4)])
  have copy: "op_range lc_virtual_address lc_size c \<subseteq> seg_range ls_virtual_address ls_memory_size s"
    using wf_segment_sizes(1) [OF s(3)] by (auto simp: s(2) seg_copy_def seg_range_def)
  have zero: "op_range lz_virtual_address lz_size z \<subseteq> seg_range ls_virtual_address ls_memory_size t"
    using t(4) by (auto simp: t(2) segment_parts [OF t(3)] seg_range_def)
  show ?thesis
  proof (cases "s = t")
    case True
    then show ?thesis
      by (auto simp: meets_def s(2) t(2) segment_parts [OF t(3)] seg_copy_def)
  next
    case False
    from segments_apart [OF assms(2) s(1) t(1) False] copy zero show ?thesis
      unfolding meets_def by blast
  qed
qed

section \<open>Accepted code objects\<close>

lemma wf_kernel_placed:
  assumes "wf_plan segs plan" and "wf_segments n segs" and "resident_kernel data segs k"
  shows "kernel_placed plan k \<longleftrightarrow> 64 dvd unat (plan_image_virtual_address plan)"
proof -
  let ?d = "ki_descriptor_virtual_address k" and ?e = "ki_code_entry_virtual_address k"
  obtain s where "file_backed segs ?d 64 s"
    using assms(3) by (auto simp: resident_kernel_def)
  then have s: "s \<in> set segs" "unat (ls_virtual_address s) \<le> unat ?d"
    "unat ?d + unat (64 :: u64) \<le> unat (ls_virtual_address s) + unat (ls_file_size s)"
    by (simp_all add: file_backed_def)
  obtain t where t: "t \<in> set segs" "ls_flags t AND 1 \<noteq> 0" "unat (ls_virtual_address t) \<le> unat ?e"
    "unat ?e + unat (1 :: u64) \<le> unat (ls_virtual_address t) + unat (ls_file_size t)"
    using assms(3) by (auto simp: resident_kernel_def address_has_executable_bytes_iff)
  have wf: "wf_segment n s" "wf_segment n t" using assms(2) s(1) t(1) by (simp_all add: wf_segments_def)
  have inside: "in_image plan ?d 64"
    using s wf_segment_sizes(1) [OF wf(1)] by (intro live_in_image [OF assms(1,2) s(1)]) simp_all
  have flags: "ls_flags t AND 1 = 1" using t(2) unfolding and_one_eq mod_2_eq_odd by (auto simp del: word_mod_zero)
  have executable: "covered lp_virtual_address lp_size (filter (\<lambda>p. lp_flags p AND 1 = 1) (plan_protections plan)) ?e 1"
    using t(3,4) wf_segment_sizes(1) [OF wf(2)] flags
    by (intro protection_covers [OF assms(1) t(1)]) simp_all
  have range: "- (2 ^ 63) \<le> ki_code_entry_byte_offset k" "ki_code_entry_byte_offset k < 2 ^ 63"
    and entry: "uint ?d + ki_code_entry_byte_offset k = uint ?e"
    using assms(3) unfolding resident_kernel_def by simp_all
  have offset: "image_add_signed_offset ?d (ki_code_entry_byte_offset k) = Some ?e"
    unfolding image_add_signed_offset_eq [OF range] add_signed_offset_eq [OF range] entry
    using uint_bounded [of ?e] by simp
  have aligned: "64 dvd unat ?d" using assms(3) unfolding resident_kernel_def by blast
  then have "64 dvd unat ?d - unat (plan_image_virtual_address plan) \<longleftrightarrow>
      64 dvd unat (plan_image_virtual_address plan)"
    using inside by (auto simp: in_image_def dvd_diff_nat dest: dvd_diffD1)
  with inside aligned offset executable
    copy_covers [OF assms(1) s] copy_covers [OF assms(1) t(1,3,4)]
  show ?thesis by (simp add: kernel_placed_def)
qed

text \<open>What is left to decide once the loader has accepted a code object.\<close>

definition placeable :: "CodeObject \<Rightarrow> bool" where
  "placeable co \<longleftrightarrow> (let plan = co_load_plan co in
     plan_image_size plan \<noteq> 0 \<and> unat (plan_image_size plan) \<le> 2 ^ 64 - 4096 \<and>
     unat (plan_alignment plan) \<le> 4096 \<and>
     unat (plan_alignment plan) dvd unat (plan_image_virtual_address plan) \<and>
     relocations_supported plan (plan_relocations plan) \<and>
     (co_kernels co \<noteq> [] \<longrightarrow> 64 dvd unat (plan_image_virtual_address plan)))"

lemma wf_operations:
  assumes "wf_plan segs plan" and "wf_segments n segs"
  shows "\<forall>c \<in> set (plan_copies plan). unat (lc_file_offset c) + unat (lc_size c) \<le> n \<and>
      in_image plan (lc_virtual_address c) (lc_size c) \<and>
      covered lp_virtual_address lp_size (plan_protections plan) (lc_virtual_address c) (lc_size c)"
    and "\<forall>z \<in> set (plan_zero_fills plan). in_image plan (lz_virtual_address z) (lz_size z) \<and>
      covered lp_virtual_address lp_size (plan_protections plan) (lz_virtual_address z) (lz_size z)"
    and "\<forall>p \<in> set (plan_protections plan). lp_flags p AND NOT 7 = 0 \<and>
      in_image plan (lp_virtual_address p) (lp_size p)"
proof -
  note covers = protection_covers [OF assms(1), where P = "\<lambda>_. True", simplified]
  show "\<forall>c \<in> set (plan_copies plan). unat (lc_file_offset c) + unat (lc_size c) \<le> n \<and>
      in_image plan (lc_virtual_address c) (lc_size c) \<and>
      covered lp_virtual_address lp_size (plan_protections plan) (lc_virtual_address c) (lc_size c)"
  proof
    fix c
    assume "c \<in> set (plan_copies plan)"
    then obtain s where s: "s \<in> set segs" "c = seg_copy s" "wf_segment n s" "0 < unat (ls_file_size s)"
      by (rule copy_in_plan [OF assms])
    note sizes = wf_segment_sizes [OF s(3)]
    show "unat (lc_file_offset c) + unat (lc_size c) \<le> n \<and>
        in_image plan (lc_virtual_address c) (lc_size c) \<and>
        covered lp_virtual_address lp_size (plan_protections plan) (lc_virtual_address c) (lc_size c)"
      using sizes s(4) by (auto simp: s(2) seg_copy_def intro: live_in_image [OF assms s(1)] covers [OF s(1)])
  qed
  show "\<forall>z \<in> set (plan_zero_fills plan). in_image plan (lz_virtual_address z) (lz_size z) \<and>
      covered lp_virtual_address lp_size (plan_protections plan) (lz_virtual_address z) (lz_size z)"
  proof
    fix z
    assume "z \<in> set (plan_zero_fills plan)"
    then obtain s where s: "s \<in> set segs" "z = seg_zero_fill s" "wf_segment n s"
      "unat (ls_file_size s) < unat (ls_memory_size s)"
      by (rule zero_fill_in_plan [OF assms])
    show "in_image plan (lz_virtual_address z) (lz_size z) \<and>
        covered lp_virtual_address lp_size (plan_protections plan) (lz_virtual_address z) (lz_size z)"
      unfolding s(2)
      using s(4) by (auto simp: segment_parts [OF s(3)] intro!: live_in_image [OF assms s(1)] covers [OF s(1)])
  qed
  show "\<forall>p \<in> set (plan_protections plan). lp_flags p AND NOT 7 = 0 \<and>
      in_image plan (lp_virtual_address p) (lp_size p)"
  proof
    fix p
    assume "p \<in> set (plan_protections plan)"
    then obtain s where s: "s \<in> set segs" "p = seg_protection s" "ls_memory_size s \<noteq> 0"
      by (auto simp: wf_plan_fields [OF assms(1)] plan_members)
    then have "wf_segment n s" using assms(2) by (simp add: wf_segments_def)
    from wf_segment_sizes(4) [OF this] s(3) show "lp_flags p AND NOT 7 = 0 \<and>
        in_image plan (lp_virtual_address p) (lp_size p)"
      by (auto simp: s(2) seg_protection_def unat_gt_0 intro: live_in_image [OF assms s(1)])
  qed
qed

lemma plan_valid_iff_placeable:
  assumes "wf_code_object data co"
  shows "plan_valid (length data) (co_load_plan co) (co_kernels co) \<longleftrightarrow> placeable co"
proof -
  let ?p = "co_load_plan co" and ?segs = "co_load_segments co"
  have plan: "wf_plan ?segs ?p" and segs: "wf_segments (length data) ?segs"
    using assms unfolding wf_code_object_def segments_ok_def by blast+
  have wf: "\<forall>s \<in> set ?segs. wf_segment (length data) s" using segs by (simp add: wf_segments_def)
  have "metadata_ok data co" using assms by (simp add: wf_code_object_def)
  then have ks: "resident_kernel data ?segs k" if "k \<in> set (co_kernels co)" for k
    using that by (auto simp: metadata_ok_def wf_kernels_def split: if_splits)
  have kernels: "(\<forall>k \<in> set (co_kernels co). kernel_placed ?p k) \<longleftrightarrow>
      (co_kernels co \<noteq> [] \<longrightarrow> 64 dvd unat (plan_image_virtual_address ?p))"
    using wf_kernel_placed [OF plan segs ks] by (cases "co_kernels co") auto
  have size: "unat (plan_image_virtual_address ?p) + unat (plan_image_size ?p) < 2 ^ 64"
    if "plan_image_size ?p \<noteq> 0"
  proof -
    have "live ?segs \<noteq> []" using that by (auto simp: wf_plan_fields [OF plan] plan_of_def)
    then obtain s where "s \<in> set (live ?segs)" by (cases "live ?segs") auto
    from plan_of_image(3) [OF wf this] show ?thesis by (simp add: wf_plan_fields [OF plan])
  qed
  have geo: "geometry_ok ?p \<longleftrightarrow> plan_image_size ?p \<noteq> 0 \<and> unat (plan_image_size ?p) \<le> 2 ^ 64 - 4096 \<and>
      unat (plan_alignment ?p) \<le> 4096 \<and> unat (plan_alignment ?p) dvd unat (plan_image_virtual_address ?p)"
    using size plan_of_alignment [OF wf] by (auto simp: geometry_ok_def unat_gt_0 wf_plan_fields(3) [OF plan])
  show ?thesis
    unfolding plan_valid_def placeable_def Let_def kernels geo
    using plan_of_laid_out [OF segs] wf_operations [OF plan segs] plan_never_meets [OF plan segs]
    by (auto simp: wf_plan_fields(4-6) [OF plan])
qed

text \<open>The builder's error for an accepted code object is about its placement, never an operation.\<close>

lemma wf_checks_pass:
  assumes "wf_code_object data co" and "unat n = length data"
  shows "validate_copies (co_load_plan co) n = Ok ()" and "validate_zero_fills (co_load_plan co) = Ok ()"
    and "validate_protections (co_load_plan co) = Ok ()"
    and "\<not> copy_and_zero_fill_ranges_overlap (co_load_plan co)"
proof -
  let ?p = "co_load_plan co" and ?segs = "co_load_segments co"
  have plan: "wf_plan ?segs ?p" and segs: "wf_segments (length data) ?segs"
    using assms(1) unfolding wf_code_object_def segments_ok_def by blast+
  note laid = plan_of_laid_out [OF segs, folded wf_plan_fields [OF plan]]
  note ops = wf_operations [OF plan segs]
  show "validate_copies ?p n = Ok ()" using laid ops by (simp add: validate_copies_Ok assms(2))
  show "validate_zero_fills ?p = Ok ()" using laid ops by (simp add: validate_zero_fills_Ok)
  show "validate_protections ?p = Ok ()"
    unfolding validate_protections_Ok [OF laid(1,2)] using laid ops by blast
  show "\<not> copy_and_zero_fill_ranges_overlap ?p"
    using plan_never_meets [OF plan segs]
    by (simp add: copy_and_zero_fill_ranges_overlap_def overlap_loop_iff [OF laid(1,2)])
qed

definition placement_errors :: "ExecutableImageError set" where
  "placement_errors = {EmptyImage, ImageSizeOverflow, UnsupportedAlignment, UnsupportedRelocations,
     ImageInvalidKernelDescriptor}"

lemma relocations_loop_Err:
  "relocations_loop plan rs previous has = Err e \<Longrightarrow> e = UnsupportedRelocations"
  by (induction rs arbitrary: previous has) (auto simp: Let_def split: if_splits option.splits)

lemma validate_image_geometry_Err:
  "validate_image_geometry plan = Err e \<Longrightarrow> e \<in> {EmptyImage, ImageSizeOverflow, UnsupportedAlignment}"
  by (auto simp: validate_image_geometry_def Let_def split: if_splits)

lemma validate_plan_placement_errors:
  assumes "wf_code_object data co" and "unat n = length data" and "validate_plan (Some data) n co = Err e"
  shows "e \<in> placement_errors"
proof (cases "validate_image_geometry (co_load_plan co)")
  case (Ok a)
  with assms(3) wf_checks_pass [OF assms(1,2)] show ?thesis
    by (auto simp: validate_plan_def Let_def placement_errors_def split: if_splits
        elim!: obind_eq_ErrE dest: relocations_loop_Err)
next
  case (Err e')
  with assms(3) have "e = e'" by (simp add: validate_plan_def Let_def)
  with validate_image_geometry_Err [OF Err] show ?thesis by (auto simp: placement_errors_def)
qed (use assms(3) in \<open>simp add: validate_plan_def Let_def\<close>)

section \<open>The loaded segments\<close>

lemma loaded_byte_copy:
  assumes "laid_out lc_virtual_address lc_size (plan_copies plan)"
    and "\<forall>c \<in> set (plan_copies plan). in_image plan (lc_virtual_address c) (lc_size c)"
    and "c \<in> set (plan_copies plan)" and "j < unat (lc_size c)"
  shows "loaded_byte plan hsaco (place plan (lc_virtual_address c) + j) = hsaco ! (unat (lc_file_offset c) + j)"
proof (cases "copy_at plan (place plan (lc_virtual_address c) + j)")
  case None
  with assms(3,4) show ?thesis by (auto simp: copy_at_None)
next
  case (Some d)
  note d = copy_at_Some [OF Some]
  have "d = c"
  proof (rule ccontr)
    assume ne: "d \<noteq> c"
    have "sorted_wrt (\<lambda>x y. unat (lc_virtual_address x) + unat (lc_size x) \<le> unat (lc_virtual_address y))
        (plan_copies plan)"
      using assms(1) by (simp add: laid_out_def)
    from sorted_wrt_two [OF this _ assms(3) ne] d
    have "unat (lc_virtual_address d) + unat (lc_size d) \<le> unat (lc_virtual_address c) \<or>
        unat (lc_virtual_address c) + unat (lc_size c) \<le> unat (lc_virtual_address d)"
      by simp
    moreover have "in_image plan (lc_virtual_address c) (lc_size c)" "in_image plan (lc_virtual_address d) (lc_size d)"
      using assms(2,3) d by blast+
    ultimately show False
      using d assms(4) place_eq [of plan "lc_virtual_address c" "lc_size c"]
        place_eq [of plan "lc_virtual_address d" "lc_size d"]
      by (auto simp: in_image_def)
  qed
  with Some show ?thesis by (simp add: loaded_byte_def)
qed

lemma loaded_segment_byte:
  assumes "wf_plan segs plan" and "wf_segments n segs" and "s \<in> set segs" and "j < unat (ls_memory_size s)"
  shows "loaded_byte plan hsaco (unat (ls_virtual_address s) - unat (plan_image_virtual_address plan) + j) =
    (if j < unat (ls_file_size s) then hsaco ! (unat (ls_file_offset s) + j) else 0)"
proof -
  note laid = plan_of_laid_out [OF assms(2), folded wf_plan_fields [OF assms(1)]]
  note ops = wf_operations [OF assms(1,2)]
  have wf: "wf_segment n s" using assms(2,3) by (simp add: wf_segments_def)
  have img: "in_image plan (ls_virtual_address s) (ls_memory_size s)"
    using assms(4) by (intro live_in_image [OF assms(1-3)]) auto
  note place = place_eq [OF img]
  show ?thesis
  proof (cases "j < unat (ls_file_size s)")
    case True
    then have "ls_file_size s \<noteq> 0" by auto
    then have "seg_copy s \<in> set (plan_copies plan)"
      using assms(3) by (simp add: wf_plan_fields [OF assms(1)] plan_members)
    from loaded_byte_copy [OF laid(1) _ this] ops(1) True place show ?thesis
      by (simp add: seg_copy_def)
  next
    case False
    have "copy_at plan (place plan (ls_virtual_address s) + j) = None"
      unfolding copy_at_None
    proof (intro ballI notI, elim conjE)
      fix c
      assume c: "c \<in> set (plan_copies plan)"
        and lo: "place plan (lc_virtual_address c) \<le> place plan (ls_virtual_address s) + j"
        and hi: "place plan (ls_virtual_address s) + j < place plan (lc_virtual_address c) + unat (lc_size c)"
      obtain t where t: "t \<in> set segs" "c = seg_copy t" "wf_segment n t" "0 < unat (ls_file_size t)"
        by (rule copy_in_plan [OF assms(1,2) c])
      have ci: "in_image plan (lc_virtual_address c) (lc_size c)" using ops(1) c by blast
      have "unat (ls_virtual_address s) + j \<in> op_range lc_virtual_address lc_size c"
        using lo hi place place_eq [OF ci] ci img by (auto simp: in_image_def)
      then have both: "unat (ls_virtual_address s) + j \<in> seg_range ls_virtual_address ls_memory_size t"
        "unat (ls_virtual_address s) + j \<in> seg_range ls_virtual_address ls_memory_size s" "t \<noteq> s"
        using wf_segment_sizes(1) [OF t(3)] assms(4) False by (auto simp: t(2) seg_copy_def seg_range_def)
      with segments_apart [OF assms(2) t(1) assms(3)] show False by blast
    qed
    with False place show ?thesis by (simp add: loaded_byte_def)
  qed
qed

end
