(* ===== verification/ImageProperties.thy ===== *)
theory ImageProperties
  imports Samples LoadedCode
begin

text \<open>
  The properties of the image builder, each applied at the sample code object.
\<close>

section \<open>The sample plan\<close>

lemma sample_plan_valid: "plan_valid 120 sample_plan []"
  by (simp add: plan_valid_def sample_plan_def geometry_ok_def laid_out_def in_image_def
      relocations_supported_def meets_def covered_def is_power_of_two_def)

lemma sample_page_round: "page_round 200 = 4096"
  by (simp add: page_round_def)

lemma sample_placement_ok: "placement_ok sample_plan 4096 65536"
  by (simp add: placement_ok_def sample_plan_def)

lemma destination_ok: "buffer_ok (Some (replicate 4096 0)) 4096"
  by (simp add: buffer_ok_def)

section \<open>Validation\<close>

text \<open>
  C5. \<open>validate_plan\<close> decides the declarative meaning of a plan for any plan and kernels, not only the loader's: it
  returns the allocation size, the image size rounded up to pages, exactly when the image geometry,
  the order, bounds and disjointness of all operations, the supported relocations, the protection
  coverage and the kernels' placement are right.
\<close>

theorem validate_plan_exact:
  "validate_plan hsaco n co = Ok size' \<longleftrightarrow>
   (hsaco = None \<longrightarrow> n = 0) \<and> plan_valid (unat n) (co_load_plan co) (co_kernels co) \<and>
   unat size' = page_round (unat (plan_image_size (co_load_plan co)))"
  by (rule validate_plan_Ok)

theorem validate_plan_exact_witness:
  "validate_plan (Some sample_elf) 120 sample_code_object = Ok 4096"
  unfolding validate_plan_exact
  by (simp add: sample_code_object_def sample_plan_valid) (simp add: sample_plan_def sample_page_round)

text \<open>
  C19. The merge loop over the sorted copies and zero fills answers whether any copy shares an address
  with any zero fill.
\<close>

theorem overlap_merge_exact:
  assumes "laid_out lc_virtual_address lc_size (plan_copies plan)"
    and "laid_out lz_virtual_address lz_size (plan_zero_fills plan)"
  shows "copy_and_zero_fill_ranges_overlap plan \<longleftrightarrow>
    (\<exists>c \<in> set (plan_copies plan). \<exists>z \<in> set (plan_zero_fills plan). meets c z)"
  unfolding copy_and_zero_fill_ranges_overlap_def by (rule overlap_loop_iff [OF assms])

theorem overlap_merge_exact_witness:
  "copy_and_zero_fill_ranges_overlap
     (sample_plan\<lparr>plan_zero_fills := [\<lparr>lz_virtual_address = 4200, lz_size = 80\<rparr>]\<rparr>)"
  by (subst overlap_merge_exact) (auto simp: laid_out_def sample_plan_def meets_def)

text \<open>
  C20. The protection lookup by binary search finds a protection that covers the range with the required
  flags exactly when one of the plan's protections does.
\<close>

theorem protection_lookup_exact:
  assumes "laid_out lp_virtual_address lp_size (plan_protections plan)" and "0 < unat n"
  shows "range_has_protection plan a n flags \<longleftrightarrow> (\<exists>p \<in> set (plan_protections plan).
    lp_flags p AND flags = flags \<and> unat (lp_virtual_address p) \<le> unat a \<and>
    unat a + unat n \<le> unat (lp_virtual_address p) + unat (lp_size p))"
  by (rule range_has_protection_iff [OF assms])

theorem protection_lookup_exact_witness:
  "range_has_protection sample_plan 4100 16 1 \<and> \<not> range_has_protection sample_plan 4290 16 1"
  by (subst (1 2) protection_lookup_exact) (simp_all add: laid_out_def sample_plan_def)

section \<open>Materialisation\<close>

text \<open>
  C4. Materialisation never leaves the code object's or the destination's buffer. When it
  succeeds the plan was valid, the bytes beyond the allocation are unchanged, the target of every applied
  relocation holds the relocated value, every other byte of the allocation is the file's byte or zero
  as the plan says, and every kernel's descriptor and entry addresses are the load address plus their
  offset in the image, the descriptor's aligned to 64 bytes.
\<close>

theorem materialize_correct:
  assumes "buffer_ok hsaco n" and "buffer_ok destination m"
  shows "valid (materialize_executable_image hsaco n co destination m gpu) (\<lambda>(after, info).
    plan_valid (length (buffer_bytes hsaco)) (co_load_plan co) (co_kernels co) \<and>
    image_described co gpu info \<and>
    materialized (co_load_plan co) (buffer_bytes hsaco) (gpu - plan_image_virtual_address (co_load_plan co))
      (unat (ii_allocation_size info)) (buffer_bytes destination) after)"
  by (rule materialize_valid [OF assms])

theorem materialize_correct_witness:
  "valid (materialize_executable_image (Some sample_elf) 120 sample_code_object
      (Some (replicate 4096 0)) 4096 65536) (\<lambda>(after, info).
    plan_valid 120 sample_plan [] \<and> image_described sample_code_object 65536 info \<and>
    materialized sample_plan sample_elf 61440 (unat (ii_allocation_size info)) (replicate 4096 0) after)"
proof -
  have "65536 - plan_image_virtual_address sample_plan = 61440" by (simp add: sample_plan_def)
  then show ?thesis
    using materialize_correct [OF sample_buffer_ok destination_ok, of sample_code_object 65536]
    by (simp add: buffer_bytes_def length_sample_elf sample_code_object_def)
qed

text \<open>
  C6. Materialisation succeeds exactly when the plan is valid, a destination of at least the allocation
  size is given, and the load address is page aligned, not below the image's own address, leaves room for the allocation and
  for every relocated symbol value below \<open>2\<^sup>6\<^sup>4\<close>. No other condition makes it fail.
\<close>

theorem materialize_success_exact:
  assumes "buffer_ok hsaco n" and "buffer_ok destination m"
  shows "(\<exists>after info. materialize_executable_image hsaco n co destination m gpu = Ok (after, info)) \<longleftrightarrow>
    (hsaco = None \<longrightarrow> n = 0) \<and> plan_valid (unat n) (co_load_plan co) (co_kernels co) \<and>
    destination \<noteq> None \<and> page_round (unat (plan_image_size (co_load_plan co))) \<le> unat m \<and>
    placement_ok (co_load_plan co) (page_round (unat (plan_image_size (co_load_plan co)))) gpu"
  by (rule materialize_Ok_iff [OF assms])

theorem materialize_success_exact_witness:
  "\<exists>after info. materialize_executable_image (Some sample_elf) 120 sample_code_object
     (Some (replicate 4096 0)) 4096 65536 = Ok (after, info)"
proof -
  have "plan_image_size sample_plan = 200" by (simp add: sample_plan_def)
  then show ?thesis
    unfolding materialize_success_exact [OF sample_buffer_ok destination_ok]
    by (simp add: sample_code_object_def sample_plan_valid sample_page_round sample_placement_ok)
qed

text \<open>
  C21. Address translation is exact: it returns the load address plus the offset in the image, exactly when
  the range is non-empty and inside the image, the sum is a 64-bit address and the requested alignment is a power of two that divides it.
\<close>

theorem translate_exact:
  "translate_executable_address plan gpu a n al = Ok t \<longleftrightarrow> is_power_of_two al \<and> in_image plan a n \<and>
     unat t = unat gpu + (unat a - unat (plan_image_virtual_address plan)) \<and> unat al dvd unat t"
  by (rule translate_Ok)

text \<open>
  C24. The two implementations of the code-entry address, the loader's and the image builder's, agree on
  every \<open>int64_t\<close> offset.
\<close>

theorem code_entry_implementations_agree:
  assumes "- (2 ^ 63) \<le> i" and "i < 2 ^ 63"
  shows "image_add_signed_offset b i = add_signed_offset b i"
  by (rule image_add_signed_offset_eq [OF assms])

theorem code_entry_implementations_agree_witness:
  "image_add_signed_offset 4096 (- 9223372036854775808) = add_signed_offset 4096 (- 9223372036854775808)"
  by (rule code_entry_implementations_agree) simp_all


end
