(* ===== verification/Kernarg.thy ===== *)
theory Kernarg
  imports ImageContents
begin

text \<open>
  The kernarg segment of a dispatch: \<open>light-rocr/runtime/launch.cpp\<close>, which copies the caller's
  arguments into the segment and clears the rest of it, and \<open>src/light_rocr_kernargs.cpp\<close>, which
  then writes the hidden arguments that describe the launch.

  The lemmas show that both calls stay inside the destination, what each byte of the segment holds
  afterwards, and that for the argument table the loader builds the binary search of the second
  step skips the explicit arguments and nothing else.
\<close>

section \<open>Requirements\<close>

datatype KernargBufferError =
    KernargNone | KernargInvalidKernelMetadata | KernargInvalidArguments
  | KernargArgumentSizeExceeded | KernargInvalidDestination | KernargDestinationTooSmall
  | KernargUnsupportedAlignment | KernargMisalignedGpuAddress | KernargGpuAddressOverflow
  | KernargAllocationFailed

primrec kernarg_buffer_error_name :: "KernargBufferError \<Rightarrow> string" where
  "kernarg_buffer_error_name KernargNone = ''none''"
| "kernarg_buffer_error_name KernargInvalidKernelMetadata = ''invalid_kernel_metadata''"
| "kernarg_buffer_error_name KernargInvalidArguments = ''invalid_arguments''"
| "kernarg_buffer_error_name KernargArgumentSizeExceeded = ''argument_size_exceeded''"
| "kernarg_buffer_error_name KernargInvalidDestination = ''invalid_destination''"
| "kernarg_buffer_error_name KernargDestinationTooSmall = ''destination_too_small''"
| "kernarg_buffer_error_name KernargUnsupportedAlignment = ''unsupported_alignment''"
| "kernarg_buffer_error_name KernargMisalignedGpuAddress = ''misaligned_gpu_address''"
| "kernarg_buffer_error_name KernargGpuAddressOverflow = ''gpu_address_overflow''"
| "kernarg_buffer_error_name KernargAllocationFailed = ''allocation_failed''"

type_synonym 'a kernarged = "(KernargBufferError, 'a) outcome"

record KernargBufferRequirements =
  kr_storage_size :: u64
  kr_alignment :: u32

record KernargBufferInfo =
  kb_gpu_address :: u64
  kb_kernarg_size :: u32
  kb_alignment :: u32
  kb_valid :: bool

definition default_KernargBufferInfo :: KernargBufferInfo where
  "default_KernargBufferInfo =
     \<lparr>kb_gpu_address = 0, kb_kernarg_size = 0, kb_alignment = 0, kb_valid = False\<rparr>"

text \<open>\<open>KernargBufferInfo::reset\<close>, and the move constructor: the new object and the source after it.\<close>

definition kernarg_reset :: "KernargBufferInfo \<Rightarrow> KernargBufferInfo" where
  "kernarg_reset b = b\<lparr>kb_gpu_address := 0, kb_kernarg_size := 0, kb_alignment := 0, kb_valid := False\<rparr>"

definition kernarg_move :: "KernargBufferInfo \<Rightarrow> KernargBufferInfo \<times> KernargBufferInfo" where
  "kernarg_move other =
     (\<lparr>kb_gpu_address = kb_gpu_address other, kb_kernarg_size = kb_kernarg_size other,
       kb_alignment = kb_alignment other, kb_valid = kb_valid other\<rparr>, kernarg_reset other)"

text \<open>
  Move assignment between two objects of a store indexed by address; \<open>this = other\<close> leaves the
  store alone.
\<close>

definition kernarg_move_assign ::
  "nat \<Rightarrow> nat \<Rightarrow> (nat \<Rightarrow> KernargBufferInfo) \<Rightarrow> (nat \<Rightarrow> KernargBufferInfo)" where
  "kernarg_move_assign this other store =
     (if this = other then store
      else store(this := \<lparr>kb_gpu_address = kb_gpu_address (store other),
                         kb_kernarg_size = kb_kernarg_size (store other),
                         kb_alignment = kb_alignment (store other), kb_valid = kb_valid (store other)\<rparr>,
                 other := kernarg_reset (store other)))"

abbreviation "kAmdKernargMinimumAlignment \<equiv> (16 :: u32)"

definition validate_kernarg_request ::
  "KernelInfo \<Rightarrow> bytes option \<Rightarrow> u64 \<Rightarrow> KernargBufferRequirements kernarged" where
  "validate_kernarg_request k arguments arguments_size =
     (if \<not> is_power_of_two (ucast (ki_kernarg_alignment k) :: u64) \<or>
         ki_kernarg_alignment k < kAmdKernargMinimumAlignment
      then Err KernargInvalidKernelMetadata
      else if arguments_size \<noteq> 0 \<and> arguments = None then Err KernargInvalidArguments
      else if arguments_size > ucast (ki_kernarg_size k) then Err KernargArgumentSizeExceeded
      else Ok \<lparr>kr_storage_size = ucast (ki_kernarg_size k), kr_alignment = ki_kernarg_alignment k\<rparr>)"

definition kernarg_buffer_requirements ::
  "KernelInfo \<Rightarrow> bytes option \<Rightarrow> u64 \<Rightarrow> KernargBufferRequirements kernarged" where
  "kernarg_buffer_requirements k arguments arguments_size =
     validate_kernarg_request k arguments arguments_size"

section \<open>Materialisation\<close>

text \<open>
  The overload on validated requirements. The result holds the destination after the call and the
  description of the buffer.
\<close>

definition materialize_validated_kernarg_buffer ::
  "KernargBufferRequirements kernarged \<Rightarrow> bytes option \<Rightarrow> u64 \<Rightarrow> bytes option \<Rightarrow> u64 \<Rightarrow> u64 \<Rightarrow>
   (bytes option \<times> KernargBufferInfo) kernarged" where
  "materialize_validated_kernarg_buffer requirements arguments arguments_size destination
     destination_size gpu_address =
     obind requirements (\<lambda>r.
     if arguments_size \<noteq> 0 \<and> arguments = None then Err KernargInvalidArguments
     else if arguments_size > kr_storage_size r then Err KernargArgumentSizeExceeded
     else if kr_storage_size r = 0
     then if destination \<noteq> None \<or> destination_size \<noteq> 0 \<or> gpu_address \<noteq> 0
       then Err KernargInvalidDestination
       else Ok (destination, \<lparr>kb_gpu_address = 0, kb_kernarg_size = 0,
                              kb_alignment = kr_alignment r, kb_valid = True\<rparr>)
     else case destination of
       None \<Rightarrow> Err KernargInvalidDestination
     | Some destination_bytes \<Rightarrow>
         if destination_size < kr_storage_size r then Err KernargDestinationTooSmall
         else if gpu_address = 0 \<or> gpu_address mod ucast (kr_alignment r) \<noteq> 0
         then Err KernargMisalignedGpuAddress
         else if gpu_address > - 1 - kr_storage_size r then Err KernargGpuAddressOverflow
         else
         obind (if arguments_size \<noteq> 0
                then obind (read_bytes (buffer_bytes arguments) 0 (unat arguments_size))
                       (write_bytes destination_bytes 0)
                else Ok destination_bytes) (\<lambda>copied.
         obind (write_bytes copied (unat arguments_size)
                  (replicate (unat (kr_storage_size r) - unat arguments_size) 0)) (\<lambda>cleared.
         Ok (Some cleared, \<lparr>kb_gpu_address = gpu_address, kb_kernarg_size = ucast (kr_storage_size r),
                            kb_alignment = kr_alignment r, kb_valid = True\<rparr>))))"

definition materialize_kernarg_buffer ::
  "KernelInfo \<Rightarrow> bytes option \<Rightarrow> u64 \<Rightarrow> bytes option \<Rightarrow> u64 \<Rightarrow> u64 \<Rightarrow>
   (bytes option \<times> KernargBufferInfo) kernarged" where
  "materialize_kernarg_buffer k arguments arguments_size destination destination_size gpu_address =
     materialize_validated_kernarg_buffer (validate_kernarg_request k arguments arguments_size)
       arguments arguments_size destination destination_size gpu_address"

section \<open>Hidden arguments\<close>

record lr_dim3 =
  dim_x :: u32
  dim_y :: u32
  dim_z :: u32

record lr_launch_config =
  cfg_grid :: lr_dim3
  cfg_block :: lr_dim3
  cfg_shared_memory_bytes :: u32

definition dispatch_dimensions :: "lr_launch_config \<Rightarrow> u16" where
  "dispatch_dimensions config =
     (if dim_z (cfg_grid config) > 1 \<or> dim_z (cfg_block config) > 1 then 3
      else if dim_y (cfg_grid config) > 1 \<or> dim_y (cfg_block config) > 1 then 2
      else 1)"

text \<open>
  \<open>value\<close> is the object representation of the value written. The result is what the function
  returns and the buffer after it.
\<close>

definition write_argument ::
  "bytes \<Rightarrow> u64 \<Rightarrow> KernelArgumentInfo \<Rightarrow> bytes \<Rightarrow> (bool \<times> bytes) kernarged" where
  "write_argument buf buffer_size argument val =
     (if unat (ka_size argument) \<noteq> length val \<or> ucast (ka_offset argument) > buffer_size \<or>
         ucast (ka_size argument) > buffer_size - ucast (ka_offset argument)
      then Ok (False, buf)
      else obind (write_bytes buf (unat (ka_offset argument)) val) (\<lambda>buf'. Ok (True, buf')))"

definition write_hidden_argument ::
  "lr_launch_config \<Rightarrow> bytes \<Rightarrow> u64 \<Rightarrow> KernelArgumentInfo \<Rightarrow> (bool \<times> bytes) kernarged" where
  "write_hidden_argument config buf kernarg_size argument =
     (let grid = cfg_grid config; block = cfg_block config;
          write32 = (\<lambda>v :: u32. write_argument buf kernarg_size argument (le_bytes 4 v));
          write16 = (\<lambda>v :: u16. write_argument buf kernarg_size argument (le_bytes 2 v))
      in case ka_kind argument of
        HiddenBlockCountX \<Rightarrow> write32 (dim_x grid div dim_x block)
      | HiddenBlockCountY \<Rightarrow> write32 (dim_y grid div dim_y block)
      | HiddenBlockCountZ \<Rightarrow> write32 (dim_z grid div dim_z block)
      | HiddenGroupSizeX \<Rightarrow> write16 (ucast (dim_x block))
      | HiddenGroupSizeY \<Rightarrow> write16 (ucast (dim_y block))
      | HiddenGroupSizeZ \<Rightarrow> write16 (ucast (dim_z block))
      | HiddenRemainderX \<Rightarrow> write16 (ucast (dim_x grid mod dim_x block))
      | HiddenRemainderY \<Rightarrow> write16 (ucast (dim_y grid mod dim_y block))
      | HiddenRemainderZ \<Rightarrow> write16 (ucast (dim_z grid mod dim_z block))
      | HiddenGridDims \<Rightarrow> write16 (dispatch_dimensions config)
      | HiddenDynamicLdsSize \<Rightarrow> write32 (cfg_shared_memory_bytes config)
      | _ \<Rightarrow> Ok (True, buf))"

text \<open>The loop from \<open>first_hidden\<close> to the end of the arguments.\<close>

primrec hidden_loop ::
  "lr_launch_config \<Rightarrow> u64 \<Rightarrow> KernelArgumentInfo list \<Rightarrow> bytes \<Rightarrow> (bool \<times> bytes) kernarged" where
  "hidden_loop config kernarg_size [] buf = Ok (True, buf)"
| "hidden_loop config kernarg_size (argument # arguments) buf =
     obind (write_hidden_argument config buf kernarg_size argument) (\<lambda>(written, buf').
     if \<not> written then Ok (False, buf')
     else hidden_loop config kernarg_size arguments buf')"

definition first_hidden :: "KernelInfo \<Rightarrow> nat" where
  "first_hidden k = lower_bound (\<lambda>a off. ka_offset a < off) (ki_arguments k) (ki_explicit_argument_size k)"

definition launch_shape_ok :: "lr_launch_config \<Rightarrow> bool" where
  "launch_shape_ok config \<longleftrightarrow>
     (let grid = cfg_grid config; block = cfg_block config
      in \<not> (dim_x grid = 0 \<or> dim_y grid = 0 \<or> dim_z grid = 0 \<or> dim_x block = 0 \<or>
            dim_y block = 0 \<or> dim_z block = 0 \<or> dim_x block > 65535 \<or> dim_y block > 65535 \<or>
            dim_z block > 65535 \<or> dim_x grid < dim_x block \<or> dim_y grid < dim_y block \<or>
            dim_z grid < dim_z block))"

definition populate_light_rocr_hidden_kernargs ::
  "KernelInfo \<Rightarrow> lr_launch_config \<Rightarrow> bytes option \<Rightarrow> u64 \<Rightarrow> (bool \<times> bytes) kernarged" where
  "populate_light_rocr_hidden_kernargs k config kernarg kernarg_size =
     (if kernarg_size < ucast (ki_kernarg_size k) \<or> (ki_kernarg_size k \<noteq> 0 \<and> kernarg = None) \<or>
         \<not> launch_shape_ok config
      then Ok (False, buffer_bytes kernarg)
      else hidden_loop config kernarg_size (drop (first_hidden k) (ki_arguments k)) (buffer_bytes kernarg))"

section \<open>The segment after materialisation\<close>

text \<open>The caller's bytes, zeros up to the size of the segment, and the rest of the buffer as it was.\<close>

definition kernarg_segment :: "bytes \<Rightarrow> nat \<Rightarrow> nat \<Rightarrow> bytes \<Rightarrow> bytes" where
  "kernarg_segment args n storage buffer = take n args @ replicate (storage - n) 0 @ drop storage buffer"

definition kernarg_request_ok :: "KernelInfo \<Rightarrow> bytes option \<Rightarrow> u64 \<Rightarrow> bool" where
  "kernarg_request_ok k arguments n \<longleftrightarrow> is_power_of_two (ki_kernarg_alignment k) \<and>
     16 \<le> unat (ki_kernarg_alignment k) \<and> (n = 0 \<or> arguments \<noteq> None) \<and> unat n \<le> unat (ki_kernarg_size k)"

definition kernarg_address_ok :: "KernelInfo \<Rightarrow> u64 \<Rightarrow> bool" where
  "kernarg_address_ok k gpu \<longleftrightarrow> gpu \<noteq> 0 \<and> unat (ki_kernarg_alignment k) dvd unat gpu \<and>
     unat gpu + unat (ki_kernarg_size k) < 2 ^ 64"

definition kernarg_info :: "KernelInfo \<Rightarrow> u64 \<Rightarrow> KernargBufferInfo" where
  "kernarg_info k gpu = \<lparr>kb_gpu_address = gpu, kb_kernarg_size = ki_kernarg_size k,
     kb_alignment = ki_kernarg_alignment k, kb_valid = True\<rparr>"

lemma is_power_of_two_ucast: "is_power_of_two (ucast (a :: u32) :: u64) \<longleftrightarrow> is_power_of_two a"
proof -
  have eq: "(ucast a :: u64) AND (ucast a - 1) = ucast (a AND (a - 1))" if "a \<noteq> 0"
  proof -
    have "(ucast a - 1 :: u64) = ucast (a - 1)"
    proof (rule word_unat_eq_iff [THEN iffD2])
      have "1 \<le> a" and "(1 :: u64) \<le> ucast a"
        using that by (simp_all add: word_le_nat_alt unat_gt_0 Suc_le_eq)
      then show "unat (ucast a - 1 :: u64) = unat (ucast (a - 1) :: u64)" by (simp add: unat_sub)
    qed
    then show ?thesis by (simp add: unsigned_and_eq)
  qed
  have inj: "(ucast (x :: u32) = (0 :: u64)) = (x = 0)" for x
    by (metis unat_u32_to_u64 unat_eq_zero)
  show ?thesis
  proof (cases "a = 0")
    case True
    then show ?thesis by (simp add: is_power_of_two_def)
  next
    case False
    then show ?thesis using eq inj [of "a AND (a - 1)"] inj [of a] by (simp add: is_power_of_two_def)
  qed
qed

lemma validate_kernarg_request_Ok:
  "validate_kernarg_request k arguments n = Ok r \<longleftrightarrow> kernarg_request_ok k arguments n \<and>
     r = \<lparr>kr_storage_size = ucast (ki_kernarg_size k), kr_alignment = ki_kernarg_alignment k\<rparr>"
  by (auto simp: validate_kernarg_request_def kernarg_request_ok_def is_power_of_two_ucast
      word_less_nat_alt not_less)

lemma validate_kernarg_request_not_Fault: "validate_kernarg_request k arguments n \<noteq> Fault"
  by (simp add: validate_kernarg_request_def)

lemma ucast_u32_u64 [simp]: "(ucast (ucast (a :: u32) :: u64) :: u32) = a"
  by (rule bit_word_eqI) (auto simp: bit_simps)

text \<open>Both overloads, on every path: when they succeed, and what the destination then holds.\<close>

lemma materialize_validated_Ok:
  assumes a: "buffer_ok arguments n" and d: "buffer_ok destination m"
    and ok: "kernarg_request_ok k arguments n"
  shows "materialize_validated_kernarg_buffer
      (Ok \<lparr>kr_storage_size = ucast (ki_kernarg_size k), kr_alignment = ki_kernarg_alignment k\<rparr>)
      arguments n destination m gpu = Ok (after, info) \<longleftrightarrow>
    info = kernarg_info k gpu \<and>
    (if ki_kernarg_size k = 0 then destination = None \<and> m = 0 \<and> gpu = 0 \<and> after = None
     else \<exists>buffer. destination = Some buffer \<and> unat (ki_kernarg_size k) \<le> unat m \<and>
       kernarg_address_ok k gpu \<and>
       after = Some (kernarg_segment (buffer_bytes arguments) (unat n) (unat (ki_kernarg_size k)) buffer))"
    (is "?run = _ \<longleftrightarrow> _")
    and "materialize_validated_kernarg_buffer
      (Ok \<lparr>kr_storage_size = ucast (ki_kernarg_size k), kr_alignment = ki_kernarg_alignment k\<rparr>)
      arguments n destination m gpu \<noteq> Fault"
proof -
  let ?s = "unat (ki_kernarg_size k)"
  have n: "unat n \<le> ?s" and arguments: "n = 0 \<or> arguments \<noteq> None"
    using ok by (simp_all add: kernarg_request_ok_def)
  have size0: "(ucast (ki_kernarg_size k) = (0 :: u64)) = (ki_kernarg_size k = 0)"
    by (metis unat_u32_to_u64 unat_eq_zero)
  have len: "n \<noteq> 0 \<Longrightarrow> length (buffer_bytes arguments) = unat n"
    using a arguments by (auto simp: buffer_ok_def buffer_bytes_def)
  have address: "kernarg_address_ok k gpu \<longleftrightarrow>
      \<not> (gpu = 0 \<or> gpu mod ucast (ki_kernarg_alignment k) \<noteq> 0) \<and> \<not> gpu > - 1 - ucast (ki_kernarg_size k)"
    using unat_u32_less [of "ki_kernarg_size k"]
    by (auto simp: kernarg_address_ok_def word_less_nat_alt unat_max_minus)
  have run: "?run = Ok (Some (kernarg_segment (buffer_bytes arguments) (unat n) ?s buffer), kernarg_info k gpu)"
    if "destination = Some buffer" "?s \<le> unat m" "kernarg_address_ok k gpu" "ki_kernarg_size k \<noteq> 0" for buffer
  proof -
    have fit: "?s \<le> length buffer" using that(1,2) d by (simp add: buffer_ok_def)
    show ?thesis
      using that arguments n fit len address size0
      by (cases "n = 0") (auto simp: materialize_validated_kernarg_buffer_def not_less word_less_nat_alt
          write_bytes_def min_def kernarg_segment_def kernarg_info_def)
  qed
  have short: "?run = Err e" if "ki_kernarg_size k \<noteq> 0" "e =
      (if destination = None then KernargInvalidDestination else if unat m < ?s then KernargDestinationTooSmall
       else if gpu = 0 \<or> gpu mod ucast (ki_kernarg_alignment k) \<noteq> 0 then KernargMisalignedGpuAddress
       else KernargGpuAddressOverflow)"
      "\<not> (destination \<noteq> None \<and> ?s \<le> unat m \<and> kernarg_address_ok k gpu)" for e
    using that arguments n size0 address
    by (auto simp: materialize_validated_kernarg_buffer_def not_less word_less_nat_alt split: option.splits)
  have empty: "?run = (if destination = None \<and> m = 0 \<and> gpu = 0 then Ok (None, kernarg_info k 0)
      else Err KernargInvalidDestination)" if "ki_kernarg_size k = 0"
    using that arguments n
    by (auto simp: materialize_validated_kernarg_buffer_def kernarg_info_def not_less word_less_nat_alt)
  show "?run = Ok (after, info) \<longleftrightarrow> info = kernarg_info k gpu \<and>
    (if ki_kernarg_size k = 0 then destination = None \<and> m = 0 \<and> gpu = 0 \<and> after = None
     else \<exists>buffer. destination = Some buffer \<and> ?s \<le> unat m \<and> kernarg_address_ok k gpu \<and>
       after = Some (kernarg_segment (buffer_bytes arguments) (unat n) ?s buffer))"
    using empty run short [OF _ refl]
    by (cases "ki_kernarg_size k = 0"; cases destination; cases "?s \<le> unat m \<and> kernarg_address_ok k gpu") auto
  show "?run \<noteq> Fault"
    using empty run short [OF _ refl]
    by (cases "ki_kernarg_size k = 0"; cases destination; cases "?s \<le> unat m \<and> kernarg_address_ok k gpu") auto
qed


lemma materialize_kernarg_buffer_Ok:
  assumes "buffer_ok arguments n" and "buffer_ok destination m"
  shows "materialize_kernarg_buffer k arguments n destination m gpu = Ok (after, info) \<longleftrightarrow>
    kernarg_request_ok k arguments n \<and> info = kernarg_info k gpu \<and>
    (if ki_kernarg_size k = 0 then destination = None \<and> m = 0 \<and> gpu = 0 \<and> after = None
     else \<exists>buffer. destination = Some buffer \<and> unat (ki_kernarg_size k) \<le> unat m \<and>
       kernarg_address_ok k gpu \<and>
       after = Some (kernarg_segment (buffer_bytes arguments) (unat n) (unat (ki_kernarg_size k)) buffer))"
    and "materialize_kernarg_buffer k arguments n destination m gpu \<noteq> Fault"
proof -
  let ?r = "\<lparr>kr_storage_size = ucast (ki_kernarg_size k), kr_alignment = ki_kernarg_alignment k\<rparr>"
  have ok: "validate_kernarg_request k arguments n = Ok ?r" if "kernarg_request_ok k arguments n"
    using that by (simp add: validate_kernarg_request_Ok)
  have bad: "\<exists>e. materialize_kernarg_buffer k arguments n destination m gpu = Err e"
    if "\<not> kernarg_request_ok k arguments n"
    using that validate_kernarg_request_Ok [of k arguments n] validate_kernarg_request_not_Fault [of k arguments n]
    by (cases "validate_kernarg_request k arguments n")
      (auto simp: materialize_kernarg_buffer_def materialize_validated_kernarg_buffer_def)
  show "materialize_kernarg_buffer k arguments n destination m gpu = Ok (after, info) \<longleftrightarrow>
    kernarg_request_ok k arguments n \<and> info = kernarg_info k gpu \<and>
    (if ki_kernarg_size k = 0 then destination = None \<and> m = 0 \<and> gpu = 0 \<and> after = None
     else \<exists>buffer. destination = Some buffer \<and> unat (ki_kernarg_size k) \<le> unat m \<and>
       kernarg_address_ok k gpu \<and>
       after = Some (kernarg_segment (buffer_bytes arguments) (unat n) (unat (ki_kernarg_size k)) buffer))"
    using bad materialize_validated_Ok(1) [OF assms]
    by (cases "kernarg_request_ok k arguments n") (auto simp: materialize_kernarg_buffer_def ok)
  show "materialize_kernarg_buffer k arguments n destination m gpu \<noteq> Fault"
    using bad materialize_validated_Ok(2) [OF assms]
    by (cases "kernarg_request_ok k arguments n") (auto simp: materialize_kernarg_buffer_def ok)
qed

section \<open>The hidden arguments written\<close>

text \<open>The value of a hidden argument; \<open>None\<close> for a kind the runtime leaves zero.\<close>

definition hidden_value :: "lr_launch_config \<Rightarrow> KernelArgumentKind \<Rightarrow> bytes option" where
  "hidden_value config kind =
     (let grid = cfg_grid config; block = cfg_block config
      in case kind of
        HiddenBlockCountX \<Rightarrow> Some (le_bytes 4 (dim_x grid div dim_x block))
      | HiddenBlockCountY \<Rightarrow> Some (le_bytes 4 (dim_y grid div dim_y block))
      | HiddenBlockCountZ \<Rightarrow> Some (le_bytes 4 (dim_z grid div dim_z block))
      | HiddenGroupSizeX \<Rightarrow> Some (le_bytes 2 (dim_x block))
      | HiddenGroupSizeY \<Rightarrow> Some (le_bytes 2 (dim_y block))
      | HiddenGroupSizeZ \<Rightarrow> Some (le_bytes 2 (dim_z block))
      | HiddenRemainderX \<Rightarrow> Some (le_bytes 2 (dim_x grid mod dim_x block))
      | HiddenRemainderY \<Rightarrow> Some (le_bytes 2 (dim_y grid mod dim_y block))
      | HiddenRemainderZ \<Rightarrow> Some (le_bytes 2 (dim_z grid mod dim_z block))
      | HiddenGridDims \<Rightarrow> Some (le_bytes 2 (dispatch_dimensions config))
      | HiddenDynamicLdsSize \<Rightarrow> Some (le_bytes 4 (cfg_shared_memory_bytes config))
      | _ \<Rightarrow> None)"

lemma le_bytes_2_ucast: "le_bytes 2 (ucast (w :: u32) :: u16) = le_bytes 2 w"
  by (simp add: le_bytes_def numeral_2_eq_2) (auto intro!: bit_word_eqI simp: bit_simps)

lemma write_hidden_argument_eq:
  "write_hidden_argument config buf n argument =
     (case hidden_value config (ka_kind argument) of
        None \<Rightarrow> Ok (True, buf) | Some val \<Rightarrow> write_argument buf n argument val)"
  by (cases "ka_kind argument") (simp_all add: write_hidden_argument_def hidden_value_def Let_def le_bytes_2_ucast)

lemma length_hidden_value:
  "hidden_value config kind = Some val \<Longrightarrow>
     length val = unat (required_hidden_argument_size kind) \<and> required_hidden_argument_size kind \<noteq> 0"
  by (cases kind) (auto simp: hidden_value_def required_hidden_argument_size_def Let_def)

lemma hidden_value_hidden: "hidden_value config kind \<noteq> None \<Longrightarrow> is_hidden_argument kind"
  by (cases kind) (auto simp: hidden_value_def is_hidden_argument_def Let_def)


definition hidden_writes :: "lr_launch_config \<Rightarrow> KernelArgumentInfo list \<Rightarrow> writes" where
  "hidden_writes config args =
     List.map_filter (\<lambda>a. map_option (Pair (unat (ka_offset a))) (hidden_value config (ka_kind a))) args"

lemma hidden_writes_simps [simp]:
  "hidden_writes config [] = []"
  "hidden_writes config (a # args) =
     (case hidden_value config (ka_kind a) of
        None \<Rightarrow> hidden_writes config args
      | Some val \<Rightarrow> (unat (ka_offset a), val) # hidden_writes config args)"
  by (simp_all add: hidden_writes_def map_filter_simps split: option.splits)

lemma in_hidden_writes:
  "w \<in> set (hidden_writes config args) \<longleftrightarrow>
     (\<exists>a \<in> set args. \<exists>val. hidden_value config (ka_kind a) = Some val \<and> w = (unat (ka_offset a), val))"
  by (induction args) (auto split: option.splits)

lemma wf_hidden_value:
  assumes "wf_argument n a" and "hidden_value config (ka_kind a) = Some val"
  shows "length val = unat (ka_size a)" and "unat (ka_offset a) + length val \<le> unat n"
  using assms length_hidden_value [OF assms(2)] by (auto simp: wf_argument_def)

lemma hidden_loop_eq:
  assumes "\<forall>a \<in> set args. wf_argument n a" and "unat n \<le> unat m" and "unat n \<le> length buf"
  shows "hidden_loop config m args buf = Ok (True, write_all (hidden_writes config args) buf)"
  using assms
proof (induction args arbitrary: buf)
  case (Cons a args)
  show ?case
  proof (cases "hidden_value config (ka_kind a)")
    case None
    with Cons show ?thesis by (simp add: write_hidden_argument_eq)
  next
    case (Some val)
    note v = wf_hidden_value [OF _ this, of n]
    have "write_argument buf m a val = Ok (True, splice buf (unat (ka_offset a)) val)"
      using Cons.prems v
      by (auto simp: write_argument_def word_less_nat_alt unat_sub word_le_nat_alt write_bytes_Ok)
    with Cons v Some show ?thesis by (simp add: write_hidden_argument_eq)
  qed
qed simp

lemma hidden_writes_ok:
  assumes "\<forall>a \<in> set args. wf_argument n a" and "unat n \<le> len"
    and "sorted_wrt (\<lambda>a b. arg_end a \<le> unat (ka_offset b)) args"
  shows "writes_ok len (hidden_writes config args)"
  using assms
proof (induction args)
  case (Cons a args)
  show ?case
  proof (cases "hidden_value config (ka_kind a)")
    case None
    with Cons show ?thesis by simp
  next
    case (Some val)
    have "\<not> (in_write i (unat (ka_offset a), val) \<and> in_write i w)" if "w \<in> set (hidden_writes config args)" for w i
      using that Cons.prems wf_hidden_value [OF _ Some, of n]
      by (auto simp: in_hidden_writes in_write_def)
    with Cons Some wf_hidden_value [OF _ Some, of n] show ?thesis
      by (auto simp: writes_ok_Cons)
  qed
qed (simp add: writes_ok_def)

text \<open>
  For the argument table of an accepted kernel the binary search for the first hidden argument
  skips the explicit arguments and nothing else.
\<close>

lemma dropWhile_eq_filter:
  "sorted_wrt (\<lambda>x y. P y \<longrightarrow> P x) xs \<Longrightarrow> dropWhile P xs = filter (\<lambda>x. \<not> P x) xs"
proof (induction xs)
  case (Cons x xs)
  then show ?case by (cases "P x") (auto simp: filter_id_conv)
qed simp

lemma drop_first_hidden:
  assumes "wf_arguments n (ki_explicit_argument_size k) (ki_arguments k)"
  shows "drop (first_hidden k) (ki_arguments k) = filter hidden (ki_arguments k)"
proof -
  let ?args = "ki_arguments k" and ?split = "ki_explicit_argument_size k"
  have side: "ka_offset a < ?split \<longleftrightarrow> \<not> hidden a" if "a \<in> set ?args" for a
    using assms that by (fastforce simp: wf_arguments_def wf_argument_def word_less_nat_alt split: if_splits)
  have "sorted_wrt (\<lambda>a b. arg_end a \<le> unat (ka_offset b)) ?args" using assms by (simp add: wf_arguments_def)
  then have before: "sorted_wrt (\<lambda>a b. ka_offset a \<le> ka_offset b) ?args"
    by (rule sorted_wrt_mono_rel [rotated]) (simp add: word_le_nat_alt)
  then have "sorted (map ka_offset ?args)" by (simp add: sorted_map)
  from lower_bound_key [OF this, of ?split]
  have "drop (first_hidden k) ?args = dropWhile (\<lambda>a. ka_offset a < ?split) ?args"
    by (simp add: first_hidden_def dropWhile_eq_drop)
  also have "\<dots> = filter (\<lambda>a. \<not> ka_offset a < ?split) ?args"
    by (rule dropWhile_eq_filter, rule sorted_wrt_mono_rel [OF _ before]) auto
  also have "\<dots> = filter hidden ?args" using side by (intro filter_cong) auto
  finally show ?thesis .
qed

lemma hidden_writes_filter: "hidden_writes config (filter hidden args) = hidden_writes config args"
proof (induction args)
  case (Cons a args)
  then show ?case using hidden_value_hidden [of config "ka_kind a"] by (auto split: option.splits)
qed simp

lemma populate_hidden_eq:
  assumes "wf_arguments (ki_kernarg_size k) (ki_explicit_argument_size k) (ki_arguments k)"
    and "launch_shape_ok config" and "unat (ki_kernarg_size k) \<le> unat m" and "unat m \<le> length buf"
  shows "populate_light_rocr_hidden_kernargs k config (Some buf) m =
      Ok (True, write_all (hidden_writes config (ki_arguments k)) buf)"
    and "writes_ok (length buf) (hidden_writes config (ki_arguments k))"
proof -
  have args: "\<forall>a \<in> set (ki_arguments k). wf_argument (ki_kernarg_size k) a"
    "sorted_wrt (\<lambda>a b. arg_end a \<le> unat (ka_offset b)) (ki_arguments k)"
    using assms(1) by (simp_all add: wf_arguments_def)
  have "hidden_loop config m (filter hidden (ki_arguments k)) buf =
      Ok (True, write_all (hidden_writes config (filter hidden (ki_arguments k))) buf)"
    using args assms(3,4) by (intro hidden_loop_eq [of _ "ki_kernarg_size k"]) auto
  then show "populate_light_rocr_hidden_kernargs k config (Some buf) m =
      Ok (True, write_all (hidden_writes config (ki_arguments k)) buf)"
    using assms
    by (simp add: populate_light_rocr_hidden_kernargs_def drop_first_hidden hidden_writes_filter
        buffer_bytes_def not_less word_le_nat_alt)
  show "writes_ok (length buf) (hidden_writes config (ki_arguments k))"
    using args assms(3,4) by (intro hidden_writes_ok) auto
qed

text \<open>What the segment holds after the hidden arguments are written.\<close>

definition hidden_populated :: "KernelInfo \<Rightarrow> lr_launch_config \<Rightarrow> bytes \<Rightarrow> bytes \<Rightarrow> bool" where
  "hidden_populated k config before after \<longleftrightarrow> length after = length before \<and>
     (\<forall>a \<in> set (ki_arguments k). \<forall>val. hidden_value config (ka_kind a) = Some val \<longrightarrow>
        take (unat (ka_size a)) (drop (unat (ka_offset a)) after) = val) \<and>
     (\<forall>i < length before. (\<forall>a \<in> set (ki_arguments k). hidden_value config (ka_kind a) \<noteq> None \<longrightarrow>
        i \<notin> arg_range a) \<longrightarrow> after ! i = before ! i)"

lemma write_all_range:
  assumes "writes_ok (length buffer) ws" and "w \<in> set ws"
  shows "take (length (snd w)) (drop (fst w) (write_all ws buffer)) = snd w"
proof (rule nth_equalityI)
  have "fst w + length (snd w) \<le> length buffer" using assms by (auto simp: writes_ok_def)
  then show len: "length (take (length (snd w)) (drop (fst w) (write_all ws buffer))) = length (snd w)"
    using length_write_all [OF assms(1)] by simp
  fix i
  assume "i < length (take (length (snd w)) (drop (fst w) (write_all ws buffer)))"
  with len have "in_write (fst w + i) w" by (simp add: in_write_def)
  from write_all_inside [OF assms this] len \<open>i < _\<close>
  show "take (length (snd w)) (drop (fst w) (write_all ws buffer)) ! i = snd w ! i" by simp
qed

lemma populate_hidden_valid:
  assumes "wf_arguments (ki_kernarg_size k) (ki_explicit_argument_size k) (ki_arguments k)"
    and "launch_shape_ok config" and "unat (ki_kernarg_size k) \<le> unat m" and "unat m \<le> length buf"
  shows "\<exists>after. populate_light_rocr_hidden_kernargs k config (Some buf) m = Ok (True, after) \<and>
    hidden_populated k config buf after"
proof -
  let ?ws = "hidden_writes config (ki_arguments k)"
  note run = populate_hidden_eq [OF assms]
  have wf: "wf_argument (ki_kernarg_size k) a" if "a \<in> set (ki_arguments k)" for a
    using assms(1) that by (simp add: wf_arguments_def)
  have "take (unat (ka_size a)) (drop (unat (ka_offset a)) (write_all ?ws buf)) = val"
    if "a \<in> set (ki_arguments k)" "hidden_value config (ka_kind a) = Some val" for a val
    using write_all_range [OF run(2), of "(unat (ka_offset a), val)"] that wf_hidden_value [OF wf that(2)]
    by (auto simp: in_hidden_writes)
  moreover have "write_all ?ws buf ! i = buf ! i" if "i < length buf"
    "\<forall>a \<in> set (ki_arguments k). hidden_value config (ka_kind a) \<noteq> None \<longrightarrow> i \<notin> arg_range a" for i
    using that wf_hidden_value(1) [OF wf]
    by (intro write_all_outside [OF run(2)]) (fastforce simp: in_hidden_writes in_write_def)+
  ultimately have "hidden_populated k config buf (write_all ?ws buf)"
    unfolding hidden_populated_def using length_write_all [OF run(2)] by blast
  with run(1) show ?thesis by blast
qed

end
