(* ===== verification/AqlPackets.thy ===== *)
theory AqlPackets
  imports Kernarg
begin

text \<open>
  AQL packets: the packet structures of \<open>src/aql_producer.hpp\<close> with their 64-byte representation,
  and the construction and validation of \<open>src/aql_producer.cpp\<close>; the launch parameters and the
  device-specific validation of \<open>src/launch.cpp\<close>.

  The lemmas show that the fixed checks of a built dispatch packet reduce to the ones on its
  parameters, and that the dimensions in the packet are those of the hidden argument.
\<close>

unbundle bit_operations_syntax

section \<open>Packets\<close>

abbreviation (input) "kAqlPacketTypeInvalid \<equiv> (1 :: u16)"
abbreviation (input) "kAqlKernelDispatchHeader \<equiv> (2 OR push_bit 9 2 OR push_bit 11 2 :: u16)"
abbreviation (input) "kAqlBarrierAndHeader \<equiv> (3 OR push_bit 8 1 OR push_bit 9 2 OR push_bit 11 2 :: u16)"

record AqlKernelDispatchPacket =
  kd_header :: u16
  kd_setup :: u16
  kd_workgroup_size_x :: u16
  kd_workgroup_size_y :: u16
  kd_workgroup_size_z :: u16
  kd_reserved0 :: u16
  kd_grid_size_x :: u32
  kd_grid_size_y :: u32
  kd_grid_size_z :: u32
  kd_private_segment_size :: u32
  kd_group_segment_size :: u32
  kd_kernel_object :: u64
  kd_kernarg_address :: u64
  kd_reserved2 :: u64
  kd_completion_signal :: u64

record AqlBarrierAndPacket =
  ba_header :: u16
  ba_reserved0 :: u16
  ba_reserved1 :: u32
  ba_dep_signal :: "u64 list"
  ba_reserved2 :: u64
  ba_completion_signal :: u64

text \<open>The object representation: the fields in declaration order, without padding.\<close>

definition kernel_dispatch_bytes :: "AqlKernelDispatchPacket \<Rightarrow> bytes" where
  "kernel_dispatch_bytes p =
     le_bytes 2 (kd_header p) @ le_bytes 2 (kd_setup p) @ le_bytes 2 (kd_workgroup_size_x p) @
     le_bytes 2 (kd_workgroup_size_y p) @ le_bytes 2 (kd_workgroup_size_z p) @
     le_bytes 2 (kd_reserved0 p) @ le_bytes 4 (kd_grid_size_x p) @ le_bytes 4 (kd_grid_size_y p) @
     le_bytes 4 (kd_grid_size_z p) @ le_bytes 4 (kd_private_segment_size p) @
     le_bytes 4 (kd_group_segment_size p) @ le_bytes 8 (kd_kernel_object p) @
     le_bytes 8 (kd_kernarg_address p) @ le_bytes 8 (kd_reserved2 p) @
     le_bytes 8 (kd_completion_signal p)"

definition barrier_and_bytes :: "AqlBarrierAndPacket \<Rightarrow> bytes" where
  "barrier_and_bytes p =
     le_bytes 2 (ba_header p) @ le_bytes 2 (ba_reserved0 p) @ le_bytes 4 (ba_reserved1 p) @
     concat (map (le_bytes 8) (ba_dep_signal p)) @ le_bytes 8 (ba_reserved2 p) @
     le_bytes 8 (ba_completion_signal p)"

section \<open>Construction and validation\<close>

record AqlKernelDispatchParameters =
  dp_grid_size_x :: u32
  dp_grid_size_y :: u32
  dp_grid_size_z :: u32
  dp_workgroup_size_x :: u16
  dp_workgroup_size_y :: u16
  dp_workgroup_size_z :: u16
  dp_private_segment_size :: u32
  dp_group_segment_size :: u32
  dp_kernel_object :: u64
  dp_kernarg_address :: u64
  dp_completion_signal :: u64

record AqlDispatchOrdering =
  do_pending_dispatch_count :: u64
  do_has_pending_dependencies :: bool

record AqlBarrierAndParameters =
  bp_dependency_signals :: "u64 list"
  bp_completion_signal :: u64

definition aql_dispatch_dimensions :: "AqlKernelDispatchParameters \<Rightarrow> u16" where
  "aql_dispatch_dimensions parameters =
     (if dp_grid_size_z parameters > 1 \<or> dp_workgroup_size_z parameters > 1 then 3
      else if dp_grid_size_y parameters > 1 \<or> dp_workgroup_size_y parameters > 1 then 2
      else 1)"

definition build_aql_kernel_dispatch_packet ::
  "AqlKernelDispatchParameters \<Rightarrow> AqlDispatchOrdering \<Rightarrow> AqlKernelDispatchPacket" where
  "build_aql_kernel_dispatch_packet parameters ordr =
     (let wait_for_dependencies =
            do_pending_dispatch_count ordr \<noteq> 0 \<or> do_has_pending_dependencies ordr
      in \<lparr>kd_header = kAqlKernelDispatchHeader OR (if wait_for_dependencies then push_bit 8 1 else 0),
          kd_setup = aql_dispatch_dimensions parameters,
          kd_workgroup_size_x = dp_workgroup_size_x parameters,
          kd_workgroup_size_y = dp_workgroup_size_y parameters,
          kd_workgroup_size_z = dp_workgroup_size_z parameters,
          kd_reserved0 = 0,
          kd_grid_size_x = dp_grid_size_x parameters,
          kd_grid_size_y = dp_grid_size_y parameters,
          kd_grid_size_z = dp_grid_size_z parameters,
          kd_private_segment_size = dp_private_segment_size parameters,
          kd_group_segment_size = dp_group_segment_size parameters,
          kd_kernel_object = dp_kernel_object parameters,
          kd_kernarg_address = dp_kernarg_address parameters,
          kd_reserved2 = 0,
          kd_completion_signal = dp_completion_signal parameters\<rparr>)"

definition valid_aql_kernel_dispatch_packet :: "AqlKernelDispatchPacket \<Rightarrow> bool" where
  "valid_aql_kernel_dispatch_packet packet \<longleftrightarrow>
     \<not> (kd_header packet AND NOT (push_bit 8 1) \<noteq> kAqlKernelDispatchHeader \<or>
        kd_setup packet AND NOT 3 \<noteq> 0) \<and>
     (let dimensions = kd_setup packet
      in \<not> (dimensions < 1 \<or> dimensions > 3 \<or> kd_workgroup_size_x packet = 0 \<or>
            kd_workgroup_size_y packet = 0 \<or> kd_workgroup_size_z packet = 0 \<or>
            dimensions < 2 \<and> kd_workgroup_size_y packet \<noteq> 1 \<or>
            dimensions < 3 \<and> kd_workgroup_size_z packet \<noteq> 1 \<or>
            kd_grid_size_x packet < ucast (kd_workgroup_size_x packet) \<or>
            kd_grid_size_y packet < ucast (kd_workgroup_size_y packet) \<or>
            kd_grid_size_z packet < ucast (kd_workgroup_size_z packet) \<or>
            dimensions < 2 \<and> kd_grid_size_y packet \<noteq> 1 \<or>
            dimensions < 3 \<and> kd_grid_size_z packet \<noteq> 1 \<or>
            kd_kernel_object packet = 0 \<or> kd_reserved0 packet \<noteq> 0 \<or> kd_reserved2 packet \<noteq> 0))"

definition build_aql_barrier_and_packet :: "AqlBarrierAndParameters \<Rightarrow> AqlBarrierAndPacket" where
  "build_aql_barrier_and_packet parameters =
     \<lparr>ba_header = kAqlBarrierAndHeader, ba_reserved0 = 0, ba_reserved1 = 0,
      ba_dep_signal = bp_dependency_signals parameters, ba_reserved2 = 0,
      ba_completion_signal = bp_completion_signal parameters\<rparr>"

definition valid_aql_barrier_and_packet :: "AqlBarrierAndPacket \<Rightarrow> bool" where
  "valid_aql_barrier_and_packet packet \<longleftrightarrow> ba_header packet = kAqlBarrierAndHeader \<and>
     ba_reserved0 packet = 0 \<and> ba_reserved1 packet = 0 \<and> ba_reserved2 packet = 0"

section \<open>The parameters of a launch\<close>

definition aql_dispatch_parameters ::
  "lr_launch_config \<Rightarrow> u32 \<Rightarrow> u32 \<Rightarrow> u64 \<Rightarrow> u64 \<Rightarrow> u64 \<Rightarrow> AqlKernelDispatchParameters" where
  "aql_dispatch_parameters config private_segment_size group_segment_size kernel_object
     kernarg_address completion_signal =
     \<lparr>dp_grid_size_x = dim_x (cfg_grid config), dp_grid_size_y = dim_y (cfg_grid config),
      dp_grid_size_z = dim_z (cfg_grid config),
      dp_workgroup_size_x = ucast (dim_x (cfg_block config)),
      dp_workgroup_size_y = ucast (dim_y (cfg_block config)),
      dp_workgroup_size_z = ucast (dim_z (cfg_block config)),
      dp_private_segment_size = private_segment_size, dp_group_segment_size = group_segment_size,
      dp_kernel_object = kernel_object, dp_kernarg_address = kernarg_address,
      dp_completion_signal = completion_signal\<rparr>"

text \<open>The limits of the device; \<open>scratch\<close> is the private segment size the queue has scratch for.\<close>

definition packet_workgroup_size :: "AqlKernelDispatchPacket \<Rightarrow> u64" where
  "packet_workgroup_size packet =
     ucast (kd_workgroup_size_x packet) * ucast (kd_workgroup_size_y packet) *
     ucast (kd_workgroup_size_z packet)"

definition valid_direct_kfd_dispatch_packet :: "u32 \<Rightarrow> AqlKernelDispatchPacket \<Rightarrow> bool" where
  "valid_direct_kfd_dispatch_packet scratch packet \<longleftrightarrow>
     kd_workgroup_size_x packet \<le> 1024 \<and> kd_workgroup_size_y packet \<le> 1024 \<and>
     kd_workgroup_size_z packet \<le> 1024 \<and> packet_workgroup_size packet \<le> 1024 \<and>
     kd_group_segment_size packet \<le> 65536 \<and> kd_private_segment_size packet \<le> scratch \<and>
     kd_kernel_object packet mod 64 = 0 \<and>
     (kd_kernarg_address packet = 0 \<or> kd_kernarg_address packet mod 16 = 0) \<and>
     kd_completion_signal packet \<noteq> 0 \<and> kd_completion_signal packet mod 64 = 0"

definition valid_light_rocr_dispatch_packet :: "u32 \<Rightarrow> AqlKernelDispatchPacket \<Rightarrow> bool" where
  "valid_light_rocr_dispatch_packet scratch packet \<longleftrightarrow>
     \<not> (kd_workgroup_size_x packet > 1024 \<or> kd_workgroup_size_y packet > 1024 \<or>
        kd_workgroup_size_z packet > 1024 \<or> packet_workgroup_size packet > 1024 \<or>
        kd_group_segment_size packet > 65536 \<or> kd_private_segment_size packet > scratch \<or>
        kd_kernel_object packet mod 64 \<noteq> 0 \<or>
        (kd_kernarg_address packet \<noteq> 0 \<and> kd_kernarg_address packet mod 16 \<noteq> 0) \<or>
        (kd_completion_signal packet \<noteq> 0 \<and> kd_completion_signal packet mod 64 \<noteq> 0))"

section \<open>Properties of built packets\<close>

lemma length_kernel_dispatch_bytes [simp]: "length (kernel_dispatch_bytes p) = 64"
  by (simp add: kernel_dispatch_bytes_def)

lemma length_barrier_and_bytes [simp]: "length (ba_dep_signal p) = 5 \<Longrightarrow> length (barrier_and_bytes p) = 64"
  by (simp add: barrier_and_bytes_def length_concat comp_def sum_list_triv)

lemma header_bytes:
  "take 2 (kernel_dispatch_bytes p) = le_bytes 2 (kd_header p)"
  "take 2 (barrier_and_bytes q) = le_bytes 2 (ba_header q)"
  by (simp_all add: kernel_dispatch_bytes_def barrier_and_bytes_def)

lemma valid_built_barrier: "valid_aql_barrier_and_packet (build_aql_barrier_and_packet p)"
  by (simp add: valid_aql_barrier_and_packet_def build_aql_barrier_and_packet_def)

text \<open>What remains to be checked of a built dispatch packet.\<close>

definition dispatch_parameters_ok :: "AqlKernelDispatchParameters \<Rightarrow> bool" where
  "dispatch_parameters_ok p \<longleftrightarrow>
     0 < unat (dp_workgroup_size_x p) \<and> unat (dp_workgroup_size_x p) \<le> unat (dp_grid_size_x p) \<and>
     0 < unat (dp_workgroup_size_y p) \<and> unat (dp_workgroup_size_y p) \<le> unat (dp_grid_size_y p) \<and>
     0 < unat (dp_workgroup_size_z p) \<and> unat (dp_workgroup_size_z p) \<le> unat (dp_grid_size_z p) \<and>
     dp_kernel_object p \<noteq> 0"

lemma unat_u16_to_u32 [simp]: "unat (ucast (x :: u16) :: u32) = unat x"
  by (rule unat_ucast_up) simp

lemma unat_eq_1: "w = (1 :: 'a::len word) \<longleftrightarrow> unat w = 1"
  by (metis unat_1 word_unat_eq_iff)

lemma dimensions_cases:
  "aql_dispatch_dimensions p \<in> {1, 2, 3}"
  "aql_dispatch_dimensions p < 2 \<longleftrightarrow> unat (dp_grid_size_z p) \<le> 1 \<and> unat (dp_workgroup_size_z p) \<le> 1 \<and>
     unat (dp_grid_size_y p) \<le> 1 \<and> unat (dp_workgroup_size_y p) \<le> 1"
  "aql_dispatch_dimensions p < 3 \<longleftrightarrow> unat (dp_grid_size_z p) \<le> 1 \<and> unat (dp_workgroup_size_z p) \<le> 1"
  by (auto simp: aql_dispatch_dimensions_def word_less_nat_alt)

lemma header_ok:
  "(kAqlKernelDispatchHeader OR (if w then push_bit 8 1 else 0)) AND NOT (push_bit 8 1) = kAqlKernelDispatchHeader"
  by simp

lemma valid_built_dispatch:
  "valid_aql_kernel_dispatch_packet (build_aql_kernel_dispatch_packet p o') \<longleftrightarrow> dispatch_parameters_ok p"
proof -
  have dims: "aql_dispatch_dimensions p AND NOT 3 = 0" "\<not> aql_dispatch_dimensions p < 1"
    "\<not> aql_dispatch_dimensions p > 3"
    using dimensions_cases(1) [of p] by auto
  have "valid_aql_kernel_dispatch_packet (build_aql_kernel_dispatch_packet p o') \<longleftrightarrow>
      dp_workgroup_size_x p \<noteq> 0 \<and> dp_workgroup_size_y p \<noteq> 0 \<and> dp_workgroup_size_z p \<noteq> 0 \<and>
      (aql_dispatch_dimensions p < 2 \<longrightarrow> dp_workgroup_size_y p = 1 \<and> dp_grid_size_y p = 1) \<and>
      (aql_dispatch_dimensions p < 3 \<longrightarrow> dp_workgroup_size_z p = 1 \<and> dp_grid_size_z p = 1) \<and>
      \<not> dp_grid_size_x p < ucast (dp_workgroup_size_x p) \<and> \<not> dp_grid_size_y p < ucast (dp_workgroup_size_y p) \<and>
      \<not> dp_grid_size_z p < ucast (dp_workgroup_size_z p) \<and> dp_kernel_object p \<noteq> 0"
    unfolding valid_aql_kernel_dispatch_packet_def build_aql_kernel_dispatch_packet_def Let_def
      AqlKernelDispatchPacket.simps header_ok dims(1)
    using dims(2,3) by blast
  also have "\<dots> \<longleftrightarrow> dispatch_parameters_ok p"
    unfolding dimensions_cases(2,3)
    unfolding unat_eq_1 word_less_nat_alt unat_u16_to_u32 dispatch_parameters_ok_def
      unat_gt_0 [symmetric] not_less
    by auto
  finally show ?thesis .
qed

lemma launch_dimensions_agree:
  assumes "launch_shape_ok config"
  shows "aql_dispatch_dimensions (aql_dispatch_parameters config p g k a s) = dispatch_dimensions config"
proof -
  have small: "unat (ucast b :: u16) = unat b" if "\<not> b > 65535" for b :: u32
    using that by (simp add: word_less_nat_alt unsigned_ucast_eq take_bit_nat_eq_self)
  from assms have "unat (ucast (dim_y (cfg_block config)) :: u16) = unat (dim_y (cfg_block config))"
    "unat (ucast (dim_z (cfg_block config)) :: u16) = unat (dim_z (cfg_block config))"
    by (auto simp: launch_shape_ok_def Let_def intro!: small)
  then show ?thesis
    by (simp add: aql_dispatch_dimensions_def dispatch_dimensions_def aql_dispatch_parameters_def word_less_nat_alt)
qed

end
