(* ===== verification/AqlProducer.thy ===== *)
theory AqlProducer
  imports AqlPackets
begin

text \<open>
  Submission to an AQL ring: \<open>src/aql_producer.cpp\<close>. The producer reaches the queue through the
  function pointers of \<open>AqlQueueProducerOps\<close>; the contract the header states for them is the locale
  \<open>aql_queue_contract\<close>. A null function pointer that is called and a write outside the ring are
  \<open>Fault\<close>. The profiling clocks are not modelled.

  Inside the locale the lemmas show that every submission function either leaves the queue and the
  ring as they were or appends its packets, in order, to the packets waiting in the ring, and that
  the publication of a packet never shows a reader of the slot a part of it.
\<close>

unbundle bit_operations_syntax

section \<open>Operations of the queue\<close>

record 's AqlQueueProducerOps =
  ops_context :: bool
  ops_ring_base :: bool
  ops_packet_count :: u64
  ops_load_read_index :: "('s \<Rightarrow> u64) option"
  ops_load_write_index :: "('s \<Rightarrow> u64) option"
  ops_reserve_packet :: "('s \<Rightarrow> u64 \<Rightarrow> u64 option \<times> 's) option"
  ops_ring_doorbell :: "('s \<Rightarrow> u64 \<Rightarrow> 's) option"
  ops_validate_packet :: "('s \<Rightarrow> AqlKernelDispatchPacket \<Rightarrow> bool) option"

datatype AqlSubmitError = SubmitNone | InvalidPacket | InvalidQueue | QueueFull | ReserveFailed

record AqlSubmitResult =
  as_error :: AqlSubmitError
  as_packet_id :: u64

type_synonym 's submitted = "(AqlSubmitError, AqlSubmitResult \<times> 's \<times> bytes) outcome"

abbreviation submit_failed :: "AqlSubmitError \<Rightarrow> 's \<Rightarrow> bytes \<Rightarrow> 's submitted" where
  "submit_failed e s ring \<equiv> Ok (\<lparr>as_error = e, as_packet_id = 0\<rparr>, s, ring)"

definition call_pointer :: "'f option \<Rightarrow> (AqlSubmitError, 'f) outcome" where
  "call_pointer f = (case f of None \<Rightarrow> Fault | Some g \<Rightarrow> Ok g)"

definition valid_queue :: "'s AqlQueueProducerOps \<Rightarrow> bool" where
  "valid_queue queue \<longleftrightarrow> ops_context queue \<and> ops_ring_base queue \<and>
     is_power_of_two (ops_packet_count queue) \<and> ops_load_read_index queue \<noteq> None \<and>
     ops_load_write_index queue \<noteq> None \<and> ops_reserve_packet queue \<noteq> None \<and>
     ops_ring_doorbell queue \<noteq> None"

section \<open>Publication\<close>

text \<open>The three stores of \<open>publish_packet\<close>: the invalid header, the body, the header.\<close>

definition publish_invalid :: "bytes \<Rightarrow> nat \<Rightarrow> ('e, bytes) outcome" where
  "publish_invalid ring slot = write_bytes ring slot (le_bytes 2 kAqlPacketTypeInvalid)"

definition publish_body :: "bytes \<Rightarrow> nat \<Rightarrow> bytes \<Rightarrow> ('e, bytes) outcome" where
  "publish_body ring slot packet = write_bytes ring (slot + 2) (drop 2 packet)"

definition publish_header :: "bytes \<Rightarrow> nat \<Rightarrow> bytes \<Rightarrow> ('e, bytes) outcome" where
  "publish_header ring slot packet = write_bytes ring slot (take 2 packet)"

definition publish_packet :: "bytes \<Rightarrow> nat \<Rightarrow> bytes \<Rightarrow> ('e, bytes) outcome" where
  "publish_packet ring slot packet =
     obind (publish_invalid ring slot) (\<lambda>ring1.
     obind (publish_body ring1 slot packet) (\<lambda>ring2.
     publish_header ring2 slot packet))"

definition slot_offset :: "u64 \<Rightarrow> u64 \<Rightarrow> nat" where
  "slot_offset packet_count packet_id = unat ((packet_id AND (packet_count - 1)) * 64)"

section \<open>Submission\<close>

definition submit_packet ::
  "'s AqlQueueProducerOps \<Rightarrow> bytes \<Rightarrow> bool \<Rightarrow> 's \<Rightarrow> bytes \<Rightarrow> 's submitted" where
  "submit_packet queue packet capacity_prevalidated s ring =
     obind (if \<not> capacity_prevalidated
            then obind (call_pointer (ops_load_read_index queue)) (\<lambda>load_read.
                 obind (call_pointer (ops_load_write_index queue)) (\<lambda>load_write.
                 Ok (load_write s < load_read s \<or>
                     load_write s - load_read s \<ge> ops_packet_count queue)))
            else Ok False) (\<lambda>full.
     if full then submit_failed QueueFull s ring
     else
     obind (call_pointer (ops_reserve_packet queue)) (\<lambda>reserve.
     case reserve s 1 of
       (None, s') \<Rightarrow> submit_failed ReserveFailed s' ring
     | (Some packet_id, s') \<Rightarrow>
         obind (publish_packet ring (slot_offset (ops_packet_count queue) packet_id) packet) (\<lambda>ring'.
         obind (call_pointer (ops_ring_doorbell queue)) (\<lambda>doorbell.
         Ok (\<lparr>as_error = SubmitNone, as_packet_id = packet_id\<rparr>, doorbell s' packet_id, ring')))))"

definition packet_refused ::
  "'s AqlQueueProducerOps \<Rightarrow> 's \<Rightarrow> AqlKernelDispatchPacket \<Rightarrow> bool" where
  "packet_refused queue s packet \<longleftrightarrow> \<not> valid_aql_kernel_dispatch_packet packet \<or>
     (case ops_validate_packet queue of None \<Rightarrow> False | Some validate \<Rightarrow> \<not> validate s packet)"

definition submit_aql_kernel_dispatch ::
  "'s AqlQueueProducerOps \<Rightarrow> AqlKernelDispatchParameters \<Rightarrow> AqlDispatchOrdering \<Rightarrow> bool \<Rightarrow> 's \<Rightarrow>
   bytes \<Rightarrow> 's submitted" where
  "submit_aql_kernel_dispatch queue parameters ordr capacity_prevalidated s ring =
     (let packet = build_aql_kernel_dispatch_packet parameters ordr
      in if \<not> valid_queue queue then submit_failed InvalidQueue s ring
         else if packet_refused queue s packet then submit_failed InvalidPacket s ring
         else submit_packet queue (kernel_dispatch_bytes packet) capacity_prevalidated s ring)"

definition barrier_at :: "AqlBarrierAndParameters list \<Rightarrow> nat \<Rightarrow> (AqlSubmitError, AqlBarrierAndParameters) outcome" where
  "barrier_at barriers index = (if index < length barriers then Ok (barriers ! index) else Fault)"

text \<open>The loops over the barriers from \<open>index\<close> on, with the number of barriers left.\<close>

primrec check_barriers ::
  "AqlBarrierAndParameters list \<Rightarrow> nat \<Rightarrow> nat \<Rightarrow> (AqlSubmitError, bool) outcome" where
  "check_barriers barriers index 0 = Ok True"
| "check_barriers barriers index (Suc n) =
     obind (barrier_at barriers index) (\<lambda>p.
     if \<not> valid_aql_barrier_and_packet (build_aql_barrier_and_packet p) then Ok False
     else check_barriers barriers (index + 1) n)"

primrec publish_barriers ::
  "u64 \<Rightarrow> AqlBarrierAndParameters list \<Rightarrow> u64 \<Rightarrow> nat \<Rightarrow> nat \<Rightarrow> bytes \<Rightarrow> (AqlSubmitError, bytes) outcome" where
  "publish_barriers packet_count barriers first_packet_id index 0 ring = Ok ring"
| "publish_barriers packet_count barriers first_packet_id index (Suc n) ring =
     obind (barrier_at barriers index) (\<lambda>p.
     obind (publish_packet ring (slot_offset packet_count (first_packet_id + word_of_nat index))
              (barrier_and_bytes (build_aql_barrier_and_packet p))) (\<lambda>ring'.
     publish_barriers packet_count barriers first_packet_id (index + 1) n ring'))"

text \<open>The check that \<open>needed\<close> packets fit behind the indices the queue reports.\<close>

definition batch_full :: "'s AqlQueueProducerOps \<Rightarrow> 's \<Rightarrow> u64 \<Rightarrow> (AqlSubmitError, bool) outcome" where
  "batch_full queue s needed =
     (if needed > ops_packet_count queue then Ok True
      else
      obind (call_pointer (ops_load_read_index queue)) (\<lambda>load_read.
      obind (call_pointer (ops_load_write_index queue)) (\<lambda>load_write.
      Ok (load_write s < load_read s \<or>
          load_write s - load_read s > ops_packet_count queue - needed))))"

definition submit_aql_barriers_and ::
  "'s AqlQueueProducerOps \<Rightarrow> AqlBarrierAndParameters list option \<Rightarrow> u64 \<Rightarrow> 's \<Rightarrow> bytes \<Rightarrow> 's submitted" where
  "submit_aql_barriers_and queue barrier_parameters barrier_count s ring =
     (if \<not> valid_queue queue then submit_failed InvalidQueue s ring
      else case barrier_parameters of
        None \<Rightarrow> submit_failed InvalidPacket s ring
      | Some barriers \<Rightarrow>
          if barrier_count = 0 then submit_failed InvalidPacket s ring
          else
          obind (check_barriers barriers 0 (unat barrier_count)) (\<lambda>checked.
          if \<not> checked then submit_failed InvalidPacket s ring
          else
          obind (batch_full queue s barrier_count) (\<lambda>full.
          if full then submit_failed QueueFull s ring
          else
          obind (call_pointer (ops_reserve_packet queue)) (\<lambda>reserve.
          case reserve s barrier_count of
            (None, s') \<Rightarrow> submit_failed ReserveFailed s' ring
          | (Some first_packet_id, s') \<Rightarrow>
              obind (publish_barriers (ops_packet_count queue) barriers first_packet_id 0
                       (unat barrier_count) ring) (\<lambda>ring'.
              let last_packet_id = first_packet_id + barrier_count - 1 in
              obind (call_pointer (ops_ring_doorbell queue)) (\<lambda>doorbell.
              Ok (\<lparr>as_error = SubmitNone, as_packet_id = last_packet_id\<rparr>,
                  doorbell s' last_packet_id, ring')))))))"

definition submit_aql_barrier_and ::
  "'s AqlQueueProducerOps \<Rightarrow> AqlBarrierAndParameters \<Rightarrow> 's \<Rightarrow> bytes \<Rightarrow> 's submitted" where
  "submit_aql_barrier_and queue parameters s ring =
     submit_aql_barriers_and queue (Some [parameters]) 1 s ring"

definition submit_aql_barriers_and_kernel_dispatch ::
  "'s AqlQueueProducerOps \<Rightarrow> AqlBarrierAndParameters list option \<Rightarrow> u64 \<Rightarrow>
   AqlKernelDispatchParameters \<Rightarrow> AqlDispatchOrdering \<Rightarrow> 's \<Rightarrow> bytes \<Rightarrow> 's submitted" where
  "submit_aql_barriers_and_kernel_dispatch queue barrier_parameters barrier_count
     dispatch_parameters ordr s ring =
     (if \<not> valid_queue queue then submit_failed InvalidQueue s ring
      else case barrier_parameters of
        None \<Rightarrow> submit_failed InvalidPacket s ring
      | Some barriers \<Rightarrow>
          if barrier_count = 0 \<or> barrier_count = - 1 then submit_failed InvalidPacket s ring
          else
          obind (check_barriers barriers 0 (unat barrier_count)) (\<lambda>checked.
          if \<not> checked then submit_failed InvalidPacket s ring
          else
          let dispatch = build_aql_kernel_dispatch_packet dispatch_parameters ordr in
          if packet_refused queue s dispatch then submit_failed InvalidPacket s ring
          else
          obind (batch_full queue s (barrier_count + 1)) (\<lambda>full.
          if full then submit_failed QueueFull s ring
          else
          obind (call_pointer (ops_reserve_packet queue)) (\<lambda>reserve.
          case reserve s (barrier_count + 1) of
            (None, s') \<Rightarrow> submit_failed ReserveFailed s' ring
          | (Some first_packet_id, s') \<Rightarrow>
              obind (publish_barriers (ops_packet_count queue) barriers first_packet_id 0
                       (unat barrier_count) ring) (\<lambda>ring1.
              let dispatch_packet_id = first_packet_id + barrier_count in
              obind (publish_packet ring1 (slot_offset (ops_packet_count queue) dispatch_packet_id)
                       (kernel_dispatch_bytes dispatch)) (\<lambda>ring2.
              obind (call_pointer (ops_ring_doorbell queue)) (\<lambda>doorbell.
              Ok (\<lparr>as_error = SubmitNone, as_packet_id = dispatch_packet_id\<rparr>,
                  doorbell s' dispatch_packet_id, ring2))))))))"

section \<open>Slots of the ring\<close>

definition ring_slot :: "nat \<Rightarrow> bytes \<Rightarrow> nat \<Rightarrow> bytes" where
  "ring_slot c ring i = take 64 (drop (64 * (i mod c)) ring)"

abbreviation slots :: "nat \<Rightarrow> bytes \<Rightarrow> nat \<Rightarrow> nat \<Rightarrow> bytes list" where
  "slots c ring i j \<equiv> map (ring_slot c ring) [i ..< j]"

lemma power_of_two_and:
  assumes "is_power_of_two (c :: u64)"
  shows "unat (x AND (c - 1)) = unat x mod unat c"
proof -
  obtain k where k: "unat c = 2 ^ k" using assms by (rule is_power_of_two_unat)
  have "k < 64"
  proof (rule ccontr)
    assume "\<not> k < 64"
    then have "(2 :: nat) ^ 64 \<le> 2 ^ k" by (intro power_increasing) auto
    with k unat_u64_less [of c] show False by simp
  qed
  have "c = word_of_nat (unat c)" by simp
  then have "c = 2 ^ k" by (simp add: k)
  then have "c - 1 = mask k" by (simp add: mask_eq_exp_minus_1)
  then show ?thesis
    by (simp add: take_bit_eq_mask [symmetric] unsigned_take_bit_eq take_bit_nat_def k)
qed

lemma slot_offset_eq:
  assumes "is_power_of_two n" and "64 * unat n < 2 ^ 64"
  shows "slot_offset n i = 64 * (unat i mod unat n)"
proof -
  let ?x = "i AND (n - 1)"
  have "0 < unat n" using assms(1) by (auto simp: is_power_of_two_def unat_gt_0)
  then have "unat ?x < unat n" by (simp add: power_of_two_and [OF assms(1)])
  then have "unat ?x * 64 < 2 ^ 64" using assms(2) by simp
  then have "unat (?x * 64) = unat ?x * 64" by (simp add: unat_word_ariths)
  then show ?thesis by (simp add: slot_offset_def power_of_two_and [OF assms(1)])
qed

lemma publish_packet_eq:
  assumes "length packet = 64" and "slot + 64 \<le> length ring"
  shows "publish_packet ring slot packet = Ok (splice ring slot packet)"
proof -
  have "splice (splice (splice ring slot (le_bytes 2 kAqlPacketTypeInvalid)) (slot + 2) (drop 2 packet)) slot (take 2 packet) =
      splice ring slot packet"
    using assms by (intro nth_equalityI) (auto simp: nth_splice intro!: arg_cong [where f = "nth packet"])
  with assms show ?thesis
    by (simp add: publish_packet_def publish_invalid_def publish_body_def publish_header_def write_bytes_Ok)
qed

text \<open>The states of the ring a reader can see while a packet is published.\<close>

lemma publish_states:
  assumes "length packet = 64" and "slot + 64 \<le> length ring"
  shows "\<exists>ring1 ring2. (publish_invalid ring slot :: ('e, bytes) outcome) = Ok ring1 \<and>
    (publish_body ring1 slot packet :: ('e, bytes) outcome) = Ok ring2 \<and>
    (publish_header ring2 slot packet :: ('e, bytes) outcome) = Ok (splice ring slot packet) \<and>
    (\<forall>r \<in> {ring1, ring2}. length r = length ring \<and> take 2 (drop slot r) = le_bytes 2 kAqlPacketTypeInvalid \<and>
       (\<forall>i < length ring. i < slot \<or> slot + 64 \<le> i \<longrightarrow> r ! i = ring ! i))"
proof -
  let ?h = "le_bytes 2 kAqlPacketTypeInvalid"
  let ?r1 = "splice ring slot ?h"
  let ?r2 = "splice ?r1 (slot + 2) (drop 2 packet)"
  have one: "(publish_invalid ring slot :: ('e, bytes) outcome) = Ok ?r1"
    and two: "(publish_body ?r1 slot packet :: ('e, bytes) outcome) = Ok ?r2"
    using assms by (simp_all add: publish_invalid_def publish_body_def write_bytes_Ok)
  have three: "(publish_header ?r2 slot packet :: ('e, bytes) outcome) = Ok (splice ring slot packet)"
    using publish_packet_eq [OF assms, where 'a = 'e] by (simp add: publish_packet_def one two)
  have len: "length ?r1 = length ring" "length ?r2 = length ring" using assms by simp_all
  have "take 2 (drop slot ?r1) = ?h \<and> take 2 (drop slot ?r2) = ?h"
    using assms by (auto simp: nth_splice intro!: nth_equalityI)
  moreover have "?r1 ! i = ring ! i \<and> ?r2 ! i = ring ! i" if "i < length ring" "i < slot \<or> slot + 64 \<le> i" for i
    using that assms by (auto simp: nth_splice)
  ultimately show ?thesis using one two three len by blast
qed

lemma slot_fits: "0 < c \<Longrightarrow> 64 * (k mod c) + 64 \<le> 64 * c" for k c :: nat
  using mod_less_divisor [of c k] by linarith

lemma ring_slot_splice:
  assumes "0 < c" and "length ring = 64 * c" and "length packet = 64"
  shows "ring_slot c (splice ring (64 * (j mod c)) packet) i =
    (if i mod c = j mod c then packet else ring_slot c ring i)"
proof (rule nth_equalityI)
  have fit: "64 * (k mod c) + 64 \<le> length ring" for k
    using slot_fits [OF assms(1)] assms(2) by simp
  have len: "length (ring_slot c r i) = 64" if "length r = length ring" for r
    using fit [of i] that by (simp add: ring_slot_def)
  have spl: "length (splice ring (64 * (j mod c)) packet) = length ring"
    using fit [of j] assms(3) by simp
  show "length (ring_slot c (splice ring (64 * (j mod c)) packet) i) =
      length (if i mod c = j mod c then packet else ring_slot c ring i)"
    using len spl assms(3) by simp
  fix k
  assume "k < length (ring_slot c (splice ring (64 * (j mod c)) packet) i)"
  then have k: "k < 64" using len [OF spl] by simp
  have "ring_slot c (splice ring (64 * (j mod c)) packet) i ! k =
      splice ring (64 * (j mod c)) packet ! (64 * (i mod c) + k)"
    using k fit [of i] spl by (simp add: ring_slot_def)
  also have "\<dots> = (if 64 * (j mod c) \<le> 64 * (i mod c) + k \<and> 64 * (i mod c) + k < 64 * (j mod c) + 64
      then packet ! (64 * (i mod c) + k - 64 * (j mod c)) else ring ! (64 * (i mod c) + k))"
    using k fit [of i] fit [of j] assms(3) by (subst nth_splice) auto
  also have "\<dots> = (if i mod c = j mod c then packet else ring_slot c ring i) ! k"
    using k fit [of i] by (auto simp: ring_slot_def)
  finally show "ring_slot c (splice ring (64 * (j mod c)) packet) i ! k =
      (if i mod c = j mod c then packet else ring_slot c ring i) ! k" .
qed

text \<open>A packet written behind the waiting ones, while there is room, joins them and touches none.\<close>

lemma slots_snoc:
  assumes "i \<le> j" and "j < i + c" and "length ring = 64 * c" and "length packet = 64"
  shows "slots c (splice ring (64 * (j mod c)) packet) i (Suc j) = slots c ring i j @ [packet]"
proof -
  have "0 < c" using assms by simp
  have "k mod c \<noteq> j mod c" if "i \<le> k" "k < j" for k
  proof
    assume "k mod c = j mod c"
    then have "c dvd j - k" using that(2) mod_eq_dvd_iff_nat [of k j c] by simp
    with that assms show False by (auto dest!: dvd_imp_le)
  qed
  with assms \<open>0 < c\<close> show ?thesis
    by (auto simp: ring_slot_splice)
qed

lemma publish_slot:
  assumes "is_power_of_two n" and "64 * unat n < 2 ^ 64" and "length ring = 64 * unat n"
    and "length packet = 64" and "i \<le> unat w" and "unat w < i + unat n"
  shows "\<exists>ring'. publish_packet ring (slot_offset n w) packet = Ok ring' \<and> length ring' = length ring \<and>
    slots (unat n) ring' i (Suc (unat w)) = slots (unat n) ring i (unat w) @ [packet]"
proof -
  have "0 < unat n" using assms(5,6) by simp
  then have "64 * (unat w mod unat n) + 64 \<le> length ring"
    using slot_fits [of "unat n" "unat w"] assms(3) by simp
  then show ?thesis
    using assms slots_snoc [OF assms(5,6,3,4)]
    by (auto simp: slot_offset_eq publish_packet_eq)
qed

definition barrier_packet :: "AqlBarrierAndParameters \<Rightarrow> bytes" where
  "barrier_packet p = barrier_and_bytes (build_aql_barrier_and_packet p)"

definition barriers_ok :: "AqlBarrierAndParameters list \<Rightarrow> bool" where
  "barriers_ok bs \<longleftrightarrow> (\<forall>p \<in> set bs. length (bp_dependency_signals p) = 5)"

lemma length_barrier_packet: "barriers_ok bs \<Longrightarrow> p \<in> set bs \<Longrightarrow> length (barrier_packet p) = 64"
  by (simp add: barriers_ok_def barrier_packet_def build_aql_barrier_and_packet_def)

lemma publish_barriers_slots:
  assumes "is_power_of_two n" and "64 * unat n < 2 ^ 64" and "length ring = 64 * unat n"
    and "barriers_ok bs" and "index + k \<le> length bs"
    and "i \<le> unat w + index" and "unat w + index + k \<le> i + unat n" and "unat w + index + k < 2 ^ 64"
  shows "\<exists>ring'. publish_barriers n bs w index k ring = Ok ring' \<and> length ring' = length ring \<and>
    slots (unat n) ring' i (unat w + index + k) =
      slots (unat n) ring i (unat w + index) @ map barrier_packet (take k (drop index bs))"
  using assms
proof (induction k arbitrary: index ring)
  case (Suc k)
  let ?p = "bs ! index"
  have index: "index < length bs" using Suc.prems(5) by simp
  have w: "unat (w + word_of_nat index) = unat w + index"
    using Suc.prems(8) by (simp add: unat_word_ariths unat_of_nat)
  obtain ring1 where one: "(publish_packet ring (slot_offset n (w + word_of_nat index)) (barrier_packet ?p) :: (AqlSubmitError, bytes) outcome) =
      Ok ring1"
    "length ring1 = length ring"
    "slots (unat n) ring1 i (Suc (unat w + index)) = slots (unat n) ring i (unat w + index) @ [barrier_packet ?p]"
    using publish_slot [OF Suc.prems(1-3) length_barrier_packet [OF Suc.prems(4)], of ?p i "w + word_of_nat index"]
      Suc.prems(6,7) index by (auto simp: w)
  obtain ring2 where two: "publish_barriers n bs w (index + 1) k ring1 = Ok ring2" "length ring2 = length ring1"
    "slots (unat n) ring2 i (unat w + (index + 1) + k) =
       slots (unat n) ring1 i (unat w + (index + 1)) @ map barrier_packet (take k (drop (index + 1) bs))"
    using Suc.IH [of ring1 "index + 1"] Suc.prems one(2) by auto
  have "take (Suc k) (drop index bs) = ?p # take k (drop (index + 1) bs)"
    using index by (simp add: Cons_nth_drop_Suc [symmetric])
  with one two index show ?case
    by (auto simp: barrier_at_def barrier_packet_def [symmetric] simp del: upt_Suc)
qed simp

lemma check_barriers_eq: "index + k \<le> length bs \<Longrightarrow> check_barriers bs index k = Ok True"
  by (induction k arbitrary: index) (auto simp: barrier_at_def valid_built_barrier)

section \<open>The contract of the queue\<close>

text \<open>A ring with its indices, and the packets waiting between them.\<close>

definition ring_ok :: "u64 \<Rightarrow> bytes \<Rightarrow> u64 \<Rightarrow> u64 \<Rightarrow> bool" where
  "ring_ok n ring r w \<longleftrightarrow> is_power_of_two n \<and> length ring = 64 * unat n \<and> 64 * unat n < 2 ^ 64 \<and>
     unat r \<le> unat w \<and> unat w \<le> unat r + unat n"

definition pending_packets :: "u64 \<Rightarrow> bytes \<Rightarrow> u64 \<Rightarrow> u64 \<Rightarrow> bytes list" where
  "pending_packets n ring r w = slots (unat n) ring (unat r) (unat w)"

text \<open>
  A call that submits the packets \<open>ps\<close>, seen from the outside: it returns, and either it appended
  the packets to the waiting ones and reports the last identifier, or it changed nothing. \<open>frame\<close> is
  the part of the queue no submission changes.
\<close>

definition batch_submitted ::
  "('s \<Rightarrow> u64) \<Rightarrow> ('s \<Rightarrow> u64) \<Rightarrow> ('s \<Rightarrow> 'f) \<Rightarrow> u64 \<Rightarrow> 's \<Rightarrow> bytes \<Rightarrow> bytes list \<Rightarrow> 's submitted \<Rightarrow> bool" where
  "batch_submitted load_read load_write frame n s ring ps m \<longleftrightarrow> (\<exists>res s' ring'. m = Ok (res, s', ring') \<and>
     load_read s' = load_read s \<and> frame s' = frame s \<and> ring_ok n ring' (load_read s') (load_write s') \<and>
     (if as_error res = SubmitNone
      then pending_packets n ring' (load_read s') (load_write s') =
             pending_packets n ring (load_read s) (load_write s) @ ps \<and>
           unat (as_packet_id res) + 1 = unat (load_write s')
      else s' = s \<and> ring' = ring))"

locale aql_queue_contract =
  fixes load_read load_write :: "'s \<Rightarrow> u64"
    and reserve :: "'s \<Rightarrow> u64 \<Rightarrow> u64 option \<times> 's"
    and doorbell :: "'s \<Rightarrow> u64 \<Rightarrow> 's"
    and frame :: "'s \<Rightarrow> 'f"
  assumes reserve_Some: "reserve s n = (Some first, s') \<Longrightarrow>
      first = load_write s \<and> unat (load_write s') = unat (load_write s) + unat n \<and> load_read s' = load_read s \<and>
      frame s' = frame s"
    and reserve_None: "reserve s n = (None, s') \<Longrightarrow> s' = s"
    and doorbell_read: "load_read (doorbell s v) = load_read s"
    and doorbell_write: "load_write (doorbell s v) = load_write s"
    and doorbell_frame: "frame (doorbell s v) = frame s"

locale aql_producer_queue = aql_queue_contract load_read load_write reserve doorbell frame
  for load_read load_write :: "'s \<Rightarrow> u64"
    and reserve :: "'s \<Rightarrow> u64 \<Rightarrow> u64 option \<times> 's"
    and doorbell :: "'s \<Rightarrow> u64 \<Rightarrow> 's"
    and frame :: "'s \<Rightarrow> 'f" +
  fixes queue :: "'s AqlQueueProducerOps"
  assumes pointers: "ops_load_read_index queue = Some load_read"
      "ops_load_write_index queue = Some load_write"
      "ops_reserve_packet queue = Some reserve" "ops_ring_doorbell queue = Some doorbell"
begin

lemma refused:
  assumes "ring_ok n ring (load_read s) (load_write s)" and "e \<noteq> SubmitNone"
  shows "batch_submitted load_read load_write frame n s ring ps (submit_failed e s ring)"
  using assms by (simp add: batch_submitted_def)

lemma batch_full_eq:
  assumes "ring_ok (ops_packet_count queue) ring (load_read s) (load_write s)"
  shows "batch_full queue s k = Ok (\<not> unat (load_write s) + unat k \<le> unat (load_read s) + unat (ops_packet_count queue))"
  using assms
  by (auto simp: batch_full_def call_pointer_def pointers ring_ok_def word_less_nat_alt unat_sub word_le_nat_alt)

lemma submit_packet_appends:
  assumes ok: "ring_ok (ops_packet_count queue) ring (load_read s) (load_write s)" and "length packet = 64"
    and "prevalidated \<Longrightarrow> unat (load_write s) < unat (load_read s) + unat (ops_packet_count queue)"
  shows "batch_submitted load_read load_write frame (ops_packet_count queue) s ring [packet]
    (submit_packet queue packet prevalidated s ring)"
proof -
  let ?n = "ops_packet_count queue" and ?r = "load_read s" and ?w = "load_write s"
  have full: "(?w < ?r \<or> ?w - ?r \<ge> ?n) \<longleftrightarrow> \<not> unat ?w < unat ?r + unat ?n"
    using ok by (auto simp: ring_ok_def word_less_nat_alt word_le_nat_alt unat_sub)
  show ?thesis
  proof (cases "unat ?w < unat ?r + unat ?n")
    case False
    with assms(3) have "submit_packet queue packet prevalidated s ring = submit_failed QueueFull s ring"
      by (auto simp: submit_packet_def call_pointer_def pointers full)
    then show ?thesis using refused [OF ok] by simp
  next
    case room: True
    obtain first s' where res: "reserve s 1 = (first, s')" by (cases "reserve s 1")
    show ?thesis
    proof (cases first)
      case None
      with res reserve_None have "submit_packet queue packet prevalidated s ring = submit_failed ReserveFailed s ring"
        using room by (auto simp: submit_packet_def call_pointer_def pointers full)
      then show ?thesis using refused [OF ok] by simp
    next
      case (Some i)
      with res have law: "i = ?w" "unat (load_write s') = unat ?w + 1" "load_read s' = ?r" "frame s' = frame s"
        using reserve_Some [of s 1 i s'] by auto
      obtain ring' where pub: "(publish_packet ring (slot_offset ?n ?w) packet :: (AqlSubmitError, bytes) outcome) = Ok ring'" "length ring' = length ring"
        "slots (unat ?n) ring' (unat ?r) (Suc (unat ?w)) = slots (unat ?n) ring (unat ?r) (unat ?w) @ [packet]"
        using publish_slot [of ?n ring packet "unat ?r" ?w] ok assms(2) room by (auto simp: ring_ok_def)
      have "submit_packet queue packet prevalidated s ring =
          Ok (\<lparr>as_error = SubmitNone, as_packet_id = ?w\<rparr>, doorbell s' ?w, ring')"
        using room pub(1) by (auto simp: submit_packet_def call_pointer_def pointers full res Some law(1))
      then show ?thesis
        using ok pub law room
        by (simp add: batch_submitted_def doorbell_read doorbell_write doorbell_frame ring_ok_def pending_packets_def del: upt_Suc)
    qed
  qed
qed

lemma dispatch_appends:
  assumes "ring_ok (ops_packet_count queue) ring (load_read s) (load_write s)"
    and "prevalidated \<Longrightarrow> unat (load_write s) < unat (load_read s) + unat (ops_packet_count queue)"
  shows "batch_submitted load_read load_write frame (ops_packet_count queue) s ring
    [kernel_dispatch_bytes (build_aql_kernel_dispatch_packet parameters ordr)]
    (submit_aql_kernel_dispatch queue parameters ordr prevalidated s ring)"
  unfolding submit_aql_kernel_dispatch_def Let_def
  using submit_packet_appends [OF assms(1) _ assms(2)] refused [OF assms(1)] by simp

text \<open>The tail the batch submissions share: reserve, publish with \<open>f\<close>, ring the doorbell.\<close>

lemma reserved_batch_appends:
  assumes ok: "ring_ok (ops_packet_count queue) ring (load_read s) (load_write s)"
    and room: "unat (load_write s) + unat k \<le> unat (load_read s) + unat (ops_packet_count queue)"
    and last: "\<And>w. w + k - 1 = l w" and "k \<noteq> 0"
    and publish: "\<And>w. w = load_write s \<Longrightarrow> unat w + unat k < 2 ^ 64 \<Longrightarrow> \<exists>ring'. f w = Ok ring' \<and>
      length ring' = length ring \<and>
      slots (unat (ops_packet_count queue)) ring' (unat (load_read s)) (unat w + unat k) =
        slots (unat (ops_packet_count queue)) ring (unat (load_read s)) (unat w) @ ps"
  shows "batch_submitted load_read load_write frame (ops_packet_count queue) s ring ps
    (case reserve s k of
       (None, s') \<Rightarrow> submit_failed ReserveFailed s' ring
     | (Some w, s') \<Rightarrow> obind (f w) (\<lambda>ring'.
         Ok (\<lparr>as_error = SubmitNone, as_packet_id = l w\<rparr>, doorbell s' (l w), ring')))"
proof -
  obtain first s' where res: "reserve s k = (first, s')" by (cases "reserve s k")
  show ?thesis
  proof (cases first)
    case None
    with res reserve_None have "s' = s" by blast
    then show ?thesis using refused [OF ok] by (simp add: res None)
  next
    case (Some w)
    with res have law: "w = load_write s" "unat (load_write s') = unat (load_write s) + unat k" "load_read s' = load_read s"
      "frame s' = frame s"
      using reserve_Some [of s k w s'] by auto
    then have small: "unat w + unat k < 2 ^ 64" using unat_u64_less [of "load_write s'"] by simp
    from publish [OF law(1) this] obtain ring' where pub: "f w = Ok ring'" "length ring' = length ring"
      "slots (unat (ops_packet_count queue)) ring' (unat (load_read s)) (unat w + unat k) =
        slots (unat (ops_packet_count queue)) ring (unat (load_read s)) (unat w) @ ps"
      by blast
    have k: "1 \<le> k" "0 < unat k" using \<open>k \<noteq> 0\<close> by (simp_all add: word_le_nat_alt unat_gt_0 Suc_le_eq)
    have "unat (w + k) = unat w + unat k" using small by (intro unat_add64) simp
    moreover have "1 \<le> w + k" using calculation k(2) by (simp add: word_le_nat_alt)
    ultimately have "unat (l w) + 1 = unat w + unat k"
      using k(2) by (simp add: last [symmetric] unat_sub)
    then show ?thesis
      using ok room pub law
      by (simp add: res Some batch_submitted_def doorbell_read doorbell_write doorbell_frame ring_ok_def pending_packets_def)
  qed
qed

lemma barriers_append:
  assumes ok: "ring_ok (ops_packet_count queue) ring (load_read s) (load_write s)"
    and "\<And>bs. bp = Some bs \<Longrightarrow> barriers_ok bs \<and> unat k \<le> length bs"
  shows "batch_submitted load_read load_write frame (ops_packet_count queue) s ring
    (case bp of None \<Rightarrow> [] | Some bs \<Rightarrow> map barrier_packet (take (unat k) bs))
    (submit_aql_barriers_and queue bp k s ring)"
proof (cases "valid_queue queue \<and> bp \<noteq> None \<and> k \<noteq> 0 \<and>
    unat (load_write s) + unat k \<le> unat (load_read s) + unat (ops_packet_count queue)")
  case True
  then obtain bs where bs: "bp = Some bs" by blast
  note room = True [THEN conjunct2, THEN conjunct2, THEN conjunct2]
  have run: "submit_aql_barriers_and queue bp k s ring =
      (case reserve s k of
         (None, s') \<Rightarrow> submit_failed ReserveFailed s' ring
       | (Some w, s') \<Rightarrow> obind (publish_barriers (ops_packet_count queue) bs w 0 (unat k) ring) (\<lambda>ring'.
           Ok (\<lparr>as_error = SubmitNone, as_packet_id = w + k - 1\<rparr>, doorbell s' (w + k - 1), ring')))"
    using True assms(2) [OF bs]
    by (simp add: submit_aql_barriers_and_def bs check_barriers_eq batch_full_eq [OF ok] call_pointer_def pointers Let_def
        cong: prod.case_cong option.case_cong)
  show ?thesis unfolding run
  proof (rule reserved_batch_appends [OF ok room refl])
    show "k \<noteq> 0" using True by blast
    fix w
    assume w: "w = load_write s" "unat w + unat k < 2 ^ 64"
    show "\<exists>ring'. publish_barriers (ops_packet_count queue) bs w 0 (unat k) ring = Ok ring' \<and>
        length ring' = length ring \<and>
        slots (unat (ops_packet_count queue)) ring' (unat (load_read s)) (unat w + unat k) =
          slots (unat (ops_packet_count queue)) ring (unat (load_read s)) (unat w) @
          (case bp of None \<Rightarrow> [] | Some bs \<Rightarrow> map barrier_packet (take (unat k) bs))"
      using publish_barriers_slots [of "ops_packet_count queue" ring bs 0 "unat k" "unat (load_read s)" w]
        ok room w assms(2) [OF bs] by (simp add: ring_ok_def bs)
  qed
next
  case False
  then have "\<exists>e. e \<noteq> SubmitNone \<and> submit_aql_barriers_and queue bp k s ring = submit_failed e s ring"
    using assms(2)
    by (auto simp: submit_aql_barriers_and_def check_barriers_eq batch_full_eq [OF ok] split: option.splits)
  then show ?thesis using refused [OF ok] by metis
qed

lemma barriers_and_dispatch_append:
  assumes ok: "ring_ok (ops_packet_count queue) ring (load_read s) (load_write s)"
    and "\<And>bs. bp = Some bs \<Longrightarrow> barriers_ok bs \<and> unat k \<le> length bs"
  shows "batch_submitted load_read load_write frame (ops_packet_count queue) s ring
    ((case bp of None \<Rightarrow> [] | Some bs \<Rightarrow> map barrier_packet (take (unat k) bs)) @
     [kernel_dispatch_bytes (build_aql_kernel_dispatch_packet parameters ordr)])
    (submit_aql_barriers_and_kernel_dispatch queue bp k parameters ordr s ring)"
proof (cases "valid_queue queue \<and> bp \<noteq> None \<and> \<not> (k = 0 \<or> k = - 1) \<and>
    \<not> packet_refused queue s (build_aql_kernel_dispatch_packet parameters ordr) \<and>
    unat (load_write s) + unat (k + 1) \<le> unat (load_read s) + unat (ops_packet_count queue)")
  case True
  then obtain bs where bs: "bp = Some bs" by blast
  let ?n = "ops_packet_count queue" and ?d = "build_aql_kernel_dispatch_packet parameters ordr"
  have room: "unat (load_write s) + unat (k + 1) \<le> unat (load_read s) + unat ?n" and k: "k + 1 \<noteq> 0"
    using True by (auto simp: eq_neg_iff_add_eq_0)
  have k1: "unat (k + 1) = Suc (unat k)" using k unatSuc [of k] by (simp add: add.commute)
  have run: "submit_aql_barriers_and_kernel_dispatch queue bp k parameters ordr s ring =
      (case reserve s (k + 1) of
         (None, s') \<Rightarrow> submit_failed ReserveFailed s' ring
       | (Some w, s') \<Rightarrow> obind (obind (publish_barriers ?n bs w 0 (unat k) ring) (\<lambda>ring1.
             publish_packet ring1 (slot_offset ?n (w + k)) (kernel_dispatch_bytes ?d))) (\<lambda>ring'.
           Ok (\<lparr>as_error = SubmitNone, as_packet_id = w + k\<rparr>, doorbell s' (w + k), ring')))"
    using True assms(2) [OF bs]
    by (simp add: submit_aql_barriers_and_kernel_dispatch_def bs check_barriers_eq batch_full_eq [OF ok]
        call_pointer_def pointers Let_def obind_assoc cong: prod.case_cong option.case_cong)
  show ?thesis unfolding run
  proof (rule reserved_batch_appends [OF ok room _ k])
    show "w + (k + 1) - 1 = w + k" for w by simp
    fix w
    assume w: "w = load_write s" "unat w + unat (k + 1) < 2 ^ 64"
    obtain ring1 where one: "publish_barriers ?n bs w 0 (unat k) ring = Ok ring1" "length ring1 = length ring"
      "slots (unat ?n) ring1 (unat (load_read s)) (unat w + unat k) =
        slots (unat ?n) ring (unat (load_read s)) (unat w) @ map barrier_packet (take (unat k) bs)"
      using publish_barriers_slots [of ?n ring bs 0 "unat k" "unat (load_read s)" w]
        ok room w assms(2) [OF bs] by (auto simp: ring_ok_def k1)
    have wk: "unat (w + k) = unat w + unat k" using w(2) by (intro unat_add64) (simp add: k1)
    have n: "is_power_of_two ?n" "64 * unat ?n < 2 ^ 64" "length ring1 = 64 * unat ?n"
      and range: "unat (load_read s) \<le> unat (w + k)" "unat (w + k) < unat (load_read s) + unat ?n"
      using ok room w(1) one(2) wk by (auto simp: ring_ok_def k1)
    obtain ring2 where "(publish_packet ring1 (slot_offset ?n (w + k)) (kernel_dispatch_bytes ?d) ::
        (AqlSubmitError, bytes) outcome) = Ok ring2" "length ring2 = length ring1"
      "slots (unat ?n) ring2 (unat (load_read s)) (Suc (unat (w + k))) =
        slots (unat ?n) ring1 (unat (load_read s)) (unat (w + k)) @ [kernel_dispatch_bytes ?d]"
      using publish_slot [OF n length_kernel_dispatch_bytes range] by blast
    with one show "\<exists>ring'. obind (publish_barriers ?n bs w 0 (unat k) ring) (\<lambda>ring1.
          publish_packet ring1 (slot_offset ?n (w + k)) (kernel_dispatch_bytes ?d)) = Ok ring' \<and>
        length ring' = length ring \<and>
        slots (unat ?n) ring' (unat (load_read s)) (unat w + unat (k + 1)) =
          slots (unat ?n) ring (unat (load_read s)) (unat w) @
          (case bp of None \<Rightarrow> [] | Some bs \<Rightarrow> map barrier_packet (take (unat k) bs)) @ [kernel_dispatch_bytes ?d]"
      by (simp add: bs k1 wk del: upt_Suc)
  qed
next
  case False
  then have "\<exists>e. e \<noteq> SubmitNone \<and>
      submit_aql_barriers_and_kernel_dispatch queue bp k parameters ordr s ring = submit_failed e s ring"
    using assms(2)
    by (auto simp: submit_aql_barriers_and_kernel_dispatch_def Let_def check_barriers_eq batch_full_eq [OF ok]
        split: option.splits)
  then show ?thesis using refused [OF ok] by metis
qed

end

end
