(* ===== verification/QueueTransport.thy ===== *)
theory QueueTransport
  imports AqlProducer
begin

text \<open>
  The AQL queue objects of the two transports, \<open>light-rocr/transport/kfd/queue.cpp\<close> and
  \<open>light-rocr/transport/hsakmt/queue.cpp\<close>, as far as a producer uses them, and the adapters
  \<open>src/light_rocr_kfd_aql_queue.hpp\<close> and \<open>src/light_rocr_aql_queue.hpp\<close>. Creation and release of the
  queue go through the kernel and are not modelled here.

  The reservation is a compare-and-swap loop; the other producers are a list of interfering writes,
  one between each load and the swap that follows it. The lemmas show that the loop returns when the
  interference ends and acts as one checked addition, that both queue objects meet the producer's
  contract, and that any run of submissions and of reads by the device is a first-in first-out queue
  of packets.
\<close>

unbundle bit_operations_syntax

section \<open>The queue object\<close>

datatype AqlQueuePrimitiveError =
    PrimitiveNone | PrimitiveInvalidQueue | PrimitiveInvalidIncrement | PrimitiveIndexOverflow
  | PrimitiveInvalidDoorbell

text \<open>
  \<open>aq_state\<close>: the object owns a state; \<open>aq_control\<close> and \<open>aq_ring\<close>: the control block and the ring are
  mapped on the host; the two dispatch identifiers and the properties are fields of the control
  block; \<open>aq_doorbell\<close> is the last value stored to the doorbell.
\<close>

record AqlQueue =
  aq_state :: bool
  aq_active :: bool
  aq_control :: bool
  aq_ring :: bool
  aq_doorbell_address :: u64
  aq_ring_size :: u64
  aq_scratch_private_segment_size :: u32
  aq_read_dispatch_id :: u64
  aq_write_dispatch_id :: u64
  aq_queue_properties :: u32
  aq_doorbell :: "u64 option"

abbreviation (input) "kAqlPacketSize \<equiv> (64 :: u64)"
abbreviation (input) "kAmdQueuePropertyEnableProfiling \<equiv> (push_bit 3 1 :: u32)"

definition packet_count :: "AqlQueue \<Rightarrow> u64" where
  "packet_count q = (if aq_state q then aq_ring_size q div kAqlPacketSize else 0)"

definition scratch_private_segment_size :: "AqlQueue \<Rightarrow> u32" where
  "scratch_private_segment_size q = (if aq_state q then aq_scratch_private_segment_size q else 0)"

definition read_index_acquire :: "AqlQueue \<Rightarrow> u64" where
  "read_index_acquire q = (if \<not> aq_state q \<or> \<not> aq_control q then 0 else aq_read_dispatch_id q)"

definition write_index_relaxed :: "AqlQueue \<Rightarrow> u64" where
  "write_index_relaxed q = (if \<not> aq_state q \<or> \<not> aq_control q then 0 else aq_write_dispatch_id q)"

definition set_profiling_enabled :: "bool \<Rightarrow> AqlQueue \<Rightarrow> AqlQueue" where
  "set_profiling_enabled enabled q =
     (if \<not> aq_state q \<or> \<not> aq_control q then q
      else if enabled
      then q\<lparr>aq_queue_properties := aq_queue_properties q OR kAmdQueuePropertyEnableProfiling\<rparr>
      else q\<lparr>aq_queue_properties := aq_queue_properties q AND NOT kAmdQueuePropertyEnableProfiling\<rparr>)"

definition profiling_enabled :: "AqlQueue \<Rightarrow> bool" where
  "profiling_enabled q =
     (if \<not> aq_state q \<or> \<not> aq_control q then False
      else aq_queue_properties q AND kAmdQueuePropertyEnableProfiling \<noteq> 0)"

section \<open>The write index\<close>

text \<open>
  The loop of \<open>add_write_index_scacq_screl\<close>. \<open>others\<close> are the writes of other producers, one before
  each compare-and-swap; \<open>index\<close> is the word in memory. The result is the error, the previous index
  and the word after the call.
\<close>

function write_index_loop ::
  "(u64 \<Rightarrow> u64) list \<Rightarrow> u64 \<Rightarrow> u64 \<Rightarrow> u64 \<Rightarrow> AqlQueuePrimitiveError \<times> u64 \<times> u64" where
  "write_index_loop others increment previous index =
     (if previous > (- 1) - increment then (PrimitiveIndexOverflow, previous, index)
      else
      let desired = previous + increment;
          seen = (case others of [] \<Rightarrow> index | f # fs \<Rightarrow> f index)
      in if seen = previous then (PrimitiveNone, previous, desired)
         else write_index_loop (tl others) increment seen seen)"
  by pat_completeness auto
termination
  by (relation "measure (\<lambda>(others, increment, previous, index).
      2 * length others + (if previous = index then 0 else 1))")
    (auto split: list.splits)

declare write_index_loop.simps [simp del]

definition add_write_index_scacq_screl ::
  "(u64 \<Rightarrow> u64) list \<Rightarrow> u64 \<Rightarrow> AqlQueue \<Rightarrow> (AqlQueuePrimitiveError \<times> u64) \<times> AqlQueue" where
  "add_write_index_scacq_screl others increment q =
     (if \<not> aq_state q \<or> \<not> aq_active q \<or> \<not> aq_control q then ((PrimitiveInvalidQueue, 0), q)
      else if increment = 0 then ((PrimitiveInvalidIncrement, 0), q)
      else
      let (error, previous, index) =
            write_index_loop others increment (aq_write_dispatch_id q) (aq_write_dispatch_id q)
      in ((error, previous), q\<lparr>aq_write_dispatch_id := index\<rparr>))"

definition store_doorbell_screlease :: "u64 \<Rightarrow> AqlQueue \<Rightarrow> AqlQueuePrimitiveError \<times> AqlQueue" where
  "store_doorbell_screlease val q =
     (if \<not> aq_state q \<or> \<not> aq_active q then (PrimitiveInvalidQueue, q)
      else if aq_doorbell_address q = 0 then (PrimitiveInvalidDoorbell, q)
      else (PrimitiveNone, q\<lparr>aq_doorbell := Some val\<rparr>))"

text \<open>\<open>operator bool\<close> of the two queue objects.\<close>

definition kfd_queue_bool :: "AqlQueue \<Rightarrow> bool" where
  "kfd_queue_bool q \<longleftrightarrow> aq_state q \<and> aq_active q \<and> aq_doorbell_address q \<noteq> 0"

definition hsakmt_queue_bool :: "AqlQueue \<Rightarrow> bool" where
  "hsakmt_queue_bool q \<longleftrightarrow> aq_state q \<and> aq_active q"

section \<open>The producer's adapters\<close>

text \<open>
  The functions behind the pointers. A producer holds the lock of its queue, so no other write
  interferes with its reservation.
\<close>

definition light_rocr_kfd_reserve_packet :: "AqlQueue \<Rightarrow> u64 \<Rightarrow> u64 option \<times> AqlQueue" where
  "light_rocr_kfd_reserve_packet q n =
     (let ((error, previous), q') = add_write_index_scacq_screl [] n q
      in if error \<noteq> PrimitiveNone then (None, q') else (Some previous, q'))"

definition light_rocr_kfd_ring_doorbell :: "AqlQueue \<Rightarrow> u64 \<Rightarrow> AqlQueue" where
  "light_rocr_kfd_ring_doorbell q packet_id = snd (store_doorbell_screlease packet_id q)"

definition light_rocr_reserve_packet :: "AqlQueue \<Rightarrow> u64 \<Rightarrow> u64 option \<times> AqlQueue" where
  "light_rocr_reserve_packet q n =
     (let ((error, previous), q') = add_write_index_scacq_screl [] n q
      in if error \<noteq> PrimitiveNone then (None, q') else (Some previous, q'))"

definition light_rocr_ring_doorbell :: "AqlQueue \<Rightarrow> u64 \<Rightarrow> AqlQueue" where
  "light_rocr_ring_doorbell q packet_id = snd (store_doorbell_screlease packet_id q)"

definition light_rocr_kfd_producer_ops ::
  "AqlQueue option \<Rightarrow> (AqlQueue \<Rightarrow> AqlKernelDispatchPacket \<Rightarrow> bool) option \<Rightarrow>
   AqlQueue AqlQueueProducerOps" where
  "light_rocr_kfd_producer_ops queue validate_packet =
     (let usable = (case queue of None \<Rightarrow> False
        | Some q \<Rightarrow> kfd_queue_bool q \<and> (aq_state q \<and> aq_ring q) \<and> aq_doorbell_address q \<noteq> 0)
      in \<lparr>ops_context = usable, ops_ring_base = usable,
          ops_packet_count = (if usable then packet_count (the queue) else 0),
          ops_load_read_index = Some read_index_acquire,
          ops_load_write_index = Some write_index_relaxed,
          ops_reserve_packet = Some light_rocr_kfd_reserve_packet,
          ops_ring_doorbell = Some light_rocr_kfd_ring_doorbell,
          ops_validate_packet = validate_packet\<rparr>)"

definition light_rocr_producer_ops ::
  "AqlQueue option \<Rightarrow> (AqlQueue \<Rightarrow> AqlKernelDispatchPacket \<Rightarrow> bool) option \<Rightarrow>
   AqlQueue AqlQueueProducerOps" where
  "light_rocr_producer_ops queue validate_packet =
     (let usable = (case queue of None \<Rightarrow> False
        | Some q \<Rightarrow> hsakmt_queue_bool q \<and> (aq_state q \<and> aq_ring q) \<and> aq_doorbell_address q \<noteq> 0)
      in \<lparr>ops_context = usable, ops_ring_base = usable,
          ops_packet_count = (if usable then packet_count (the queue) else 0),
          ops_load_read_index = Some read_index_acquire,
          ops_load_write_index = Some write_index_relaxed,
          ops_reserve_packet = Some light_rocr_reserve_packet,
          ops_ring_doorbell = Some light_rocr_ring_doorbell,
          ops_validate_packet = validate_packet\<rparr>)"

section \<open>The reservation is one checked addition\<close>

lemma index_overflow: "w > (- 1) - n \<longleftrightarrow> \<not> unat w + unat n < 2 ^ 64" for w n :: u64
  using unat_u64_less [of n] by (auto simp: word_less_nat_alt unat_max_minus)

text \<open>
  The word after \<open>k\<close> of the other writes. The loop returns after some number of them, with the word
  it then found as the previous index: replaced by its sum with the increment, or left alone when
  the sum would wrap.
\<close>

definition word_after :: "(u64 \<Rightarrow> u64) list \<Rightarrow> nat \<Rightarrow> u64 \<Rightarrow> u64" where
  "word_after others k w = fold (\<lambda>f. f) (take k others) w"

lemma write_index_loop_cases:
  "\<exists>k \<le> length others. write_index_loop others n w w =
     (let p = word_after others k w
      in if unat p + unat n < 2 ^ 64 then (PrimitiveNone, p, p + n) else (PrimitiveIndexOverflow, p, p))"
proof (induction others arbitrary: w)
  case Nil
  show ?case
    by (subst write_index_loop.simps) (auto simp: index_overflow word_after_def)
next
  case (Cons f fs)
  show ?case
  proof (cases "unat w + unat n < 2 ^ 64 \<and> f w \<noteq> w")
    case True
    then have "write_index_loop (f # fs) n w w = write_index_loop fs n (f w) (f w)"
      by (subst write_index_loop.simps) (auto simp: index_overflow Let_def)
    moreover obtain k where "k \<le> length fs" "write_index_loop fs n (f w) (f w) =
       (let p = word_after fs k (f w)
        in if unat p + unat n < 2 ^ 64 then (PrimitiveNone, p, p + n) else (PrimitiveIndexOverflow, p, p))"
      using Cons.IH by blast
    ultimately show ?thesis by (intro exI [of _ "Suc k"]) (simp add: word_after_def)
  next
    case False
    then show ?thesis
      by (subst write_index_loop.simps) (auto simp: index_overflow word_after_def intro!: exI [of _ 0])
  qed
qed

lemma write_index_loop_alone:
  "write_index_loop [] n w w =
     (if unat w + unat n < 2 ^ 64 then (PrimitiveNone, w, w + n) else (PrimitiveIndexOverflow, w, w))"
  using write_index_loop_cases [of "[]" n w] by (simp add: word_after_def)

section \<open>The contract\<close>

text \<open>What a submission leaves alone: everything but the write index and the doorbell.\<close>

definition queue_frame :: "AqlQueue \<Rightarrow> AqlQueue" where
  "queue_frame q = q\<lparr>aq_write_dispatch_id := 0, aq_doorbell := None\<rparr>"

lemma reserve_packet_cases:
  "light_rocr_kfd_reserve_packet q n =
     (if aq_state q \<and> aq_active q \<and> aq_control q \<and> n \<noteq> 0 \<and> unat (aq_write_dispatch_id q) + unat n < 2 ^ 64
      then (Some (aq_write_dispatch_id q), q\<lparr>aq_write_dispatch_id := aq_write_dispatch_id q + n\<rparr>)
      else (None, q))"
  by (simp add: light_rocr_kfd_reserve_packet_def add_write_index_scacq_screl_def write_index_loop_alone)

lemma adapters_agree:
  "light_rocr_reserve_packet = light_rocr_kfd_reserve_packet"
  "light_rocr_ring_doorbell = light_rocr_kfd_ring_doorbell"
  by (auto simp: fun_eq_iff light_rocr_reserve_packet_def light_rocr_kfd_reserve_packet_def
      light_rocr_ring_doorbell_def light_rocr_kfd_ring_doorbell_def)

interpretation transport: aql_queue_contract read_index_acquire write_index_relaxed
  light_rocr_kfd_reserve_packet light_rocr_kfd_ring_doorbell queue_frame
  by unfold_locales
    (auto simp: reserve_packet_cases light_rocr_kfd_ring_doorbell_def store_doorbell_screlease_def
      write_index_relaxed_def read_index_acquire_def queue_frame_def unat_add64 split: if_splits)

interpretation kfd: aql_producer_queue read_index_acquire write_index_relaxed
  light_rocr_kfd_reserve_packet light_rocr_kfd_ring_doorbell queue_frame
  "light_rocr_kfd_producer_ops queue validate" for queue validate
  by unfold_locales (simp_all add: light_rocr_kfd_producer_ops_def Let_def)

interpretation hsakmt: aql_producer_queue read_index_acquire write_index_relaxed
  light_rocr_reserve_packet light_rocr_ring_doorbell queue_frame
  "light_rocr_producer_ops queue validate" for queue validate
  unfolding adapters_agree
  by unfold_locales (simp_all add: light_rocr_producer_ops_def Let_def adapters_agree)

section \<open>Runs of a queue\<close>

text \<open>
  What happens at a queue: packets submitted, a submission refused, packets taken by the device. The
  device moves the read index forward, never past the write index.
\<close>

datatype queue_event = Submitted "bytes list" | Refused | Consumed nat

definition submit_event :: "AqlSubmitResult \<Rightarrow> bytes list \<Rightarrow> queue_event" where
  "submit_event res ps = (if as_error res = SubmitNone then Submitted ps else Refused)"

inductive queue_step :: "AqlQueue \<times> bytes \<Rightarrow> queue_event \<Rightarrow> AqlQueue \<times> bytes \<Rightarrow> bool" where
  dispatch: "submit_aql_kernel_dispatch (light_rocr_kfd_producer_ops (Some q) validate) parameters ordr False q ring =
      Ok (res, q', ring') \<Longrightarrow>
    queue_step (q, ring)
      (submit_event res [kernel_dispatch_bytes (build_aql_kernel_dispatch_packet parameters ordr)]) (q', ring')"
| barriers: "submit_aql_barriers_and (light_rocr_kfd_producer_ops (Some q) validate) (Some bs) n q ring =
      Ok (res, q', ring') \<Longrightarrow> barriers_ok bs \<Longrightarrow> unat n = length bs \<Longrightarrow>
    queue_step (q, ring) (submit_event res (map barrier_packet bs)) (q', ring')"
| barriers_dispatch: "submit_aql_barriers_and_kernel_dispatch (light_rocr_kfd_producer_ops (Some q) validate)
      (Some bs) n parameters ordr q ring = Ok (res, q', ring') \<Longrightarrow> barriers_ok bs \<Longrightarrow> unat n = length bs \<Longrightarrow>
    queue_step (q, ring) (submit_event res (map barrier_packet bs @
      [kernel_dispatch_bytes (build_aql_kernel_dispatch_packet parameters ordr)])) (q', ring')"
| device: "unat (aq_read_dispatch_id q) \<le> unat r \<Longrightarrow> unat r \<le> unat (aq_write_dispatch_id q) \<Longrightarrow>
    queue_step (q, ring) (Consumed (unat r - unat (aq_read_dispatch_id q)))
      (q\<lparr>aq_read_dispatch_id := r\<rparr>, ring)"

inductive queue_run :: "AqlQueue \<times> bytes \<Rightarrow> queue_event list \<Rightarrow> AqlQueue \<times> bytes \<Rightarrow> bool" for s where
  run_nil: "queue_run s [] s"
| run_snoc: "queue_run s es t \<Longrightarrow> queue_step t e u \<Longrightarrow> queue_run s (es @ [e]) u"

text \<open>The specification: a list of packets.\<close>

fun fifo_step :: "queue_event \<Rightarrow> bytes list \<Rightarrow> bytes list" where
  "fifo_step (Submitted ps) q = q @ ps"
| "fifo_step Refused q = q"
| "fifo_step (Consumed n) q = drop n q"

definition usable_queue :: "AqlQueue \<Rightarrow> bool" where
  "usable_queue q \<longleftrightarrow> kfd_queue_bool q \<and> aq_control q \<and> aq_ring q"

definition queue_ok :: "AqlQueue \<times> bytes \<Rightarrow> bool" where
  "queue_ok = (\<lambda>(q, ring). usable_queue q \<and>
     ring_ok (packet_count q) ring (aq_read_dispatch_id q) (aq_write_dispatch_id q))"

definition waiting :: "AqlQueue \<times> bytes \<Rightarrow> bytes list" where
  "waiting = (\<lambda>(q, ring). pending_packets (packet_count q) ring (aq_read_dispatch_id q) (aq_write_dispatch_id q))"

section \<open>Every run is a queue\<close>

lemma same_frame:
  assumes "queue_frame q' = queue_frame q"
  shows "usable_queue q' \<longleftrightarrow> usable_queue q" and "packet_count q' = packet_count q"
  using assms
  by (cases q; cases q'; simp add: queue_frame_def usable_queue_def kfd_queue_bool_def packet_count_def)+

lemma usable_indices:
  assumes "usable_queue q"
  shows "read_index_acquire q = aq_read_dispatch_id q" and "write_index_relaxed q = aq_write_dispatch_id q"
    and "ops_packet_count (light_rocr_kfd_producer_ops (Some q) validate) = packet_count q"
  using assms
  by (simp_all add: usable_queue_def kfd_queue_bool_def read_index_acquire_def write_index_relaxed_def
      light_rocr_kfd_producer_ops_def Let_def)

lemma batch_refines:
  assumes ok: "queue_ok (q, ring)"
    and batch: "batch_submitted read_index_acquire write_index_relaxed queue_frame (packet_count q) q ring ps
      (Ok (res, q', ring'))"
  shows "queue_ok (q', ring') \<and> waiting (q', ring') = fifo_step (submit_event res ps) (waiting (q, ring))"
proof -
  have use: "usable_queue q" using ok by (simp add: queue_ok_def)
  have frame: "queue_frame q' = queue_frame q" using batch by (simp add: batch_submitted_def)
  note same = same_frame [OF frame]
  have use': "usable_queue q'" using use same(1) by simp
  show ?thesis
    using batch ok use use'
    by (auto simp: batch_submitted_def queue_ok_def waiting_def same(2) usable_indices [OF use]
        usable_indices [OF use'] submit_event_def split: if_splits)
qed

lemma queue_ok_indices:
  assumes "queue_ok (q, ring)"
  shows "ring_ok (ops_packet_count (light_rocr_kfd_producer_ops (Some q) validate)) ring
      (read_index_acquire q) (write_index_relaxed q)"
    and "ops_packet_count (light_rocr_kfd_producer_ops (Some q) validate) = packet_count q"
  using assms by (simp_all add: queue_ok_def usable_indices)

lemma device_refines:
  assumes "queue_ok (q, ring)" and "unat (aq_read_dispatch_id q) \<le> unat r"
    and "unat r \<le> unat (aq_write_dispatch_id q)"
  shows "queue_ok (q\<lparr>aq_read_dispatch_id := r\<rparr>, ring) \<and>
    waiting (q\<lparr>aq_read_dispatch_id := r\<rparr>, ring) =
      drop (unat r - unat (aq_read_dispatch_id q)) (waiting (q, ring))"
  using assms
  by (auto simp: queue_ok_def waiting_def usable_queue_def kfd_queue_bool_def packet_count_def ring_ok_def
      pending_packets_def drop_map drop_upt)

lemma queue_step_refines:
  assumes "queue_step s e t" and "queue_ok s"
  shows "queue_ok t \<and> waiting t = fifo_step e (waiting s)"
  using assms
proof (induction rule: queue_step.induct)
  case (dispatch q validate parameters ordr ring res q' ring')
  note at = queue_ok_indices [OF dispatch(2), of validate]
  have "batch_submitted read_index_acquire write_index_relaxed queue_frame (packet_count q) q ring
      [kernel_dispatch_bytes (build_aql_kernel_dispatch_packet parameters ordr)] (Ok (res, q', ring'))"
    using kfd.dispatch_appends [OF at(1), of False parameters ordr] dispatch(1) by (simp add: at(2))
  then show ?case by (rule batch_refines [OF dispatch(2)])
next
  case (barriers q validate bs n ring res q' ring')
  note at = queue_ok_indices [OF barriers(4), of validate]
  have "batch_submitted read_index_acquire write_index_relaxed queue_frame (packet_count q) q ring
      (map barrier_packet bs) (Ok (res, q', ring'))"
    using kfd.barriers_append [OF at(1), of "Some bs" n] barriers(1-3) by (simp add: at(2))
  then show ?case by (rule batch_refines [OF barriers(4)])
next
  case (barriers_dispatch q validate bs n parameters ordr ring res q' ring')
  note at = queue_ok_indices [OF barriers_dispatch(4), of validate]
  have "batch_submitted read_index_acquire write_index_relaxed queue_frame (packet_count q) q ring
      (map barrier_packet bs @ [kernel_dispatch_bytes (build_aql_kernel_dispatch_packet parameters ordr)])
      (Ok (res, q', ring'))"
    using kfd.barriers_and_dispatch_append [OF at(1), of "Some bs" n parameters ordr] barriers_dispatch(1-3)
    by (simp add: at(2))
  then show ?case by (rule batch_refines [OF barriers_dispatch(4)])
next
  case (device q r ring)
  then show ?case using device_refines by simp
qed

lemma queue_run_refines:
  assumes "queue_run s es t" and "queue_ok s"
  shows "queue_ok t \<and> waiting t = fold fifo_step es (waiting s)"
  using assms by (induction rule: queue_run.induct) (auto dest: queue_step_refines)

text \<open>No packet is lost, repeated or reordered: what waits is the submitted packets without those taken.\<close>

primrec submitted_by :: "queue_event list \<Rightarrow> bytes list" where
  "submitted_by [] = []"
| "submitted_by (e # es) = (case e of Submitted ps \<Rightarrow> ps | _ \<Rightarrow> []) @ submitted_by es"

primrec consumed_by :: "queue_event list \<Rightarrow> nat" where
  "consumed_by [] = 0"
| "consumed_by (e # es) = (case e of Consumed n \<Rightarrow> n | _ \<Rightarrow> 0) + consumed_by es"

lemma event_totals_append:
  "submitted_by (xs @ ys) = submitted_by xs @ submitted_by ys"
  "consumed_by (xs @ ys) = consumed_by xs + consumed_by ys"
  by (induction xs) simp_all

lemma consumed_bound:
  assumes "queue_step (q, ring) (Consumed n) t" and "queue_ok (q, ring)"
  shows "n \<le> length (waiting (q, ring))"
  using assms
  by (cases rule: queue_step.cases)
    (auto simp: submit_event_def waiting_def pending_packets_def split: if_splits)

lemma queue_run_fifo:
  assumes "queue_run s es t" and "queue_ok s" and "waiting s = []"
  shows "queue_ok t \<and> consumed_by es \<le> length (submitted_by es) \<and> waiting t = drop (consumed_by es) (submitted_by es)"
  using assms
proof (induction rule: queue_run.induct)
  case (run_snoc es t e u)
  then have ok: "queue_ok t" and le: "consumed_by es \<le> length (submitted_by es)"
    and w: "waiting t = drop (consumed_by es) (submitted_by es)" by blast+
  note step = queue_step_refines [OF run_snoc(2) ok]
  have "n \<le> length (waiting t)" if "e = Consumed n" for n
    using consumed_bound [of "fst t" "snd t" n u] run_snoc(2) ok that by simp
  with step le w show ?case
    by (cases e) (auto simp: event_totals_append add.commute)
qed simp

end
