(* ===== verification/Topology.thy ===== *)
theory Topology
  imports Prelude
begin

text \<open>
  The topology snapshot and the choice of a GPU: \<open>light-rocr/runtime/topology.cpp\<close> and its header.
  Messages of errors are not modelled. The lemmas show that the selection succeeds exactly when one
  node of the topology matches, and that the name of a target determines its architecture.
\<close>

section \<open>Nodes\<close>

record GpuArchitecture =
  ga_major :: u32
  ga_minor :: u32
  ga_stepping :: u32

datatype MemoryHeapType =
    HeapSystem | HeapFrameBufferPublic | HeapFrameBufferPrivate | HeapGds | HeapLds | HeapScratch
  | HeapDeviceSvm | HeapMmioRemap | HeapUnknown

record MemoryBank =
  mb_heap_type :: MemoryHeapType
  mb_size :: u64
  mb_virtual_base_address :: u64
  mb_width :: u32
  mb_maximum_clock_mhz :: u32
  mb_hot_pluggable :: bool
  mb_non_volatile :: bool

record Node =
  nd_node_id :: u32
  nd_gpu_id :: u32
  nd_cpu_core_count :: u32
  nd_simd_count :: u32
  nd_simd_per_compute_unit :: u32
  nd_wavefront_size :: u32
  nd_maximum_waves_per_simd :: u32
  nd_lds_size_kb :: u32
  nd_shader_engine_count :: u32
  nd_maximum_scratch_waves_per_compute_unit :: u32
  nd_xcc_count :: u32
  nd_cwsr_size :: u32
  nd_control_stack_size :: u32
  nd_vendor_id :: u16
  nd_device_id :: u16
  nd_domain :: u32
  nd_location_id :: u32
  nd_drm_render_minor :: int
  nd_local_memory_size :: u64
  nd_integrated :: bool
  nd_name :: string
  nd_architecture :: GpuArchitecture
  nd_memory_banks :: "MemoryBank list"

definition default_Node :: Node where
  "default_Node =
     \<lparr>nd_node_id = 0, nd_gpu_id = 0, nd_cpu_core_count = 0, nd_simd_count = 0,
      nd_simd_per_compute_unit = 0, nd_wavefront_size = 0, nd_maximum_waves_per_simd = 0,
      nd_lds_size_kb = 0, nd_shader_engine_count = 0,
      nd_maximum_scratch_waves_per_compute_unit = 0, nd_xcc_count = 0, nd_cwsr_size = 0,
      nd_control_stack_size = 0, nd_vendor_id = 0, nd_device_id = 0, nd_domain = 0,
      nd_location_id = 0, nd_drm_render_minor = - 1, nd_local_memory_size = 0,
      nd_integrated = False, nd_name = [],
      nd_architecture = \<lparr>ga_major = 0, ga_minor = 0, ga_stepping = 0\<rparr>, nd_memory_banks = []\<rparr>"

definition is_gpu :: "Node \<Rightarrow> bool" where
  "is_gpu node \<longleftrightarrow> nd_simd_count node \<noteq> 0"

definition compute_unit_count :: "Node \<Rightarrow> u32" where
  "compute_unit_count node =
     (if nd_simd_per_compute_unit node = 0 \<or> nd_simd_count node mod nd_simd_per_compute_unit node \<noteq> 0
      then 0 else nd_simd_count node div nd_simd_per_compute_unit node)"

primrec memory_heap_type_name :: "MemoryHeapType \<Rightarrow> string" where
  "memory_heap_type_name HeapSystem = ''system''"
| "memory_heap_type_name HeapFrameBufferPublic = ''frame_buffer_public''"
| "memory_heap_type_name HeapFrameBufferPrivate = ''frame_buffer_private''"
| "memory_heap_type_name HeapGds = ''gds''"
| "memory_heap_type_name HeapLds = ''lds''"
| "memory_heap_type_name HeapScratch = ''scratch''"
| "memory_heap_type_name HeapDeviceSvm = ''device_svm''"
| "memory_heap_type_name HeapMmioRemap = ''mmio_remap''"
| "memory_heap_type_name HeapUnknown = ''unknown''"

section \<open>Target names\<close>

text \<open>A number as an output stream prints it in a radix, and the digits it prints with.\<close>

fun radix_digits :: "nat \<Rightarrow> nat \<Rightarrow> nat list" where
  "radix_digits b n =
     (if n < b \<or> b < 2 then [n] else radix_digits b (n div b) @ [n mod b])"

declare radix_digits.simps [simp del]

definition digit_char :: "nat \<Rightarrow> char" where
  "digit_char d = char_of (if d < 10 then 48 + d else 87 + d)"

definition print_radix :: "nat \<Rightarrow> u32 \<Rightarrow> string" where
  "print_radix b w = map digit_char (radix_digits b (unat w))"

definition gfx_target_name :: "GpuArchitecture \<Rightarrow> string" where
  "gfx_target_name architecture =
     (if ga_major architecture = 0 then []
      else ''gfx'' @ print_radix 10 (ga_major architecture) @ print_radix 10 (ga_minor architecture) @
           print_radix 16 (ga_stepping architecture))"

text \<open>\<open>std::string::rfind\<close> of a string and \<open>std::string::find\<close> of a character from a position.\<close>

definition string_rfind :: "string \<Rightarrow> string \<Rightarrow> nat option" where
  "string_rfind s pat =
     (case filter (\<lambda>i. take (length pat) (drop i s) = pat) [0 ..< length s + 1] of
        [] \<Rightarrow> None | i # is \<Rightarrow> Some (last (i # is)))"

definition string_find :: "string \<Rightarrow> char \<Rightarrow> nat \<Rightarrow> nat option" where
  "string_find s c start = List.find (\<lambda>i. s ! i = c) [start ..< length s]"

text \<open>\<open>std::isxdigit\<close> and \<open>std::isupper\<close> in the C locale.\<close>

definition isxdigit :: "char \<Rightarrow> bool" where
  "isxdigit c \<longleftrightarrow> (let n = of_char c :: nat in 48 \<le> n \<and> n \<le> 57 \<or> 65 \<le> n \<and> n \<le> 70 \<or> 97 \<le> n \<and> n \<le> 102)"

definition isupper :: "char \<Rightarrow> bool" where
  "isupper c \<longleftrightarrow> (let n = of_char c :: nat in 65 \<le> n \<and> n \<le> 90)"

definition canonical_gfx_target :: "string \<Rightarrow> string" where
  "canonical_gfx_target target_isa =
     (let target_begin = (case string_rfind target_isa ''--'' of None \<Rightarrow> 0 | Some p \<Rightarrow> p + 2);
          target = (case string_find target_isa (CHR '':'') target_begin of
                      None \<Rightarrow> drop target_begin target_isa
                    | Some p \<Rightarrow> take (p - target_begin) (drop target_begin target_isa))
      in if length target < 5 \<or> take 3 target \<noteq> ''gfx'' then []
         else if list_ex (\<lambda>c. \<not> isxdigit c \<or> isupper c) (drop 3 target) then []
         else target)"

section \<open>Selection\<close>

datatype GpuSelectionError = NoSelectionError | InvalidTarget | NoMatchingGpu | MultipleMatchingGpus

primrec gpu_selection_error_name :: "GpuSelectionError \<Rightarrow> string" where
  "gpu_selection_error_name NoSelectionError = ''none''"
| "gpu_selection_error_name InvalidTarget = ''invalid_target''"
| "gpu_selection_error_name NoMatchingGpu = ''no_matching_gpu''"
| "gpu_selection_error_name MultipleMatchingGpus = ''multiple_matching_gpus''"

record GpuSelectionResult =
  gs_error :: GpuSelectionError
  gs_node_index :: nat

definition node_matches :: "string \<Rightarrow> Node \<Rightarrow> bool" where
  "node_matches target node \<longleftrightarrow> is_gpu node \<and> gfx_target_name (nd_architecture node) = target"

text \<open>The loop over the nodes, from \<open>index\<close> on, with the index and the number of matches so far.\<close>

fun selection_loop :: "string \<Rightarrow> Node list \<Rightarrow> nat \<Rightarrow> nat \<Rightarrow> nat \<Rightarrow> nat \<times> nat" where
  "selection_loop target [] index matching_node_index match_count = (matching_node_index, match_count)"
| "selection_loop target (node # nodes) index matching_node_index match_count =
     (if node_matches target node then selection_loop target nodes (index + 1) index (match_count + 1)
      else selection_loop target nodes (index + 1) matching_node_index match_count)"

definition select_unique_gpu :: "Node list \<Rightarrow> string \<Rightarrow> GpuSelectionResult" where
  "select_unique_gpu nodes target_isa =
     (let target = canonical_gfx_target target_isa
      in if target = [] then \<lparr>gs_error = InvalidTarget, gs_node_index = 0\<rparr>
         else
         let (matching_node_index, match_count) = selection_loop target nodes 0 0 0
         in if match_count = 0 then \<lparr>gs_error = NoMatchingGpu, gs_node_index = 0\<rparr>
            else if match_count \<noteq> 1 then \<lparr>gs_error = MultipleMatchingGpus, gs_node_index = 0\<rparr>
            else \<lparr>gs_error = NoSelectionError, gs_node_index = matching_node_index\<rparr>)"

section \<open>The node selected\<close>

abbreviation matching_nodes :: "string \<Rightarrow> Node list \<Rightarrow> nat list" where
  "matching_nodes target nodes \<equiv> filter (\<lambda>i. node_matches target (nodes ! i)) [0 ..< length nodes]"

lemma selection_loop_eq:
  "selection_loop target nodes index m c =
     (let found = map (\<lambda>i. index + i) (matching_nodes target nodes)
      in (last (m # found), c + length found))"
proof (induction target nodes index m c rule: selection_loop.induct)
  case (2 target node nodes index m c)
  have "matching_nodes target (node # nodes) =
      (if node_matches target node then [0] else []) @ map Suc (matching_nodes target nodes)"
    by (simp add: upt_conv_Cons filter_map comp_def map_Suc_upt [symmetric] del: upt_Suc)
  with 2 show ?case by (simp add: Let_def comp_def last_map)
qed (simp add: Let_def)

lemma select_unique_gpu_cases:
  "select_unique_gpu nodes target_isa =
     (let target = canonical_gfx_target target_isa
      in if target = [] then \<lparr>gs_error = InvalidTarget, gs_node_index = 0\<rparr>
         else case matching_nodes target nodes of
           [] \<Rightarrow> \<lparr>gs_error = NoMatchingGpu, gs_node_index = 0\<rparr>
         | [i] \<Rightarrow> \<lparr>gs_error = NoSelectionError, gs_node_index = i\<rparr>
         | _ \<Rightarrow> \<lparr>gs_error = MultipleMatchingGpus, gs_node_index = 0\<rparr>)"
  by (simp add: select_unique_gpu_def selection_loop_eq Let_def split: list.split)

section \<open>Names and architectures\<close>

lemma radix_digits_small [simp]: "n < b \<Longrightarrow> radix_digits b n = [n]"
  by (simp add: radix_digits.simps)

lemma radix_digits_bounds: "2 \<le> b \<Longrightarrow> d \<in> set (radix_digits b n) \<Longrightarrow> d < b"
proof (induction b n rule: radix_digits.induct)
  case (1 b n)
  then show ?case by (cases "n < b") (auto simp: radix_digits.simps [of b n])
qed

definition radix_value :: "nat \<Rightarrow> nat list \<Rightarrow> nat" where
  "radix_value b ds = foldl (\<lambda>n d. n * b + d) 0 ds"

lemma radix_value_digits: "2 \<le> b \<Longrightarrow> radix_value b (radix_digits b n) = n"
proof (induction b n rule: radix_digits.induct)
  case (1 b n)
  then show ?case by (cases "n < b") (simp_all add: radix_digits.simps [of b n] radix_value_def)
qed

lemma digit_char_inj: "inj_on digit_char {..< 16}"
proof (rule inj_onI)
  fix d e
  assume de: "d \<in> {..< 16}" "e \<in> {..< 16}" and "digit_char d = digit_char e"
  then have "(of_char (digit_char d) :: nat) = of_char (digit_char e)" by simp
  with de show "d = e" by (auto simp: digit_char_def split: if_splits)
qed

lemma print_radix_inj:
  assumes "print_radix b v = print_radix b w" and "2 \<le> b" and "b \<le> 16"
  shows "v = w"
proof -
  have "d \<in> {..< 16}" if "d \<in> set (radix_digits b (unat u))" for d and u :: u32
    using radix_digits_bounds [OF assms(2) that] assms(3) by simp
  then have "radix_digits b (unat v) = radix_digits b (unat w)"
    using assms(1) by (intro map_inj_on [of digit_char]) (auto simp: print_radix_def intro: inj_on_subset [OF digit_char_inj])
  then have "unat v = unat w" by (metis radix_value_digits [OF assms(2)])
  then show ?thesis by (simp add: word_unat_eq_iff)
qed

text \<open>Minor and stepping with one digit each: the name determines the architecture.\<close>

definition one_digit_architecture :: "GpuArchitecture \<Rightarrow> bool" where
  "one_digit_architecture a \<longleftrightarrow> ga_major a \<noteq> 0 \<and> unat (ga_minor a) < 10 \<and> unat (ga_stepping a) < 16"

lemma gfx_target_name_eq:
  assumes "one_digit_architecture a" and "one_digit_architecture b"
    and "gfx_target_name a = gfx_target_name b"
  shows "a = b"
proof -
  have one: "print_radix 10 (ga_minor c) = [digit_char (unat (ga_minor c))]"
    "print_radix 16 (ga_stepping c) = [digit_char (unat (ga_stepping c))]"
    if "one_digit_architecture c" for c
    using that by (simp_all add: one_digit_architecture_def print_radix_def)
  have eq: "print_radix 10 (ga_major a) = print_radix 10 (ga_major b) \<and>
      print_radix 10 (ga_minor a) = print_radix 10 (ga_minor b) \<and>
      print_radix 16 (ga_stepping a) = print_radix 16 (ga_stepping b)"
    using assms one [OF assms(1)] one [OF assms(2)]
    by (simp add: gfx_target_name_def one_digit_architecture_def)
  then show ?thesis by (cases a; cases b) (auto dest!: print_radix_inj)
qed

section \<open>Canonical names\<close>

definition canonical_name :: "string \<Rightarrow> bool" where
  "canonical_name s \<longleftrightarrow> 5 \<le> length s \<and> take 3 s = ''gfx'' \<and> (\<forall>c \<in> set (drop 3 s). isxdigit c \<and> \<not> isupper c)"

lemma canonical_gfx_target_name: "canonical_gfx_target t = [] \<or> canonical_name (canonical_gfx_target t)"
  by (auto simp: canonical_gfx_target_def canonical_name_def Let_def list_ex_iff not_less)

lemma canonical_name_chars:
  assumes "canonical_name s" and "c \<in> set s"
  shows "c \<noteq> CHR ''-'' \<and> c \<noteq> CHR '':''"
proof -
  have "s = ''gfx'' @ drop 3 s" using assms(1) by (metis append_take_drop_id canonical_name_def)
  then have "c \<in> set ''gfx'' \<or> isxdigit c" using assms by (metis Un_iff canonical_name_def set_append)
  then show ?thesis by (auto simp: isxdigit_def)
qed

lemma string_rfind_None: "x \<notin> set s \<Longrightarrow> string_rfind s (x # pat) = None"
proof -
  assume x: "x \<notin> set s"
  have "take (length (x # pat)) (drop i s) \<noteq> x # pat" for i
  proof
    assume "take (length (x # pat)) (drop i s) = x # pat"
    then have "x \<in> set (take (length (x # pat)) (drop i s))" by simp
    with x show False by (meson in_set_dropD in_set_takeD)
  qed
  then show ?thesis by (simp add: string_rfind_def)
qed

lemma string_find_None: "c \<notin> set s \<Longrightarrow> string_find s c i = None"
  by (auto simp: string_find_def find_None_iff)

lemma canonical_name_fixed:
  assumes "canonical_name s"
  shows "canonical_gfx_target s = s"
proof -
  have "string_rfind s ''--'' = None" and "string_find s (CHR '':'') 0 = None"
    using canonical_name_chars [OF assms] by (blast intro: string_rfind_None string_find_None)+
  with assms show ?thesis
    by (auto simp: canonical_gfx_target_def canonical_name_def list_ex_iff)
qed

lemma digit_char_lower: "d < 16 \<Longrightarrow> isxdigit (digit_char d) \<and> \<not> isupper (digit_char d)"
  by (auto simp: isxdigit_def isupper_def digit_char_def)

lemma radix_digits_not_Nil: "radix_digits b n \<noteq> []"
  by (subst radix_digits.simps) simp

lemma gfx_target_name_canonical:
  assumes "ga_major a \<noteq> 0"
  shows "canonical_name (gfx_target_name a)"
proof -
  have "isxdigit c \<and> \<not> isupper c" if c: "c \<in> set (print_radix b w)" "b = 10 \<or> b = 16" for c b and w :: u32
  proof -
    obtain d where "c = digit_char d" "d \<in> set (radix_digits b (unat w))"
      using c(1) by (auto simp: print_radix_def)
    with radix_digits_bounds [of b d "unat w"] c(2) show ?thesis by (auto simp: digit_char_lower)
  qed
  moreover have "length (print_radix b w) \<noteq> 0" for b and w :: u32
    by (simp add: print_radix_def radix_digits_not_Nil)
  then have "1 \<le> length (print_radix b w)" for b and w :: u32 by (simp add: Suc_le_eq)
  then have "3 \<le> length (print_radix 10 (ga_major a)) + length (print_radix 10 (ga_minor a)) +
      length (print_radix 16 (ga_stepping a))"
    by (metis One_nat_def Suc_eq_plus1 add_mono numeral_3_eq_3 one_add_one)
  ultimately show ?thesis using assms by (auto simp: canonical_name_def gfx_target_name_def)
qed

lemma supported_isa_names:
  "canonical_gfx_target ''amdgcn-amd-amdhsa--gfx1101'' = ''gfx1101''"
  "canonical_gfx_target ''gfx1101'' = ''gfx1101''"
  "canonical_gfx_target ''amdgcn-amd-amdhsa-unknown-gfx1101'' = []"
  by code_simp+

end
