(* ===== verification/QueueScratch.thy ===== *)
theory QueueScratch
  imports Topology
begin

text \<open>
  Scratch memory of a gfx1101 queue: \<open>light-rocr/arch/gfx11/scratch.cpp\<close>. The requirements of a
  private segment size, computed in 64-bit arithmetic with the code's overflow tests, and the
  control words that describe the backing memory to the hardware.

  The lemmas give the requirements as exact arithmetic, show that the waves the registers admit fit in
  the backing memory, and that the register fields and the resource descriptor decode to what was
  encoded.
\<close>

unbundle bit_operations_syntax

section \<open>Requirements\<close>

abbreviation (input) "kScratchPageSize \<equiv> (4096 :: u64)"
abbreviation (input) "kMaximumPrivateSegmentSize \<equiv> (262128 :: u32)"
abbreviation (input) "kMaximumWaveSizeUnits \<equiv> (32767 :: u64)"
abbreviation (input) "kMaximumWavesPerShaderEngine \<equiv> (4095 :: u64)"
abbreviation (input) "kMaximumDescriptorAddress \<equiv> (281474976710655 :: u64)"
abbreviation (input) "kScratchSrdWord3 \<equiv> (0x20814fac :: u32)"
abbreviation (input) "kScratchDescriptorAlignment \<equiv> (256 :: u64)"
abbreviation (input) "kScratchBackingAlignment \<equiv> (65536 :: u64)"
abbreviation (input) "kScratchLanesPerWave \<equiv> (64 :: u64)"

datatype QueueScratchError =
    NoScratchError | UnsupportedArchitecture | InvalidTopology | MissingScratchAperture
  | InvalidScratchAperture | PrivateSegmentTooLarge | SizeOverflow | ScratchApertureTooSmall
  | RegisterOverflow | InvalidBackingAddress

primrec queue_scratch_error_name :: "QueueScratchError \<Rightarrow> string" where
  "queue_scratch_error_name NoScratchError = ''none''"
| "queue_scratch_error_name UnsupportedArchitecture = ''unsupported_architecture''"
| "queue_scratch_error_name InvalidTopology = ''invalid_topology''"
| "queue_scratch_error_name MissingScratchAperture = ''missing_scratch_aperture''"
| "queue_scratch_error_name InvalidScratchAperture = ''invalid_scratch_aperture''"
| "queue_scratch_error_name PrivateSegmentTooLarge = ''private_segment_too_large''"
| "queue_scratch_error_name SizeOverflow = ''size_overflow''"
| "queue_scratch_error_name ScratchApertureTooSmall = ''scratch_aperture_too_small''"
| "queue_scratch_error_name RegisterOverflow = ''register_overflow''"
| "queue_scratch_error_name InvalidBackingAddress = ''invalid_backing_address''"

type_synonym 'a scratched = "(QueueScratchError, 'a) outcome"

record QueueScratchRequirements =
  sr_private_segment_size :: u32
  sr_allocation_size :: u64
  sr_backing_size_per_xcc :: u64
  sr_wave_size_units :: u32
  sr_waves_per_shader_engine :: u32

record ScratchAperture =
  sa_base :: u64
  sa_size :: u64

record QueueScratchControl =
  sc_resource_descriptor :: "u32 list"
  sc_compute_tmpring_size :: u32
  sc_backing_memory_location :: u64
  sc_backing_memory_byte_size :: u64
  sc_wave64_lane_byte_size :: u32

definition multiply_overflows :: "u64 \<Rightarrow> u64 \<Rightarrow> bool" where
  "multiply_overflows left right \<longleftrightarrow> right \<noteq> 0 \<and> left > (- 1) div right"

definition round_up_overflows :: "u64 \<Rightarrow> u64 \<Rightarrow> bool" where
  "round_up_overflows val alignment \<longleftrightarrow> val > (- 1) - (alignment - 1)"

text \<open>The last bank of the scratch heap and the number of such banks.\<close>

fun scratch_aperture_loop :: "MemoryBank list \<Rightarrow> MemoryBank option \<Rightarrow> nat \<Rightarrow> MemoryBank option \<times> nat" where
  "scratch_aperture_loop [] result match_count = (result, match_count)"
| "scratch_aperture_loop (bank # banks) result match_count =
     (if mb_heap_type bank = HeapScratch
      then scratch_aperture_loop banks (Some bank) (match_count + 1)
      else scratch_aperture_loop banks result match_count)"

definition scratch_aperture :: "Node \<Rightarrow> MemoryBank option \<times> nat" where
  "scratch_aperture node = scratch_aperture_loop (nd_memory_banks node) None 0"

text \<open>The loop that multiplies the factors, with its overflow test.\<close>

fun multiply_factors :: "u64 list \<Rightarrow> u64 \<Rightarrow> u64 scratched" where
  "multiply_factors [] raw_size = Ok raw_size"
| "multiply_factors (factor # factors) raw_size =
     (if multiply_overflows raw_size factor then Err SizeOverflow
      else multiply_factors factors (raw_size * factor))"

text \<open>The fields of a non-empty segment, from the factors on.\<close>

definition scratch_sizes ::
  "Node \<Rightarrow> u32 \<Rightarrow> ScratchAperture \<Rightarrow> QueueScratchRequirements scratched" where
  "scratch_sizes node private_segment_size aperture =
     obind (multiply_factors [kScratchLanesPerWave,
              ucast (nd_maximum_scratch_waves_per_compute_unit node), ucast (compute_unit_count node)]
              (ucast private_segment_size)) (\<lambda>raw_size.
     if round_up_overflows raw_size kScratchPageSize then Err SizeOverflow
     else
     let allocation_size = (raw_size + kScratchPageSize - 1) AND NOT (kScratchPageSize - 1) in
     if allocation_size > sa_size aperture then Err ScratchApertureTooSmall
     else if allocation_size > 4294967295 then Err RegisterOverflow
     else
     let wave_bytes = ucast private_segment_size * kScratchLanesPerWave;
         wave_size_units = (wave_bytes + kScratchDescriptorAlignment - 1) div kScratchDescriptorAlignment in
     if wave_size_units = 0 \<or> wave_size_units > kMaximumWaveSizeUnits then Err RegisterOverflow
     else
     let total_waves = allocation_size div (wave_size_units * kScratchDescriptorAlignment);
         configured_waves =
           min (total_waves div ucast (nd_shader_engine_count node))
               (ucast (compute_unit_count node) *
                ucast (nd_maximum_scratch_waves_per_compute_unit node)) in
     if configured_waves = 0 \<or> configured_waves > kMaximumWavesPerShaderEngine
     then Err RegisterOverflow
     else Ok \<lparr>sr_private_segment_size = private_segment_size, sr_allocation_size = allocation_size,
              sr_backing_size_per_xcc = allocation_size, sr_wave_size_units = ucast wave_size_units,
              sr_waves_per_shader_engine = ucast configured_waves\<rparr>)"

definition queue_scratch_requirements_in ::
  "Node \<Rightarrow> u32 \<Rightarrow> ScratchAperture \<Rightarrow> QueueScratchRequirements scratched" where
  "queue_scratch_requirements_in node private_segment_size aperture =
     (if ga_major (nd_architecture node) \<noteq> 11 \<or> ga_minor (nd_architecture node) \<noteq> 0 \<or>
         ga_stepping (nd_architecture node) \<noteq> 1
      then Err UnsupportedArchitecture
      else if \<not> is_gpu node \<or> compute_unit_count node = 0 \<or> nd_wavefront_size node \<noteq> 32 \<or>
              nd_maximum_waves_per_simd node = 0 \<or> nd_shader_engine_count node = 0 \<or>
              nd_maximum_scratch_waves_per_compute_unit node = 0 \<or> nd_xcc_count node \<noteq> 1
      then Err InvalidTopology
      else if sa_size aperture = 0 \<or> sa_base aperture = 0 \<or>
              sa_base aperture mod kScratchBackingAlignment \<noteq> 0
      then Err InvalidScratchAperture
      else if private_segment_size = 0
      then Ok \<lparr>sr_private_segment_size = private_segment_size, sr_allocation_size = 0,
               sr_backing_size_per_xcc = 0, sr_wave_size_units = 0, sr_waves_per_shader_engine = 0\<rparr>
      else if private_segment_size > kMaximumPrivateSegmentSize then Err PrivateSegmentTooLarge
      else scratch_sizes node private_segment_size aperture)"

definition find_aperture :: "Node \<Rightarrow> ScratchAperture scratched" where
  "find_aperture node =
     (case scratch_aperture node of
        (_, 0) \<Rightarrow> Err MissingScratchAperture
      | (aperture, scratch_aperture_count) \<Rightarrow>
          (if scratch_aperture_count \<noteq> 1 then Err InvalidScratchAperture
           else case aperture of
             None \<Rightarrow> Err InvalidScratchAperture
           | Some bank \<Rightarrow> Ok \<lparr>sa_base = mb_virtual_base_address bank, sa_size = mb_size bank\<rparr>))"

definition queue_scratch_requirements :: "Node \<Rightarrow> u32 \<Rightarrow> QueueScratchRequirements scratched" where
  "queue_scratch_requirements node private_segment_size =
     obind (find_aperture node) (queue_scratch_requirements_in node private_segment_size)"

section \<open>Control words\<close>

definition make_queue_scratch_control_in ::
  "Node \<Rightarrow> u32 \<Rightarrow> u64 \<Rightarrow> ScratchAperture \<Rightarrow>
   (QueueScratchRequirements \<times> QueueScratchControl) scratched" where
  "make_queue_scratch_control_in node private_segment_size backing_gpu_address aperture =
     obind (queue_scratch_requirements_in node private_segment_size aperture) (\<lambda>requirements.
     if sr_allocation_size requirements = 0
     then if backing_gpu_address \<noteq> 0 then Err InvalidBackingAddress
       else Ok (requirements,
         \<lparr>sc_resource_descriptor = [0, push_bit 30 1, 0, kScratchSrdWord3], sc_compute_tmpring_size = 0,
          sc_backing_memory_location = 0, sc_backing_memory_byte_size = 0,
          sc_wave64_lane_byte_size = 0\<rparr>)
     else if backing_gpu_address = 0 \<or> backing_gpu_address mod kScratchBackingAlignment \<noteq> 0 \<or>
             backing_gpu_address > kMaximumDescriptorAddress \<or>
             sr_allocation_size requirements - 1 > kMaximumDescriptorAddress - backing_gpu_address
     then Err InvalidBackingAddress
     else Ok (requirements,
       \<lparr>sc_resource_descriptor =
          [ucast backing_gpu_address,
           ucast (drop_bit 32 backing_gpu_address AND 0xffff) OR push_bit 30 1,
           ucast (sr_backing_size_per_xcc requirements), kScratchSrdWord3],
        sc_compute_tmpring_size =
          push_bit 12 (sr_wave_size_units requirements) OR sr_waves_per_shader_engine requirements,
        sc_backing_memory_location = backing_gpu_address,
        sc_backing_memory_byte_size = sr_backing_size_per_xcc requirements,
        sc_wave64_lane_byte_size = private_segment_size\<rparr>))"

definition make_queue_scratch_control ::
  "Node \<Rightarrow> u32 \<Rightarrow> u64 \<Rightarrow> (QueueScratchRequirements \<times> QueueScratchControl) scratched" where
  "make_queue_scratch_control node private_segment_size backing_gpu_address =
     obind (find_aperture node)
       (make_queue_scratch_control_in node private_segment_size backing_gpu_address)"

section \<open>Exact arithmetic\<close>

lemma multiply_overflows_iff: "multiply_overflows a b \<longleftrightarrow> 2 ^ 64 \<le> unat a * unat b"
proof (cases "b = 0")
  case False
  then have "0 < unat b" by (simp add: unat_gt_0)
  have "multiply_overflows a b \<longleftrightarrow> (2 ^ 64 - 1) div unat b < unat a"
    using False unfolding multiply_overflows_def word_less_nat_alt unat_div_distrib unat_max64 by blast
  also have "\<dots> \<longleftrightarrow> 2 ^ 64 - 1 < unat a * unat b"
    using \<open>0 < unat b\<close> by (rule div_less_iff_less_mult)
  also have "\<dots> \<longleftrightarrow> Suc (2 ^ 64 - 1) \<le> unat a * unat b" by (rule Suc_le_eq [symmetric])
  finally show ?thesis by simp
qed (simp add: multiply_overflows_def)

lemma unat_mult64: "\<not> multiply_overflows a b \<Longrightarrow> unat (a * b) = unat a * unat b"
  by (simp add: multiply_overflows_iff unat_word_ariths)

lemma multiply_factors_Ok:
  assumes "\<forall>f \<in> set factors. f \<noteq> 0" and "a \<noteq> 0"
  shows "multiply_factors factors a = Ok raw \<longleftrightarrow> unat raw = unat a * prod_list (map unat factors)"
  using assms
proof (induction factors arbitrary: a)
  case Nil
  then show ?case by (auto simp: word_unat_eq_iff)
next
  case (Cons f factors)
  have pos: "0 < prod_list (map unat factors)"
    using Cons.prems(1) by (induction factors) (auto simp: unat_gt_0)
  show ?case
  proof (cases "multiply_overflows a f")
    case True
    then have "2 ^ 64 \<le> unat a * unat f * prod_list (map unat factors)"
      using pos by (metis One_nat_def Suc_leI mult_le_mono mult.right_neutral multiply_overflows_iff)
    then show ?thesis using True unat_u64_less [of raw] by (auto simp: mult.assoc)
  next
    case False
    with Cons.prems have "a * f \<noteq> 0"
      by (metis list.set_intros(1) mult_eq_0_iff unat_eq_zero unat_mult64)
    with Cons False show ?thesis by (simp add: unat_mult64 mult.assoc)
  qed
qed

lemma multiply_factors_not_Fault: "multiply_factors factors a \<noteq> Fault"
  by (induction factors a rule: multiply_factors.induct) auto

text \<open>
  The exact requirements of a segment: \<open>s\<close> bytes a lane, \<open>w\<close> scratch waves a compute unit, \<open>c\<close> compute
  units and \<open>e\<close> shader engines.
\<close>

definition exact_backing :: "nat \<Rightarrow> nat \<Rightarrow> nat \<Rightarrow> nat" where
  "exact_backing s w c = page_round (s * 64 * w * c)"

definition exact_units :: "nat \<Rightarrow> nat" where
  "exact_units s = (s * 64 + 255) div 256"

definition exact_waves :: "nat \<Rightarrow> nat \<Rightarrow> nat \<Rightarrow> nat \<Rightarrow> nat" where
  "exact_waves s w c e = min (exact_backing s w c div (exact_units s * 256) div e) (c * w)"

lemma exact_units_bounds: "s * 64 \<le> exact_units s * 256" "exact_units s * 256 < s * 64 + 256"
  using div_mult_mod_eq [of "s * 64 + 255" 256] mod_less_divisor [of 256 "s * 64 + 255"]
  by (simp_all add: exact_units_def)

lemma exact_waves_fit: "exact_waves s w c e * e * (exact_units s * 256) \<le> exact_backing s w c"
proof -
  let ?t = "exact_backing s w c div (exact_units s * 256)"
  have "exact_waves s w c e * e \<le> ?t div e * e"
    by (simp add: exact_waves_def)
  also have "\<dots> \<le> ?t" by simp
  finally have "exact_waves s w c e * e * (exact_units s * 256) \<le> ?t * (exact_units s * 256)"
    by (rule mult_right_mono) simp
  also have "\<dots> \<le> exact_backing s w c" by simp
  finally show ?thesis .
qed

text \<open>When the requirements of a non-empty segment are computed, and what they are.\<close>

definition sizes_ok :: "Node \<Rightarrow> u32 \<Rightarrow> u64 \<Rightarrow> QueueScratchRequirements \<Rightarrow> bool" where
  "sizes_ok node segment_size aperture_size r \<longleftrightarrow>
     (let s = unat segment_size; w = unat (nd_maximum_scratch_waves_per_compute_unit node);
          c = unat (compute_unit_count node); e = unat (nd_shader_engine_count node) in
      exact_backing s w c \<le> unat aperture_size \<and> exact_backing s w c < 2 ^ 32 \<and>
      exact_units s < 2 ^ 15 \<and> 0 < exact_waves s w c e \<and> exact_waves s w c e < 2 ^ 12 \<and>
      sr_private_segment_size r = segment_size \<and> unat (sr_allocation_size r) = exact_backing s w c \<and>
      sr_backing_size_per_xcc r = sr_allocation_size r \<and> unat (sr_wave_size_units r) = exact_units s \<and>
      unat (sr_waves_per_shader_engine r) = exact_waves s w c e)"

lemma unat_ucast_small: "unat (x :: u64) < 2 ^ 32 \<Longrightarrow> unat (ucast x :: u32) = unat x"
  by (simp add: unsigned_ucast_eq take_bit_nat_eq_self)

lemma unat_min: "unat (min a b :: 'a::len word) = min (unat a) (unat b)"
  by (simp add: min_def word_le_nat_alt)

lemma scratch_units:
  assumes "unat p \<le> 262128"
  shows "unat ((ucast (p :: u32) * kScratchLanesPerWave + kScratchDescriptorAlignment - 1) div
      kScratchDescriptorAlignment) = exact_units (unat p)"
proof -
  have m: "unat (ucast p * 64 :: u64) = unat p * 64"
    using assms by (subst unat_mult64) (simp_all add: multiply_overflows_iff)
  then have "unat (ucast p * 64 + 255 :: u64) = unat p * 64 + 255"
    using assms unat_add64 [of "ucast p * 64" 255] by simp
  moreover have "ucast p * 64 + 256 - 1 = (ucast p * 64 + 255 :: u64)" by simp
  moreover have "unat (256 :: u64) = 256" by simp
  ultimately show ?thesis by (simp only: unat_div_distrib exact_units_def)
qed

lemma scratch_waves:
  assumes "unat a = exact_backing s w c" and "unat u = exact_units s" and "exact_units s < 2 ^ 15"
    and "w = unat (w' :: u32)" and "c = unat (c' :: u32)" and "e = unat (e' :: u32)"
  shows "unat (min (a div (u * kScratchDescriptorAlignment) div ucast e') (ucast c' * ucast w') :: u64) =
    exact_waves s w c e"
proof -
  have "unat (u * 256) = exact_units s * 256"
    using assms(2,3) by (subst unat_mult64) (simp_all add: multiply_overflows_iff)
  moreover have "unat c' * unat w' < 2 ^ 32 * 2 ^ 32"
    by (rule mult_strict_mono) (use unat_u32_less [of c'] unat_u32_less [of w'] in auto)
  then have "unat (ucast c' * ucast w' :: u64) = c * w"
    by (subst unat_mult64) (simp_all add: multiply_overflows_iff assms)
  ultimately show ?thesis by (simp add: unat_min unat_div_distrib exact_waves_def assms)
qed

lemma scratch_sizes_Ok:
  assumes p: "p \<noteq> 0" "unat p \<le> 262128"
    and node: "nd_maximum_scratch_waves_per_compute_unit node \<noteq> 0" "compute_unit_count node \<noteq> 0"
  shows "scratch_sizes node p aperture = Ok r \<longleftrightarrow> sizes_ok node p (sa_size aperture) r"
proof -
  define w c e where "w = unat (nd_maximum_scratch_waves_per_compute_unit node)"
    and "c = unat (compute_unit_count node)" and "e = unat (nd_shader_engine_count node)"
  let ?s = "unat p"
  let ?raw = "?s * 64 * w * c"
  have zero: "ucast (x :: u32) = (0 :: u64) \<longleftrightarrow> x = 0" for x
    by (metis unat_eq_zero unat_u32_to_u64)
  have factors: "multiply_factors [64, ucast (nd_maximum_scratch_waves_per_compute_unit node),
      ucast (compute_unit_count node)] (ucast p) = Ok raw \<longleftrightarrow> unat raw = ?raw" for raw
    using p(1) node by (subst multiply_factors_Ok) (auto simp: zero w_def c_def mult.assoc)
  show ?thesis
  proof (cases "?raw \<le> 2 ^ 64 - 4096")
    case True
    define raw :: u64 where "raw = word_of_nat ?raw"
    have raw: "unat raw = ?raw" using True unfolding raw_def by (intro unat_of_nat64) (erule le_less_trans, simp)
    define a where "a = (raw + 4096 - 1) AND NOT (4096 - 1)"
    have a: "unat a = exact_backing ?s w c"
      using unat_page_round [of raw] True by (simp add: a_def raw exact_backing_def)
    define u where "u = (ucast p * kScratchLanesPerWave + kScratchDescriptorAlignment - 1) div kScratchDescriptorAlignment"
    have u: "unat u = exact_units ?s" unfolding u_def by (rule scratch_units [OF p(2)])
    define v where "v = min (a div (u * kScratchDescriptorAlignment) div ucast (nd_shader_engine_count node))
        (ucast (compute_unit_count node) * ucast (nd_maximum_scratch_waves_per_compute_unit node))"
    have v: "unat v = exact_waves ?s w c e" if "exact_units ?s < 2 ^ 15"
      unfolding v_def by (rule scratch_waves [OF a u that w_def c_def e_def])
    have "0 < exact_units ?s" using exact_units_bounds(1) [of ?s] p(1) by (cases "exact_units ?s") (auto simp: unat_eq_zero)
    then have run: "scratch_sizes node p aperture =
        (if a > sa_size aperture then Err ScratchApertureTooSmall
         else if a > 4294967295 then Err RegisterOverflow
         else if u > kMaximumWaveSizeUnits then Err RegisterOverflow
         else if v = 0 \<or> v > kMaximumWavesPerShaderEngine then Err RegisterOverflow
         else Ok \<lparr>sr_private_segment_size = p, sr_allocation_size = a, sr_backing_size_per_xcc = a,
              sr_wave_size_units = ucast u, sr_waves_per_shader_engine = ucast v\<rparr>)"
    proof -
      assume "0 < exact_units ?s"
      then have u0: "u \<noteq> 0" using u by (metis less_irrefl unat_0)
      have "multiply_factors [64, ucast (nd_maximum_scratch_waves_per_compute_unit node),
          ucast (compute_unit_count node)] (ucast p) = Ok raw"
        using factors raw by blast
      then show ?thesis
        using True u0
        unfolding scratch_sizes_def Let_def round_up_overflows_def page_round_overflows
        by (simp only: obind.simps raw a_def [symmetric] u_def [symmetric] v_def [symmetric] if_False simp_thms)
    qed
    show ?thesis
    proof (cases "exact_units ?s < 2 ^ 15")
      case True
      note v = v [OF True]
      have small: "unat (ucast u :: u32) = exact_units ?s" "exact_waves ?s w c e < 2 ^ 12 \<Longrightarrow> unat (ucast v :: u32) = exact_waves ?s w c e"
        using True by (simp_all add: unat_ucast_small u v)
      have "v \<noteq> 0 \<longleftrightarrow> 0 < exact_waves ?s w c e" using v by (metis unat_gt_0)
      with True small show ?thesis
        unfolding run sizes_ok_def Let_def w_def [symmetric] c_def [symmetric] e_def [symmetric]
        by (auto simp: word_less_nat_alt a u v word_unat_eq_iff)
    next
      case False
      then show ?thesis
        unfolding run sizes_ok_def Let_def by (simp add: word_less_nat_alt u)
    qed
  next
    case False
    moreover have "(2 :: nat) ^ 32 \<le> 2 ^ 64 - 4096" by simp
    ultimately have big: "\<not> exact_backing ?s w c < 2 ^ 32"
      using page_round_bounds(1) [of ?raw] unfolding exact_backing_def by (meson leD le_trans nat_le_linear)
    have over: "round_up_overflows raw 4096" if "multiply_factors [64, ucast (nd_maximum_scratch_waves_per_compute_unit node),
        ucast (compute_unit_count node)] (ucast p) = Ok raw" for raw
      using that False unfolding factors round_up_overflows_def page_round_overflows by simp
    have "\<nexists>r. scratch_sizes node p aperture = Ok r"
      using over unfolding scratch_sizes_def obind_eq_Ok by (metis outcome.distinct(1))
    then show ?thesis using big by (simp add: sizes_ok_def Let_def w_def c_def)
  qed
qed

section \<open>Accepted requests\<close>

definition scratch_node_ok :: "Node \<Rightarrow> bool" where
  "scratch_node_ok node \<longleftrightarrow> nd_architecture node = \<lparr>ga_major = 11, ga_minor = 0, ga_stepping = 1\<rparr> \<and>
     is_gpu node \<and> compute_unit_count node \<noteq> 0 \<and> nd_wavefront_size node = 32 \<and>
     nd_maximum_waves_per_simd node \<noteq> 0 \<and> nd_shader_engine_count node \<noteq> 0 \<and>
     nd_maximum_scratch_waves_per_compute_unit node \<noteq> 0 \<and> nd_xcc_count node = 1"

definition scratch_aperture_ok :: "ScratchAperture \<Rightarrow> bool" where
  "scratch_aperture_ok a \<longleftrightarrow> sa_size a \<noteq> 0 \<and> sa_base a \<noteq> 0 \<and> 65536 dvd unat (sa_base a)"

definition no_scratch :: QueueScratchRequirements where
  "no_scratch = \<lparr>sr_private_segment_size = 0, sr_allocation_size = 0, sr_backing_size_per_xcc = 0,
     sr_wave_size_units = 0, sr_waves_per_shader_engine = 0\<rparr>"

lemma sizes_ok_segment: "sizes_ok node p n r \<Longrightarrow> unat p \<le> 131068"
  using exact_units_bounds(1) [of "unat p"] by (simp add: sizes_ok_def Let_def)

lemma queue_scratch_requirements_in_Ok:
  "queue_scratch_requirements_in node p aperture = Ok r \<longleftrightarrow>
     scratch_node_ok node \<and> scratch_aperture_ok aperture \<and>
     (if p = 0 then r = no_scratch else sizes_ok node p (sa_size aperture) r)"
proof -
  have arch: "\<not> (ga_major a \<noteq> 11 \<or> ga_minor a \<noteq> 0 \<or> ga_stepping a \<noteq> 1) \<longleftrightarrow>
      a = \<lparr>ga_major = 11, ga_minor = 0, ga_stepping = 1\<rparr>" for a :: GpuArchitecture
    by (cases a) auto
  have small: "p > 262128 \<longleftrightarrow> \<not> unat p \<le> 262128" by (simp add: word_less_nat_alt not_le)
  show ?thesis
  proof (cases "scratch_node_ok node \<and> scratch_aperture_ok aperture")
    case True
    then have "queue_scratch_requirements_in node p aperture =
        (if p = 0 then Ok no_scratch else if \<not> unat p \<le> 262128 then Err PrivateSegmentTooLarge
         else scratch_sizes node p aperture)"
      by (simp add: small queue_scratch_requirements_in_def scratch_node_ok_def scratch_aperture_ok_def no_scratch_def)
    with True show ?thesis
      using scratch_sizes_Ok [of p node aperture r] sizes_ok_segment [of node p "sa_size aperture" r]
      by (auto simp: scratch_node_ok_def)
  next
    case False
    then show ?thesis
      using arch [of "nd_architecture node"]
      by (auto simp: queue_scratch_requirements_in_def scratch_node_ok_def scratch_aperture_ok_def)
  qed
qed

lemma scratch_sizes_not_Fault: "scratch_sizes node p aperture \<noteq> Fault"
  using multiply_factors_not_Fault by (auto simp: scratch_sizes_def Let_def)

lemma queue_scratch_requirements_in_not_Fault: "queue_scratch_requirements_in node p aperture \<noteq> Fault"
  by (simp add: queue_scratch_requirements_in_def scratch_sizes_not_Fault)

section \<open>Decoding the control words\<close>

definition descriptor_address :: "u32 list \<Rightarrow> u64" where
  "descriptor_address d = ucast (d ! 0) OR push_bit 32 (ucast (d ! 1 AND 0xffff))"

definition tmpring_waves :: "u32 \<Rightarrow> u32" where
  "tmpring_waves t = take_bit 12 t"

definition tmpring_wave_size :: "u32 \<Rightarrow> u32" where
  "tmpring_wave_size t = take_bit 15 (drop_bit 12 t)"

lemma word_below:
  assumes "unat (w :: 'a::len word) < 2 ^ n"
  shows "take_bit n w = w"
  using assms by (simp add: word_unat_eq_iff unsigned_take_bit_eq take_bit_nat_eq_self)

lemma tmpring_fields:
  assumes "unat (u :: u32) < 2 ^ 15" and "unat v < 2 ^ 12"
  shows "tmpring_waves (push_bit 12 u OR v) = v" and "tmpring_wave_size (push_bit 12 u OR v) = u"
proof -
  have "bit u n \<Longrightarrow> n < 15" and "bit v n \<Longrightarrow> n < 12" for n
    using word_below [OF assms(1)] word_below [OF assms(2)] by (metis bit_take_bit_iff)+
  then show "tmpring_waves (push_bit 12 u OR v) = v" and "tmpring_wave_size (push_bit 12 u OR v) = u"
    unfolding tmpring_waves_def tmpring_wave_size_def
    by (auto intro!: bit_word_eqI simp: bit_simps) (fastforce dest: bit_imp_le_length)+
qed

lemma descriptor_address_eq:
  assumes "unat b < 2 ^ 48"
  shows "descriptor_address [ucast b, ucast (drop_bit 32 b AND 0xffff) OR push_bit 30 1, s, t] = b"
proof -
  have b: "bit b n \<Longrightarrow> n < 48" for n using word_below [OF assms] by (metis bit_take_bit_iff)
  have "(ucast (drop_bit 32 b AND 0xffff) OR push_bit 30 1 :: u32) AND 0xffff =
      (ucast (drop_bit 32 b AND 0xffff) AND 0xffff) OR (push_bit 30 1 AND 0xffff)"
    by (rule bit.conj_disj_distrib2)
  also have "\<dots> = ucast (drop_bit 32 b AND mask 16) AND mask 16" by (simp add: mask_eq_exp_minus_1)
  finally have "descriptor_address [ucast b, ucast (drop_bit 32 b AND 0xffff) OR push_bit 30 1, s, t] =
      ucast (ucast b :: u32) OR push_bit 32 (ucast (ucast (drop_bit 32 b AND mask 16) AND mask 16 :: u32))"
    by (simp add: descriptor_address_def)
  also have "\<dots> = b"
  proof (rule bit_word_eqI)
    fix n
    assume "n < LENGTH(64)"
    then show "bit (ucast (ucast b :: u32) OR push_bit 32 (ucast (ucast (drop_bit 32 b AND mask 16) AND mask 16 :: u32)) :: u64) n =
        bit b n"
      using b [of n] by (auto simp: bit_simps)
  qed
  finally show ?thesis .
qed

text \<open>What a control block of a queue with scratch says.\<close>

definition scratch_control_ok :: "Node \<Rightarrow> u32 \<Rightarrow> u64 \<Rightarrow> u64 \<Rightarrow> QueueScratchRequirements \<Rightarrow> QueueScratchControl \<Rightarrow> bool" where
  "scratch_control_ok node p aperture_size b r c \<longleftrightarrow> sizes_ok node p aperture_size r \<and>
     b \<noteq> 0 \<and> 65536 dvd unat b \<and> unat b + unat (sr_allocation_size r) \<le> 2 ^ 48 \<and>
     descriptor_address (sc_resource_descriptor c) = b \<and>
     unat (sc_resource_descriptor c ! 2) = unat (sr_allocation_size r) \<and>
     tmpring_waves (sc_compute_tmpring_size c) = sr_waves_per_shader_engine r \<and>
     tmpring_wave_size (sc_compute_tmpring_size c) = sr_wave_size_units r \<and>
     sc_backing_memory_location c = b \<and> sc_backing_memory_byte_size c = sr_allocation_size r \<and>
     sc_wave64_lane_byte_size c = p"

lemma backing_range:
  assumes "a \<noteq> 0"
  shows "\<not> (b > kMaximumDescriptorAddress \<or> a - 1 > kMaximumDescriptorAddress - b) \<longleftrightarrow> unat b + unat a \<le> 2 ^ 48"
proof -
  have "1 \<le> a" using assms by (simp add: word_le_nat_alt unat_gt_0 Suc_le_eq)
  then have "unat (a - 1) = unat a - 1" by (simp add: unat_sub)
  moreover have "unat (kMaximumDescriptorAddress - b) = 281474976710655 - unat b" if "b \<le> kMaximumDescriptorAddress"
    using unat_sub [OF that] by simp
  moreover have "0 < unat a" using assms by (simp add: unat_gt_0)
  ultimately show ?thesis by (auto simp: word_less_nat_alt word_le_nat_alt)
qed

lemma make_queue_scratch_control_in_valid:
  assumes "p \<noteq> 0"
  shows "valid (make_queue_scratch_control_in node p b aperture) (\<lambda>(r, c).
    scratch_node_ok node \<and> scratch_control_ok node p (sa_size aperture) b r c)"
proof (rule valid_of_Ok)
  show "make_queue_scratch_control_in node p b aperture \<noteq> Fault"
    using queue_scratch_requirements_in_not_Fault by (auto simp: make_queue_scratch_control_in_def)
  fix x
  assume "make_queue_scratch_control_in node p b aperture = Ok x"
  then obtain r where r: "queue_scratch_requirements_in node p aperture = Ok r"
    by (auto simp: make_queue_scratch_control_in_def)
  with assms have node: "scratch_node_ok node" and sizes: "sizes_ok node p (sa_size aperture) r"
    by (simp_all add: queue_scratch_requirements_in_Ok)
  have backing: "sr_backing_size_per_xcc r = sr_allocation_size r"
    and alloc: "sr_allocation_size r \<noteq> 0" "unat (sr_allocation_size r) < 2 ^ 32"
    and regs: "unat (sr_wave_size_units r) < 2 ^ 15" "unat (sr_waves_per_shader_engine r) < 2 ^ 12"
    using sizes by (auto simp: sizes_ok_def Let_def exact_waves_def)
  let ?c = "\<lparr>sc_resource_descriptor = [ucast b, ucast (drop_bit 32 b AND 0xffff) OR push_bit 30 1,
       ucast (sr_allocation_size r), kScratchSrdWord3],
     sc_compute_tmpring_size = push_bit 12 (sr_wave_size_units r) OR sr_waves_per_shader_engine r,
     sc_backing_memory_location = b, sc_backing_memory_byte_size = sr_allocation_size r,
     sc_wave64_lane_byte_size = p\<rparr>"
  have x: "x = (r, ?c)" and b: "b \<noteq> 0" "65536 dvd unat b"
    and range: "\<not> (b > kMaximumDescriptorAddress \<or> sr_allocation_size r - 1 > kMaximumDescriptorAddress - b)"
    using \<open>make_queue_scratch_control_in node p b aperture = Ok x\<close> alloc(1)
    by (simp_all add: make_queue_scratch_control_in_def r backing split: if_splits)
  from range have fit: "unat b + unat (sr_allocation_size r) \<le> 2 ^ 48" unfolding backing_range [OF alloc(1)] .
  moreover have "0 < unat (sr_allocation_size r)" using alloc(1) by (simp add: unat_gt_0)
  ultimately have "unat b < 2 ^ 48" by linarith
  then show "case x of (r, c) \<Rightarrow> scratch_node_ok node \<and> scratch_control_ok node p (sa_size aperture) b r c"
    using node sizes b fit alloc(2) tmpring_fields [OF regs]
    by (simp add: x scratch_control_ok_def descriptor_address_eq unat_ucast_small del: push_bit_of_1)
qed

section \<open>The aperture of a node\<close>

lemma scratch_aperture_loop_eq:
  "scratch_aperture_loop banks result n =
     (let found = filter (\<lambda>b. mb_heap_type b = HeapScratch) banks
      in (if found = [] then result else Some (last found), n + length found))"
  by (induction banks result n rule: scratch_aperture_loop.induct) (auto simp: Let_def)

lemma find_aperture_Ok:
  "find_aperture node = Ok a \<longleftrightarrow>
     (\<exists>bank. filter (\<lambda>b. mb_heap_type b = HeapScratch) (nd_memory_banks node) = [bank] \<and>
        a = \<lparr>sa_base = mb_virtual_base_address bank, sa_size = mb_size bank\<rparr>)"
  by (auto simp: find_aperture_def scratch_aperture_def scratch_aperture_loop_eq Let_def
      length_Suc_conv split: nat.splits if_splits)

end
