(* ===== verification/CodeCache.thy ===== *)
theory CodeCache
  imports Prelude
begin

text \<open>
  The command that makes freshly written code visible to the instruction caches:
  \<open>light-rocr/arch/gfx11/code_cache.cpp\<close>. The builder validates the range, the address of the command
  and the completion signal, and packs them into an acquire-memory command and the packet that
  points to it. The lemmas decode both back.
\<close>

unbundle bit_operations_syntax

section \<open>Encoding\<close>

abbreviation (input) "kPm4Type3 \<equiv> (push_bit 30 3 :: u32)"
abbreviation (input) "kPm4AcquireMemoryOpcode \<equiv> (0x58 :: u32)"
abbreviation (input) "kPm4IndirectBufferOpcode \<equiv> (0x3f :: u32)"
abbreviation (input) "kPm4GlobalInvalidate \<equiv>
  (1 OR push_bit 7 1 OR push_bit 8 1 OR push_bit 9 1 OR push_bit 14 1 :: u32)"
abbreviation (input) "kPm4IndirectBufferValid \<equiv> (push_bit 23 1 :: u32)"
abbreviation (input) "kCodeCacheGranule \<equiv> (256 :: u64)"
abbreviation (input) "kMaximumCodeRangeGranules \<equiv> (1099511627775 :: u64)"
abbreviation (input) "kMaximumIndirectBufferAddress \<equiv> (281474976710655 :: u64)"
abbreviation (input) "kAqlPacketTypeVendorSpecific \<equiv> (0 :: u16)"
abbreviation (input) "kAmdAqlFormatPm4IndirectBuffer \<equiv> (1 :: u16)"

record AqlPm4IndirectBufferPacket =
  pm_header :: u16
  pm_vendor_header :: u16
  pm_indirect_buffer :: "u32 list"
  pm_dword_count_remaining :: u32
  pm_reserved :: "u32 list"
  pm_completion_signal :: u64

datatype CodeCacheCommandError =
    NoCommandError | InvalidCodeRange | InvalidCommandAddress | InvalidCompletionSignal

primrec code_cache_command_error_name :: "CodeCacheCommandError \<Rightarrow> string" where
  "code_cache_command_error_name NoCommandError = ''none''"
| "code_cache_command_error_name InvalidCodeRange = ''invalid_code_range''"
| "code_cache_command_error_name InvalidCommandAddress = ''invalid_command_address''"
| "code_cache_command_error_name InvalidCompletionSignal = ''invalid_completion_signal''"

definition pm4_header :: "u32 \<Rightarrow> u32 \<Rightarrow> u32" where
  "pm4_header opcode dword_count =
     kPm4Type3 OR push_bit 8 opcode OR push_bit 16 (dword_count - 2)"

definition add_overflows :: "u64 \<Rightarrow> u64 \<Rightarrow> bool" where
  "add_overflows left right \<longleftrightarrow> left > (- 1) - right"

text \<open>The command words and the packet of an accepted request.\<close>

definition build_code_cache_invalidate ::
  "u64 \<Rightarrow> u64 \<Rightarrow> u64 \<Rightarrow> u64 \<Rightarrow>
   (CodeCacheCommandError, u32 list \<times> AqlPm4IndirectBufferPacket) outcome" where
  "build_code_cache_invalidate code_gpu_address code_size command_gpu_address completion_signal =
     (if code_size = 0 \<or> code_gpu_address mod kCodeCacheGranule \<noteq> 0 \<or>
         code_size mod kCodeCacheGranule \<noteq> 0 \<or>
         code_size div kCodeCacheGranule > kMaximumCodeRangeGranules \<or>
         add_overflows code_gpu_address code_size
      then Err InvalidCodeRange
      else if command_gpu_address mod 4 \<noteq> 0 \<or>
              command_gpu_address > kMaximumIndirectBufferAddress \<or>
              add_overflows command_gpu_address 32 \<or>
              command_gpu_address + 32 - 1 > kMaximumIndirectBufferAddress
      then Err InvalidCommandAddress
      else if completion_signal = 0 \<or> completion_signal mod 64 \<noteq> 0
      then Err InvalidCompletionSignal
      else
      let range_granules = code_size div kCodeCacheGranule;
          command = [pm4_header kPm4AcquireMemoryOpcode 8, 0, ucast range_granules,
                     ucast (drop_bit 32 range_granules), ucast (drop_bit 8 code_gpu_address),
                     ucast (drop_bit 40 code_gpu_address), 0, kPm4GlobalInvalidate]
      in Ok (command,
        \<lparr>pm_header = kAqlPacketTypeVendorSpecific,
         pm_vendor_header = kAmdAqlFormatPm4IndirectBuffer,
         pm_indirect_buffer =
           [pm4_header kPm4IndirectBufferOpcode 4, ucast command_gpu_address AND 0xfffffffc,
            ucast (drop_bit 32 command_gpu_address) AND 0xffff,
            word_of_nat (length command) OR kPm4IndirectBufferValid],
         pm_dword_count_remaining = 0xa, pm_reserved = replicate 8 0,
         pm_completion_signal = completion_signal\<rparr>))"

section \<open>Decoding\<close>

text \<open>A pair of words as the hardware reads it: the low word first.\<close>

definition word_pair :: "u32 \<Rightarrow> u32 \<Rightarrow> u64" where
  "word_pair lo hi = ucast lo OR push_bit 32 (ucast hi)"

definition pm4_opcode :: "u32 \<Rightarrow> u32" where
  "pm4_opcode header = drop_bit 8 header AND 0xff"

definition pm4_dwords :: "u32 \<Rightarrow> nat" where
  "pm4_dwords header = unat (drop_bit 16 header AND 0x3fff) + 2"

lemma word_pair_split: "word_pair (ucast (w :: u64)) (ucast (drop_bit 32 w)) = w"
  by (rule bit_word_eqI) (auto simp: word_pair_def bit_simps)

lemma add_overflows_iff: "add_overflows a b \<longleftrightarrow> 2 ^ 64 \<le> unat a + unat b"
  using unat_u64_less [of b] by (auto simp: add_overflows_def word_less_nat_alt unat_max_minus)

definition code_range_ok :: "u64 \<Rightarrow> u64 \<Rightarrow> bool" where
  "code_range_ok a n \<longleftrightarrow> n \<noteq> 0 \<and> 256 dvd unat a \<and> 256 dvd unat n \<and> unat n < 2 ^ 48 \<and> unat a + unat n < 2 ^ 64"

definition command_address_ok :: "u64 \<Rightarrow> bool" where
  "command_address_ok a \<longleftrightarrow> 4 dvd unat a \<and> unat a + 32 \<le> 2 ^ 48"

definition command_decodes ::
  "u64 \<Rightarrow> u64 \<Rightarrow> u64 \<Rightarrow> u64 \<Rightarrow> u32 list \<Rightarrow> AqlPm4IndirectBufferPacket \<Rightarrow> bool" where
  "command_decodes a n ca signal command packet \<longleftrightarrow>
     length command = 8 \<and> pm4_opcode (command ! 0) = 0x58 \<and> pm4_dwords (command ! 0) = length command \<and>
     unat (word_pair (command ! 2) (command ! 3)) * 256 = unat n \<and>
     unat (word_pair (command ! 4) (command ! 5)) * 256 = unat a \<and>
     length (pm_indirect_buffer packet) = 4 \<and> pm4_opcode (pm_indirect_buffer packet ! 0) = 0x3f \<and>
     pm4_dwords (pm_indirect_buffer packet ! 0) = length (pm_indirect_buffer packet) \<and>
     word_pair (pm_indirect_buffer packet ! 1) (pm_indirect_buffer packet ! 2) = ca \<and>
     unat (pm_indirect_buffer packet ! 3 AND 0xfffff) = length command \<and>
     pm_completion_signal packet = signal"

lemma code_range_test:
  "(n = 0 \<or> a mod 256 \<noteq> 0 \<or> n mod 256 \<noteq> 0 \<or> n div 256 > kMaximumCodeRangeGranules \<or> add_overflows a n) \<longleftrightarrow>
     \<not> code_range_ok a n"
proof -
  have "256 dvd unat n \<Longrightarrow> unat n div 256 \<le> 1099511627775 \<longleftrightarrow> unat n < 2 ^ 48"
    by (auto simp: dvd_def)
  then show ?thesis
    by (auto simp: code_range_ok_def add_overflows_iff word_less_nat_alt unat_div_distrib)
qed

lemma command_address_test:
  "(a mod 4 \<noteq> 0 \<or> a > kMaximumIndirectBufferAddress \<or> add_overflows a 32 \<or> a + 32 - 1 > kMaximumIndirectBufferAddress) \<longleftrightarrow>
     \<not> command_address_ok a"
proof -
  have "unat (31 + a) = 31 + unat a" if "unat a + 32 < 2 ^ 64" using that unat_add64 [of 31 a] by simp
  then show ?thesis
    by (auto simp: command_address_ok_def add_overflows_iff word_less_nat_alt)
qed

lemma granule_words: "256 dvd unat (a :: u64) \<Longrightarrow>
  unat (word_pair (ucast (drop_bit 8 a)) (ucast (drop_bit 40 a))) * 256 = unat a"
proof -
  assume d: "256 dvd unat a"
  have "drop_bit 40 a = drop_bit 32 (drop_bit 8 a)" by simp
  then have "word_pair (ucast (drop_bit 8 a)) (ucast (drop_bit 40 a)) = drop_bit 8 a"
    using word_pair_split [of "drop_bit 8 a"] by simp
  moreover have "unat (drop_bit 8 a) = unat a div 256" using unat_u64_less [of a] by (simp add: unsigned_drop_bit_eq drop_bit_nat_def take_bit_nat_eq_self)
  ultimately show ?thesis using d by simp
qed

lemma command_address_words:
  assumes "4 dvd unat (a :: u64)" and "unat a < 2 ^ 48"
  shows "word_pair (ucast a AND 0xfffffffc) (ucast (drop_bit 32 a) AND 0xffff) = a"
proof -
  have low: "\<not> bit a n" if "n < 2" for n
  proof -
    have "take_bit 2 (unat a) = 0" using assms(1) by (simp add: take_bit_eq_mod)
    then have "take_bit 2 a = 0" by (simp add: word_unat_eq_iff unsigned_take_bit_eq)
    then show ?thesis using that by (metis bit_0_eq bit_take_bit_iff bot_apply bot_bool_def)
  qed
  have high: "n < 48" if "bit a n" for n
  proof -
    have "take_bit 48 a = a"
      using assms(2) by (simp add: word_unat_eq_iff unsigned_take_bit_eq take_bit_nat_eq_self)
    then show ?thesis using that by (metis bit_take_bit_iff)
  qed
  have m: "(0xfffffffc :: u32) = NOT (mask 2)" "(0xffff :: u32) = mask 16" by (simp_all add: mask_eq_exp_minus_1)
  show ?thesis unfolding m word_pair_def
  proof (rule bit_word_eqI)
    fix n
    assume "n < LENGTH(64)"
    then show "bit (ucast (ucast a AND NOT (mask 2) :: u32) OR push_bit 32 (ucast (ucast (drop_bit 32 a) AND mask 16 :: u32)) :: u64) n =
        bit a n"
      using low [of n] high [of n] by (auto simp: bit_simps)
  qed
qed

lemma header_fields:
  "pm4_opcode (pm4_header 0x58 8) = 0x58" "pm4_dwords (pm4_header 0x58 8) = 8"
  "pm4_opcode (pm4_header 0x3f 4) = 0x3f" "pm4_dwords (pm4_header 0x3f 4) = 4"
  "unat ((word_of_nat 8 OR kPm4IndirectBufferValid) AND 0xfffff) = 8"
  by (simp_all add: pm4_opcode_def pm4_dwords_def pm4_header_def push_bit_eq_mult)

lemma build_code_cache_invalidate_valid:
  "valid (build_code_cache_invalidate a n ca signal) (\<lambda>(command, packet).
     code_range_ok a n \<and> command_address_ok ca \<and> signal \<noteq> 0 \<and> 64 dvd unat signal \<and>
     command_decodes a n ca signal command packet)"
  "(\<exists>x. build_code_cache_invalidate a n ca signal = Ok x) \<longleftrightarrow>
     code_range_ok a n \<and> command_address_ok ca \<and> signal \<noteq> 0 \<and> 64 dvd unat signal"
proof -
  let ?g = "n div 256"
  have g: "unat (word_pair (ucast ?g) (ucast (drop_bit 32 ?g))) * 256 = unat n" if "256 dvd unat n"
    using that by (simp add: word_pair_split unat_div_distrib)
  have c: "word_pair (ucast ca AND 0xfffffffc) (ucast (drop_bit 32 ca) AND 0xffff) = ca" if "command_address_ok ca"
    using that by (intro command_address_words) (auto simp: command_address_ok_def)
  note run = build_code_cache_invalidate_def [of a n ca signal, unfolded code_range_test command_address_test]
  show "valid (build_code_cache_invalidate a n ca signal) (\<lambda>(command, packet).
      code_range_ok a n \<and> command_address_ok ca \<and> signal \<noteq> 0 \<and> 64 dvd unat signal \<and>
      command_decodes a n ca signal command packet)"
    unfolding run command_decodes_def Let_def
    by (intro valid_IfI)
      (simp_all add: header_fields [simplified] g [simplified] c [simplified] granule_words [simplified] code_range_ok_def)
  show "(\<exists>x. build_code_cache_invalidate a n ca signal = Ok x) \<longleftrightarrow>
      code_range_ok a n \<and> command_address_ok ca \<and> signal \<noteq> 0 \<and> 64 dvd unat signal"
    unfolding run Let_def by auto
qed

end
