(* ===== verification/DispatchProperties.thy ===== *)
theory DispatchProperties
  imports QueueTransport QueueScratch CodeCache
begin

text \<open>
  The properties of the dispatch path: the kernarg segment, the choice of a GPU, the scratch and cache
  commands of gfx11, the packets, the ring and the queue objects behind it; each with a concrete
  instance.
\<close>

section \<open>Kernargs\<close>

definition sample_kernel :: KernelInfo where
  "sample_kernel = default_KernelInfo\<lparr>ki_name := ''k'', ki_kernarg_size := 24, ki_kernarg_alignment := 16,
     ki_arguments := [\<lparr>ka_offset = 0, ka_size = 8, ka_kind = GlobalBuffer\<rparr>,
                      \<lparr>ka_offset = 8, ka_size = 4, ka_kind = HiddenBlockCountX\<rparr>,
                      \<lparr>ka_offset = 12, ka_size = 2, ka_kind = HiddenGroupSizeX\<rparr>,
                      \<lparr>ka_offset = 16, ka_size = 8, ka_kind = HiddenQueuePtr\<rparr>],
     ki_explicit_argument_size := 8\<rparr>"

definition sample_config :: lr_launch_config where
  "sample_config = \<lparr>cfg_grid = \<lparr>dim_x = 1024, dim_y = 1, dim_z = 1\<rparr>,
     cfg_block = \<lparr>dim_x = 256, dim_y = 1, dim_z = 1\<rparr>, cfg_shared_memory_bytes = 0\<rparr>"

text \<open>
  C30. The kernarg segment of a dispatch is materialised exactly: the call never leaves its buffers, and it succeeds
  exactly when the alignment of the kernel is a power of two of at least 16, the arguments fit the segment, and
  the destination is large enough at an aligned address that does not wrap (or is absent, for an empty segment);
  then the destination holds the arguments, zeros up to the size of the segment and its old bytes behind it.
\<close>

theorem kernarg_buffer_exact:
  assumes "buffer_ok arguments n" and "buffer_ok destination m"
  shows "materialize_kernarg_buffer k arguments n destination m gpu \<noteq> Fault \<and>
    (materialize_kernarg_buffer k arguments n destination m gpu = Ok (after, info) \<longleftrightarrow>
      kernarg_request_ok k arguments n \<and> info = kernarg_info k gpu \<and>
      (if ki_kernarg_size k = 0 then destination = None \<and> m = 0 \<and> gpu = 0 \<and> after = None
       else \<exists>buffer. destination = Some buffer \<and> unat (ki_kernarg_size k) \<le> unat m \<and>
         kernarg_address_ok k gpu \<and>
         after = Some (kernarg_segment (buffer_bytes arguments) (unat n) (unat (ki_kernarg_size k)) buffer)))"
  using materialize_kernarg_buffer_Ok [OF assms] by blast

theorem kernarg_buffer_exact_witness:
  "materialize_kernarg_buffer sample_kernel (Some [1, 2, 3, 4, 5, 6, 7, 8]) 8 (Some (replicate 26 9)) 26 4096 =
     Ok (Some ([1, 2, 3, 4, 5, 6, 7, 8] @ replicate 16 0 @ replicate 2 9), kernarg_info sample_kernel 4096)"
proof -
  have "buffer_ok (Some [1, 2, 3, 4, 5, 6, 7, 8]) 8" "buffer_ok (Some (replicate 26 (9 :: u8))) 26"
    by (simp_all add: buffer_ok_def)
  from kernarg_buffer_exact [OF this, of sample_kernel 4096] show ?thesis
    by (simp add: sample_kernel_def default_KernelInfo_def kernarg_request_ok_def kernarg_address_ok_def
        kernarg_segment_def buffer_bytes_def is_power_of_two_def)
qed

text \<open>
  C31. For the argument table of an accepted kernel and a launch of valid shape, the hidden arguments are written
  completely and nothing else is touched: every hidden argument the runtime knows holds its value, every other
  byte of the segment is unchanged, and the call succeeds.
\<close>

theorem hidden_arguments_exact:
  assumes "wf_arguments (ki_kernarg_size k) (ki_explicit_argument_size k) (ki_arguments k)"
    and "launch_shape_ok config" and "unat (ki_kernarg_size k) \<le> unat m" and "unat m \<le> length buf"
  shows "\<exists>after. populate_light_rocr_hidden_kernargs k config (Some buf) m = Ok (True, after) \<and>
    hidden_populated k config buf after"
  by (rule populate_hidden_valid [OF assms])

theorem hidden_arguments_exact_witness:
  "\<exists>after. populate_light_rocr_hidden_kernargs sample_kernel sample_config (Some (replicate 24 0)) 24 = Ok (True, after) \<and>
     take 4 (drop 8 after) = [4, 0, 0, 0] \<and> take 2 (drop 12 after) = [0, 1]"
proof -
  have "wf_arguments (ki_kernarg_size sample_kernel) (ki_explicit_argument_size sample_kernel) (ki_arguments sample_kernel)"
    by (simp add: sample_kernel_def default_KernelInfo_def wf_arguments_def wf_argument_def
        required_hidden_argument_size_def is_hidden_argument_def)
  moreover have "launch_shape_ok sample_config" by (simp add: launch_shape_ok_def sample_config_def)
  moreover have "unat (ki_kernarg_size sample_kernel) \<le> unat (24 :: u64)" "unat (24 :: u64) \<le> length (replicate 24 (0 :: u8))"
    by (simp_all add: sample_kernel_def default_KernelInfo_def)
  ultimately obtain after where run: "populate_light_rocr_hidden_kernargs sample_kernel sample_config (Some (replicate 24 0)) 24 =
      Ok (True, after)" and pop: "hidden_populated sample_kernel sample_config (replicate 24 0) after"
    using hidden_arguments_exact by blast
  have "take 4 (drop 8 after) = le_bytes 4 (1024 div 256 :: u32)" "take 2 (drop 12 after) = le_bytes 2 (256 :: u32)"
    using pop by (simp_all add: hidden_populated_def sample_kernel_def sample_config_def hidden_value_def default_KernelInfo_def)
  moreover have "le_bytes 4 (1024 div 256 :: u32) = [4, 0, 0, 0]" "le_bytes 2 (256 :: u32) = [0, 1]" by code_simp+
  ultimately show ?thesis using run by simp
qed

section \<open>Topology\<close>

text \<open>
  C38. A GPU is selected exactly when the target name is well formed and one node, and only one, is a GPU with that
  name: the index returned is that node's. The three errors say which of the conditions failed.
\<close>

theorem gpu_selection_exact:
  "select_unique_gpu nodes target_isa =
     (let target = canonical_gfx_target target_isa;
          found = {i. i < length nodes \<and> is_gpu (nodes ! i) \<and> gfx_target_name (nd_architecture (nodes ! i)) = target}
      in if target = [] then \<lparr>gs_error = InvalidTarget, gs_node_index = 0\<rparr>
         else if found = {} then \<lparr>gs_error = NoMatchingGpu, gs_node_index = 0\<rparr>
         else if card found \<noteq> 1 then \<lparr>gs_error = MultipleMatchingGpus, gs_node_index = 0\<rparr>
         else \<lparr>gs_error = NoSelectionError, gs_node_index = Min found\<rparr>)"
proof -
  let ?t = "canonical_gfx_target target_isa"
  have found: "{i. i < length nodes \<and> is_gpu (nodes ! i) \<and> gfx_target_name (nd_architecture (nodes ! i)) = ?t} =
      set (matching_nodes ?t nodes)"
    by (auto simp: node_matches_def)
  have card: "card (set (matching_nodes ?t nodes)) = length (matching_nodes ?t nodes)"
    by (rule distinct_card) simp
  show ?thesis
    unfolding select_unique_gpu_cases Let_def found card
    by (cases "matching_nodes ?t nodes" rule: remdups_adj.cases) simp_all
qed



section \<open>Scratch and caches of gfx11\<close>

text \<open>
  C32. The scratch requirements are exact integer arithmetic: the call succeeds exactly for a complete gfx1101 node,
  a 64 KiB aligned aperture and sizes that fit the aperture, the 32-bit record count and the two register fields, and
  then the fields are the unbounded products and quotients; no 64-bit intermediate wraps into an accepted result.
\<close>

theorem scratch_requirements_exact:
  "queue_scratch_requirements_in node p aperture = Ok r \<longleftrightarrow>
     scratch_node_ok node \<and> scratch_aperture_ok aperture \<and>
     (if p = 0 then r = no_scratch else sizes_ok node p (sa_size aperture) r)"
  by (rule queue_scratch_requirements_in_Ok)

text \<open>
  C33. The control words of a queue with scratch decode to what was asked for: the descriptor holds the backing address
  and size, the ring-size register the wave count and wave size, the backing memory is an aligned 48-bit range, and the
  slots of all waves the register admits on all shader engines fit in it.
\<close>

theorem scratch_control_decodes:
  assumes "p \<noteq> 0" and "make_queue_scratch_control_in node p b aperture = Ok (r, c)"
  shows "scratch_control_ok node p (sa_size aperture) b r c \<and>
    unat (tmpring_waves (sc_compute_tmpring_size c)) * unat (nd_shader_engine_count node) *
      (unat (tmpring_wave_size (sc_compute_tmpring_size c)) * 256) \<le> unat (sc_backing_memory_byte_size c)"
proof -
  have ok: "scratch_control_ok node p (sa_size aperture) b r c"
    using validD [OF make_queue_scratch_control_in_valid [OF assms(1)] assms(2)] by simp
  then show ?thesis
    using exact_waves_fit by (auto simp: scratch_control_ok_def sizes_ok_def Let_def)
qed

definition sample_node :: Node where
  "sample_node = default_Node\<lparr>nd_architecture := \<lparr>ga_major = 11, ga_minor = 0, ga_stepping = 1\<rparr>,
     nd_simd_count := 4, nd_simd_per_compute_unit := 2, nd_wavefront_size := 32, nd_maximum_waves_per_simd := 16,
     nd_shader_engine_count := 1, nd_maximum_scratch_waves_per_compute_unit := 32, nd_xcc_count := 1\<rparr>"

theorem scratch_control_decodes_witness:
  "\<exists>r c. make_queue_scratch_control_in sample_node 16 65536 \<lparr>sa_base = 65536, sa_size = 1048576\<rparr> = Ok (r, c) \<and>
     descriptor_address (sc_resource_descriptor c) = 65536"
proof -
  have "make_queue_scratch_control_in sample_node 16 65536 \<lparr>sa_base = 65536, sa_size = 1048576\<rparr> =
      Ok (\<lparr>sr_private_segment_size = 16, sr_allocation_size = 65536, sr_backing_size_per_xcc = 65536,
           sr_wave_size_units = 4, sr_waves_per_shader_engine = 64\<rparr>,
          \<lparr>sc_resource_descriptor = [65536, 0x40000000, 65536, 0x20814fac], sc_compute_tmpring_size = 16448,
           sc_backing_memory_location = 65536, sc_backing_memory_byte_size = 65536, sc_wave64_lane_byte_size = 16\<rparr>)"
    by code_simp
  with scratch_control_decodes [OF _ this] show ?thesis
    by (simp add: scratch_control_ok_def)
qed

text \<open>
  C34. The cache command covers exactly the requested range: it is built exactly for a non-empty range of whole 256-byte
  granules below 2^48 bytes that does not wrap, a word-aligned command below 2^48 and an aligned completion signal, and
  the words of the command and of its packet decode to the range, the command address and the lengths.
\<close>

theorem code_cache_command_exact:
  "(\<exists>command packet. build_code_cache_invalidate a n ca signal = Ok (command, packet) \<and>
      command_decodes a n ca signal command packet) \<longleftrightarrow>
   code_range_ok a n \<and> command_address_ok ca \<and> signal \<noteq> 0 \<and> 64 dvd unat signal"
proof -
  have "(\<exists>x. build_code_cache_invalidate a n ca signal = Ok x) \<longleftrightarrow>
      (\<exists>command packet. build_code_cache_invalidate a n ca signal = Ok (command, packet) \<and>
        command_decodes a n ca signal command packet)"
    using validD [OF build_code_cache_invalidate_valid(1) [of a n ca signal]] by fastforce
  then show ?thesis using build_code_cache_invalidate_valid(2) by blast
qed

section \<open>Packets\<close>

text \<open>
  C35. The validation of a packet the runtime builds depends on its parameters only in this way: work-group sizes are
  non-zero and at most the grid sizes, and there is a kernel object. The header, the reserved fields and the dimension
  count it chooses always pass, whatever the ordering.
\<close>

theorem dispatch_packet_exact:
  "valid_aql_kernel_dispatch_packet (build_aql_kernel_dispatch_packet p ordr) \<longleftrightarrow> dispatch_parameters_ok p"
  by (rule valid_built_dispatch)

section \<open>The ring\<close>

text \<open>
  C28. A queue is a first-in first-out list of packets: from an empty ring, after any sequence of submissions (dispatches,
  barriers, batches of both) and of reads by the device, the packets waiting in the ring are the packets submitted
  without those the device took, in order; none is lost, overwritten or repeated, and the indices stay within one
  ring of each other.
\<close>

theorem queue_fifo:
  assumes "queue_run s es t" and "queue_ok s" and "waiting s = []"
  shows "queue_ok t \<and> consumed_by es \<le> length (submitted_by es) \<and>
    waiting t = drop (consumed_by es) (submitted_by es)"
  by (rule queue_run_fifo [OF assms])

definition sample_queue :: AqlQueue where
  "sample_queue = \<lparr>aq_state = True, aq_active = True, aq_control = True, aq_ring = True,
     aq_doorbell_address = 4096, aq_ring_size = 64, aq_scratch_private_segment_size = 0,
     aq_read_dispatch_id = 5, aq_write_dispatch_id = 5, aq_queue_properties = 0, aq_doorbell = None\<rparr>"

definition sample_parameters :: AqlKernelDispatchParameters where
  "sample_parameters = aql_dispatch_parameters sample_config 0 0 64 0 128"

definition sample_ordering :: AqlDispatchOrdering where
  "sample_ordering = \<lparr>do_pending_dispatch_count = 0, do_has_pending_dependencies = False\<rparr>"

definition sample_packet :: bytes where
  "sample_packet = kernel_dispatch_bytes (build_aql_kernel_dispatch_packet sample_parameters sample_ordering)"

lemma sample_submission:
  "submit_aql_kernel_dispatch (light_rocr_kfd_producer_ops (Some sample_queue) None) sample_parameters
     sample_ordering False sample_queue (replicate 64 0) =
   Ok (\<lparr>as_error = SubmitNone, as_packet_id = 5\<rparr>,
     sample_queue\<lparr>aq_write_dispatch_id := 6, aq_doorbell := Some 5\<rparr>, sample_packet)"
  by code_simp

lemma sample_queue_ok: "queue_ok (sample_queue, replicate 64 0)"
  by (simp add: queue_ok_def usable_queue_def kfd_queue_bool_def ring_ok_def packet_count_def sample_queue_def
      is_power_of_two_def)

theorem queue_fifo_witness:
  "\<exists>t. queue_run (sample_queue, replicate 64 0) [Submitted [sample_packet]] t \<and> waiting t = [sample_packet]"
proof -
  let ?t = "(sample_queue\<lparr>aq_write_dispatch_id := 6, aq_doorbell := Some 5\<rparr>, sample_packet)"
  have "queue_step (sample_queue, replicate 64 0) (Submitted [sample_packet]) ?t"
    using queue_step.dispatch [OF sample_submission] by (simp add: submit_event_def sample_packet_def)
  from run_snoc [OF run_nil this] have run: "queue_run (sample_queue, replicate 64 0) [Submitted [sample_packet]] ?t"
    by simp
  have "waiting (sample_queue, replicate 64 0) = []"
    by (simp add: waiting_def pending_packets_def sample_queue_def)
  from queue_fifo [OF run sample_queue_ok this] run show ?thesis by auto
qed







end
