(* ===== verification/DirectKfd.thy ===== *)
theory DirectKfd
  imports QueueTransport
begin

text \<open>
  The bookkeeping of the direct-KFD runtime: the queues, events and pending dispatches of
  \<open>src/runtime_internal.hpp\<close> and the functions of \<open>src/queue.cpp\<close> and \<open>src/event.cpp\<close> that run under
  the runtime lock. Pointers are natural numbers into maps, so a use after \<open>delete\<close> is a read of an
  absent object and yields \<open>Fault\<close>, as does an assertion that does not hold.

  The device runs beside the host. Its moves are a list in the state, and one move happens before each
  atomic load of a word the device writes, so every interleaving of the host's loads with the
  device is some list. An exhausted list means that the device does nothing more. Replies of the
  transport and the outcome of memory allocations are lists of the same kind.
\<close>

section \<open>Objects\<close>

datatype lr_status =
    LR_SUCCESS | LR_ERROR_INVALID_ARGUMENT | LR_ERROR_NOT_INITIALIZED | LR_ERROR_ALREADY_INITIALIZED
  | LR_ERROR_NOT_SUPPORTED | LR_ERROR_RUNTIME | LR_ERROR_DEVICE_FAULT

text \<open>\<open>us_page\<close>: the object owns a slot of a signal page.\<close>

record UserSignal =
  us_page :: bool
  us_handle :: u64
  us_value :: u64
  us_start_ts :: u64
  us_end_ts :: u64

record ClockCounters =
  cc_gpu :: u64
  cc_cpu :: u64
  cc_system :: u64
  cc_system_frequency_hz :: u64

definition no_clock :: ClockCounters where
  "no_clock = \<lparr>cc_gpu = 0, cc_cpu = 0, cc_system = 0, cc_system_frequency_hz = 0\<rparr>"

text \<open>
  \<open>ar_bytes\<close> is the host view of the allocation; its length is the size of the allocation. A slice names
  its arena by the position in the queue's vector, which only grows while slices exist.
\<close>

record KernargArena =
  ar_gpu_address :: u64
  ar_bytes :: bytes
  ar_size :: u64
  ar_used :: u64

record KernargSlice =
  sl_arena :: "nat option"
  sl_offset :: u64
  sl_size :: u64

record PendingDispatch =
  pd_completion_signal :: UserSignal
  pd_kernarg :: KernargSlice
  pd_completion_event :: "nat option"

record PendingBarrier =
  pb_retirement_dispatch :: nat
  pb_dependencies :: "nat list"

record lr_event =
  ev_device :: nat
  ev_signal :: UserSignal
  ev_pending :: bool
  ev_completed :: bool
  ev_dependency_count :: nat
  ev_dependency_queues :: "(nat \<times> nat) list"
  ev_active_synchronizers :: nat
  ev_destroying :: bool
  ev_start_tick :: u64
  ev_completion_tick :: u64
  ev_record_clock :: ClockCounters
  ev_completion_clock :: ClockCounters
  ev_recorded_queue :: "nat option"
  ev_pageable_copy_staging :: "bytes option"
  ev_pageable_copy_destination :: "nat option"
  ev_pageable_copy_size :: nat

text \<open>
  \<open>q_error\<close> is what \<open>error_reason_acquire\<close> reads: the error word of the control block, or the memory
  fault of the session. A slot of \<open>q_pending_dispatches\<close> is \<open>None\<close> after its
  pointer was moved away. \<open>q_registered\<close>: the object is in the set \<open>g_queues\<close> of the runtime.
\<close>

record lr_queue =
  q_device :: nat
  q_is_default :: bool
  q_queue :: AqlQueue
  q_ring :: bytes
  q_error :: u64
  q_pending_dispatches :: "nat option list"
  q_pending_dispatch_head :: nat
  q_pending_barriers :: "PendingBarrier list"
  q_available_dispatches :: "nat list"
  q_kernarg_arenas :: "KernargArena list"
  q_pending_events :: "nat list"
  q_active_synchronizers :: nat
  q_capacity_waiting :: bool
  q_destroying :: bool
  q_registered :: bool

section \<open>The runtime and its surroundings\<close>

text \<open>
  A move of the device: it finishes a signal with its two time stamps, consumes packets of a ring,
  reports an error, fills a staging buffer, or does none of these.
\<close>

datatype device_move =
    FinishDispatch nat u64 u64 | FinishEvent nat u64 u64 | FinishSignal nat u64 u64 | ConsumePackets nat u64
  | ReportError nat u64 | FillStaging nat bytes | Idle

text \<open>
  The globals of the runtime, with the heaps of dispatch objects and of signals that belong to a call,
  the callers' memory and the next unused pointer, followed by the
  surroundings: the moves of the device, the results of allocations (\<open>False\<close> is \<open>std::bad_alloc\<close>), whether a
  vector is at its capacity, and the replies of the transport to the creation of a signal, of
  memory and of a queue, to a clock query and to a release.
\<close>

record runtime =
  g_initialized :: bool
  g_kfd_session :: bool
  g_device_count :: nat
  g_opened :: "nat \<Rightarrow> bool"
  g_default_queue :: "nat \<Rightarrow> nat option"
  g_device_queues :: "nat \<Rightarrow> nat list"
  g_queues :: "nat \<Rightarrow> lr_queue option"
  g_events :: "nat \<Rightarrow> lr_event option"
  g_dispatches :: "nat \<Rightarrow> PendingDispatch option"
  g_signals :: "nat \<Rightarrow> UserSignal option"
  g_device_events :: "nat \<Rightarrow> nat list"
  g_host_memory :: "nat \<Rightarrow> u8"
  g_next :: nat
  w_device :: "device_move list"
  w_allocations :: "bool list"
  w_full :: "bool list"
  w_signals :: "u64 option list"
  w_memory :: "u64 option list"
  w_queues :: "(bool \<times> bool \<times> AqlQueue \<times> bytes) list"
  w_clocks :: "ClockCounters option list"
  w_releases :: "bool list"

text \<open>What a call may do instead of returning: wait for a device that does nothing more, or exceed a loop bound.\<close>

datatype stuck = Waiting | OutOfFuel

type_synonym 'a run = "(stuck, 'a \<times> runtime) outcome"

definition get_queue :: "runtime \<Rightarrow> nat \<Rightarrow> (stuck, lr_queue) outcome" where
  "get_queue s q = (case g_queues s q of None \<Rightarrow> Fault | Some queue \<Rightarrow> Ok queue)"

definition get_event :: "runtime \<Rightarrow> nat \<Rightarrow> (stuck, lr_event) outcome" where
  "get_event s e = (case g_events s e of None \<Rightarrow> Fault | Some event \<Rightarrow> Ok event)"

definition get_dispatch :: "runtime \<Rightarrow> nat \<Rightarrow> (stuck, PendingDispatch) outcome" where
  "get_dispatch s d = (case g_dispatches s d of None \<Rightarrow> Fault | Some dispatch \<Rightarrow> Ok dispatch)"

definition put_queue :: "nat \<Rightarrow> lr_queue \<Rightarrow> runtime \<Rightarrow> runtime" where
  "put_queue q queue s = s\<lparr>g_queues := (g_queues s)(q := Some queue)\<rparr>"

definition put_event :: "nat \<Rightarrow> lr_event \<Rightarrow> runtime \<Rightarrow> runtime" where
  "put_event e event s = s\<lparr>g_events := (g_events s)(e := Some event)\<rparr>"

definition put_dispatch :: "nat \<Rightarrow> PendingDispatch \<Rightarrow> runtime \<Rightarrow> runtime" where
  "put_dispatch d dispatch s = s\<lparr>g_dispatches := (g_dispatches s)(d := Some dispatch)\<rparr>"

section \<open>The device\<close>

definition finish_signal :: "u64 \<Rightarrow> u64 \<Rightarrow> UserSignal \<Rightarrow> UserSignal" where
  "finish_signal start_ts end_ts sig =
     (if us_page sig then sig\<lparr>us_value := 0, us_start_ts := start_ts, us_end_ts := end_ts\<rparr> else sig)"

fun device_act :: "device_move \<Rightarrow> runtime \<Rightarrow> runtime" where
  "device_act (FinishDispatch d start_ts end_ts) s =
     (case g_dispatches s d of None \<Rightarrow> s
      | Some dispatch \<Rightarrow> put_dispatch d
          (dispatch\<lparr>pd_completion_signal := finish_signal start_ts end_ts (pd_completion_signal dispatch)\<rparr>) s)"
| "device_act (FinishEvent e start_ts end_ts) s =
     (case g_events s e of None \<Rightarrow> s
      | Some event \<Rightarrow> put_event e (event\<lparr>ev_signal := finish_signal start_ts end_ts (ev_signal event)\<rparr>) s)"
| "device_act (FinishSignal n start_ts end_ts) s =
     s\<lparr>g_signals := (g_signals s)(n := map_option (finish_signal start_ts end_ts) (g_signals s n))\<rparr>"
| "device_act (ConsumePackets q n) s =
     (case g_queues s q of None \<Rightarrow> s
      | Some queue \<Rightarrow>
          let aql = q_queue queue in
          if n \<le> aq_write_dispatch_id aql - aq_read_dispatch_id aql
          then put_queue q (queue\<lparr>q_queue := aql\<lparr>aq_read_dispatch_id := aq_read_dispatch_id aql + n\<rparr>\<rparr>) s
          else s)"
| "device_act (ReportError q reason) s =
     (case g_queues s q of None \<Rightarrow> s | Some queue \<Rightarrow> put_queue q (queue\<lparr>q_error := reason\<rparr>) s)"
| "device_act (FillStaging e bs) s =
     (case g_events s e of None \<Rightarrow> s
      | Some event \<Rightarrow> put_event e
          (event\<lparr>ev_pageable_copy_staging :=
             map_option (\<lambda>old. if length bs = length old then bs else old) (ev_pageable_copy_staging event)\<rparr>) s)"
| "device_act Idle s = s"

definition device_step :: "runtime \<Rightarrow> runtime" where
  "device_step s = (case w_device s of [] \<Rightarrow> s | move # moves \<Rightarrow> device_act move (s\<lparr>w_device := moves\<rparr>))"

lemma w_device_act [simp]: "w_device (device_act move s) = w_device s"
  by (cases move) (simp_all add: put_dispatch_def put_event_def put_queue_def Let_def split: option.splits)

lemma w_device_step [simp]: "w_device (device_step s) = tl (w_device s)"
  by (simp add: device_step_def split: list.splits)

section \<open>Loads and replies\<close>

datatype signal_ref = DispatchSignal nat | EventSignal nat | OwnSignal nat

text \<open>\<open>UserSignal::abi\<close> asserts that the signal has its page.\<close>

fun signal_at :: "runtime \<Rightarrow> signal_ref \<Rightarrow> (stuck, UserSignal) outcome" where
  "signal_at s (DispatchSignal d) =
     obind (get_dispatch s d) (\<lambda>dispatch.
     if us_page (pd_completion_signal dispatch) then Ok (pd_completion_signal dispatch) else Fault)"
| "signal_at s (EventSignal e) =
     obind (get_event s e) (\<lambda>event. if us_page (ev_signal event) then Ok (ev_signal event) else Fault)"
| "signal_at s (OwnSignal n) =
     (case g_signals s n of None \<Rightarrow> Fault | Some sig \<Rightarrow> if us_page sig then Ok sig else Fault)"

definition load_acquire :: "signal_ref \<Rightarrow> runtime \<Rightarrow> u64 run" where
  "load_acquire ref s =
     (let s' = device_step s in obind (signal_at s' ref) (\<lambda>sig. Ok (us_value sig, s')))"

definition error_reason_acquire :: "nat \<Rightarrow> runtime \<Rightarrow> u64 run" where
  "error_reason_acquire q s =
     (let s' = device_step s in
      obind (get_queue s' q) (\<lambda>queue.
      Ok (if \<not> aq_state (q_queue queue) \<or> \<not> aq_control (q_queue queue) then 0 else q_error queue, s')))"

definition load_read_index :: "nat \<Rightarrow> runtime \<Rightarrow> u64 run" where
  "load_read_index q s =
     (let s' = device_step s in
      obind (get_queue s' q) (\<lambda>queue. Ok (read_index_acquire (q_queue queue), s')))"

definition next_allocation :: "runtime \<Rightarrow> bool \<times> runtime" where
  "next_allocation s =
     (case w_allocations s of [] \<Rightarrow> (True, s) | b # bs \<Rightarrow> (b, s\<lparr>w_allocations := bs\<rparr>))"

definition next_full :: "runtime \<Rightarrow> bool \<times> runtime" where
  "next_full s = (case w_full s of [] \<Rightarrow> (False, s) | b # bs \<Rightarrow> (b, s\<lparr>w_full := bs\<rparr>))"

definition next_release :: "runtime \<Rightarrow> bool \<times> runtime" where
  "next_release s = (case w_releases s of [] \<Rightarrow> (True, s) | b # bs \<Rightarrow> (b, s\<lparr>w_releases := bs\<rparr>))"

definition next_signal :: "runtime \<Rightarrow> u64 option \<times> runtime" where
  "next_signal s = (case w_signals s of [] \<Rightarrow> (None, s) | r # rs \<Rightarrow> (r, s\<lparr>w_signals := rs\<rparr>))"

definition next_memory :: "runtime \<Rightarrow> u64 option \<times> runtime" where
  "next_memory s = (case w_memory s of [] \<Rightarrow> (None, s) | r # rs \<Rightarrow> (r, s\<lparr>w_memory := rs\<rparr>))"

definition next_clock :: "runtime \<Rightarrow> ClockCounters option \<times> runtime" where
  "next_clock s = (case w_clocks s of [] \<Rightarrow> (None, s) | r # rs \<Rightarrow> (r, s\<lparr>w_clocks := rs\<rparr>))"

section \<open>Event dependencies\<close>

text \<open>The entry of a queue in the dependency list of an event, as \<open>std::find_if\<close> finds it.\<close>

definition dependency_entry :: "nat \<Rightarrow> (nat \<times> nat) list \<Rightarrow> nat option" where
  "dependency_entry q entries = find_index (\<lambda>entry. fst entry = q) entries"

definition retain_dependency :: "nat \<Rightarrow> lr_event \<Rightarrow> lr_event" where
  "retain_dependency q event =
     (let entries = ev_dependency_queues event in
      event\<lparr>ev_dependency_count := ev_dependency_count event + 1,
            ev_dependency_queues :=
              (case dependency_entry q entries of
                 None \<Rightarrow> entries @ [(q, 1)]
               | Some i \<Rightarrow> entries[i := (fst (entries ! i), snd (entries ! i) + 1)])\<rparr>)"

definition retain_direct_kfd_event_dependency_locked :: "nat \<Rightarrow> nat \<Rightarrow> runtime \<Rightarrow> (stuck, runtime) outcome" where
  "retain_direct_kfd_event_dependency_locked e q s =
     obind (get_event s e) (\<lambda>event. Ok (put_event e (retain_dependency q event) s))"

definition release_dependency :: "nat \<Rightarrow> lr_event \<Rightarrow> (stuck, lr_event) outcome" where
  "release_dependency q event =
     (let entries = ev_dependency_queues event in
      case dependency_entry q entries of
        None \<Rightarrow> Fault
      | Some i \<Rightarrow>
          if ev_dependency_count event = 0 \<or> snd (entries ! i) = 0 then Fault
          else Ok (event\<lparr>ev_dependency_count := ev_dependency_count event - 1,
                         ev_dependency_queues :=
                           (if snd (entries ! i) - 1 = 0 then swap_remove i entries
                            else entries[i := (fst (entries ! i), snd (entries ! i) - 1)])\<rparr>))"

definition release_direct_kfd_event_dependency_locked :: "nat \<Rightarrow> nat \<Rightarrow> runtime \<Rightarrow> (stuck, runtime) outcome" where
  "release_direct_kfd_event_dependency_locked e q s =
     obind (get_event s e) (\<lambda>event.
     obind (release_dependency q event) (\<lambda>event'. Ok (put_event e event' s)))"

primrec retain_all :: "nat list \<Rightarrow> nat \<Rightarrow> runtime \<Rightarrow> (stuck, runtime) outcome" where
  "retain_all [] q s = Ok s"
| "retain_all (e # es) q s =
     obind (retain_direct_kfd_event_dependency_locked e q s) (\<lambda>s'. retain_all es q s')"

primrec release_all :: "nat list \<Rightarrow> nat \<Rightarrow> runtime \<Rightarrow> (stuck, runtime) outcome" where
  "release_all [] q s = Ok s"
| "release_all (e # es) q s =
     obind (release_direct_kfd_event_dependency_locked e q s) (\<lambda>s'. release_all es q s')"

section \<open>Retirement\<close>

definition active_completion_signal :: "runtime \<Rightarrow> nat \<Rightarrow> (stuck, signal_ref) outcome" where
  "active_completion_signal s d =
     obind (get_dispatch s d) (\<lambda>dispatch.
     Ok (case pd_completion_event dispatch of Some e \<Rightarrow> EventSignal e | None \<Rightarrow> DispatchSignal d))"

text \<open>The loop over the barriers, from \<open>index\<close> on; it returns the barriers left.\<close>

function reap_barriers_loop ::
  "nat \<Rightarrow> nat \<Rightarrow> PendingBarrier list \<Rightarrow> runtime \<Rightarrow> PendingBarrier list run" where
  "reap_barriers_loop q index barriers s =
     (if index < length barriers
      then
      obind (active_completion_signal s (pb_retirement_dispatch (barriers ! index))) (\<lambda>ref.
      obind (load_acquire ref s) (\<lambda>(v, s1).
      if v \<noteq> 0 then reap_barriers_loop q (index + 1) barriers s1
      else
      obind (release_all (pb_dependencies (barriers ! index)) q s1) (\<lambda>s2.
      reap_barriers_loop q index (swap_remove index barriers) s2)))
      else Ok (barriers, s))"
  by pat_completeness auto
termination
  by (relation "measure (\<lambda>(q, index, barriers, s). length barriers - index)") auto

declare reap_barriers_loop.simps [simp del]

definition reap_completed_direct_kfd_barriers_locked :: "nat \<Rightarrow> runtime \<Rightarrow> (stuck, runtime) outcome" where
  "reap_completed_direct_kfd_barriers_locked q s =
     obind (get_queue s q) (\<lambda>queue.
     obind (reap_barriers_loop q 0 (q_pending_barriers queue) s) (\<lambda>(barriers, s1).
     obind (get_queue s1 q) (\<lambda>queue1.
     Ok (put_queue q (queue1\<lparr>q_pending_barriers := barriers\<rparr>) s1))))"

text \<open>The number of completed dispatches at the head of the queue.\<close>

fun completed_loop :: "PendingBarrier list \<Rightarrow> nat option list \<Rightarrow> runtime \<Rightarrow> nat run" where
  "completed_loop barriers [] s = Ok (0, s)"
| "completed_loop barriers (None # entries) s = Fault"
| "completed_loop barriers (Some d # entries) s =
     obind (active_completion_signal s d) (\<lambda>ref.
     obind (load_acquire ref s) (\<lambda>(v, s1).
     if v \<noteq> 0 then Ok (0, s1)
     else if list_ex (\<lambda>barrier. pb_retirement_dispatch barrier = d) barriers then Ok (0, s1)
     else
     obind (get_dispatch s1 d) (\<lambda>dispatch.
     obind (completed_loop barriers entries (put_dispatch d (dispatch\<lparr>pd_completion_event := None\<rparr>) s1)) (\<lambda>(n, s2).
     Ok (n + 1, s2)))))"

text \<open>The completed dispatches move to the pool; the vector is cleared when none is left.\<close>

definition recycle_dispatches :: "nat \<Rightarrow> lr_queue \<Rightarrow> lr_queue" where
  "recycle_dispatches n queue =
     (let h = q_pending_dispatch_head queue;
          entries = q_pending_dispatches queue;
          moved = take h entries @ replicate n None @ drop (h + n) entries;
          queue1 = queue\<lparr>q_available_dispatches :=
                      q_available_dispatches queue @ map the (take n (drop h entries)),
                    q_pending_dispatches := moved, q_pending_dispatch_head := h + n\<rparr>
      in if h + n = length entries
         then queue1\<lparr>q_pending_dispatches := [], q_pending_dispatch_head := 0\<rparr>
         else queue1)"

definition reap_direct_kfd_dispatches_locked :: "nat \<Rightarrow> runtime \<Rightarrow> lr_status run" where
  "reap_direct_kfd_dispatches_locked q s =
     obind (reap_completed_direct_kfd_barriers_locked q s) (\<lambda>s1.
     obind (get_queue s1 q) (\<lambda>queue.
     obind (completed_loop (q_pending_barriers queue)
              (drop (q_pending_dispatch_head queue) (q_pending_dispatches queue)) s1) (\<lambda>(n, s2).
     if n = 0 then Ok (LR_SUCCESS, s2)
     else
     case next_allocation s2 of
       (False, s3) \<Rightarrow> Ok (LR_ERROR_RUNTIME, s3)
     | (True, s3) \<Rightarrow>
         obind (get_queue s3 q) (\<lambda>queue3.
         Ok (LR_SUCCESS, put_queue q (recycle_dispatches n queue3) s3)))))"

section \<open>Events\<close>

definition remove_direct_kfd_pending_event :: "nat \<Rightarrow> nat list \<Rightarrow> nat list" where
  "remove_direct_kfd_pending_event e events =
     (case find_index (\<lambda>x. x = e) events of None \<Rightarrow> events | Some i \<Rightarrow> swap_remove i events)"

text \<open>\<open>memcpy\<close> of the staging buffer to the caller.\<close>

definition copy_to_host :: "nat \<Rightarrow> bytes \<Rightarrow> (nat \<Rightarrow> u8) \<Rightarrow> nat \<Rightarrow> u8" where
  "copy_to_host destination bs m a =
     (if destination \<le> a \<and> a < destination + length bs then bs ! (a - destination) else m a)"

text \<open>
  The end of a copy through pageable memory: the bytes reach the caller and the staging buffer is
  released. The status tells whether the release succeeded.
\<close>

definition finish_pageable_copy :: "nat \<Rightarrow> runtime \<Rightarrow> lr_status run" where
  "finish_pageable_copy e s =
     obind (get_event s e) (\<lambda>event.
     case ev_pageable_copy_staging event of
       None \<Rightarrow> Ok (LR_SUCCESS, s)
     | Some staging \<Rightarrow>
         obind (case ev_pageable_copy_destination event of
                  None \<Rightarrow> Ok s
                | Some destination \<Rightarrow>
                    if ev_pageable_copy_size event \<le> length staging
                    then Ok (s\<lparr>g_host_memory :=
                           copy_to_host destination (take (ev_pageable_copy_size event) staging) (g_host_memory s)\<rparr>)
                    else Fault) (\<lambda>s1.
         case next_release s1 of (released, s2) \<Rightarrow>
           Ok (if released then LR_SUCCESS else LR_ERROR_RUNTIME,
               put_event e (event\<lparr>ev_pageable_copy_staging := None, ev_pageable_copy_destination := None,
                                  ev_pageable_copy_size := 0\<rparr>) s2)))"

text \<open>The event leaves the list of its queue and of its device.\<close>

definition forget_pending_event :: "nat \<Rightarrow> runtime \<Rightarrow> (stuck, runtime) outcome" where
  "forget_pending_event e s =
     obind (get_event s e) (\<lambda>event.
     obind (case ev_recorded_queue event of
              None \<Rightarrow> Ok s
            | Some q \<Rightarrow>
                obind (get_queue s q) (\<lambda>queue.
                Ok (put_queue q
                  (queue\<lparr>q_pending_events := remove_direct_kfd_pending_event e (q_pending_events queue)\<rparr>) s))) (\<lambda>s1.
     Ok (put_event e (event\<lparr>ev_recorded_queue := None, ev_pending := False\<rparr>)
       (s1\<lparr>g_device_events := (g_device_events s1)(ev_device event :=
          remove_direct_kfd_pending_event e (g_device_events s1 (ev_device event)))\<rparr>))))"

definition stamp_event :: "ClockCounters option \<Rightarrow> u64 \<Rightarrow> u64 \<Rightarrow> lr_status \<Rightarrow> lr_event \<Rightarrow> lr_event" where
  "stamp_event clock start_tick end_tick result event =
     (let event1 = event\<lparr>ev_completed := (result = LR_SUCCESS)\<rparr> in
      case clock of
        Some counters \<Rightarrow>
          if start_tick \<noteq> 0 \<and> start_tick \<le> end_tick
          then event1\<lparr>ev_start_tick := start_tick, ev_completion_tick := end_tick, ev_completion_clock := counters\<rparr>
          else event1\<lparr>ev_start_tick := 0, ev_completion_tick := 0, ev_completion_clock := no_clock\<rparr>
      | None \<Rightarrow> event1\<lparr>ev_start_tick := 0, ev_completion_tick := 0, ev_completion_clock := no_clock\<rparr>)"

definition finish_direct_kfd_event_wait_locked :: "nat \<Rightarrow> runtime \<Rightarrow> lr_status run" where
  "finish_direct_kfd_event_wait_locked e s =
     obind (get_event s e) (\<lambda>event.
     if \<not> ev_pending event
     then Ok (if ev_completed event then LR_SUCCESS else LR_ERROR_INVALID_ARGUMENT, s)
     else
     obind (load_acquire (EventSignal e) s) (\<lambda>(v, s1).
     if v \<noteq> 0 \<or> \<not> g_kfd_session s1 \<or> g_device_count s1 \<le> ev_device event
     then Ok (LR_ERROR_RUNTIME, s1)
     else
     case next_clock s1 of (clock, s2) \<Rightarrow>
     obind (signal_at s2 (EventSignal e)) (\<lambda>sig.
     obind (forget_pending_event e s2) (\<lambda>s3.
     obind (finish_pageable_copy e s3) (\<lambda>(result, s4).
     obind (get_event s4 e) (\<lambda>event4.
     Ok (result, put_event e (stamp_event clock (us_start_ts sig) (us_end_ts sig) result event4) s4)))))))"

text \<open>
  The loop over the pending events. Every finished event leaves the list, so one round for each event
  of the list is enough.
\<close>

primrec reap_events_loop :: "nat \<Rightarrow> nat \<Rightarrow> runtime \<Rightarrow> lr_status run" where
  "reap_events_loop 0 q s = Err OutOfFuel"
| "reap_events_loop (Suc fuel) q s =
     obind (get_queue s q) (\<lambda>queue.
     case q_pending_events queue of
       [] \<Rightarrow> Ok (LR_SUCCESS, s)
     | e # _ \<Rightarrow>
         obind (load_acquire (EventSignal e) s) (\<lambda>(v, s1).
         if v \<noteq> 0 then Ok (LR_SUCCESS, s1)
         else
         obind (finish_direct_kfd_event_wait_locked e s1) (\<lambda>(status, s2).
         if status \<noteq> LR_SUCCESS then Ok (status, s2) else reap_events_loop fuel q s2)))"

definition reap_completed_direct_kfd_events_locked :: "nat \<Rightarrow> runtime \<Rightarrow> lr_status run" where
  "reap_completed_direct_kfd_events_locked q s =
     obind (get_queue s q) (\<lambda>queue. reap_events_loop (length (q_pending_events queue) + 1) q s)"

section \<open>Waiting\<close>

text \<open>
  The spinning loop. When the device does nothing more, the loads keep returning the same values and
  the loop does not end.
\<close>

function wait_for_direct_kfd_signal_locked :: "nat \<Rightarrow> signal_ref \<Rightarrow> runtime \<Rightarrow> lr_status run" where
  "wait_for_direct_kfd_signal_locked q ref s =
     obind (load_acquire ref s) (\<lambda>(v, s1).
     obind (error_reason_acquire q s1) (\<lambda>(reason, s2).
     if v = 0 then Ok (if reason = 0 then LR_SUCCESS else LR_ERROR_DEVICE_FAULT, s2)
     else if reason \<noteq> 0 then Ok (LR_ERROR_DEVICE_FAULT, s2)
     else if w_device s = [] then Err Waiting
     else wait_for_direct_kfd_signal_locked q ref s2))"
  by pat_completeness auto

termination
  by (relation "measure (\<lambda>(q, ref, s). length (w_device s))")
    (auto simp: load_acquire_def error_reason_acquire_def Let_def length_greater_0_conv [symmetric] simp del: length_greater_0_conv)

declare wait_for_direct_kfd_signal_locked.simps [simp del]

text \<open>Waiting for the oldest dispatch, or else for the first event.\<close>

definition wait_for_oldest :: "nat \<Rightarrow> runtime \<Rightarrow> lr_status run" where
  "wait_for_oldest q s =
     obind (get_queue s q) (\<lambda>queue.
     if q_pending_dispatch_head queue \<noteq> length (q_pending_dispatches queue)
     then
       if q_pending_dispatch_head queue < length (q_pending_dispatches queue)
       then case q_pending_dispatches queue ! q_pending_dispatch_head queue of
              None \<Rightarrow> Fault
            | Some d \<Rightarrow> obind (active_completion_signal s d) (\<lambda>ref. wait_for_direct_kfd_signal_locked q ref s)
       else Fault
     else case q_pending_events queue of
            [] \<Rightarrow> Fault
          | e # _ \<Rightarrow> wait_for_direct_kfd_signal_locked q (EventSignal e) s)"

text \<open>
  The synchronisation loop. Every round retires a dispatch or an event, so one round for each of them
  is enough.
\<close>

primrec synchronize_loop :: "nat \<Rightarrow> nat \<Rightarrow> runtime \<Rightarrow> lr_status run" where
  "synchronize_loop 0 q s = Err OutOfFuel"
| "synchronize_loop (Suc fuel) q s =
     obind (get_queue s q) (\<lambda>queue.
     if q_pending_dispatch_head queue = length (q_pending_dispatches queue) \<and>
        q_pending_barriers queue = [] \<and> q_pending_events queue = []
     then Ok (LR_SUCCESS, s)
     else
     obind (wait_for_oldest q s) (\<lambda>(wait_status, s1).
     if wait_status \<noteq> LR_SUCCESS then Ok (wait_status, s1)
     else
     obind (reap_direct_kfd_dispatches_locked q s1) (\<lambda>(status, s2).
     if status \<noteq> LR_SUCCESS then Ok (status, s2)
     else
     obind (reap_completed_direct_kfd_events_locked q s2) (\<lambda>(status, s3).
     if status \<noteq> LR_SUCCESS then Ok (status, s3) else synchronize_loop fuel q s3))))"

definition pending_work :: "lr_queue \<Rightarrow> nat" where
  "pending_work queue =
     length (q_pending_dispatches queue) - q_pending_dispatch_head queue + length (q_pending_events queue)"

definition synchronize_direct_kfd_queue_locked :: "nat \<Rightarrow> runtime \<Rightarrow> lr_status run" where
  "synchronize_direct_kfd_queue_locked q s =
     obind (get_queue s q) (\<lambda>queue. synchronize_loop (pending_work queue + 1) q s)"

section \<open>Capacity\<close>

definition valid_direct_kfd_queue_locked :: "runtime \<Rightarrow> nat \<Rightarrow> bool" where
  "valid_direct_kfd_queue_locked s q \<longleftrightarrow>
     (case g_queues s q of None \<Rightarrow> False | Some queue \<Rightarrow>
        q_registered queue \<and> \<not> q_capacity_waiting queue \<and> \<not> q_destroying queue)"

text \<open>
  The wait of a call that needs room in the ring. A caller that passes its lock (\<open>unlocks\<close>) marks
  the queue, so that no other call touches it while the lock is released, and looks at \<open>destroying\<close> afterwards.
\<close>

definition wait_for_capacity :: "nat \<Rightarrow> bool \<Rightarrow> runtime \<Rightarrow> lr_status run" where
  "wait_for_capacity q unlocks s =
     (if \<not> unlocks then wait_for_oldest q s
      else
      obind (get_queue s q) (\<lambda>queue.
      obind (wait_for_oldest q
               (put_queue q (queue\<lparr>q_active_synchronizers := q_active_synchronizers queue + 1,
                                   q_capacity_waiting := True\<rparr>) s)) (\<lambda>(status, s1).
      obind (get_queue s1 q) (\<lambda>queue1.
      let s2 = put_queue q (queue1\<lparr>q_capacity_waiting := False,
                                   q_active_synchronizers := q_active_synchronizers queue1 - 1\<rparr>) s1
      in Ok (if q_destroying queue1 then LR_ERROR_INVALID_ARGUMENT else status, s2)))))"

text \<open>The test of the two indices: an error, room, or no room.\<close>

definition ring_room :: "nat \<Rightarrow> u64 \<Rightarrow> runtime \<Rightarrow> (lr_status + bool) run" where
  "ring_room q required_packets s =
     obind (load_read_index q s) (\<lambda>(read_index, s1).
     obind (get_queue s1 q) (\<lambda>queue.
     let write_index = write_index_relaxed (q_queue queue)
     in Ok (if write_index < read_index then Inl LR_ERROR_RUNTIME
            else Inr (write_index - read_index \<le> packet_count (q_queue queue) - required_packets), s1)))"

text \<open>Every round after the first retires a dispatch or an event before it waits again.\<close>

primrec capacity_loop :: "nat \<Rightarrow> nat \<Rightarrow> u64 \<Rightarrow> bool \<Rightarrow> runtime \<Rightarrow> lr_status run" where
  "capacity_loop 0 q required_packets unlocks s = Err OutOfFuel"
| "capacity_loop (Suc fuel) q required_packets unlocks s =
     obind (get_queue s q) (\<lambda>queue.
     obind (if q_available_dispatches queue = [] \<and>
               q_pending_dispatch_head queue \<noteq> length (q_pending_dispatches queue)
            then reap_direct_kfd_dispatches_locked q s else Ok (LR_SUCCESS, s)) (\<lambda>(status, s1).
     if status \<noteq> LR_SUCCESS then Ok (status, s1)
     else
     obind (ring_room q required_packets s1) (\<lambda>(room, s2).
     case room of Inl error \<Rightarrow> Ok (error, s2)
     | Inr enough \<Rightarrow>
     if enough then Ok (LR_SUCCESS, s2)
     else
     obind (reap_direct_kfd_dispatches_locked q s2) (\<lambda>(status, s3).
     if status \<noteq> LR_SUCCESS then Ok (status, s3)
     else
     obind (reap_completed_direct_kfd_events_locked q s3) (\<lambda>(status, s4).
     if status \<noteq> LR_SUCCESS then Ok (status, s4)
     else
     obind (ring_room q required_packets s4) (\<lambda>(room, s5).
     case room of Inl error \<Rightarrow> Ok (error, s5)
     | Inr enough \<Rightarrow>
     if enough then Ok (LR_SUCCESS, s5)
     else
     obind (get_queue s5 q) (\<lambda>queue5.
     if q_pending_dispatch_head queue5 = length (q_pending_dispatches queue5) \<and> q_pending_events queue5 = []
     then Ok (LR_ERROR_RUNTIME, s5)
     else
     obind (wait_for_capacity q unlocks s5) (\<lambda>(status, s6).
     if status \<noteq> LR_SUCCESS then Ok (status, s6)
     else capacity_loop fuel q required_packets unlocks s6))))))))"

definition ensure_direct_kfd_queue_capacity_locked :: "nat \<Rightarrow> u64 \<Rightarrow> bool \<Rightarrow> runtime \<Rightarrow> lr_status run" where
  "ensure_direct_kfd_queue_capacity_locked q required_packets unlocks s =
     obind (get_queue s q) (\<lambda>queue.
     if \<not> kfd_queue_bool (q_queue queue) \<or> required_packets = 0 \<or>
        required_packets > packet_count (q_queue queue)
     then Ok (LR_ERROR_INVALID_ARGUMENT, s)
     else
     obind (error_reason_acquire q s) (\<lambda>(reason, s1).
     if reason \<noteq> 0 then Ok (LR_ERROR_DEVICE_FAULT, s1)
     else capacity_loop (pending_work queue + 1) q required_packets unlocks s1))"

section \<open>Scratch\<close>

definition no_queue :: AqlQueue where
  "no_queue = \<lparr>aq_state = False, aq_active = False, aq_control = False, aq_ring = False,
     aq_doorbell_address = 0, aq_ring_size = 0, aq_scratch_private_segment_size = 0,
     aq_read_dispatch_id = 0, aq_write_dispatch_id = 0, aq_queue_properties = 0, aq_doorbell = None\<rparr>"

text \<open>
  The replies of the transport to the creation and the release of a queue: success, whether an error was
  about scratch, and the queue object and ring afterwards.
\<close>

definition next_queue :: "runtime \<Rightarrow> (bool \<times> bool \<times> AqlQueue \<times> bytes) \<times> runtime" where
  "next_queue s = (case w_queues s of [] \<Rightarrow> ((False, False, no_queue, []), s) | r # rs \<Rightarrow> (r, s\<lparr>w_queues := rs\<rparr>))"

definition set_aql_queue :: "nat \<Rightarrow> AqlQueue \<Rightarrow> bytes \<Rightarrow> runtime \<Rightarrow> (stuck, runtime) outcome" where
  "set_aql_queue q aql ring s =
     obind (get_queue s q) (\<lambda>queue. Ok (put_queue q (queue\<lparr>q_queue := aql, q_ring := ring, q_error := 0\<rparr>) s))"

definition release_aql_queue :: "nat \<Rightarrow> runtime \<Rightarrow> bool run" where
  "release_aql_queue q s =
     obind (get_queue s q) (\<lambda>queue.
     if \<not> aq_state (q_queue queue) then Ok (True, s)
     else case next_queue s of ((released, _, aql, ring), s1) \<Rightarrow>
       obind (if released then set_aql_queue q no_queue [] s1
              else Ok (put_queue q (queue\<lparr>q_queue := aql, q_ring := ring\<rparr>) s1)) (\<lambda>s2.
       Ok (released, s2)))"

definition create_aql_queue_for :: "nat \<Rightarrow> runtime \<Rightarrow> (bool \<times> bool) run" where
  "create_aql_queue_for q s =
     (case next_queue s of ((created, scratch_error, aql, ring), s1) \<Rightarrow>
        obind (set_aql_queue q aql ring s1) (\<lambda>s2. Ok ((created, scratch_error), s2)))"

definition ensure_direct_kfd_queue_scratch_locked :: "nat \<Rightarrow> u32 \<Rightarrow> runtime \<Rightarrow> lr_status run" where
  "ensure_direct_kfd_queue_scratch_locked q private_size s =
     obind (get_queue s q) (\<lambda>queue.
     if \<not> g_kfd_session s \<or> \<not> kfd_queue_bool (q_queue queue) then Ok (LR_ERROR_RUNTIME, s)
     else if private_size \<le> scratch_private_segment_size (q_queue queue) then Ok (LR_SUCCESS, s)
     else
     obind (synchronize_direct_kfd_queue_locked q s) (\<lambda>(sync_status, s1).
     if sync_status \<noteq> LR_SUCCESS then Ok (sync_status, s1)
     else
     obind (release_aql_queue q s1) (\<lambda>(released, s2).
     if \<not> released then Ok (LR_ERROR_RUNTIME, s2)
     else
     obind (create_aql_queue_for q s2) (\<lambda>((created, scratch_error), s3).
     if created then Ok (LR_SUCCESS, s3)
     else
     obind (release_aql_queue q s3) (\<lambda>(_, s4).
     obind (create_aql_queue_for q s4) (\<lambda>(_, s5).
     Ok (if scratch_error then LR_ERROR_NOT_SUPPORTED else LR_ERROR_RUNTIME, s5)))))))"

end
