(* ===== verification/DirectKfdLaunch.thy ===== *)
theory DirectKfdLaunch
  imports DirectKfd
begin

text \<open>
  A kernel launch of the direct-KFD runtime, \<open>submit_direct_kfd_kernel_impl_locked\<close> of
  \<open>src/launch.cpp\<close>, with the arenas that hold the kernarg segments of a queue. The handler is split at the blocks of the source;
  every early return is a branch. Profiling counters are dropped.
\<close>

section \<open>Kernarg arenas\<close>

abbreviation (input) "kDirectKfdKernargArenaSize \<equiv> (8388608 :: u64)"
abbreviation (input) "kMemoryPageSize \<equiv> (4096 :: u64)"

abbreviation no_slice :: KernargSlice where
  "no_slice \<equiv> \<lparr>sl_arena = None, sl_offset = 0, sl_size = 0\<rparr>"

definition slice_gpu_address :: "KernargArena list \<Rightarrow> KernargSlice \<Rightarrow> (stuck, u64) outcome" where
  "slice_gpu_address arenas region =
     (case sl_arena region of None \<Rightarrow> Ok 0
      | Some a \<Rightarrow> if a < length arenas then Ok (ar_gpu_address (arenas ! a) + sl_offset region) else Fault)"

text \<open>The host bytes of a slice, and the arenas after a write of all of them.\<close>

definition slice_bytes :: "KernargArena list \<Rightarrow> KernargSlice \<Rightarrow> (stuck, bytes option) outcome" where
  "slice_bytes arenas region =
     (case sl_arena region of None \<Rightarrow> Ok None
      | Some a \<Rightarrow>
          if a < length arenas \<and> unat (sl_offset region) + unat (sl_size region) \<le> length (ar_bytes (arenas ! a))
          then Ok (Some (take (unat (sl_size region)) (drop (unat (sl_offset region)) (ar_bytes (arenas ! a)))))
          else Fault)"

definition store_slice :: "KernargSlice \<Rightarrow> bytes \<Rightarrow> KernargArena list \<Rightarrow> KernargArena list" where
  "store_slice region bs arenas =
     (case sl_arena region of None \<Rightarrow> arenas
      | Some a \<Rightarrow> arenas[a := (arenas ! a)\<lparr>ar_bytes :=
          splice (ar_bytes (arenas ! a)) (unat (sl_offset region)) bs\<rparr>])"

definition allocate_direct_kfd_kernarg_locked :: "nat \<Rightarrow> u64 \<Rightarrow> runtime \<Rightarrow> KernargSlice option run" where
  "allocate_direct_kfd_kernarg_locked q n s =
     (if n = 0 then Ok (Some no_slice, s)
      else
      obind (get_queue s q) (\<lambda>queue.
      let arenas = q_kernarg_arenas queue in
      case find_index (\<lambda>arena. ar_size arena - ar_used arena \<ge> n) arenas of
        Some a \<Rightarrow>
          let arena = arenas ! a in
          Ok (Some \<lparr>sl_arena = Some a, sl_offset = ar_used arena, sl_size = n\<rparr>,
              put_queue q (queue\<lparr>q_kernarg_arenas := arenas[a := arena\<lparr>ar_used := ar_used arena + n\<rparr>]\<rparr>) s)
      | None \<Rightarrow>
          let arena_size = max kDirectKfdKernargArenaSize n in
          case next_memory s of
            (None, s1) \<Rightarrow> Ok (None, s1)
          | (Some gpu_address, s1) \<Rightarrow>
              (case next_allocation s1 of
                 (False, s2) \<Rightarrow> Ok (None, s2)
               | (True, s2) \<Rightarrow>
                   let arena = \<lparr>ar_gpu_address = gpu_address, ar_bytes = replicate (unat arena_size) 0,
                                ar_size = arena_size, ar_used = n\<rparr>
                   in Ok (Some \<lparr>sl_arena = Some (length arenas), sl_offset = 0, sl_size = n\<rparr>,
                          put_queue q (queue\<lparr>q_kernarg_arenas := arenas @ [arena]\<rparr>) s2))))"

definition rollback_direct_kfd_kernarg_locked :: "nat \<Rightarrow> KernargSlice \<Rightarrow> runtime \<Rightarrow> (stuck, runtime) outcome" where
  "rollback_direct_kfd_kernarg_locked q region s =
     (case sl_arena region of None \<Rightarrow> Ok s
      | Some a \<Rightarrow>
          obind (get_queue s q) (\<lambda>queue.
          let arenas = q_kernarg_arenas queue in
          if a < length arenas
          then Ok (if sl_offset region + sl_size region = ar_used (arenas ! a)
                   then put_queue q (queue\<lparr>q_kernarg_arenas :=
                          arenas[a := (arenas ! a)\<lparr>ar_used := sl_offset region\<rparr>]\<rparr>) s
                   else s)
          else Fault))"

section \<open>Dependency barriers\<close>

fun dependency_chunks :: "nat list \<Rightarrow> nat list list" where
  "dependency_chunks [] = []"
| "dependency_chunks es = take 5 es # dependency_chunks (drop 5 es)"

definition event_gpu_handle :: "runtime \<Rightarrow> nat \<Rightarrow> (stuck, u64) outcome" where
  "event_gpu_handle s e =
     obind (get_event s e) (\<lambda>event. Ok (if us_page (ev_signal event) then us_handle (ev_signal event) else 0))"

primrec event_handles :: "runtime \<Rightarrow> nat list \<Rightarrow> (stuck, u64 list) outcome" where
  "event_handles s [] = Ok []"
| "event_handles s (e # es) =
     obind (event_gpu_handle s e) (\<lambda>h. obind (event_handles s es) (\<lambda>hs. Ok (h # hs)))"

primrec barrier_parameters :: "runtime \<Rightarrow> nat list list \<Rightarrow> (stuck, AqlBarrierAndParameters list) outcome" where
  "barrier_parameters s [] = Ok []"
| "barrier_parameters s (es # ess) =
     obind (event_handles s es) (\<lambda>hs.
     obind (barrier_parameters s ess) (\<lambda>ps.
     Ok (\<lparr>bp_dependency_signals = hs @ replicate (5 - length hs) 0, bp_completion_signal = 0\<rparr> # ps)))"

section \<open>A dispatch object for the launch\<close>

definition reset_signal :: "UserSignal \<Rightarrow> (stuck, UserSignal) outcome" where
  "reset_signal sig =
     (if us_page sig then Ok (sig\<lparr>us_start_ts := 0, us_end_ts := 0, us_value := 1\<rparr>) else Fault)"

text \<open>\<open>find_reusable\<close>: the search runs over the pool from its back.\<close>

definition reusable :: "u64 \<Rightarrow> PendingDispatch \<Rightarrow> bool" where
  "reusable allocation_size dispatch \<longleftrightarrow> allocation_size = 0 \<or>
     (sl_arena (pd_kernarg dispatch) \<noteq> None \<and> sl_size (pd_kernarg dispatch) \<ge> allocation_size)"

primrec search_reusable :: "u64 \<Rightarrow> runtime \<Rightarrow> nat list \<Rightarrow> (stuck, nat option) outcome" where
  "search_reusable allocation_size s [] = Ok None"
| "search_reusable allocation_size s (d # ds) =
     obind (get_dispatch s d) (\<lambda>dispatch.
     if reusable allocation_size dispatch then Ok (Some 0)
     else obind (search_reusable allocation_size s ds) (\<lambda>found. Ok (map_option Suc found)))"

definition find_reusable :: "nat \<Rightarrow> u64 \<Rightarrow> runtime \<Rightarrow> (stuck, nat option) outcome" where
  "find_reusable q allocation_size s =
     obind (get_queue s q) (\<lambda>queue.
     obind (search_reusable allocation_size s (rev (q_available_dispatches queue))) (\<lambda>found.
     Ok (map_option (\<lambda>i. length (q_available_dispatches queue) - 1 - i) found)))"

definition take_reusable :: "nat \<Rightarrow> nat \<Rightarrow> runtime \<Rightarrow> nat run" where
  "take_reusable q index s =
     obind (get_queue s q) (\<lambda>queue.
     let d = q_available_dispatches queue ! index in
     obind (get_dispatch s d) (\<lambda>dispatch.
     obind (reset_signal (pd_completion_signal dispatch)) (\<lambda>sig.
     Ok (d, put_dispatch d (dispatch\<lparr>pd_completion_signal := sig\<rparr>)
       (put_queue q (queue\<lparr>q_available_dispatches := swap_remove index (q_available_dispatches queue)\<rparr>) s)))))"

definition create_dispatch :: "nat \<Rightarrow> u64 \<Rightarrow> runtime \<Rightarrow> nat option run" where
  "create_dispatch q allocation_size s =
     obind (allocate_direct_kfd_kernarg_locked q allocation_size s) (\<lambda>(kernarg, s1).
     case kernarg of None \<Rightarrow> Ok (None, s1)
     | Some region \<Rightarrow>
         (case next_signal s1 of
            (None, s2) \<Rightarrow> obind (rollback_direct_kfd_kernarg_locked q region s2) (\<lambda>s3. Ok (None, s3))
          | (Some handle, s2) \<Rightarrow>
              (case next_allocation s2 of
                 (False, s3) \<Rightarrow> obind (rollback_direct_kfd_kernarg_locked q region s3) (\<lambda>s4. Ok (None, s4))
               | (True, s3) \<Rightarrow>
                   let d = g_next s3;
                       dispatch = \<lparr>pd_completion_signal = \<lparr>us_page = True, us_handle = handle, us_value = 1,
                                     us_start_ts = 0, us_end_ts = 0\<rparr>,
                                   pd_kernarg = region, pd_completion_event = None\<rparr>
                   in Ok (Some d, put_dispatch d dispatch (s3\<lparr>g_next := d + 1\<rparr>)))))"

text \<open>
  The resource block of the launch: compaction of the vector of pending dispatches, the reservations,
  and a dispatch from the pool or a new one.
\<close>

definition compact_dispatches :: "bool \<Rightarrow> lr_queue \<Rightarrow> lr_queue" where
  "compact_dispatches at_capacity queue =
     (if q_pending_dispatch_head queue \<noteq> 0 \<and> at_capacity
      then queue\<lparr>q_pending_dispatches := drop (q_pending_dispatch_head queue) (q_pending_dispatches queue),
                 q_pending_dispatch_head := 0\<rparr>
      else queue)"

definition search_or_reap :: "nat \<Rightarrow> u64 \<Rightarrow> runtime \<Rightarrow> (lr_status + nat option) run" where
  "search_or_reap q allocation_size s =
     obind (find_reusable q allocation_size s) (\<lambda>found.
     case found of Some i \<Rightarrow> Ok (Inr (Some i), s)
     | None \<Rightarrow>
         obind (reap_direct_kfd_dispatches_locked q s) (\<lambda>(status, s1).
         if status \<noteq> LR_SUCCESS then Ok (Inl status, s1)
         else obind (find_reusable q allocation_size s1) (\<lambda>found. Ok (Inr found, s1))))"

definition acquire_dispatch :: "nat \<Rightarrow> u64 \<Rightarrow> runtime \<Rightarrow> (lr_status + nat) run" where
  "acquire_dispatch q allocation_size s =
     (case next_full s of (at_capacity, s1) \<Rightarrow>
      obind (get_queue s1 q) (\<lambda>queue.
      case next_allocation (put_queue q (compact_dispatches at_capacity queue) s1) of
        (False, s2) \<Rightarrow> Ok (Inl LR_ERROR_RUNTIME, s2)
      | (True, s2) \<Rightarrow>
          obind (search_or_reap q allocation_size s2) (\<lambda>(found, s3).
          case found of
            Inl status \<Rightarrow> Ok (Inl status, s3)
          | Inr (Some i) \<Rightarrow> obind (take_reusable q i s3) (\<lambda>(d, s4). Ok (Inr d, s4))
          | Inr None \<Rightarrow>
              obind (create_dispatch q allocation_size s3) (\<lambda>(created, s4).
              Ok (case created of None \<Rightarrow> Inl LR_ERROR_RUNTIME | Some d \<Rightarrow> Inr d, s4)))))"

section \<open>Launch\<close>

definition aql_submit_status :: "AqlSubmitError \<Rightarrow> lr_status" where
  "aql_submit_status error =
     (case error of
        SubmitNone \<Rightarrow> LR_SUCCESS
      | InvalidPacket \<Rightarrow> LR_ERROR_INVALID_ARGUMENT
      | InvalidQueue \<Rightarrow> LR_ERROR_INVALID_ARGUMENT
      | QueueFull \<Rightarrow> LR_ERROR_RUNTIME
      | ReserveFailed \<Rightarrow> LR_ERROR_RUNTIME)"

text \<open>What a launch asks for; \<open>la_unlocks\<close> tells whether the caller passed its lock.\<close>

record launch_request =
  la_image :: ExecutableImageInfo
  la_kernel_index :: nat
  la_config :: "lr_launch_config option"
  la_args :: "bytes option"
  la_args_size :: u64
  la_completion_event :: "nat option"
  la_event_dependencies :: "nat list option"
  la_unlocks :: bool

definition launch_kernel :: "launch_request \<Rightarrow> KernelInfo" where
  "launch_kernel r = co_kernels (ii_code_object (la_image r)) ! la_kernel_index r"

definition launch_dependencies :: "launch_request \<Rightarrow> nat list" where
  "launch_dependencies r = (case la_event_dependencies r of None \<Rightarrow> [] | Some es \<Rightarrow> es)"

text \<open>The checks before any resource is touched; \<open>None\<close> lets the launch go on.\<close>

definition completion_event_usable :: "runtime \<Rightarrow> nat \<Rightarrow> nat \<Rightarrow> bool" where
  "completion_event_usable s device e \<longleftrightarrow>
     (case g_events s e of None \<Rightarrow> False
      | Some event \<Rightarrow> \<not> ev_destroying event \<and> \<not> ev_pending event \<and> ev_device event = device)"

definition launch_refused :: "nat \<Rightarrow> launch_request \<Rightarrow> runtime \<Rightarrow> (stuck, lr_status option) outcome" where
  "launch_refused q r s =
     obind (get_queue s q) (\<lambda>queue.
     case la_config r of None \<Rightarrow> Ok (Some LR_ERROR_INVALID_ARGUMENT)
     | Some config \<Rightarrow>
     if la_args r = None \<or> \<not> g_kfd_session s \<or> \<not> ii_valid (la_image r) \<or>
        length (co_kernels (ii_code_object (la_image r))) \<le> la_kernel_index r \<or>
        length (ii_kernels (la_image r)) \<le> la_kernel_index r
     then Ok (Some LR_ERROR_INVALID_ARGUMENT)
     else if (case la_completion_event r of None \<Rightarrow> False
              | Some e \<Rightarrow> \<not> completion_event_usable s (q_device queue) e)
     then Ok (Some LR_ERROR_INVALID_ARGUMENT)
     else if la_args_size r > ucast (ki_explicit_argument_size (launch_kernel r)) \<or>
             ki_uses_dynamic_stack (launch_kernel r) \<or>
             cfg_shared_memory_bytes config > - 1 - ki_group_segment_size (launch_kernel r)
     then Ok (Some (if ki_uses_dynamic_stack (launch_kernel r) then LR_ERROR_NOT_SUPPORTED
                    else LR_ERROR_INVALID_ARGUMENT))
     else Ok None)"

text \<open>The size of the kernarg storage, rounded up to pages.\<close>

definition kernarg_allocation_size :: "u64 \<Rightarrow> u64 option" where
  "kernarg_allocation_size storage_size =
     (if storage_size = 0 then Some 0
      else if storage_size > - 1 - (kMemoryPageSize - 1) then None
      else Some ((storage_size + kMemoryPageSize - 1) AND NOT (kMemoryPageSize - 1)))"

definition argument_layout ::
  "launch_request \<Rightarrow> (stuck, lr_status + KernargBufferRequirements \<times> u64) outcome" where
  "argument_layout r =
     (case kernarg_buffer_requirements (launch_kernel r) (la_args r) (la_args_size r) of
        Fault \<Rightarrow> Fault
      | Err error \<Rightarrow>
          Ok (Inl (if error = KernargUnsupportedAlignment then LR_ERROR_NOT_SUPPORTED
                   else LR_ERROR_INVALID_ARGUMENT))
      | Ok requirements \<Rightarrow>
          Ok (case kernarg_allocation_size (kr_storage_size requirements) of
                None \<Rightarrow> Inl LR_ERROR_INVALID_ARGUMENT
              | Some n \<Rightarrow> Inr (requirements, n)))"

text \<open>The kernarg segment of dispatch \<open>d\<close>; the result is its address, or nothing when it is refused.\<close>

definition write_kernargs ::
  "nat \<Rightarrow> nat \<Rightarrow> launch_request \<Rightarrow> lr_launch_config \<Rightarrow> KernargBufferRequirements \<Rightarrow> runtime \<Rightarrow> u64 option run" where
  "write_kernargs q d r config requirements s =
     (if kr_storage_size requirements = 0 then Ok (Some 0, s)
      else
      obind (get_queue s q) (\<lambda>queue.
      obind (get_dispatch s d) (\<lambda>dispatch.
      let region = pd_kernarg dispatch; arenas = q_kernarg_arenas queue in
      obind (slice_bytes arenas region) (\<lambda>destination.
      obind (slice_gpu_address arenas region) (\<lambda>gpu_address.
      case materialize_validated_kernarg_buffer (Ok requirements) (la_args r) (la_args_size r)
             destination (sl_size region) gpu_address of
        Fault \<Rightarrow> Fault
      | Err _ \<Rightarrow> Ok (None, s)
      | Ok (kernarg, info) \<Rightarrow>
          (case populate_light_rocr_hidden_kernargs (launch_kernel r) config kernarg
                  (ucast (ki_kernarg_size (launch_kernel r))) of
             Fault \<Rightarrow> Fault
           | Err _ \<Rightarrow> Fault
           | Ok (written, bs) \<Rightarrow>
               Ok (if written then Some (kb_gpu_address info) else None,
                   put_queue q (queue\<lparr>q_kernarg_arenas := store_slice region bs arenas\<rparr>) s)))))))"

text \<open>A dispatch that is not used goes back to the pool.\<close>

definition return_dispatch :: "nat \<Rightarrow> nat \<Rightarrow> runtime \<Rightarrow> (stuck, runtime) outcome" where
  "return_dispatch q d s =
     obind (get_queue s q) (\<lambda>queue.
     Ok (put_queue q (queue\<lparr>q_available_dispatches := q_available_dispatches queue @ [d]\<rparr>) s))"

text \<open>The completion event is armed with the clock of the moment.\<close>

definition arm_event :: "nat \<Rightarrow> ClockCounters \<Rightarrow> lr_event \<Rightarrow> (stuck, lr_event) outcome" where
  "arm_event q clock event =
     obind (reset_signal (ev_signal event)) (\<lambda>sig.
     Ok (event\<lparr>ev_signal := sig, ev_pending := True, ev_completed := False, ev_start_tick := 0,
               ev_completion_tick := 0, ev_record_clock := clock, ev_completion_clock := no_clock,
               ev_recorded_queue := Some q\<rparr>))"

definition push_pending_event :: "nat \<Rightarrow> nat \<Rightarrow> runtime \<Rightarrow> (stuck, runtime) outcome" where
  "push_pending_event q e s =
     obind (get_queue s q) (\<lambda>queue.
     obind (get_event s e) (\<lambda>event.
     Ok ((put_queue q (queue\<lparr>q_queue := set_profiling_enabled True (q_queue queue),
                            q_pending_events := q_pending_events queue @ [e]\<rparr>) s)
         \<lparr>g_device_events := (g_device_events s)(ev_device event :=
            g_device_events s (ev_device event) @ [e])\<rparr>)))"

definition arm_completion_event :: "nat \<Rightarrow> nat \<Rightarrow> nat \<Rightarrow> runtime \<Rightarrow> bool run" where
  "arm_completion_event q d e s =
     (case next_clock s of
        (None, s1) \<Rightarrow> Ok (False, s1)
      | (Some clock, s1) \<Rightarrow>
          (case next_allocation s1 of
             (False, s2) \<Rightarrow> Ok (False, s2)
           | (True, s2) \<Rightarrow>
               obind (get_event s2 e) (\<lambda>event.
               obind (arm_event q clock event) (\<lambda>event'.
               obind (get_dispatch s2 d) (\<lambda>dispatch.
               obind (push_pending_event q e
                        (put_dispatch d (dispatch\<lparr>pd_completion_event := Some e\<rparr>) (put_event e event' s2))) (\<lambda>s3.
               Ok (True, s3)))))))"

text \<open>The dependency barriers become pending behind the dispatch that retires them.\<close>

primrec push_barriers :: "nat \<Rightarrow> nat \<Rightarrow> nat list list \<Rightarrow> runtime \<Rightarrow> (stuck, runtime) outcome" where
  "push_barriers q d [] s = Ok s"
| "push_barriers q d (es # ess) s =
     obind (retain_all es q s) (\<lambda>s1.
     obind (get_queue s1 q) (\<lambda>queue.
     push_barriers q d ess (put_queue q (queue\<lparr>q_pending_barriers := q_pending_barriers queue @
       [\<lparr>pb_retirement_dispatch = d, pb_dependencies = es\<rparr>]\<rparr>) s1)))"

definition push_dispatch :: "nat \<Rightarrow> nat \<Rightarrow> runtime \<Rightarrow> (stuck, runtime) outcome" where
  "push_dispatch q d s =
     obind (get_queue s q) (\<lambda>queue.
     Ok (put_queue q (queue\<lparr>q_pending_dispatches := q_pending_dispatches queue @ [Some d]\<rparr>) s))"

text \<open>The packets. An error of the producer is a value of its result, never a raised one.\<close>

definition submitted_value ::
  "AqlQueue submitted \<Rightarrow> (stuck, AqlSubmitResult \<times> AqlQueue \<times> bytes) outcome" where
  "submitted_value result = (case result of Ok x \<Rightarrow> Ok x | Err _ \<Rightarrow> Fault | Fault \<Rightarrow> Fault)"

definition completion_signal_handle :: "runtime \<Rightarrow> nat \<Rightarrow> (stuck, u64) outcome" where
  "completion_signal_handle s d =
     obind (get_dispatch s d) (\<lambda>dispatch.
     case pd_completion_event dispatch of
       Some e \<Rightarrow> event_gpu_handle s e
     | None \<Rightarrow> Ok (if us_page (pd_completion_signal dispatch) then us_handle (pd_completion_signal dispatch) else 0))"

definition direct_kfd_producer :: "AqlQueue \<Rightarrow> AqlQueue AqlQueueProducerOps" where
  "direct_kfd_producer aql = light_rocr_kfd_producer_ops (Some aql)
     (Some (\<lambda>aql. valid_direct_kfd_dispatch_packet (scratch_private_segment_size aql)))"

definition submit_launch ::
  "nat \<Rightarrow> nat \<Rightarrow> launch_request \<Rightarrow> lr_launch_config \<Rightarrow> u64 \<Rightarrow> nat \<Rightarrow> AqlBarrierAndParameters list \<Rightarrow> runtime \<Rightarrow>
   AqlSubmitError run" where
  "submit_launch q d r config kernarg_address preceding_dispatch_count barriers s =
     obind (get_queue s q) (\<lambda>queue.
     obind (completion_signal_handle s d) (\<lambda>handle.
     let k = launch_kernel r;
         parameters = aql_dispatch_parameters config (ki_private_segment_size k)
           (ki_group_segment_size k + cfg_shared_memory_bytes config)
           (rk_descriptor_gpu_address (ii_kernels (la_image r) ! la_kernel_index r)) kernarg_address handle;
         producer = direct_kfd_producer (q_queue queue);
         ordr = \<lparr>do_pending_dispatch_count = word_of_nat preceding_dispatch_count,
                do_has_pending_dependencies = (length barriers \<noteq> 0)\<rparr>
     in
     obind (submitted_value
       (if length barriers = 0
        then submit_aql_kernel_dispatch producer parameters ordr True (q_queue queue) (q_ring queue)
        else submit_aql_barriers_and_kernel_dispatch producer (Some barriers) (word_of_nat (length barriers))
               parameters ordr (q_queue queue) (q_ring queue))) (\<lambda>(result, aql, ring).
     Ok (as_error result, put_queue q (queue\<lparr>q_queue := aql, q_ring := ring\<rparr>) s))))"

text \<open>
  The rollback of a refused submission: the completion event gets its previous fields back, the barriers release their
  dependencies, and the dispatch returns to the pool.
\<close>

definition disarm_event :: "lr_event \<Rightarrow> lr_event \<Rightarrow> (stuck, lr_event) outcome" where
  "disarm_event previous event =
     (if us_page (ev_signal event)
      then Ok (event\<lparr>ev_recorded_queue := None, ev_pending := False, ev_completed := ev_completed previous,
                     ev_start_tick := ev_start_tick previous, ev_completion_tick := ev_completion_tick previous,
                     ev_record_clock := ev_record_clock previous,
                     ev_completion_clock := ev_completion_clock previous,
                     ev_signal := (ev_signal event)\<lparr>us_value := 0\<rparr>\<rparr>)
      else Fault)"

definition pop_pending_event :: "nat \<Rightarrow> nat \<Rightarrow> runtime \<Rightarrow> (stuck, runtime) outcome" where
  "pop_pending_event q e s =
     obind (get_queue s q) (\<lambda>queue.
     obind (get_event s e) (\<lambda>event.
     if q_pending_events queue = [] \<or> g_device_events s (ev_device event) = [] then Fault
     else Ok ((put_queue q (queue\<lparr>q_pending_events := butlast (q_pending_events queue)\<rparr>) s)
              \<lparr>g_device_events := (g_device_events s)(ev_device event :=
                 butlast (g_device_events s (ev_device event)))\<rparr>)))"

definition undo_completion_event :: "nat \<Rightarrow> nat \<Rightarrow> nat \<Rightarrow> lr_event \<Rightarrow> runtime \<Rightarrow> (stuck, runtime) outcome" where
  "undo_completion_event q d e previous s =
     obind (pop_pending_event q e s) (\<lambda>s1.
     obind (get_dispatch s1 d) (\<lambda>dispatch.
     obind (get_event s1 e) (\<lambda>event.
     obind (disarm_event previous event) (\<lambda>event'.
     Ok (put_event e event' (put_dispatch d (dispatch\<lparr>pd_completion_event := None\<rparr>) s1))))))"

primrec pop_barriers :: "nat \<Rightarrow> nat \<Rightarrow> runtime \<Rightarrow> (stuck, runtime) outcome" where
  "pop_barriers q 0 s = Ok s"
| "pop_barriers q (Suc n) s =
     obind (get_queue s q) (\<lambda>queue.
     if q_pending_barriers queue = [] then Fault
     else
     obind (release_all (pb_dependencies (last (q_pending_barriers queue))) q s) (\<lambda>s1.
     obind (get_queue s1 q) (\<lambda>queue1.
     pop_barriers q n (put_queue q (queue1\<lparr>q_pending_barriers := butlast (q_pending_barriers queue1)\<rparr>) s1))))"

definition pop_dispatch :: "nat \<Rightarrow> runtime \<Rightarrow> (stuck, runtime) outcome" where
  "pop_dispatch q s =
     obind (get_queue s q) (\<lambda>queue.
     if q_pending_dispatches queue = [] then Fault
     else case last (q_pending_dispatches queue) of
       None \<Rightarrow> Fault
     | Some d \<Rightarrow>
         Ok (put_queue q (queue\<lparr>q_pending_dispatches := butlast (q_pending_dispatches queue),
                                q_available_dispatches := q_available_dispatches queue @ [d]\<rparr>) s))"

definition undo_launch :: "nat \<Rightarrow> nat \<Rightarrow> (nat \<times> lr_event) option \<Rightarrow> nat \<Rightarrow> runtime \<Rightarrow> (stuck, runtime) outcome" where
  "undo_launch q d armed barrier_count s =
     obind (case armed of None \<Rightarrow> Ok s | Some (e, previous) \<Rightarrow> undo_completion_event q d e previous s) (\<lambda>s1.
     obind (pop_barriers q barrier_count s1) (\<lambda>s2. pop_dispatch q s2))"

text \<open>The part of a launch that publishes: bookkeeping, packets, and the rollback.\<close>

definition publish_launch ::
  "nat \<Rightarrow> nat \<Rightarrow> launch_request \<Rightarrow> lr_launch_config \<Rightarrow> u64 \<Rightarrow> (nat \<times> lr_event) option \<Rightarrow>
   AqlBarrierAndParameters list \<Rightarrow> runtime \<Rightarrow> lr_status run" where
  "publish_launch q d r config kernarg_address armed barriers s =
     obind (get_queue s q) (\<lambda>queue.
     let preceding_dispatch_count = length (q_pending_dispatches queue) - q_pending_dispatch_head queue in
     obind (push_dispatch q d s) (\<lambda>s1.
     obind (push_barriers q d (dependency_chunks (launch_dependencies r)) s1) (\<lambda>s2.
     obind (submit_launch q d r config kernarg_address preceding_dispatch_count barriers s2) (\<lambda>(error, s3).
     if error \<noteq> SubmitNone
     then obind (undo_launch q d armed (length barriers) s3) (\<lambda>s4. Ok (aql_submit_status error, s4))
     else Ok (LR_SUCCESS, s3)))))"

text \<open>From the dispatch object on.\<close>

definition launch_dispatch ::
  "nat \<Rightarrow> nat \<Rightarrow> launch_request \<Rightarrow> lr_launch_config \<Rightarrow> KernargBufferRequirements \<Rightarrow>
   AqlBarrierAndParameters list \<Rightarrow> runtime \<Rightarrow> lr_status run" where
  "launch_dispatch q d r config requirements barriers s =
     obind (write_kernargs q d r config requirements s) (\<lambda>(address, s1).
     case address of
       None \<Rightarrow> obind (return_dispatch q d s1) (\<lambda>s2. Ok (LR_ERROR_INVALID_ARGUMENT, s2))
     | Some kernarg_address \<Rightarrow>
         (case la_completion_event r of
            None \<Rightarrow> publish_launch q d r config kernarg_address None barriers s1
          | Some e \<Rightarrow>
              obind (get_event s1 e) (\<lambda>previous.
              obind (arm_completion_event q d e s1) (\<lambda>(ok, s2).
              if \<not> ok then obind (return_dispatch q d s2) (\<lambda>s3. Ok (LR_ERROR_RUNTIME, s3))
              else publish_launch q d r config kernarg_address (Some (e, previous)) barriers s2))))"

definition launch_with_barriers :: "nat \<Rightarrow> launch_request \<Rightarrow> lr_launch_config \<Rightarrow> AqlBarrierAndParameters list \<Rightarrow> runtime \<Rightarrow> lr_status run" where
  "launch_with_barriers q r config barriers s =
     obind (argument_layout r) (\<lambda>layout.
     case layout of Inl status \<Rightarrow> Ok (status, s)
     | Inr (requirements, allocation_size) \<Rightarrow>
     obind (acquire_dispatch q allocation_size s) (\<lambda>(acquired, s1).
     case acquired of
       Inl status \<Rightarrow> Ok (status, s1)
     | Inr d \<Rightarrow> launch_dispatch q d r config requirements barriers s1))"

definition launch_with_scratch :: "nat \<Rightarrow> launch_request \<Rightarrow> lr_launch_config \<Rightarrow> runtime \<Rightarrow> lr_status run" where
  "launch_with_scratch q r config s =
     (let barrier_count = (length (launch_dependencies r) + 4) div 5 in
     obind (ensure_direct_kfd_queue_capacity_locked q (word_of_nat barrier_count + 1) (la_unlocks r) s) (\<lambda>(status, s1).
     if status \<noteq> LR_SUCCESS then Ok (status, s1)
     else
     case next_allocation s1 of
       (False, s2) \<Rightarrow> Ok (LR_ERROR_RUNTIME, s2)
     | (True, s2) \<Rightarrow>
     obind (barrier_parameters s2 (dependency_chunks (launch_dependencies r))) (\<lambda>barriers.
     launch_with_barriers q r config barriers s2)))"

definition submit_direct_kfd_kernel_impl_locked :: "nat \<Rightarrow> launch_request \<Rightarrow> runtime \<Rightarrow> lr_status run" where
  "submit_direct_kfd_kernel_impl_locked q r s =
     obind (launch_refused q r s) (\<lambda>refused.
     case (refused, la_config r) of
       (Some status, _) \<Rightarrow> Ok (status, s)
     | (None, None) \<Rightarrow> Fault
     | (None, Some config) \<Rightarrow>
     obind (ensure_direct_kfd_queue_scratch_locked q (ki_private_segment_size (launch_kernel r)) s) (\<lambda>(status, s1).
     if status \<noteq> LR_SUCCESS then Ok (status, s1)
     else launch_with_scratch q r config s1))"

end
