(* ===== verification/DirectKfdEvents.thy ===== *)
theory DirectKfdEvents
  imports DirectKfdLaunch
begin

text \<open>
  The event and queue calls of the direct-KFD runtime: \<open>lr_event_create\<close>, \<open>lr_event_destroy\<close>,
  \<open>lr_event_record\<close>, \<open>lr_event_synchronize\<close> and the elapsed times of \<open>src/event.cpp\<close>, and
  \<open>lr_queue_synchronize\<close> of \<open>src/queue.cpp\<close>. A call runs alone with the device: where the source
  releases the lock to wait, no other call is interleaved, and a condition variable that waits for
  another call is \<open>Waiting\<close>.
\<close>

section \<open>Dependencies of a launch\<close>

text \<open>
  The loop over the caller's array; \<open>seen\<close> is the set of events met so far and \<open>pending\<close> the result.
\<close>

primrec collect_loop ::
  "nat \<Rightarrow> nat option \<Rightarrow> nat option list \<Rightarrow> nat set \<Rightarrow> nat list \<Rightarrow> runtime \<Rightarrow> (lr_status + nat list) run" where
  "collect_loop device completion_event [] seen found s = Ok (Inr found, s)"
| "collect_loop device completion_event (p # ps) seen found s =
     (case p of
        None \<Rightarrow> Ok (Inl LR_ERROR_INVALID_ARGUMENT, s)
      | Some e \<Rightarrow>
          if completion_event = Some e then Ok (Inl LR_ERROR_INVALID_ARGUMENT, s)
          else
          (case g_events s e of
             None \<Rightarrow> Ok (Inl LR_ERROR_INVALID_ARGUMENT, s)
           | Some event \<Rightarrow>
               if ev_device event \<noteq> device \<or> ev_destroying event \<or>
                  (\<not> ev_pending event \<and> \<not> ev_completed event) \<or> e \<in> seen
               then Ok (Inl LR_ERROR_INVALID_ARGUMENT, s)
               else if \<not> ev_pending event then collect_loop device completion_event ps (insert e seen) found s
               else
               obind (load_acquire (EventSignal e) s) (\<lambda>(v, s1).
               collect_loop device completion_event ps (insert e seen)
                 (if v \<noteq> 0 then found @ [e] else found) s1)))"

definition collect_direct_kfd_event_dependencies_locked ::
  "nat \<Rightarrow> nat option list option \<Rightarrow> u64 \<Rightarrow> nat option \<Rightarrow> runtime \<Rightarrow> (lr_status + nat list) run" where
  "collect_direct_kfd_event_dependencies_locked device dependencies dependency_count completion_event s =
     (case dependencies of
        None \<Rightarrow> Ok (if dependency_count \<noteq> 0 then Inl LR_ERROR_INVALID_ARGUMENT else Inr [], s)
      | Some ps \<Rightarrow>
          if dependency_count > 4294967295 then Ok (Inl LR_ERROR_INVALID_ARGUMENT, s)
          else if length ps < unat dependency_count then Fault
          else
          (case next_allocation s of
             (False, s1) \<Rightarrow> Ok (Inl LR_ERROR_RUNTIME, s1)
           | (True, s1) \<Rightarrow> collect_loop device completion_event (take (unat dependency_count) ps) {} [] s1))"

section \<open>Queue synchronisation\<close>

text \<open>
  A synchronisation puts a barrier with a signal of its own into the ring. The result is the status
  and the signal.
\<close>

definition submit_synchronization :: "nat \<Rightarrow> u64 \<Rightarrow> runtime \<Rightarrow> (lr_status + nat) run" where
  "submit_synchronization q handle s =
     (let n = g_next s;
          s1 = s\<lparr>g_next := n + 1, g_signals := (g_signals s)(n := Some
                 \<lparr>us_page = True, us_handle = handle, us_value = 1, us_start_ts = 0, us_end_ts = 0\<rparr>)\<rparr>
      in
      obind (get_queue s1 q) (\<lambda>queue.
      obind (submitted_value
        (submit_aql_barrier_and (light_rocr_kfd_producer_ops (Some (q_queue queue)) None)
           \<lparr>bp_dependency_signals = replicate 5 0, bp_completion_signal = handle\<rparr>
           (q_queue queue) (q_ring queue))) (\<lambda>(result, aql, ring).
      let s2 = put_queue q (queue\<lparr>q_queue := aql, q_ring := ring\<rparr>) s1 in
      if as_error result \<noteq> SubmitNone
      then Ok (Inl LR_ERROR_RUNTIME, s2\<lparr>g_signals := (g_signals s2)(n := None)\<rparr>)
      else Ok (Inr n, put_queue q (queue\<lparr>q_queue := aql, q_ring := ring,
                          q_active_synchronizers := q_active_synchronizers queue + 1\<rparr>) s1))))"

definition prepare_direct_kfd_queue_synchronization_locked :: "nat \<Rightarrow> runtime \<Rightarrow> (lr_status + nat) run" where
  "prepare_direct_kfd_queue_synchronization_locked q s =
     obind (ensure_direct_kfd_queue_capacity_locked q 1 True s) (\<lambda>(status, s1).
     if status \<noteq> LR_SUCCESS then Ok (Inl status, s1)
     else
     case next_signal s1 of
       (None, s2) \<Rightarrow> Ok (Inl LR_ERROR_RUNTIME, s2)
     | (Some handle, s2) \<Rightarrow>
         (case next_allocation s2 of
            (False, s3) \<Rightarrow> Ok (Inl LR_ERROR_RUNTIME, s3)
          | (True, s3) \<Rightarrow> submit_synchronization q handle s3))"

definition finish_direct_kfd_queue_synchronization_locked ::
  "nat \<Rightarrow> nat \<Rightarrow> lr_status \<Rightarrow> runtime \<Rightarrow> lr_status run" where
  "finish_direct_kfd_queue_synchronization_locked q n wait_status s =
     obind (if wait_status = LR_SUCCESS then reap_direct_kfd_dispatches_locked q s
            else Ok (wait_status, s)) (\<lambda>(result1, s1).
     obind (if result1 = LR_SUCCESS then reap_completed_direct_kfd_events_locked q s1
            else Ok (result1, s1)) (\<lambda>(result2, s2).
     case next_release s2 of (released, s3) \<Rightarrow>
     obind (get_queue s3 q) (\<lambda>queue.
     Ok (if \<not> released \<and> result2 = LR_SUCCESS then LR_ERROR_RUNTIME else result2,
         (put_queue q (queue\<lparr>q_active_synchronizers := q_active_synchronizers queue - 1\<rparr>) s3)
         \<lparr>g_signals := (g_signals s3)(n := None)\<rparr>))))"

definition lr_queue_synchronize :: "nat \<Rightarrow> runtime \<Rightarrow> lr_status run" where
  "lr_queue_synchronize q s =
     (if \<not> g_initialized s then Ok (LR_ERROR_NOT_INITIALIZED, s)
      else case g_queues s q of None \<Rightarrow> Ok (LR_ERROR_INVALID_ARGUMENT, s)
      | Some queue \<Rightarrow>
          if \<not> valid_direct_kfd_queue_locked s q \<or> g_device_count s \<le> q_device queue
          then Ok (LR_ERROR_INVALID_ARGUMENT, s)
          else
          obind (prepare_direct_kfd_queue_synchronization_locked q s) (\<lambda>(prepared, s1).
          case prepared of
            Inl status \<Rightarrow> Ok (status, s1)
          | Inr n \<Rightarrow>
              obind (wait_for_direct_kfd_signal_locked q (OwnSignal n) s1) (\<lambda>(wait_status, s2).
              finish_direct_kfd_queue_synchronization_locked q n wait_status s2)))"

section \<open>Events\<close>

definition new_event :: "nat \<Rightarrow> u64 \<Rightarrow> lr_event" where
  "new_event device handle =
     \<lparr>ev_device = device,
      ev_signal = \<lparr>us_page = True, us_handle = handle, us_value = 1, us_start_ts = 0, us_end_ts = 0\<rparr>,
      ev_pending = False, ev_completed = False, ev_dependency_count = 0,
      ev_dependency_queues = [], ev_active_synchronizers = 0, ev_destroying = False,
      ev_start_tick = 0, ev_completion_tick = 0, ev_record_clock = no_clock,
      ev_completion_clock = no_clock, ev_recorded_queue = None, ev_pageable_copy_staging = None,
      ev_pageable_copy_destination = None, ev_pageable_copy_size = 0\<rparr>"

definition lr_event_create :: "nat \<Rightarrow> runtime \<Rightarrow> (lr_status + nat) run" where
  "lr_event_create device s =
     (if \<not> g_initialized s then Ok (Inl LR_ERROR_NOT_INITIALIZED, s)
      else if g_device_count s \<le> device \<or> g_default_queue s device = None \<or> \<not> g_kfd_session s
      then Ok (Inl LR_ERROR_INVALID_ARGUMENT, s)
      else
      case next_signal s of
        (None, s1) \<Rightarrow> Ok (Inl LR_ERROR_RUNTIME, s1)
      | (Some handle, s1) \<Rightarrow>
          (case next_allocation s1 of
             (False, s2) \<Rightarrow> Ok (Inl LR_ERROR_RUNTIME, s2)
           | (True, s2) \<Rightarrow>
               let e = g_next s2 in
               Ok (Inr e, put_event e (new_event device handle)
                 (s2\<lparr>g_next := e + 1\<rparr>))))"

definition wait_for_direct_kfd_event_locked :: "nat \<Rightarrow> runtime \<Rightarrow> lr_status run" where
  "wait_for_direct_kfd_event_locked e s =
     obind (get_event s e) (\<lambda>event.
     if \<not> ev_pending event
     then Ok (if ev_completed event then LR_SUCCESS else LR_ERROR_INVALID_ARGUMENT, s)
     else case ev_recorded_queue event of
       None \<Rightarrow> Ok (LR_ERROR_RUNTIME, s)
     | Some q \<Rightarrow>
         obind (wait_for_direct_kfd_signal_locked q (EventSignal e) s) (\<lambda>(wait_status, s1).
         if wait_status \<noteq> LR_SUCCESS then Ok (wait_status, s1)
         else
         obind (reap_direct_kfd_dispatches_locked q s1) (\<lambda>(reap_status, s2).
         if reap_status = LR_SUCCESS then finish_direct_kfd_event_wait_locked e s2
         else Ok (reap_status, s2))))"

text \<open>
  Every round takes a reply of the transport for its signal, so one round for each reply, and one that
  fails, are enough.
\<close>

primrec consumers_loop :: "nat \<Rightarrow> nat \<Rightarrow> runtime \<Rightarrow> lr_status run" where
  "consumers_loop 0 e s = Err OutOfFuel"
| "consumers_loop (Suc fuel) e s =
     obind (get_event s e) (\<lambda>event.
     if ev_dependency_count event = 0 then Ok (LR_SUCCESS, s)
     else case ev_dependency_queues event of
       [] \<Rightarrow> Ok (LR_ERROR_RUNTIME, s)
     | (q, _) # _ \<Rightarrow>
         if \<not> valid_direct_kfd_queue_locked s q then Ok (LR_ERROR_RUNTIME, s)
         else
         obind (lr_queue_synchronize q
           (put_event e (event\<lparr>ev_active_synchronizers := ev_active_synchronizers event + 1\<rparr>) s)) (\<lambda>(status, s1).
         obind (get_event s1 e) (\<lambda>event1.
         let s2 = put_event e (event1\<lparr>ev_active_synchronizers := ev_active_synchronizers event1 - 1\<rparr>) s1 in
         if status \<noteq> LR_SUCCESS then Ok (status, s2) else consumers_loop fuel e s2)))"

definition wait_for_direct_kfd_event_consumers :: "nat \<Rightarrow> runtime \<Rightarrow> lr_status run" where
  "wait_for_direct_kfd_event_consumers e s = consumers_loop (length (w_signals s) + 2) e s"

definition abandon_destruction :: "nat \<Rightarrow> lr_status \<Rightarrow> runtime \<Rightarrow> lr_status run" where
  "abandon_destruction e status s =
     obind (get_event s e) (\<lambda>event. Ok (status, put_event e (event\<lparr>ev_destroying := False\<rparr>) s))"

definition destroy_idle_event :: "nat \<Rightarrow> runtime \<Rightarrow> lr_status run" where
  "destroy_idle_event e s =
     obind (wait_for_direct_kfd_event_consumers e s) (\<lambda>(consumer_status, s1).
     if consumer_status \<noteq> LR_SUCCESS then abandon_destruction e consumer_status s1
     else
     case next_release s1 of
       (False, s2) \<Rightarrow> abandon_destruction e LR_ERROR_RUNTIME s2
     | (True, s2) \<Rightarrow> Ok (LR_SUCCESS, s2\<lparr>g_events := (g_events s2)(e := None)\<rparr>))"

definition lr_event_destroy :: "nat \<Rightarrow> runtime \<Rightarrow> lr_status run" where
  "lr_event_destroy e s =
     (if \<not> g_initialized s then Ok (LR_ERROR_NOT_INITIALIZED, s)
      else case g_events s e of None \<Rightarrow> Ok (LR_ERROR_INVALID_ARGUMENT, s)
      | Some event \<Rightarrow>
          if ev_destroying event \<or> g_device_count s \<le> ev_device event then Ok (LR_ERROR_INVALID_ARGUMENT, s)
          else if ev_active_synchronizers event \<noteq> 0 then Err Waiting
          else
          let s1 = put_event e (event\<lparr>ev_destroying := True\<rparr>) s in
          obind (if ev_pending event then wait_for_direct_kfd_event_locked e s1 else Ok (LR_SUCCESS, s1)) (\<lambda>(wait_status, s2).
          if wait_status \<noteq> LR_SUCCESS then abandon_destruction e wait_status s2
          else destroy_idle_event e s2))"

definition lr_event_synchronize :: "nat \<Rightarrow> runtime \<Rightarrow> lr_status run" where
  "lr_event_synchronize e s =
     (if \<not> g_initialized s then Ok (LR_ERROR_NOT_INITIALIZED, s)
      else case g_events s e of None \<Rightarrow> Ok (LR_ERROR_INVALID_ARGUMENT, s)
      | Some event \<Rightarrow>
          if ev_destroying event \<or> g_device_count s \<le> ev_device event then Ok (LR_ERROR_INVALID_ARGUMENT, s)
          else if \<not> ev_pending event then Ok (LR_SUCCESS, s)
          else
          (case ev_recorded_queue event of
             None \<Rightarrow> Ok (LR_ERROR_RUNTIME, s)
           | Some q \<Rightarrow>
               if \<not> valid_direct_kfd_queue_locked s q then Ok (LR_ERROR_RUNTIME, s)
               else
               obind (get_queue s q) (\<lambda>queue.
               obind (wait_for_direct_kfd_signal_locked q (EventSignal e)
                 (put_event e (event\<lparr>ev_active_synchronizers := ev_active_synchronizers event + 1\<rparr>)
                 (put_queue q (queue\<lparr>q_active_synchronizers := q_active_synchronizers queue + 1\<rparr>) s))) (\<lambda>(wait_status, s1).
               obind (if wait_status = LR_SUCCESS then reap_direct_kfd_dispatches_locked q s1
                      else Ok (wait_status, s1)) (\<lambda>(result1, s2).
               obind (if result1 = LR_SUCCESS then finish_direct_kfd_event_wait_locked e s2
                      else Ok (result1, s2)) (\<lambda>(result2, s3).
               obind (get_queue s3 q) (\<lambda>queue3.
               obind (get_event s3 e) (\<lambda>event3.
               Ok (result2,
                 put_event e (event3\<lparr>ev_active_synchronizers := ev_active_synchronizers event3 - 1\<rparr>)
                 (put_queue q (queue3\<lparr>q_active_synchronizers := q_active_synchronizers queue3 - 1\<rparr>) s3))))))))))"

section \<open>Recording\<close>

definition direct_kfd_event_submit_status :: "AqlSubmitError \<Rightarrow> lr_status" where
  "direct_kfd_event_submit_status error =
     (if error = InvalidPacket \<or> error = InvalidQueue then LR_ERROR_INVALID_ARGUMENT else LR_ERROR_RUNTIME)"

text \<open>The event is armed, its barrier submitted, and everything taken back when the producer refuses.\<close>

definition submit_record :: "nat \<Rightarrow> nat \<Rightarrow> ClockCounters \<Rightarrow> runtime \<Rightarrow> lr_status run" where
  "submit_record e q clock s =
     obind (get_event s e) (\<lambda>previous.
     obind (arm_event q clock previous) (\<lambda>event.
     obind (push_pending_event q e (put_event e event s)) (\<lambda>s1.
     obind (get_queue s1 q) (\<lambda>queue.
     obind (submitted_value
       (submit_aql_barrier_and (light_rocr_kfd_producer_ops (Some (q_queue queue)) None)
          \<lparr>bp_dependency_signals = replicate 5 0, bp_completion_signal = us_handle (ev_signal event)\<rparr>
          (q_queue queue) (q_ring queue))) (\<lambda>(result, aql, ring).
     let s2 = put_queue q (queue\<lparr>q_queue := aql, q_ring := ring\<rparr>) s1 in
     if as_error result \<noteq> SubmitNone
     then
     obind (pop_pending_event q e s2) (\<lambda>s3.
     obind (get_event s3 e) (\<lambda>event3.
     obind (disarm_event previous event3) (\<lambda>event'.
     Ok (direct_kfd_event_submit_status (as_error result), put_event e event' s3))))
     else Ok (LR_SUCCESS, s2))))))"

definition record_on_queue :: "nat \<Rightarrow> nat \<Rightarrow> runtime \<Rightarrow> lr_status run" where
  "record_on_queue e q s =
     obind (ensure_direct_kfd_queue_capacity_locked q 1 False s) (\<lambda>(status, s1).
     if status \<noteq> LR_SUCCESS then Ok (status, s1)
     else
     case next_clock s1 of
       (None, s2) \<Rightarrow> Ok (LR_ERROR_RUNTIME, s2)
     | (Some clock, s2) \<Rightarrow>
         (case next_allocation s2 of
            (False, s3) \<Rightarrow> Ok (LR_ERROR_RUNTIME, s3)
          | (True, s3) \<Rightarrow> submit_record e q clock s3))"

definition event_record_impl :: "nat \<Rightarrow> nat option \<Rightarrow> bool \<Rightarrow> runtime \<Rightarrow> lr_status run" where
  "event_record_impl e queue use_default_queue s =
     (if \<not> g_initialized s then Ok (LR_ERROR_NOT_INITIALIZED, s)
      else case g_events s e of None \<Rightarrow> Ok (LR_ERROR_INVALID_ARGUMENT, s)
      | Some event \<Rightarrow>
          if ev_destroying event \<or> g_device_count s \<le> ev_device event \<or> \<not> g_kfd_session s
          then Ok (LR_ERROR_INVALID_ARGUMENT, s)
          else if ev_active_synchronizers event \<noteq> 0 then Err Waiting
          else
          obind (if ev_pending event then wait_for_direct_kfd_event_locked e s else Ok (LR_SUCCESS, s)) (\<lambda>(wait_status, s1).
          if wait_status \<noteq> LR_SUCCESS then Ok (wait_status, s1)
          else
          obind (wait_for_direct_kfd_event_consumers e s1) (\<lambda>(consumer_status, s2).
          if consumer_status \<noteq> LR_SUCCESS then Ok (consumer_status, s2)
          else
          (case (if use_default_queue then g_default_queue s2 (ev_device event) else queue) of
             None \<Rightarrow> Ok (LR_ERROR_INVALID_ARGUMENT, s2)
           | Some q \<Rightarrow>
               (case g_queues s2 q of None \<Rightarrow> Ok (LR_ERROR_INVALID_ARGUMENT, s2)
                | Some found \<Rightarrow>
                    if \<not> valid_direct_kfd_queue_locked s2 q \<or> q_device found \<noteq> ev_device event
                    then Ok (LR_ERROR_INVALID_ARGUMENT, s2)
                    else record_on_queue e q s2)))))"

section \<open>Elapsed time\<close>

definition valid_clock_span :: "ClockCounters \<Rightarrow> ClockCounters \<Rightarrow> bool" where
  "valid_clock_span first final \<longleftrightarrow>
     cc_system_frequency_hz first \<noteq> 0 \<and> cc_system_frequency_hz first = cc_system_frequency_hz final \<and>
     cc_gpu final > cc_gpu first \<and> cc_system final \<ge> cc_system first"

text \<open>The products are 128-bit; the result is cut to 64 bits.\<close>

definition gpu_ticks_to_ns :: "u64 \<Rightarrow> ClockCounters \<Rightarrow> ClockCounters \<Rightarrow> u64" where
  "gpu_ticks_to_ns ticks first final =
     (let gpu_span = cc_gpu final - cc_gpu first;
          system_span = cc_system final - cc_system first;
          system_ticks = (ucast ticks * ucast system_span) div ucast gpu_span :: 128 word
      in ucast ((system_ticks * 1000000000) div ucast (cc_system_frequency_hz first)))"

definition lr_event_elapsed_time_ns :: "nat \<Rightarrow> nat \<Rightarrow> runtime \<Rightarrow> lr_status \<times> u64" where
  "lr_event_elapsed_time_ns start final s =
     (if \<not> g_initialized s then (LR_ERROR_NOT_INITIALIZED, 0)
      else case (g_events s start, g_events s final) of
        (Some a, Some b) \<Rightarrow>
          if ev_device a \<noteq> ev_device b \<or> ev_pending a \<or> ev_pending b \<or> \<not> ev_completed a \<or>
             \<not> ev_completed b \<or> ev_completion_tick b < ev_completion_tick a
          then (LR_ERROR_INVALID_ARGUMENT, 0)
          else if \<not> valid_clock_span (ev_record_clock a) (ev_completion_clock b) then (LR_ERROR_RUNTIME, 0)
          else (LR_SUCCESS, gpu_ticks_to_ns (ev_completion_tick b - ev_completion_tick a)
                  (ev_record_clock a) (ev_completion_clock b))
      | _ \<Rightarrow> (LR_ERROR_INVALID_ARGUMENT, 0))"

definition lr_event_duration_ns :: "nat \<Rightarrow> runtime \<Rightarrow> lr_status \<times> u64" where
  "lr_event_duration_ns e s =
     (if \<not> g_initialized s then (LR_ERROR_NOT_INITIALIZED, 0)
      else case g_events s e of
        None \<Rightarrow> (LR_ERROR_INVALID_ARGUMENT, 0)
      | Some event \<Rightarrow>
          if g_device_count s \<le> ev_device event \<or> ev_pending event \<or> \<not> ev_completed event \<or>
             ev_completion_tick event < ev_start_tick event
          then (LR_ERROR_INVALID_ARGUMENT, 0)
          else if \<not> valid_clock_span (ev_record_clock event) (ev_completion_clock event) then (LR_ERROR_RUNTIME, 0)
          else (LR_SUCCESS, gpu_ticks_to_ns (ev_completion_tick event - ev_start_tick event)
                  (ev_record_clock event) (ev_completion_clock event)))"

end
