(* ===== verification/DirectKfdInvariant.thy ===== *)
theory DirectKfdInvariant
  imports DirectKfdEvents
begin

text \<open>
  The invariant of the direct-KFD runtime and its preservation by the bookkeeping functions of
  \<open>DirectKfd\<close>. The device changes only what the host view of a state hides, so a fact about the host view survives
  every load; the invariant is such a fact.
\<close>

section \<open>The host view\<close>

text \<open>A state without what the device writes: signal values and time stamps, read indices, error words, staging bytes.\<close>

definition host_signal :: "UserSignal \<Rightarrow> UserSignal" where
  "host_signal sig = sig\<lparr>us_value := 0, us_start_ts := 0, us_end_ts := 0\<rparr>"

definition host_dispatch :: "PendingDispatch \<Rightarrow> PendingDispatch" where
  "host_dispatch p = p\<lparr>pd_completion_signal := host_signal (pd_completion_signal p)\<rparr>"

definition host_event :: "lr_event \<Rightarrow> lr_event" where
  "host_event ev = ev\<lparr>ev_signal := host_signal (ev_signal ev),
     ev_pageable_copy_staging := map_option (\<lambda>bs. replicate (length bs) 0) (ev_pageable_copy_staging ev)\<rparr>"

definition host_queue :: "lr_queue \<Rightarrow> lr_queue" where
  "host_queue Q = Q\<lparr>q_queue := (q_queue Q)\<lparr>aq_read_dispatch_id := 0\<rparr>, q_error := 0\<rparr>"

definition host :: "runtime \<Rightarrow> runtime" where
  "host s = s\<lparr>g_queues := (\<lambda>q. map_option host_queue (g_queues s q)),
              g_events := (\<lambda>e. map_option host_event (g_events s e)),
              g_dispatches := (\<lambda>d. map_option host_dispatch (g_dispatches s d)),
              g_signals := (\<lambda>n. map_option host_signal (g_signals s n)), w_device := []\<rparr>"

lemma host_fields [simp]:
  "us_page (host_signal sig) = us_page sig"
  "us_handle (host_signal sig) = us_handle sig"
  "us_page (pd_completion_signal (host_dispatch p)) = us_page (pd_completion_signal p)"
  "pd_kernarg (host_dispatch p) = pd_kernarg p"
  "pd_completion_event (host_dispatch p) = pd_completion_event p"
  "us_page (ev_signal (host_event ev)) = us_page (ev_signal ev)"
  "us_handle (ev_signal (host_event ev)) = us_handle (ev_signal ev)"
  "ev_device (host_event ev) = ev_device ev"
  "ev_pending (host_event ev) = ev_pending ev"
  "ev_completed (host_event ev) = ev_completed ev"
  "ev_dependency_count (host_event ev) = ev_dependency_count ev"
  "ev_dependency_queues (host_event ev) = ev_dependency_queues ev"
  "ev_active_synchronizers (host_event ev) = ev_active_synchronizers ev"
  "ev_destroying (host_event ev) = ev_destroying ev"
  "ev_recorded_queue (host_event ev) = ev_recorded_queue ev"
  "ev_pageable_copy_destination (host_event ev) = ev_pageable_copy_destination ev"
  "ev_pageable_copy_size (host_event ev) = ev_pageable_copy_size ev"
  "q_device (host_queue Q) = q_device Q"
  "q_ring (host_queue Q) = q_ring Q"
  "q_pending_dispatches (host_queue Q) = q_pending_dispatches Q"
  "q_pending_dispatch_head (host_queue Q) = q_pending_dispatch_head Q"
  "q_pending_barriers (host_queue Q) = q_pending_barriers Q"
  "q_available_dispatches (host_queue Q) = q_available_dispatches Q"
  "q_kernarg_arenas (host_queue Q) = q_kernarg_arenas Q"
  "q_pending_events (host_queue Q) = q_pending_events Q"
  "q_active_synchronizers (host_queue Q) = q_active_synchronizers Q"
  "q_capacity_waiting (host_queue Q) = q_capacity_waiting Q"
  "q_destroying (host_queue Q) = q_destroying Q"
  by (simp_all add: host_signal_def host_dispatch_def host_event_def host_queue_def)

lemma host_globals [simp]:
  "g_queues (host s) q = map_option host_queue (g_queues s q)"
  "g_events (host s) e = map_option host_event (g_events s e)"
  "g_dispatches (host s) d = map_option host_dispatch (g_dispatches s d)"
  "g_signals (host s) n = map_option host_signal (g_signals s n)"
  "g_initialized (host s) = g_initialized s"
  "g_kfd_session (host s) = g_kfd_session s"
  "g_device_count (host s) = g_device_count s"
  "g_default_queue (host s) = g_default_queue s"
  "g_device_events (host s) = g_device_events s"
  "g_next (host s) = g_next s"
  "host (s\<lparr>w_device := ms\<rparr>) = host s"
  by (simp_all add: host_def)

lemma host_finish_signal [simp]: "host_signal (finish_signal t u sig) = host_signal sig"
  by (simp add: host_signal_def finish_signal_def)

lemma host_device_act [simp]: "host (device_act m s) = host s"
proof (cases m)
  case (FillStaging e bs)
  have "(map_option (\<lambda>bs. replicate (length bs) (0 :: u8)) \<circ>
      map_option (\<lambda>old. if length bs = length old then bs else old)) x = map_option (\<lambda>bs. replicate (length bs) 0) x" for x
    by (cases x) simp_all
  with FillStaging show ?thesis
    by (auto simp: host_def put_event_def host_event_def option.map_comp fun_eq_iff split: option.splits)
qed (auto simp: host_def put_event_def put_queue_def put_dispatch_def host_event_def host_queue_def host_dispatch_def
    Let_def fun_eq_iff option.map_comp comp_def split: option.splits)

lemma host_device_step [simp]: "host (device_step s) = host s"
  by (simp add: device_step_def split: list.splits)

lemma host_queueD:
  assumes "host s' = host s" and "g_queues s q = Some Q"
  obtains Q' where "g_queues s' q = Some Q'" and "host_queue Q' = host_queue Q"
  using arg_cong [OF assms(1), of "\<lambda>s. g_queues s q"] assms(2) by (cases "g_queues s' q") auto

lemma host_eventD:
  assumes "host s' = host s" and "g_events s e = Some ev"
  obtains ev' where "g_events s' e = Some ev'" and "host_event ev' = host_event ev"
  using arg_cong [OF assms(1), of "\<lambda>s. g_events s e"] assms(2) by (cases "g_events s' e") auto

lemma host_dispatchD:
  assumes "host s' = host s" and "g_dispatches s d = Some p"
  obtains p' where "g_dispatches s' d = Some p'" and "host_dispatch p' = host_dispatch p"
  using arg_cong [OF assms(1), of "\<lambda>s. g_dispatches s d"] assms(2) by (cases "g_dispatches s' d") auto

text \<open>The fields that two records of the same host view share.\<close>

lemmas same_queue = arg_cong [of "host_queue _" "host_queue _" q_pending_dispatches, simplified]
  arg_cong [of "host_queue _" "host_queue _" q_pending_dispatch_head, simplified]
  arg_cong [of "host_queue _" "host_queue _" q_pending_barriers, simplified]
  arg_cong [of "host_queue _" "host_queue _" q_available_dispatches, simplified]
  arg_cong [of "host_queue _" "host_queue _" q_kernarg_arenas, simplified]
  arg_cong [of "host_queue _" "host_queue _" q_pending_events, simplified]
  arg_cong [of "host_queue _" "host_queue _" q_device, simplified]

lemmas same_event = arg_cong [of "host_event _" "host_event _" ev_dependency_count, simplified]
  arg_cong [of "host_event _" "host_event _" ev_dependency_queues, simplified]
  arg_cong [of "host_event _" "host_event _" ev_pending, simplified]
  arg_cong [of "host_event _" "host_event _" ev_completed, simplified]
  arg_cong [of "host_event _" "host_event _" ev_recorded_queue, simplified]
  arg_cong [of "host_event _" "host_event _" ev_device, simplified]

lemmas same_dispatch = arg_cong [of "host_dispatch _" "host_dispatch _" pd_kernarg, simplified]
  arg_cong [of "host_dispatch _" "host_dispatch _" pd_completion_event, simplified]

text \<open>Loads and replies leave the host view, or only the replies, as they are.\<close>

lemma load_acquire_host: "load_acquire ref s = Ok (v, s') \<Longrightarrow> host s' = host s"
  by (auto simp: load_acquire_def Let_def)

lemma error_reason_host: "error_reason_acquire q s = Ok (v, s') \<Longrightarrow> host s' = host s"
  by (auto simp: error_reason_acquire_def Let_def)

section \<open>The invariant\<close>

definition live_dispatches :: "lr_queue \<Rightarrow> nat option list" where
  "live_dispatches Q = drop (q_pending_dispatch_head Q) (q_pending_dispatches Q)"

text \<open>All dispatch objects of a queue: in flight or in the pool.\<close>

definition owned :: "lr_queue \<Rightarrow> nat list" where
  "owned Q = map the (live_dispatches Q) @ q_available_dispatches Q"

definition slice_ok :: "KernargArena list \<Rightarrow> KernargSlice \<Rightarrow> bool" where
  "slice_ok arenas sl \<longleftrightarrow> (case sl_arena sl of None \<Rightarrow> True
     | Some a \<Rightarrow> a < length arenas \<and> sl_size sl \<noteq> 0 \<and> unat (sl_offset sl) + unat (sl_size sl) \<le> unat (ar_used (arenas ! a)))"

definition slices_apart :: "KernargSlice \<Rightarrow> KernargSlice \<Rightarrow> bool" where
  "slices_apart x y \<longleftrightarrow> sl_arena x = None \<or> sl_arena x \<noteq> sl_arena y \<or>
     unat (sl_offset x) + unat (sl_size x) \<le> unat (sl_offset y) \<or>
     unat (sl_offset y) + unat (sl_size y) \<le> unat (sl_offset x)"

definition arena_ok :: "KernargArena \<Rightarrow> bool" where
  "arena_ok a \<longleftrightarrow> unat (ar_used a) \<le> unat (ar_size a) \<and> length (ar_bytes a) = unat (ar_size a)"

definition dispatch_ok ::
  "(nat \<Rightarrow> lr_event option) \<Rightarrow> (nat \<Rightarrow> PendingDispatch option) \<Rightarrow> nat \<Rightarrow> KernargArena list \<Rightarrow> nat \<Rightarrow> bool" where
  "dispatch_ok es ds n arenas d \<longleftrightarrow> d < n \<and> (\<exists>p. ds d = Some p \<and> us_page (pd_completion_signal p) \<and>
     slice_ok arenas (pd_kernarg p) \<and> (\<forall>e. pd_completion_event p = Some e \<longrightarrow> es e \<noteq> None))"

definition pooled_ok :: "(nat \<Rightarrow> PendingDispatch option) \<Rightarrow> nat \<Rightarrow> bool" where
  "pooled_ok ds d \<longleftrightarrow> (\<forall>p. ds d = Some p \<longrightarrow> pd_completion_event p = None)"

definition apart :: "(nat \<Rightarrow> PendingDispatch option) \<Rightarrow> nat \<Rightarrow> nat \<Rightarrow> bool" where
  "apart ds d d' \<longleftrightarrow> (\<forall>p p'. ds d = Some p \<longrightarrow> ds d' = Some p' \<longrightarrow> slices_apart (pd_kernarg p) (pd_kernarg p'))"

definition recorded_on :: "(nat \<Rightarrow> lr_event option) \<Rightarrow> nat \<Rightarrow> nat \<Rightarrow> bool" where
  "recorded_on es q e \<longleftrightarrow> (\<exists>ev. es e = Some ev \<and> ev_pending ev \<and> ev_recorded_queue ev = Some q)"

definition waits_on :: "lr_queue \<Rightarrow> nat \<Rightarrow> nat" where
  "waits_on Q e = count_list (concat (map pb_dependencies (q_pending_barriers Q))) e"

text \<open>
  A queue: its live slots hold distinct dispatch objects, disjoint from the pool; a pooled
  dispatch has no event; kernarg slices are disjoint and inside the used part of an arena; a barrier is retired by
  a live dispatch and waits for existing events; a pending event was recorded here.
\<close>

definition queue_inv ::
  "(nat \<Rightarrow> lr_event option) \<Rightarrow> (nat \<Rightarrow> PendingDispatch option) \<Rightarrow> nat \<Rightarrow> nat \<Rightarrow> lr_queue \<Rightarrow> bool" where
  "queue_inv es ds n q Q \<longleftrightarrow> q < n \<and>
     q_pending_dispatch_head Q \<le> length (q_pending_dispatches Q) \<and>
     None \<notin> set (live_dispatches Q) \<and> distinct (owned Q) \<and>
     (\<forall>d \<in> set (owned Q). dispatch_ok es ds n (q_kernarg_arenas Q) d) \<and>
     (\<forall>d \<in> set (q_available_dispatches Q). pooled_ok ds d) \<and>
     (\<forall>d \<in> set (owned Q). \<forall>d' \<in> set (owned Q). d \<noteq> d' \<longrightarrow> apart ds d d') \<and>
     (\<forall>a \<in> set (q_kernarg_arenas Q). arena_ok a) \<and>
     (\<forall>b \<in> set (q_pending_barriers Q). Some (pb_retirement_dispatch b) \<in> set (live_dispatches Q) \<and>
        (\<forall>e \<in> set (pb_dependencies b). es e \<noteq> None)) \<and>
     distinct (q_pending_events Q) \<and>
     (\<forall>e \<in> set (q_pending_events Q). recorded_on es q e)"

definition entry_count :: "(nat \<times> nat) list \<Rightarrow> nat \<Rightarrow> nat" where
  "entry_count entries q = (case map_of entries q of None \<Rightarrow> 0 | Some k \<Rightarrow> k)"

definition dependencies_ok :: "(nat \<times> nat) list \<Rightarrow> nat \<Rightarrow> bool" where
  "dependencies_ok xs n \<longleftrightarrow> distinct (map fst xs) \<and> (\<forall>x \<in> set xs. snd x \<noteq> 0) \<and> n = sum_list (map snd xs)"

text \<open>
  An event: its dependency list counts, for every queue, the pending barriers that wait for it, and its
  total is the sum; a pending event is in the list of the queue it was recorded on.
\<close>

definition event_inv :: "(nat \<Rightarrow> lr_queue option) \<Rightarrow> nat \<Rightarrow> nat \<Rightarrow> lr_event \<Rightarrow> bool" where
  "event_inv qs n e ev \<longleftrightarrow> e < n \<and> us_page (ev_signal ev) \<and>
     dependencies_ok (ev_dependency_queues ev) (ev_dependency_count ev) \<and>
     (\<forall>q. entry_count (ev_dependency_queues ev) q = (case qs q of None \<Rightarrow> 0 | Some Q \<Rightarrow> waits_on Q e)) \<and>
     (ev_pending ev \<longrightarrow> (\<exists>q Q. ev_recorded_queue ev = Some q \<and> qs q = Some Q \<and> e \<in> set (q_pending_events Q))) \<and>
     (\<forall>bs. ev_pageable_copy_staging ev = Some bs \<longrightarrow> ev_pageable_copy_size ev \<le> length bs)"

definition state_inv ::
  "(nat \<Rightarrow> lr_queue option) \<Rightarrow> (nat \<Rightarrow> lr_event option) \<Rightarrow> (nat \<Rightarrow> PendingDispatch option) \<Rightarrow> nat \<Rightarrow> bool" where
  "state_inv qs es ds n \<longleftrightarrow>
     (\<forall>q Q. qs q = Some Q \<longrightarrow> queue_inv es ds n q Q) \<and>
     (\<forall>q q' Q Q'. qs q = Some Q \<longrightarrow> qs q' = Some Q' \<longrightarrow> q \<noteq> q' \<longrightarrow> set (owned Q) \<inter> set (owned Q') = {}) \<and>
     (\<forall>e ev. es e = Some ev \<longrightarrow> event_inv qs n e ev)"

definition kfd_inv :: "runtime \<Rightarrow> bool" where
  "kfd_inv s \<longleftrightarrow> state_inv (g_queues s) (g_events s) (g_dispatches s) (g_next s)"

lemma host_owned [simp]:
  "live_dispatches (host_queue Q) = live_dispatches Q" "owned (host_queue Q) = owned Q"
  "waits_on (host_queue Q) = waits_on Q"
  by (simp_all add: live_dispatches_def owned_def waits_on_def fun_eq_iff)

lemma kfd_inv_host: "kfd_inv (host s) \<longleftrightarrow> kfd_inv s"
proof -
  have staging: "(\<forall>bs. ev_pageable_copy_staging (host_event ev) = Some bs \<longrightarrow> k \<le> length bs) \<longleftrightarrow>
      (\<forall>bs. ev_pageable_copy_staging ev = Some bs \<longrightarrow> k \<le> length bs)" for ev k
    by (cases "ev_pageable_copy_staging ev") (auto simp: host_event_def)
  have dispatch: "dispatch_ok (g_events (host s)) (g_dispatches (host s)) = dispatch_ok (g_events s) (g_dispatches s)"
    "pooled_ok (g_dispatches (host s)) = pooled_ok (g_dispatches s)"
    "apart (g_dispatches (host s)) = apart (g_dispatches s)"
    "recorded_on (g_events (host s)) = recorded_on (g_events s)"
    by (fastforce simp: fun_eq_iff dispatch_ok_def pooled_ok_def apart_def recorded_on_def)+
  have event: "event_inv (g_queues (host s)) n e (host_event ev) = event_inv (g_queues s) n e ev" for n e ev
    unfolding event_inv_def staging host_fields host_globals
    by (auto split: option.splits)
  have queue: "queue_inv (g_events (host s)) (g_dispatches (host s)) n q (host_queue Q) =
      queue_inv (g_events s) (g_dispatches s) n q Q" for n q Q
    unfolding queue_inv_def dispatch host_fields host_owned by simp
  have cross: "(\<forall>q q' Q Q'. g_queues (host s) q = Some Q \<longrightarrow> g_queues (host s) q' = Some Q' \<longrightarrow> q \<noteq> q' \<longrightarrow>
        set (owned Q) \<inter> set (owned Q') = {}) \<longleftrightarrow>
      (\<forall>q q' Q Q'. g_queues s q = Some Q \<longrightarrow> g_queues s q' = Some Q' \<longrightarrow> q \<noteq> q' \<longrightarrow>
        set (owned Q) \<inter> set (owned Q') = {})"
    by fastforce
  have all: "(\<forall>Q. g_queues (host s) q = Some Q \<longrightarrow> P Q) \<longleftrightarrow> (\<forall>Q. g_queues s q = Some Q \<longrightarrow> P (host_queue Q))"
    "(\<forall>ev. g_events (host s) e = Some ev \<longrightarrow> R ev) \<longleftrightarrow> (\<forall>ev. g_events s e = Some ev \<longrightarrow> R (host_event ev))" for P R q e
    by auto
  show ?thesis
    unfolding kfd_inv_def state_inv_def cross unfolding all queue event by simp
qed

section \<open>Dependency lists\<close>

lemma entry_count_iff:
  assumes "distinct (map fst xs)"
  shows "entry_count xs q = Suc k \<longleftrightarrow> (q, Suc k) \<in> set xs"
  using assms by (auto simp: entry_count_def split: option.splits dest: map_of_SomeD eq_key_imp_eq_value)

lemma entry_count_update:
  assumes "distinct (map fst xs)" and "i < length xs" and "fst (xs ! i) = q"
  shows "entry_count (xs[i := (q, k)]) q' = (if q' = q then k else entry_count xs q')"
    and "map fst (xs[i := (q, k)]) = map fst xs"
proof -
  show keys: "map fst (xs[i := (q, k)]) = map fst xs"
    using assms(2,3) by (metis fst_conv list_update_id map_update nth_map)
  then have d: "distinct (map fst (xs[i := (q, k)]))" using assms(1) by simp
  have "map_of (xs[i := (q, k)]) q = Some k"
    using d assms(2) by (intro map_of_is_SomeI) (auto simp: set_update_memI)
  moreover have "map_of (xs[i := (q, k)]) q' = map_of xs q'" if "q' \<noteq> q"
  proof (rule option.expand)
    show "(map_of (xs[i := (q, k)]) q' = None) = (map_of xs q' = None)"
      using keys by (metis map_of_eq_None_iff list.set_map)
  next
    assume "map_of (xs[i := (q, k)]) q' \<noteq> None" "map_of xs q' \<noteq> None"
    then obtain a b where a: "(q', a) \<in> set (xs[i := (q, k)])" "map_of (xs[i := (q, k)]) q' = Some a"
      and b: "map_of xs q' = Some b"
      by (auto dest: map_of_SomeD)
    with set_update_subset_insert [of xs i "(q, k)"] that have "(q', a) \<in> set xs" by auto
    then show "the (map_of (xs[i := (q, k)]) q') = the (map_of xs q')"
      using a(2) b assms(1) by simp
  qed
  ultimately show "entry_count (xs[i := (q, k)]) q' = (if q' = q then k else entry_count xs q')"
    by (simp add: entry_count_def)
qed

lemma sum_list_update_snd:
  "i < length xs \<Longrightarrow> sum_list (map snd (xs[i := (q, k)])) + snd (xs ! i) = sum_list (map snd xs) + (k :: nat)"
  by (induction xs arbitrary: i) (auto simp: nth_Cons split: nat.splits)

lemma dependencies_ok_retain:
  assumes "dependencies_ok (ev_dependency_queues ev) (ev_dependency_count ev)"
  shows "dependencies_ok (ev_dependency_queues (retain_dependency q ev)) (ev_dependency_count (retain_dependency q ev))"
    and "entry_count (ev_dependency_queues (retain_dependency q ev)) q' =
      (if q' = q then Suc (entry_count (ev_dependency_queues ev) q) else entry_count (ev_dependency_queues ev) q')"
proof -
  let ?xs = "ev_dependency_queues ev"
  have xs: "distinct (map fst ?xs)" "\<forall>x \<in> set ?xs. snd x \<noteq> 0" "ev_dependency_count ev = sum_list (map snd ?xs)"
    using assms by (simp_all add: dependencies_ok_def)
  have "dependencies_ok (ev_dependency_queues (retain_dependency q ev)) (ev_dependency_count (retain_dependency q ev)) \<and>
    entry_count (ev_dependency_queues (retain_dependency q ev)) q' =
      (if q' = q then Suc (entry_count ?xs q) else entry_count ?xs q')"
  proof (cases "dependency_entry q ?xs")
    case None
    then have new: "q \<notin> fst ` set ?xs" by (auto simp: dependency_entry_def find_index_None)
    then have "map_of ?xs q = None" by (simp add: map_of_eq_None_iff)
    with None new xs show ?thesis
      by (auto simp: retain_dependency_def Let_def dependencies_ok_def entry_count_def map_of_append map_add_def split: option.splits)
  next
    case (Some i)
    then have i: "i < length ?xs" "fst (?xs ! i) = q"
      using find_index_Some by (fastforce simp: dependency_entry_def)+
    let ?ys = "?xs[i := (q, Suc (snd (?xs ! i)))]"
    have "?xs ! i = (q, snd (?xs ! i))" using i(2) by (simp add: prod_eq_iff)
    then have "map_of ?xs q = Some (snd (?xs ! i))"
      using xs(1) i(1) by (metis map_of_is_SomeI nth_mem)
    moreover have "\<forall>x \<in> set ?ys. snd x \<noteq> 0"
      using xs(2) set_update_subset_insert [of ?xs i "(q, Suc (snd (?xs ! i)))"] by auto
    moreover have "Suc (ev_dependency_count ev) = sum_list (map snd ?ys)"
      using sum_list_update_snd [OF i(1), of q "Suc (snd (?xs ! i))"] xs(3) by simp
    ultimately show ?thesis
      using Some i xs entry_count_update [OF xs(1) i, of "Suc (snd (?xs ! i))"]
      by (simp add: retain_dependency_def Let_def dependencies_ok_def entry_count_def)
  qed
  then show "dependencies_ok (ev_dependency_queues (retain_dependency q ev)) (ev_dependency_count (retain_dependency q ev))"
    and "entry_count (ev_dependency_queues (retain_dependency q ev)) q' =
      (if q' = q then Suc (entry_count ?xs q) else entry_count ?xs q')"
    by blast+
qed

lemma entry_count_swap_remove:
  assumes "distinct (map fst xs)" and "i < length xs" and "fst (xs ! i) = q"
  shows "distinct (map fst (swap_remove i xs))"
    and "entry_count (swap_remove i xs) q' = (if q' = q then 0 else entry_count xs q')"
    and "sum_list (map snd (swap_remove i xs)) + snd (xs ! i) = sum_list (map snd xs)"
proof -
  have m: "mset xs = add_mset (xs ! i) (mset (swap_remove i xs))" using mset_swap_remove [OF assms(2)] by simp
  then have "mset (map fst xs) = mset (fst (xs ! i) # map fst (swap_remove i xs))" by simp
  with assms(1) have "distinct (fst (xs ! i) # map fst (swap_remove i xs))" by (rule mset_eq_imp_distinct_iff [THEN iffD1, rotated])
  then show "distinct (map fst (swap_remove i xs))" by simp
  have gone: "q \<notin> fst ` set (swap_remove i xs)"
    using \<open>distinct (fst (xs ! i) # map fst (swap_remove i xs))\<close> assms(3) by auto
  have s: "set xs = insert (xs ! i) (set (swap_remove i xs))" by (rule set_swap_remove [OF assms(2)])
  have "map_of (swap_remove i xs) q' = map_of xs q'" if "q' \<noteq> q"
  proof (rule option.expand)
    show "(map_of (swap_remove i xs) q' = None) = (map_of xs q' = None)"
      using s assms(3) that by (auto simp: map_of_eq_None_iff)
  next
    assume "map_of (swap_remove i xs) q' \<noteq> None"
    then obtain a where a: "map_of (swap_remove i xs) q' = Some a" by auto
    then have "(q', a) \<in> set xs" using s map_of_SomeD by fastforce
    with assms(1) a show "the (map_of (swap_remove i xs) q') = the (map_of xs q')" by simp
  qed
  moreover have "map_of (swap_remove i xs) q = None" using gone by (simp add: map_of_eq_None_iff)
  ultimately show "entry_count (swap_remove i xs) q' = (if q' = q then 0 else entry_count xs q')"
    by (simp add: entry_count_def)
  have "sum_mset (mset (map snd xs)) = sum_mset (mset (snd (xs ! i) # map snd (swap_remove i xs)))"
    using m by simp
  then show "sum_list (map snd (swap_remove i xs)) + snd (xs ! i) = sum_list (map snd xs)"
    by (simp only: sum_mset_sum_list) simp
qed

lemma dependencies_ok_release:
  assumes "dependencies_ok (ev_dependency_queues ev) (ev_dependency_count ev)"
    and "entry_count (ev_dependency_queues ev) q = Suc k"
  obtains ev' where "release_dependency q ev = Ok ev'"
    and "dependencies_ok (ev_dependency_queues ev') (ev_dependency_count ev')"
    and "\<And>q'. entry_count (ev_dependency_queues ev') q' = (if q' = q then k else entry_count (ev_dependency_queues ev) q')"
    and "ev' = ev\<lparr>ev_dependency_count := ev_dependency_count ev', ev_dependency_queues := ev_dependency_queues ev'\<rparr>"
proof -
  let ?xs = "ev_dependency_queues ev"
  have xs: "distinct (map fst ?xs)" "\<forall>x \<in> set ?xs. snd x \<noteq> 0" "ev_dependency_count ev = sum_list (map snd ?xs)"
    using assms by (simp_all add: dependencies_ok_def)
  have mem: "(q, Suc k) \<in> set ?xs" using assms(2) xs(1) by (simp add: entry_count_iff)
  then obtain i where entry: "dependency_entry q ?xs = Some i"
    by (cases "dependency_entry q ?xs") (auto simp: dependency_entry_def find_index_None)
  then have i: "i < length ?xs" "fst (?xs ! i) = q"
    using find_index_Some by (fastforce simp: dependency_entry_def)+
  have n: "snd (?xs ! i) = Suc k"
    using xs(1) mem i by (metis eq_key_imp_eq_value nth_mem prod.collapse)
  have pos: "ev_dependency_count ev \<noteq> 0"
    using xs(3) mem by (auto simp: sum_list_eq_0_iff intro!: bexI [of _ "(q, Suc k)"])
  let ?ys = "if k = 0 then swap_remove i ?xs else ?xs[i := (q, k)]"
  let ?ev = "ev\<lparr>ev_dependency_count := ev_dependency_count ev - 1, ev_dependency_queues := ?ys\<rparr>"
  have run: "release_dependency q ev = Ok ?ev"
    using entry n i pos by (simp add: release_dependency_def Let_def)
  have count: "entry_count ?ys q' = (if q' = q then k else entry_count ?xs q')" for q'
    using entry_count_swap_remove(2) [OF xs(1) i] entry_count_update(1) [OF xs(1) i] by auto
  have "set ?ys \<subseteq> insert (q, k) (set ?xs)" "k = 0 \<Longrightarrow> set ?ys \<subseteq> set ?xs"
    using set_update_subset_insert [of ?xs i "(q, k)"] set_swap_remove [OF i(1)] by auto
  then have "\<forall>x \<in> set ?ys. snd x \<noteq> 0" using xs(2) by (cases "k = 0") auto
  moreover have "distinct (map fst ?ys)"
    using xs(1) entry_count_swap_remove(1) [OF xs(1) i] entry_count_update(2) [OF xs(1) i] by simp
  moreover have "sum_list (map snd ?ys) = ev_dependency_count ev - 1"
    using entry_count_swap_remove(3) [OF xs(1) i] sum_list_update_snd [OF i(1), of q k] n xs(3)
    by (cases "k = 0") simp_all
  ultimately have "dependencies_ok (ev_dependency_queues ?ev) (ev_dependency_count ?ev)"
    by (simp add: dependencies_ok_def)
  with run count show ?thesis by (intro that [of ?ev]) simp_all
qed

section \<open>Updates that keep the invariant\<close>

lemma invD:
  assumes "state_inv qs es ds n"
  shows "qs q = Some Q \<Longrightarrow> queue_inv es ds n q Q" and "es e = Some ev \<Longrightarrow> event_inv qs n e ev"
    and "qs q = Some Q \<Longrightarrow> qs q' = Some Q' \<Longrightarrow> q \<noteq> q' \<Longrightarrow> set (owned Q) \<inter> set (owned Q') = {}"
  using assms unfolding state_inv_def by blast+

lemma inv_put_queue:
  assumes "state_inv qs es ds n" and "qs q = Some Q" and "queue_inv es ds n q Q'"
    and "\<And>q' Q2. q' \<noteq> q \<Longrightarrow> qs q' = Some Q2 \<Longrightarrow> set (owned Q') \<inter> set (owned Q2) = {}"
    and "\<And>e. es e \<noteq> None \<Longrightarrow> waits_on Q' e = waits_on Q e"
    and "\<And>e. recorded_on es q e \<Longrightarrow> e \<in> set (q_pending_events Q')"
  shows "state_inv (qs(q \<mapsto> Q')) es ds n"
proof -
  have "event_inv (qs(q \<mapsto> Q')) n e ev" if e: "es e = Some ev" for e ev
  proof -
    have "\<exists>q2 Q2. ev_recorded_queue ev = Some q2 \<and> (qs(q \<mapsto> Q')) q2 = Some Q2 \<and> e \<in> set (q_pending_events Q2)"
      if p: "ev_pending ev"
    proof -
      from p invD(2) [OF assms(1) e] obtain q2 Q2 where
        q2: "ev_recorded_queue ev = Some q2" "qs q2 = Some Q2" "e \<in> set (q_pending_events Q2)"
        by (auto simp: event_inv_def)
      then show ?thesis
        using assms(6) [of e] e p by (cases "q2 = q") (auto simp: recorded_on_def)
    qed
    then show ?thesis
      using invD(2) [OF assms(1) e] assms(2) assms(5) [of e] e by (auto simp: event_inv_def)
  qed
  moreover have "queue_inv es ds n q2 Q2" if "(qs(q \<mapsto> Q')) q2 = Some Q2" for q2 Q2
    using that assms(3) invD(1) [OF assms(1)] by (auto split: if_splits)
  moreover have "set (owned Q1) \<inter> set (owned Q2) = {}"
    if "(qs(q \<mapsto> Q')) q1 = Some Q1" "(qs(q \<mapsto> Q')) q2 = Some Q2" "q1 \<noteq> q2" for q1 q2 Q1 Q2
    using that assms(4) [of q2 Q2] assms(4) [of q1 Q1] invD(3) [OF assms(1), of q1 Q1 q2 Q2]
    by (cases "q1 = q"; cases "q2 = q") auto
  ultimately show ?thesis unfolding state_inv_def by blast
qed

lemma inv_recorded: "state_inv qs es ds n \<Longrightarrow> qs q = Some Q \<Longrightarrow> recorded_on es q e \<Longrightarrow> e \<in> set (q_pending_events Q)"
  using invD(2) by (fastforce simp: recorded_on_def event_inv_def)

lemma inv_put_queue_same:
  assumes "state_inv qs es ds n" and "qs q = Some Q" and "queue_inv es ds n q Q'" and "set (owned Q') \<subseteq> set (owned Q)"
    and "\<And>e. es e \<noteq> None \<Longrightarrow> waits_on Q' e = waits_on Q e"
    and "set (q_pending_events Q) \<subseteq> set (q_pending_events Q')"
  shows "state_inv (qs(q \<mapsto> Q')) es ds n"
proof (rule inv_put_queue [OF assms(1-3) _ assms(5)])
  fix q' Q2 assume "q' \<noteq> q" "qs q' = Some Q2"
  with invD(3) [OF assms(1,2)] assms(4) show "set (owned Q') \<inter> set (owned Q2) = {}" by blast
next
  fix e assume "recorded_on es q e"
  with inv_recorded [OF assms(1,2)] assms(6) show "e \<in> set (q_pending_events Q')" by blast
qed

lemma inv_put_event:
  assumes "state_inv qs es ds n" and "es e = Some ev" and "event_inv qs n e ev'"
    and "\<And>q. recorded_on es q e \<Longrightarrow> ev_pending ev' \<and> ev_recorded_queue ev' = Some q"
  shows "state_inv qs (es(e \<mapsto> ev')) ds n"
proof -
  have dom: "(es(e \<mapsto> ev')) x \<noteq> None \<longleftrightarrow> es x \<noteq> None" for x using assms(2) by auto
  have "queue_inv (es(e \<mapsto> ev')) ds n q Q" if "qs q = Some Q" for q Q
  proof -
    have "recorded_on (es(e \<mapsto> ev')) q x" if "recorded_on es q x" for x
      using that assms(4) by (auto simp: recorded_on_def)
    then show ?thesis
      using invD(1) [OF assms(1) that] unfolding queue_inv_def dispatch_ok_def dom by blast
  qed
  moreover have "event_inv qs n x y" if "(es(e \<mapsto> ev')) x = Some y" for x y
    using that assms(3) invD(2) [OF assms(1)] by (auto split: if_splits)
  ultimately show ?thesis using invD(3) [OF assms(1)] unfolding state_inv_def by blast
qed

lemma inv_put_dispatch:
  assumes "state_inv qs es ds n" and "ds d = Some p" and "us_page (pd_completion_signal p) \<longrightarrow> us_page (pd_completion_signal p')"
    and "pd_kernarg p' = pd_kernarg p" and "\<And>e. pd_completion_event p' = Some e \<Longrightarrow> es e \<noteq> None"
    and "\<And>q Q. qs q = Some Q \<Longrightarrow> d \<in> set (q_available_dispatches Q) \<Longrightarrow> pd_completion_event p' = None"
  shows "state_inv qs es (ds(d \<mapsto> p')) n"
proof -
  have "queue_inv es (ds(d \<mapsto> p')) n q Q" if "qs q = Some Q" for q Q
  proof -
    have a: "apart (ds(d \<mapsto> p')) x y" if "apart ds x y" for x y
      using that assms(2,4) by (auto simp: apart_def)
    have b: "dispatch_ok es (ds(d \<mapsto> p')) n arenas x" if "dispatch_ok es ds n arenas x" for arenas x
      using that assms(2-5) by (auto simp: dispatch_ok_def)
    have c: "pooled_ok (ds(d \<mapsto> p')) x" if "pooled_ok ds x" "x \<in> set (q_available_dispatches Q)" for x
      using that assms(6) [OF \<open>qs q = Some Q\<close>] by (auto simp: pooled_ok_def)
    show ?thesis
      using invD(1) [OF assms(1) that] a b c unfolding queue_inv_def by blast
  qed
  then show ?thesis using invD(2,3) [OF assms(1)] unfolding state_inv_def by blast
qed

section \<open>Barriers\<close>

abbreviation with_barriers :: "lr_queue \<Rightarrow> PendingBarrier list \<Rightarrow> lr_queue" where
  "with_barriers Q bs \<equiv> Q\<lparr>q_pending_barriers := bs\<rparr>"

lemma count_list_concat: "count_list (concat (map f xs)) e = sum_list (map (\<lambda>x. count_list (f x) e) xs)"
  by (induction xs) (simp_all add: count_list_append)

lemma waits_on_mset:
  "waits_on Q e = sum_mset (image_mset (\<lambda>b. count_list (pb_dependencies b) e) (mset (q_pending_barriers Q)))"
  unfolding waits_on_def count_list_concat by (simp add: sum_mset_sum_list [symmetric])

lemma owned_with_barriers [simp]:
  "live_dispatches (with_barriers Q bs) = live_dispatches Q" "owned (with_barriers Q bs) = owned Q"
  by (simp_all add: live_dispatches_def owned_def)

definition barrier_ok :: "(nat \<Rightarrow> lr_event option) \<Rightarrow> lr_queue \<Rightarrow> PendingBarrier \<Rightarrow> bool" where
  "barrier_ok es Q b \<longleftrightarrow> Some (pb_retirement_dispatch b) \<in> set (live_dispatches Q) \<and>
     (\<forall>e \<in> set (pb_dependencies b). es e \<noteq> None)"

lemma queue_inv_with_barriers:
  assumes "queue_inv es ds n q (with_barriers Q bs)" and "\<And>b. b \<in> set bs' \<Longrightarrow> barrier_ok es Q b"
  shows "queue_inv es ds n q (with_barriers Q bs')"
  using assms unfolding queue_inv_def barrier_ok_def by simp

lemma queue_inv_barriers: "queue_inv es ds n q (with_barriers Q bs) \<Longrightarrow> b \<in> set bs \<Longrightarrow> barrier_ok es Q b"
  unfolding queue_inv_def barrier_ok_def by simp

text \<open>Only the multiset of the barriers matters.\<close>

lemma inv_barriers_cong:
  assumes "state_inv (qs(q \<mapsto> with_barriers Q bs)) es ds n" and "mset bs' = mset bs"
  shows "state_inv (qs(q \<mapsto> with_barriers Q bs')) es ds n"
proof -
  have "state_inv ((qs(q \<mapsto> with_barriers Q bs))(q \<mapsto> with_barriers Q bs')) es ds n"
  proof (rule inv_put_queue_same [OF assms(1) fun_upd_same])
    have q: "queue_inv es ds n q (with_barriers Q bs)" using invD(1) [OF assms(1)] by simp
    show "queue_inv es ds n q (with_barriers Q bs')"
      using queue_inv_with_barriers [OF q] queue_inv_barriers [OF q] assms(2) by (metis set_mset_mset)
  qed (simp_all add: waits_on_mset assms(2))
  then show ?thesis by simp
qed

text \<open>A barrier list changes by one dependency on an event, and the counters of the event follow.\<close>

lemma inv_change_dependency:
  assumes "state_inv (qs(q \<mapsto> with_barriers Q bs)) es ds n" and "es e = Some ev"
    and upd: "ev' = ev\<lparr>ev_dependency_count := ev_dependency_count ev', ev_dependency_queues := ev_dependency_queues ev'\<rparr>"
    and "dependencies_ok (ev_dependency_queues ev') (ev_dependency_count ev')"
    and "\<And>q'. entry_count (ev_dependency_queues ev') q' =
       (if q' = q then waits_on (with_barriers Q bs') e else entry_count (ev_dependency_queues ev) q')"
    and "\<And>x. x \<noteq> e \<Longrightarrow> waits_on (with_barriers Q bs') x = waits_on (with_barriers Q bs) x"
    and "\<And>b. b \<in> set bs' \<Longrightarrow> barrier_ok es Q b"
  shows "state_inv (qs(q \<mapsto> with_barriers Q bs')) (es(e \<mapsto> ev')) ds n"
proof -
  let ?qs = "qs(q \<mapsto> with_barriers Q bs)" and ?qs' = "qs(q \<mapsto> with_barriers Q bs')"
  have same: "ev_pending ev' = ev_pending ev" "ev_recorded_queue ev' = ev_recorded_queue ev" "ev_signal ev' = ev_signal ev"
    "ev_pageable_copy_staging ev' = ev_pageable_copy_staging ev" "ev_pageable_copy_size ev' = ev_pageable_copy_size ev"
    by (subst upd, simp)+
  have dom: "(es(e \<mapsto> ev')) x \<noteq> None \<longleftrightarrow> es x \<noteq> None" for x using assms(2) by auto
  have rec: "recorded_on (es(e \<mapsto> ev')) = recorded_on es"
    using assms(2) same by (auto simp: recorded_on_def fun_eq_iff)
  have queue: "queue_inv (es(e \<mapsto> ev')) ds n q' Q' = queue_inv es ds n q' Q'" for q' Q'
    unfolding queue_inv_def dispatch_ok_def dom rec ..
  have "event_inv ?qs' n x y" if x: "(es(e \<mapsto> ev')) x = Some y" for x y
  proof (cases "x = e")
    case True
    with x assms(4,5) invD(2) [OF assms(1,2)] same show ?thesis
      by (auto simp: event_inv_def split: if_splits)
  next
    case False
    with x have "es x = Some y" by simp
    from invD(2) [OF assms(1) this] False assms(6) [of x] show ?thesis
      by (auto simp: event_inv_def split: if_splits)
  qed
  moreover have "queue_inv es ds n q (with_barriers Q bs')"
    by (rule queue_inv_with_barriers [OF invD(1) [OF assms(1) fun_upd_same] assms(7)])
  then have "queue_inv (es(e \<mapsto> ev')) ds n q' Q'" if "?qs' q' = Some Q'" for q' Q'
    unfolding queue using that invD(1) [OF assms(1), of q' Q'] by (cases "q' = q") auto
  moreover have "set (owned Q1) \<inter> set (owned Q2) = {}" if "?qs' q1 = Some Q1" "?qs' q2 = Some Q2" "q1 \<noteq> q2" for q1 q2 Q1 Q2
    using that invD(3) [OF assms(1), of q "with_barriers Q bs" q2 Q2] invD(3) [OF assms(1), of q1 Q1 q "with_barriers Q bs"]
      invD(3) [OF assms(1), of q1 Q1 q2 Q2]
    by (cases "q1 = q"; cases "q2 = q") auto
  ultimately show ?thesis unfolding state_inv_def by blast
qed

lemma inv_release:
  assumes state_inv: "state_inv (qs(q \<mapsto> with_barriers Q (\<lparr>pb_retirement_dispatch = d, pb_dependencies = e # ds'\<rparr> # bs))) es ds n"
  obtains ev ev' where "es e = Some ev" and "release_dependency q ev = Ok ev'"
    and "ev' = ev\<lparr>ev_dependency_count := ev_dependency_count ev', ev_dependency_queues := ev_dependency_queues ev'\<rparr>"
    and "state_inv (qs(q \<mapsto> with_barriers Q (\<lparr>pb_retirement_dispatch = d, pb_dependencies = ds'\<rparr> # bs))) (es(e \<mapsto> ev')) ds n"
proof -
  let ?b = "\<lambda>x. \<lparr>pb_retirement_dispatch = d, pb_dependencies = x\<rparr>"
  let ?Q = "\<lambda>x. with_barriers Q (?b x # bs)"
  have Q: "queue_inv es ds n q (?Q (e # ds'))" using invD(1) [OF state_inv] by simp
  note ok = queue_inv_barriers [OF Q]
  then obtain ev where ev: "es e = Some ev" using ok [of "?b (e # ds')"] by (auto simp: barrier_ok_def)
  have deps: "dependencies_ok (ev_dependency_queues ev) (ev_dependency_count ev)"
    "entry_count (ev_dependency_queues ev) q = Suc (waits_on (?Q ds') e)"
    using invD(2) [OF state_inv ev] by (simp_all add: event_inv_def waits_on_mset)
  from dependencies_ok_release [OF deps] obtain ev' where ev': "release_dependency q ev = Ok ev'"
    "dependencies_ok (ev_dependency_queues ev') (ev_dependency_count ev')"
    "\<And>q'. entry_count (ev_dependency_queues ev') q' =
       (if q' = q then waits_on (?Q ds') e else entry_count (ev_dependency_queues ev) q')"
    "ev' = ev\<lparr>ev_dependency_count := ev_dependency_count ev', ev_dependency_queues := ev_dependency_queues ev'\<rparr>"
    by blast
  have "state_inv (qs(q \<mapsto> ?Q ds')) (es(e \<mapsto> ev')) ds n"
  proof (rule inv_change_dependency [OF state_inv ev ev'(4,2,3)])
    show "barrier_ok es Q b" if "b \<in> set (?b ds' # bs)" for b
      using that ok [of b] ok [of "?b (e # ds')"] by (auto simp: barrier_ok_def)
  qed (simp add: waits_on_mset)
  with ev ev'(1,4) show ?thesis by (rule that)
qed

lemma inv_retain:
  assumes state_inv: "state_inv (qs(q \<mapsto> with_barriers Q (\<lparr>pb_retirement_dispatch = d, pb_dependencies = ds'\<rparr> # bs))) es ds n"
    and ev: "es e = Some ev"
  shows "state_inv (qs(q \<mapsto> with_barriers Q (\<lparr>pb_retirement_dispatch = d, pb_dependencies = e # ds'\<rparr> # bs)))
    (es(e \<mapsto> retain_dependency q ev)) ds n"
proof -
  let ?b = "\<lambda>x. \<lparr>pb_retirement_dispatch = d, pb_dependencies = x\<rparr>"
  have Q: "queue_inv es ds n q (with_barriers Q (?b ds' # bs))" using invD(1) [OF state_inv] by simp
  note ok = queue_inv_barriers [OF Q]
  have deps: "dependencies_ok (ev_dependency_queues ev) (ev_dependency_count ev)"
    "entry_count (ev_dependency_queues ev) q = waits_on (with_barriers Q (?b ds' # bs)) e"
    using invD(2) [OF state_inv ev] by (auto simp: event_inv_def)
  have upd: "retain_dependency q ev = ev\<lparr>ev_dependency_count := ev_dependency_count (retain_dependency q ev),
      ev_dependency_queues := ev_dependency_queues (retain_dependency q ev)\<rparr>"
    by (simp add: retain_dependency_def Let_def)
  have more: "waits_on (with_barriers Q (?b (e # ds') # bs)) x =
      (if x = e then 1 else 0) + waits_on (with_barriers Q (?b ds' # bs)) x" for x
    by (simp add: waits_on_mset)
  show ?thesis
  proof (rule inv_change_dependency [OF state_inv ev upd dependencies_ok_retain(1) [OF deps(1)]])
    show "barrier_ok es Q b" if "b \<in> set (?b (e # ds') # bs)" for b
      using that ok [of b] ok [of "?b ds'"] ev by (auto simp: barrier_ok_def)
  qed (simp_all add: more dependencies_ok_retain(2) [OF deps(1)] deps(2))
qed

end
