(* ===== verification/DirectKfdRetire.thy ===== *)
theory DirectKfdRetire
  imports DirectKfdInvariant
begin

text \<open>
  The bookkeeping functions of \<open>DirectKfd\<close> keep the invariant: retirement of barriers, dispatches
  and events, waiting, synchronisation and the search for room in a ring. Each lemma shows that the
  function returns or waits for the device, that no loop bound is exceeded, and what it leaves alone.
\<close>

section \<open>Runs\<close>

text \<open>A call that returns with \<open>P\<close> or waits for a device that does nothing more.\<close>

definition runs :: "(stuck, 'a) outcome \<Rightarrow> ('a \<Rightarrow> bool) \<Rightarrow> bool" where
  "runs m P \<longleftrightarrow> valid m P \<and> m \<noteq> Err OutOfFuel"

lemma runs_simps [simp]:
  "runs (Ok x) P = P x" "runs (Err Waiting) P" "\<not> runs (Err OutOfFuel) P" "\<not> runs Fault P"
  by (simp_all add: runs_def)

lemma runs_obind [simp]: "runs (obind m f) P = runs m (\<lambda>x. runs (f x) P)"
  by (cases m) (auto simp: runs_def)

lemma runs_weaken: "runs m P \<Longrightarrow> (\<And>x. P x \<Longrightarrow> Q x) \<Longrightarrow> runs m Q"
  unfolding runs_def using valid_weaken by blast

lemma runs_obindI: "runs m Q \<Longrightarrow> (\<And>x. Q x \<Longrightarrow> runs (f x) P) \<Longrightarrow> runs (obind m f) P"
  unfolding runs_obind by (rule runs_weaken)

lemma runs_obindI': "runs m Q \<Longrightarrow> (\<And>x. m = Ok x \<Longrightarrow> Q x \<Longrightarrow> runs (f x) P) \<Longrightarrow> runs (obind m f) P"
  by (cases m) (auto simp: runs_def)

lemma runs_pairI:
  "runs m (\<lambda>(a, s). Q a s) \<Longrightarrow> (\<And>a s. Q a s \<Longrightarrow> runs (f a s) P) \<Longrightarrow> runs (obind m (\<lambda>(a, s). f a s)) P"
  by (cases m) (auto simp: runs_def)

lemma runs_get [simp]:
  "runs (get_queue s q) P \<longleftrightarrow> (\<exists>Q. g_queues s q = Some Q \<and> P Q)"
  "runs (get_event s e) R \<longleftrightarrow> (\<exists>ev. g_events s e = Some ev \<and> R ev)"
  "runs (get_dispatch s d) T \<longleftrightarrow> (\<exists>p. g_dispatches s d = Some p \<and> T p)"
  by (auto simp: get_queue_def get_event_def get_dispatch_def split: option.splits)

lemma globals_put [simp]:
  "g_queues (put_queue q Q s) = (g_queues s)(q \<mapsto> Q)" "g_events (put_queue q Q s) = g_events s"
  "g_dispatches (put_queue q Q s) = g_dispatches s" "g_next (put_queue q Q s) = g_next s"
  "g_queues (put_event e ev s) = g_queues s" "g_events (put_event e ev s) = (g_events s)(e \<mapsto> ev)"
  "g_dispatches (put_event e ev s) = g_dispatches s" "g_next (put_event e ev s) = g_next s"
  "g_queues (put_dispatch d p s) = g_queues s" "g_events (put_dispatch d p s) = g_events s"
  "g_dispatches (put_dispatch d p s) = (g_dispatches s)(d \<mapsto> p)" "g_next (put_dispatch d p s) = g_next s"
  by (simp_all add: put_queue_def put_event_def put_dispatch_def)

section \<open>What the bookkeeping leaves alone\<close>

definition static_queue where
  "static_queue Q = ((q_queue Q)\<lparr>aq_read_dispatch_id := 0\<rparr>, q_ring Q, q_device Q, q_destroying Q, q_kernarg_arenas Q)"

definition static_event where
  "static_event ev = (ev_device ev, host_signal (ev_signal ev), ev_destroying ev, ev_active_synchronizers ev)"

definition static_dispatch where
  "static_dispatch p = (host_signal (pd_completion_signal p), pd_kernarg p)"

definition static where
  "static s = ((\<lambda>q. map_option static_queue (g_queues s q)), (\<lambda>e. map_option static_event (g_events s e)),
     (\<lambda>d. map_option static_dispatch (g_dispatches s d)), (\<lambda>n. map_option host_signal (g_signals s n)),
     (g_initialized s, g_kfd_session s, g_device_count s, g_default_queue s, g_next s), w_signals s, w_queues s)"

lemma static_put:
  "g_queues s q = Some Q \<Longrightarrow> static_queue Q' = static_queue Q \<Longrightarrow> static (put_queue q Q' s) = static s"
  "g_events s e = Some ev \<Longrightarrow> static_event ev' = static_event ev \<Longrightarrow> static (put_event e ev' s) = static s"
  "g_dispatches s d = Some p \<Longrightarrow> static_dispatch p' = static_dispatch p \<Longrightarrow> static (put_dispatch d p' s) = static s"
  by (auto simp: static_def put_queue_def put_event_def put_dispatch_def fun_eq_iff)

lemma static_dom:
  assumes "static s' = static s"
  shows "g_queues s' q = None \<longleftrightarrow> g_queues s q = None" and "g_events s' e = None \<longleftrightarrow> g_events s e = None"
    and "g_dispatches s' d = None \<longleftrightarrow> g_dispatches s d = None"
  using assms by (auto simp: static_def fun_eq_iff) (metis option.map_disc_iff)+

lemma static_host: "host s' = host s \<Longrightarrow> static s' = static s"
proof -
  have 1: "static_queue (host_queue Q) = static_queue Q" "static_event (host_event ev) = static_event ev"
    "static_dispatch (host_dispatch p) = static_dispatch p" "host_signal (host_signal sig) = host_signal sig" for Q ev p sig
    by (simp_all add: static_queue_def static_event_def static_dispatch_def host_queue_def host_event_def
        host_dispatch_def host_signal_def)
  have "static (host s) = static s" for s
    by (simp add: static_def option.map_comp comp_def 1) (simp add: host_def)
  then show "host s' = host s \<Longrightarrow> static s' = static s" by metis
qed

text \<open>
  A signal the device finished stays finished, read indices only move towards the write index, and no
  event becomes pending.
\<close>

definition quiet :: "runtime \<Rightarrow> signal_ref \<Rightarrow> bool" where
  "quiet s ref \<longleftrightarrow> (\<exists>sig. signal_at s ref = Ok sig \<and> us_value sig = 0)"

definition advanced :: "AqlQueue \<Rightarrow> AqlQueue \<Rightarrow> bool" where
  "advanced a b \<longleftrightarrow> (\<exists>n \<le> aq_write_dispatch_id a - aq_read_dispatch_id a.
     b = a\<lparr>aq_read_dispatch_id := aq_read_dispatch_id a + n\<rparr>)"

text \<open>The event whose signal a dispatch finishes.\<close>

definition completion_of :: "runtime \<Rightarrow> nat \<Rightarrow> nat option" where
  "completion_of s d = Option.bind (g_dispatches s d) pd_completion_event"

definition still :: "runtime \<Rightarrow> runtime \<Rightarrow> bool" where
  "still s s' \<longleftrightarrow> static s' = static s \<and> (\<forall>ref. quiet s ref \<longrightarrow> quiet s' ref) \<and>
     (\<forall>q Q Q'. g_queues s q = Some Q \<longrightarrow> g_queues s' q = Some Q' \<longrightarrow> advanced (q_queue Q) (q_queue Q')) \<and>
     (\<forall>e ev ev'. g_events s e = Some ev \<longrightarrow> g_events s' e = Some ev' \<longrightarrow> ev_pending ev' \<longrightarrow> ev_pending ev) \<and>
     (\<forall>d e. completion_of s' d = Some e \<longrightarrow> completion_of s d = Some e)"

lemma advanced_refl [simp]: "advanced a a"
  by (auto simp: advanced_def intro!: exI [of _ 0])

lemma advanced_step [simp]:
  "n \<le> aq_write_dispatch_id a - aq_read_dispatch_id a \<Longrightarrow> advanced a (a\<lparr>aq_read_dispatch_id := aq_read_dispatch_id a + n\<rparr>)"
  by (auto simp: advanced_def)

lemma advanced_trans:
  assumes "advanced a b" and "advanced b c"
  shows "advanced a c"
proof -
  from assms obtain m n where m: "m \<le> aq_write_dispatch_id a - aq_read_dispatch_id a"
    and n: "n \<le> aq_write_dispatch_id a - (aq_read_dispatch_id a + m)"
    and c: "c = a\<lparr>aq_read_dispatch_id := aq_read_dispatch_id a + (m + n)\<rparr>"
    by (auto simp: advanced_def add.assoc)
  have "m + n \<le> aq_write_dispatch_id a - aq_read_dispatch_id a"
  proof -
    have "n \<le> (aq_write_dispatch_id a - aq_read_dispatch_id a) - m" using n by (simp add: diff_diff_eq)
    then have "unat n \<le> unat (aq_write_dispatch_id a - aq_read_dispatch_id a) - unat m"
      using m by (simp add: word_le_nat_alt unat_sub)
    moreover have "unat m \<le> unat (aq_write_dispatch_id a - aq_read_dispatch_id a)" using m by (simp add: word_le_nat_alt)
    ultimately have "unat m + unat n \<le> unat (aq_write_dispatch_id a - aq_read_dispatch_id a)" by simp
    moreover from this have "unat (m + n) = unat m + unat n"
      using unat_u64_less [of "aq_write_dispatch_id a - aq_read_dispatch_id a"] by (intro unat_add64) simp
    ultimately show ?thesis by (simp add: word_le_nat_alt)
  qed
  with c show ?thesis by (auto simp: advanced_def)
qed

lemma still_refl [simp]: "still s s"
  by (simp add: still_def)

lemma stillD:
  assumes "still s s'"
  shows "static s' = static s" and "quiet s ref \<Longrightarrow> quiet s' ref"
    and "g_queues s q = Some Q \<Longrightarrow> g_queues s' q = Some Q' \<Longrightarrow> advanced (q_queue Q) (q_queue Q')"
    and "g_events s e = Some ev \<Longrightarrow> g_events s' e = Some ev' \<Longrightarrow> ev_pending ev' \<Longrightarrow> ev_pending ev"
    and "completion_of s' d = Some x \<Longrightarrow> completion_of s d = Some x"
  using assms unfolding still_def by (elim conjE, metis)+

lemma still_trans [trans]:
  assumes "still s s'" and "still s' s''"
  shows "still s s''"
proof -
  note one = stillD [OF assms(1)] and two = stillD [OF assms(2)]
  have "advanced (q_queue Q) (q_queue Q'')" if q: "g_queues s q = Some Q" "g_queues s'' q = Some Q''" for q Q Q''
  proof -
    from static_dom(1) [OF one(1), of q] q(1) obtain Q' where "g_queues s' q = Some Q'" by auto
    then show ?thesis using q by (blast intro: advanced_trans one(3) two(3))
  qed
  moreover have "ev_pending ev" if e: "g_events s e = Some ev" "g_events s'' e = Some ev''" "ev_pending ev''" for e ev ev''
  proof -
    from static_dom(2) [OF one(1), of e] e(1) obtain ev' where "g_events s' e = Some ev'" by auto
    then show ?thesis using one(4) [OF e(1)] two(4) e(2,3) by blast
  qed
  ultimately show ?thesis unfolding still_def using one(1,2,5) two(1,2,5) by simp
qed

lemma stillI:
  assumes "static s' = static s" and "\<And>ref. quiet s ref \<Longrightarrow> quiet s' ref"
    and "\<And>q. map_option q_queue (g_queues s' q) = map_option q_queue (g_queues s q)"
    and "\<And>e ev ev'. g_events s e = Some ev \<Longrightarrow> g_events s' e = Some ev' \<Longrightarrow> ev_pending ev' \<Longrightarrow> ev_pending ev"
    and "\<And>d e. completion_of s' d = Some e \<Longrightarrow> completion_of s d = Some e"
  shows "still s s'"
proof -
  have "advanced (q_queue Q) (q_queue Q')" if "g_queues s q = Some Q" "g_queues s' q = Some Q'" for q Q Q'
    using assms(3) [of q] that by simp
  with assms show ?thesis by (auto simp: still_def)
qed

lemma signal_at_put:
  "signal_at (put_queue q Q s) ref = signal_at s ref"
  "signal_at (put_event e ev s) ref = (if ref = EventSignal e
     then if us_page (ev_signal ev) then Ok (ev_signal ev) else Fault else signal_at s ref)"
  "signal_at (put_dispatch d p s) ref = (if ref = DispatchSignal d
     then if us_page (pd_completion_signal p) then Ok (pd_completion_signal p) else Fault else signal_at s ref)"
  by (cases ref; simp add: get_event_def get_dispatch_def put_queue_def put_event_def put_dispatch_def)+

lemma completion_of_put [simp]:
  "completion_of (put_queue q Q s) = completion_of s" "completion_of (put_event e ev s) = completion_of s"
  "completion_of (put_dispatch d p s) = (completion_of s)(d := pd_completion_event p)"
  by (simp_all add: completion_of_def fun_eq_iff put_queue_def put_event_def put_dispatch_def)

lemma still_put_queue:
  "g_queues s q = Some Q \<Longrightarrow> static_queue Q' = static_queue Q \<Longrightarrow> q_queue Q' = q_queue Q \<Longrightarrow> still s (put_queue q Q' s)"
  by (rule stillI) (simp_all add: static_put quiet_def signal_at_put)

lemma still_put_event:
  assumes "g_events s e = Some ev" and "static_event ev' = static_event ev" and "us_value (ev_signal ev') = us_value (ev_signal ev)"
    and "ev_pending ev' \<Longrightarrow> ev_pending ev"
  shows "still s (put_event e ev' s)"
proof (rule stillI)
  have "us_page (ev_signal ev') = us_page (ev_signal ev)"
    using assms(2) by (metis Pair_inject host_fields(1) static_event_def)
  then show "quiet (put_event e ev' s) ref" if "quiet s ref" for ref
    using that assms(1,3) by (auto simp: quiet_def signal_at_put get_event_def)
  show "ev_pending x" if "g_events s d = Some x" "g_events (put_event e ev' s) d = Some y" "ev_pending y" for d x y
    using that assms(1,4) by (auto split: if_splits)
qed (simp_all add: static_put(2) [OF assms(1,2)])

lemma still_put_dispatch:
  assumes "g_dispatches s d = Some p" and "static_dispatch p' = static_dispatch p"
    and "us_value (pd_completion_signal p') = us_value (pd_completion_signal p)"
    and "pd_completion_event p' = None \<or> pd_completion_event p' = pd_completion_event p"
  shows "still s (put_dispatch d p' s)"
proof (rule stillI)
  have "us_page (pd_completion_signal p') = us_page (pd_completion_signal p)"
    using assms(2) by (metis Pair_inject host_fields(1) static_dispatch_def)
  then show "quiet (put_dispatch d p' s) ref" if "quiet s ref" for ref
    using that assms(1,3) by (auto simp: quiet_def signal_at_put get_dispatch_def)
  show "completion_of s x = Some e" if "completion_of (put_dispatch d p' s) x = Some e" for x e
    using that assms(1,4) by (auto simp: completion_of_def split: if_splits)
qed (simp_all add: static_put(3) [OF assms(1,2)])

lemma quiet_device_act:
  assumes "quiet s ref"
  shows "quiet (device_act m s) ref"
proof -
  have fin: "us_page (finish_signal t u sig) = us_page sig" "us_value (finish_signal t u sig) = 0 \<longleftrightarrow> us_page sig \<or> us_value sig = 0"
    for t u sig by (simp_all add: finish_signal_def)
  show ?thesis
  proof (cases m)
    case (FinishSignal n t u)
    with assms show ?thesis
      by (cases ref) (auto simp: quiet_def fin get_event_def get_dispatch_def split: option.splits if_splits)
  qed (use assms in \<open>auto simp: quiet_def signal_at_put fin get_event_def get_dispatch_def Let_def split: option.splits if_splits\<close>)
qed

lemma quiet_moves [simp]: "quiet (s\<lparr>w_device := ms\<rparr>) ref = quiet s ref"
  by (cases ref) (simp_all add: quiet_def get_event_def get_dispatch_def)

lemma advanced_device_act:
  assumes "g_queues s q = Some Q" and "g_queues (device_act m s) q = Some Q'"
  shows "advanced (q_queue Q) (q_queue Q')"
  using assms
  by (cases m)
    (auto simp: put_queue_def put_event_def put_dispatch_def Let_def split: option.splits if_splits)

lemma pending_device_act:
  assumes "g_events s e = Some ev" and "g_events (device_act m s) e = Some ev'" and "ev_pending ev'"
  shows "ev_pending ev"
  using assms
  by (cases m)
    (auto simp: put_queue_def put_event_def put_dispatch_def Let_def split: option.splits if_splits)

lemma completion_of_host:
  assumes "host s' = host s"
  shows "completion_of s' = completion_of s"
proof
  fix d
  have "map_option pd_completion_event (g_dispatches s' d) = map_option pd_completion_event (g_dispatches s d)"
    using arg_cong [OF assms, of "\<lambda>s. map_option pd_completion_event (g_dispatches s d)"] by (simp add: option.map_comp comp_def)
  then show "completion_of s' d = completion_of s d"
    by (cases "g_dispatches s d"; cases "g_dispatches s' d") (simp_all add: completion_of_def)
qed

lemma still_device_step: "still s (device_step s)"
proof (cases "w_device s")
  case Nil
  then show ?thesis by (simp add: device_step_def)
next
  case (Cons m ms)
  let ?s = "s\<lparr>w_device := ms\<rparr>"
  have s': "device_step s = device_act m ?s" using Cons by (simp add: device_step_def)
  have "advanced (q_queue Q) (q_queue Q')" if "g_queues s q = Some Q" "g_queues (device_step s) q = Some Q'" for q Q Q'
    using advanced_device_act [of ?s q Q m Q'] that by (simp add: s')
  moreover have "quiet (device_step s) ref" if "quiet s ref" for ref
    using quiet_device_act [of ?s ref m] that by (simp add: s')
  moreover have "ev_pending ev" if "g_events s e = Some ev" "g_events (device_step s) e = Some ev'" "ev_pending ev'" for e ev ev'
    using pending_device_act [of ?s e ev m ev'] that by (simp add: s')
  moreover have "completion_of (device_step s) = completion_of s" by (rule completion_of_host) simp
  ultimately show ?thesis using static_host [of "device_step s" s] by (simp add: still_def)
qed

section \<open>Loads\<close>

lemma signal_at_host:
  assumes "host s' = host s" and "signal_at s ref = Ok sig"
  obtains sig' where "signal_at s' ref = Ok sig'"
proof (cases ref)
  case (DispatchSignal d)
  with assms(2) obtain p where p: "g_dispatches s d = Some p" "us_page (pd_completion_signal p)"
    by (auto simp: get_dispatch_def split: option.splits if_splits)
  from host_dispatchD [OF assms(1) p(1)] obtain p' where "g_dispatches s' d = Some p'" "host_dispatch p' = host_dispatch p" .
  then show ?thesis using that p(2) DispatchSignal by (simp add: get_dispatch_def) (metis host_fields(3))
next
  case (EventSignal e)
  with assms(2) obtain ev where ev: "g_events s e = Some ev" "us_page (ev_signal ev)"
    by (auto simp: get_event_def split: option.splits if_splits)
  from host_eventD [OF assms(1) ev(1)] obtain ev' where "g_events s' e = Some ev'" "host_event ev' = host_event ev" .
  then show ?thesis using that ev(2) EventSignal by (simp add: get_event_def) (metis host_fields(6))
next
  case (OwnSignal n)
  with assms(2) arg_cong [OF assms(1), of "\<lambda>s. g_signals s n"] that show ?thesis
    by (auto split: option.splits if_splits) (metis host_fields(1))
qed

definition armed :: "runtime \<Rightarrow> signal_ref \<Rightarrow> bool" where
  "armed s ref \<longleftrightarrow> (\<exists>sig. signal_at s ref = Ok sig)"

lemma load_acquire_still:
  assumes "armed s ref"
  shows "runs (load_acquire ref s) (\<lambda>(v, s'). host s' = host s \<and> still s s' \<and> (v = 0 \<longleftrightarrow> quiet s' ref))"
proof -
  from assms obtain sig where "signal_at (device_step s) ref = Ok sig"
    using signal_at_host [OF host_device_step] by (metis armed_def)
  then show ?thesis by (simp add: load_acquire_def Let_def still_device_step quiet_def)
qed

lemma armed_put [simp]: "armed (put_queue q Q s) ref = armed s ref"
  by (simp add: armed_def signal_at_put)

lemma active_put [simp]: "active_completion_signal (put_queue q Q s) d = active_completion_signal s d"
  by (simp add: active_completion_signal_def get_dispatch_def put_queue_def)

lemma armed_event: "kfd_inv s \<Longrightarrow> g_events s e \<noteq> None \<Longrightarrow> armed s (EventSignal e)"
  unfolding kfd_inv_def using invD(2) by (force simp: armed_def get_event_def event_inv_def)

lemma active_armed:
  assumes "kfd_inv s" and "g_queues s q = Some Q" and "d \<in> set (owned Q)"
  obtains ref where "active_completion_signal s d = Ok ref" and "armed s ref"
proof -
  from invD(1) [OF assms(1) [unfolded kfd_inv_def] assms(2)] assms(3)
  have "dispatch_ok (g_events s) (g_dispatches s) (g_next s) (q_kernarg_arenas Q) d" by (auto simp: queue_inv_def)
  then obtain p where p: "g_dispatches s d = Some p" "us_page (pd_completion_signal p)"
    and ev: "\<And>e. pd_completion_event p = Some e \<Longrightarrow> g_events s e \<noteq> None"
    by (auto simp: dispatch_ok_def)
  show ?thesis
  proof (cases "pd_completion_event p")
    case None
    with p show ?thesis by (intro that) (auto simp: active_completion_signal_def get_dispatch_def armed_def)
  next
    case (Some e)
    with p ev armed_event [OF assms(1)] show ?thesis
      by (intro that) (auto simp: active_completion_signal_def get_dispatch_def)
  qed
qed

section \<open>Barriers\<close>

text \<open>The queues and dispatch objects, apart from what the device writes.\<close>

definition same_heaps :: "runtime \<Rightarrow> runtime \<Rightarrow> bool" where
  "same_heaps s s' \<longleftrightarrow> (\<forall>q. map_option host_queue (g_queues s' q) = map_option host_queue (g_queues s q)) \<and>
     (\<forall>d. map_option host_dispatch (g_dispatches s' d) = map_option host_dispatch (g_dispatches s d))"

lemma same_heaps_host: "host s' = host s \<Longrightarrow> same_heaps s s'"
  unfolding same_heaps_def by (metis host_globals(1,3))

lemma same_heaps_trans [trans]: "same_heaps s s' \<Longrightarrow> same_heaps s' s'' \<Longrightarrow> same_heaps s s''"
  by (simp add: same_heaps_def)

lemma same_heaps_refl [simp]: "same_heaps s s"
  by (simp add: same_heaps_def)

lemma active_cong:
  assumes "\<And>d. map_option host_dispatch (g_dispatches s' d) = map_option host_dispatch (g_dispatches s d)"
  shows "active_completion_signal s' d = active_completion_signal s d"
proof -
  have "map_option pd_completion_event (g_dispatches s d) =
      map_option pd_completion_event (map_option host_dispatch (g_dispatches s d))" for s d
    by (simp add: option.map_comp comp_def)
  then have "map_option pd_completion_event (g_dispatches s' d) = map_option pd_completion_event (g_dispatches s d)"
    using assms by metis
  then show ?thesis
    by (cases "g_dispatches s' d"; cases "g_dispatches s d") (simp_all add: active_completion_signal_def get_dispatch_def)
qed

lemma same_heaps_active: "same_heaps s s' \<Longrightarrow> active_completion_signal s' d = active_completion_signal s d"
  by (rule active_cong) (simp add: same_heaps_def)

lemma inv_ghost_host: "host s' = host s \<Longrightarrow> kfd_inv (put_queue q Q s') = kfd_inv (put_queue q Q s)"
proof -
  assume "host s' = host s"
  moreover have "host (put_queue q Q s) = put_queue q (host_queue Q) (host s)" for s
    by (simp add: host_def put_queue_def fun_eq_iff)
  ultimately show ?thesis by (metis kfd_inv_host)
qed

lemma release_all_runs:
  assumes "kfd_inv (put_queue q (with_barriers Q (\<lparr>pb_retirement_dispatch = d, pb_dependencies = es\<rparr> # bs)) s)"
  shows "runs (release_all es q s) (\<lambda>s'. kfd_inv (put_queue q (with_barriers Q (\<lparr>pb_retirement_dispatch = d, pb_dependencies = []\<rparr> # bs)) s') \<and>
    still s s' \<and> same_heaps s s')"
  using assms
proof (induction es arbitrary: s)
  case (Cons e es)
  from inv_release [OF Cons.prems [unfolded kfd_inv_def globals_put]] obtain ev ev' where
    ev: "g_events s e = Some ev" "release_dependency q ev = Ok ev'"
    and upd: "ev' = ev\<lparr>ev_dependency_count := ev_dependency_count ev', ev_dependency_queues := ev_dependency_queues ev'\<rparr>"
    and inv': "kfd_inv (put_queue q (with_barriers Q (\<lparr>pb_retirement_dispatch = d, pb_dependencies = es\<rparr> # bs)) (put_event e ev' s))"
    unfolding kfd_inv_def globals_put by blast
  have "static_event ev' = static_event ev" "us_value (ev_signal ev') = us_value (ev_signal ev)" "ev_pending ev' = ev_pending ev"
    by (subst upd, simp add: static_event_def)+
  then have "still s (put_event e ev' s)" by (intro still_put_event [OF ev(1)]) simp_all
  moreover have "same_heaps s (put_event e ev' s)" by (simp add: same_heaps_def)
  ultimately show ?case
    using Cons.IH [OF inv'] ev
    by (auto simp: release_direct_kfd_event_dependency_locked_def elim!: runs_weaken intro: still_trans same_heaps_trans)
qed simp

text \<open>A barrier without dependencies can go.\<close>

lemma inv_drop_barrier:
  assumes "kfd_inv (put_queue q (with_barriers Q (\<lparr>pb_retirement_dispatch = d, pb_dependencies = []\<rparr> # bs)) s)"
  shows "kfd_inv (put_queue q (with_barriers Q bs) s)"
proof -
  note i = assms [unfolded kfd_inv_def globals_put]
  have "state_inv (((g_queues s)(q \<mapsto> with_barriers Q (\<lparr>pb_retirement_dispatch = d, pb_dependencies = []\<rparr> # bs)))
      (q \<mapsto> with_barriers Q bs)) (g_events s) (g_dispatches s) (g_next s)"
  proof (rule inv_put_queue_same [OF i fun_upd_same])
    show "queue_inv (g_events s) (g_dispatches s) (g_next s) q (with_barriers Q bs)"
      using invD(1) [OF i fun_upd_same] unfolding queue_inv_def by simp
  qed (simp_all add: waits_on_mset)
  then show ?thesis unfolding kfd_inv_def globals_put by simp
qed

text \<open>
  The loop keeps the invariant. A barrier leaves only when the dispatch behind it has completed, and
  no barrier stays behind a dispatch that had completed before.
\<close>

definition barriers_reaped :: "nat \<Rightarrow> runtime \<Rightarrow> PendingBarrier list \<Rightarrow> runtime \<Rightarrow> PendingBarrier list \<Rightarrow> bool" where
  "barriers_reaped index s bs s' bs' \<longleftrightarrow> set bs' \<subseteq> set bs \<and>
     (\<forall>b \<in> set bs. b \<in> set bs' \<or> (\<exists>ref. active_completion_signal s (pb_retirement_dispatch b) = Ok ref \<and> quiet s' ref)) \<and>
     (\<forall>d ref. active_completion_signal s d = Ok ref \<longrightarrow> quiet s ref \<longrightarrow>
        (\<forall>b \<in> set (take index bs). pb_retirement_dispatch b \<noteq> d) \<longrightarrow> (\<forall>b \<in> set bs'. pb_retirement_dispatch b \<noteq> d))"

lemma take_swap_remove: "index < length xs \<Longrightarrow> take index (swap_remove index xs) = take index xs"
  by (cases "index = length xs - 1") (auto simp: swap_remove_def butlast_conv_take)

lemma barriers_reapedD:
  assumes "barriers_reaped index s bs s' bs'"
  shows "set bs' \<subseteq> set bs"
    and "b \<in> set bs \<Longrightarrow> b \<in> set bs' \<or> (\<exists>ref. active_completion_signal s (pb_retirement_dispatch b) = Ok ref \<and> quiet s' ref)"
    and "active_completion_signal s d = Ok ref \<Longrightarrow> quiet s ref \<Longrightarrow>
      (\<And>b. b \<in> set (take index bs) \<Longrightarrow> pb_retirement_dispatch b \<noteq> d) \<Longrightarrow> b' \<in> set bs' \<Longrightarrow> pb_retirement_dispatch b' \<noteq> d"
  using assms unfolding barriers_reaped_def by blast+

lemma barriers_reaped_skip:
  assumes "barriers_reaped (index + 1) s1 bs s' bs'" and "same_heaps s s1" and "still s s1" and "index < length bs"
    and "active_completion_signal s (pb_retirement_dispatch (bs ! index)) = Ok ref" and "\<not> quiet s1 ref"
  shows "barriers_reaped index s bs s' bs'"
  unfolding barriers_reaped_def
proof (intro conjI ballI allI impI)
  note D = barriers_reapedD [OF assms(1), unfolded same_heaps_active [OF assms(2)]]
  show "set bs' \<subseteq> set bs" by (rule D(1))
  show "b \<in> set bs' \<or> (\<exists>ref. active_completion_signal s (pb_retirement_dispatch b) = Ok ref \<and> quiet s' ref)"
    if "b \<in> set bs" for b using that by (rule D(2))
  fix d r b
  assume d: "active_completion_signal s d = Ok r" "quiet s r" "\<forall>b \<in> set (take index bs). pb_retirement_dispatch b \<noteq> d" "b \<in> set bs'"
  have r: "quiet s1 r" using d(2) assms(3) unfolding still_def by blast
  then have "pb_retirement_dispatch (bs ! index) \<noteq> d" using d(1) assms(5,6) by auto
  then have "pb_retirement_dispatch b \<noteq> d" if "b \<in> set (take (index + 1) bs)" for b
    using that d(3) assms(4) by (auto simp: take_Suc_conv_app_nth)
  from D(3) [OF d(1) r this d(4)] show "pb_retirement_dispatch b \<noteq> d" .
qed

lemma barriers_reaped_remove:
  assumes "barriers_reaped index s2 (swap_remove index bs) s' bs'" and "same_heaps s s2" and "still s s2" and "still s2 s'"
    and "index < length bs" and "active_completion_signal s (pb_retirement_dispatch (bs ! index)) = Ok ref" and "quiet s2 ref"
  shows "barriers_reaped index s bs s' bs'"
  unfolding barriers_reaped_def
proof (intro conjI ballI allI impI)
  note D = barriers_reapedD [OF assms(1), unfolded same_heaps_active [OF assms(2)]]
  note set = set_swap_remove [OF assms(5)]
  show "set bs' \<subseteq> set bs" using D(1) set by blast
  have "quiet s' ref" using assms(4,7) unfolding still_def by blast
  then show "b \<in> set bs' \<or> (\<exists>ref. active_completion_signal s (pb_retirement_dispatch b) = Ok ref \<and> quiet s' ref)"
    if "b \<in> set bs" for b using that D(2) [of b] set assms(6) by (cases "b = bs ! index") auto
  fix d r b
  assume d: "active_completion_signal s d = Ok r" "quiet s r" "\<forall>b \<in> set (take index bs). pb_retirement_dispatch b \<noteq> d" "b \<in> set bs'"
  have r: "quiet s2 r" using d(2) assms(3) unfolding still_def by blast
  from D(3) [OF d(1) r _ d(4)] d(3) show "pb_retirement_dispatch b \<noteq> d" by (simp add: take_swap_remove [OF assms(5)])
qed

lemma reap_barriers_loop_runs:
  assumes "kfd_inv (put_queue q (with_barriers Q bs) s)"
  shows "runs (reap_barriers_loop q index bs s) (\<lambda>(bs', s'). kfd_inv (put_queue q (with_barriers Q bs') s') \<and>
    still s s' \<and> same_heaps s s' \<and> barriers_reaped index s bs s' bs')"
  using assms
proof (induction q index bs s rule: reap_barriers_loop.induct)
  case (1 q index bs s)
  let ?P = "\<lambda>(bs', s'). kfd_inv (put_queue q (with_barriers Q bs') s') \<and> still s s' \<and> same_heaps s s' \<and>
    barriers_reaped index s bs s' bs'"
  show ?case
  proof (cases "index < length bs")
    case False
    with "1.prems" show ?thesis by (subst reap_barriers_loop.simps) (auto simp: barriers_reaped_def)
  next
    case True
    let ?b = "bs ! index"
    have "Some (pb_retirement_dispatch ?b) \<in> set (live_dispatches Q)"
      using queue_inv_barriers [OF invD(1) [OF "1.prems" [unfolded kfd_inv_def globals_put] fun_upd_same], of ?b] True
      by (simp add: barrier_ok_def)
    then have mem: "pb_retirement_dispatch ?b \<in> set (owned (with_barriers Q bs))" by (force simp: owned_def)
    have "g_queues (put_queue q (with_barriers Q bs) s) q = Some (with_barriers Q bs)" by simp
    from active_armed [OF "1.prems" this mem] obtain ref
      where ref: "active_completion_signal s (pb_retirement_dispatch ?b) = Ok ref" "armed s ref" by auto
    have "runs (if v \<noteq> 0 then reap_barriers_loop q (index + 1) bs s1
        else obind (release_all (pb_dependencies ?b) q s1) (\<lambda>s2. reap_barriers_loop q index (swap_remove index bs) s2)) ?P"
      if load: "load_acquire ref s = Ok (v, s1)" "host s1 = host s" "still s s1" "v = 0 \<longleftrightarrow> quiet s1 ref" for v s1
    proof (cases "v = 0")
      case False
      have "kfd_inv (put_queue q (with_barriers Q bs) s1)" using "1.prems" inv_ghost_host [OF load(2)] by simp
      from "1.IH"(1) [OF True ref(1) load(1) refl False this]
      have "runs (reap_barriers_loop q (index + 1) bs s1) ?P"
        using still_trans [OF load(3)] same_heaps_trans [OF same_heaps_host [OF load(2)]] load(4) False
          barriers_reaped_skip [OF _ same_heaps_host [OF load(2)] load(3) True ref(1)]
        by (auto elim!: runs_weaken)
      with False show ?thesis by simp
    next
      case v: True
      have "mset (?b # swap_remove index bs) = mset bs" using mset_swap_remove [OF True] by simp
      then have inv1: "kfd_inv (put_queue q (with_barriers Q (?b # swap_remove index bs)) s1)"
        using inv_barriers_cong "1.prems" inv_ghost_host [OF load(2)] unfolding kfd_inv_def globals_put by metis
      have "runs (reap_barriers_loop q index (swap_remove index bs) s2) ?P"
        if s2: "release_all (pb_dependencies ?b) q s1 = Ok s2" "still s1 s2" "same_heaps s1 s2"
          and "kfd_inv (put_queue q (with_barriers Q (\<lparr>pb_retirement_dispatch = pb_retirement_dispatch ?b, pb_dependencies = []\<rparr> # swap_remove index bs)) s2)" for s2
      proof -
        have heaps: "same_heaps s s2" using same_heaps_trans [OF same_heaps_host [OF load(2)] s2(3)] .
        have lat: "still s s2" using still_trans [OF load(3) s2(2)] .
        have qu: "quiet s2 ref" using s2(2) load(4) v by (simp add: still_def)
        from "1.IH"(2) [OF True ref(1) load(1) refl _ s2(1) inv_drop_barrier [OF that(4)]] v show ?thesis
          using still_trans [OF lat] same_heaps_trans [OF heaps] barriers_reaped_remove [OF _ heaps lat _ True ref(1) qu]
          by (auto elim!: runs_weaken)
      qed
      moreover have b: "\<lparr>pb_retirement_dispatch = pb_retirement_dispatch ?b, pb_dependencies = pb_dependencies ?b\<rparr> = ?b" by simp
      have "runs (release_all (pb_dependencies ?b) q s1) (\<lambda>s2. kfd_inv (put_queue q (with_barriers Q
          (\<lparr>pb_retirement_dispatch = pb_retirement_dispatch ?b, pb_dependencies = []\<rparr> # swap_remove index bs)) s2) \<and> still s1 s2 \<and> same_heaps s1 s2)"
        using release_all_runs [of q "pb_retirement_dispatch ?b" "pb_dependencies ?b" "swap_remove index bs" Q s1] inv1 unfolding b by simp
      ultimately have "runs (obind (release_all (pb_dependencies ?b) q s1) (\<lambda>s2. reap_barriers_loop q index (swap_remove index bs) s2)) ?P"
        by (intro runs_obindI') auto
      with v show ?thesis by simp
    qed
    then have "runs (obind (load_acquire ref s) (\<lambda>(v, s1). if v \<noteq> 0 then reap_barriers_loop q (index + 1) bs s1
        else obind (release_all (pb_dependencies ?b) q s1) (\<lambda>s2. reap_barriers_loop q index (swap_remove index bs) s2))) ?P"
      by (intro runs_obindI' [OF load_acquire_still [OF ref(2)]]) (auto simp del: runs_obind)
    with True ref(1) show ?thesis by (subst reap_barriers_loop.simps) simp
  qed
qed

lemma inv_ghost_queue:
  assumes "host_queue Q = host_queue Q'"
  shows "kfd_inv (put_queue q Q s) = kfd_inv (put_queue q Q' s)"
proof -
  have "host (put_queue q Q s) = host (put_queue q Q' s)"
    using assms by (simp add: host_def put_queue_def fun_eq_iff)
  then show ?thesis by (metis kfd_inv_host)
qed

lemma inv_ghost_refl: "g_queues s q = Some Q \<Longrightarrow> kfd_inv (put_queue q Q s) = kfd_inv s"
  by (simp add: kfd_inv_def fun_upd_idem)

lemma host_with_barriers: "host_queue (with_barriers Q bs) = with_barriers (host_queue Q) bs"
  by (simp add: host_queue_def)

lemma same_heaps_queue:
  assumes "same_heaps s s'" and "g_queues s q = Some Q"
  obtains Q' where "g_queues s' q = Some Q'" and "host_queue Q' = host_queue Q"
proof -
  have "map_option host_queue (g_queues s' q) = Some (host_queue Q)" using assms by (simp add: same_heaps_def)
  with that show ?thesis by auto
qed

lemma static_with_barriers [simp]: "static_queue (with_barriers Q bs) = static_queue Q"
  by (simp add: static_queue_def)

lemma reap_barriers_runs:
  assumes inv: "kfd_inv s" and Q: "g_queues s q = Some Q"
  shows "runs (reap_completed_direct_kfd_barriers_locked q s) (\<lambda>s'. kfd_inv s' \<and> still s s' \<and>
    (\<forall>d. map_option host_dispatch (g_dispatches s' d) = map_option host_dispatch (g_dispatches s d)) \<and>
    (\<forall>q2. q2 \<noteq> q \<longrightarrow> map_option host_queue (g_queues s' q2) = map_option host_queue (g_queues s q2)) \<and>
    (\<exists>Q'. g_queues s' q = Some Q' \<and> host_queue Q' = with_barriers (host_queue Q) (q_pending_barriers Q') \<and>
      barriers_reaped 0 s (q_pending_barriers Q) s' (q_pending_barriers Q')))"
proof -
  have "kfd_inv (put_queue q (with_barriers Q (q_pending_barriers Q)) s)" using inv inv_ghost_refl [OF Q] by simp
  note loop = reap_barriers_loop_runs [OF this, of 0]
  have "runs (obind (get_queue s1 q) (\<lambda>Q1. Ok (put_queue q (with_barriers Q1 bs) s1))) (\<lambda>s'. kfd_inv s' \<and> still s s' \<and>
      (\<forall>d. map_option host_dispatch (g_dispatches s' d) = map_option host_dispatch (g_dispatches s d)) \<and>
      (\<forall>q2. q2 \<noteq> q \<longrightarrow> map_option host_queue (g_queues s' q2) = map_option host_queue (g_queues s q2)) \<and>
      (\<exists>Q'. g_queues s' q = Some Q' \<and> host_queue Q' = with_barriers (host_queue Q) (q_pending_barriers Q') \<and>
        barriers_reaped 0 s (q_pending_barriers Q) s' (q_pending_barriers Q')))"
    if s1: "kfd_inv (put_queue q (with_barriers Q bs) s1)" "still s s1" "same_heaps s s1"
      "barriers_reaped 0 s (q_pending_barriers Q) s1 bs" for bs s1
  proof -
    from same_heaps_queue [OF s1(3) Q] obtain Q1 where Q1: "g_queues s1 q = Some Q1" "host_queue Q1 = host_queue Q" .
    let ?s = "put_queue q (with_barriers Q1 bs) s1"
    have "kfd_inv ?s"
      using s1(1) inv_ghost_queue [of "with_barriers Q1 bs" "with_barriers Q bs" q s1] Q1(2) by (simp add: host_with_barriers)
    moreover have step: "still s1 ?s" by (rule still_put_queue [OF Q1(1)]) simp_all
    moreover have "still s ?s" using still_trans [OF s1(2) step] .
    moreover have "quiet ?s ref = quiet s1 ref" for ref by (simp add: quiet_def signal_at_put)
    ultimately show ?thesis
      using s1(3,4) Q1 by (simp add: same_heaps_def barriers_reaped_def host_with_barriers)
  qed
  then show ?thesis
    unfolding reap_completed_direct_kfd_barriers_locked_def get_queue_def [of s q] Q option.case obind.simps
    by (intro runs_obindI [OF loop]) (auto simp del: runs_obind)
qed

section \<open>Dispatches\<close>

text \<open>
  The completed dispatches at the head: each one's signal is finished, it lost its event, and no barrier is behind it.
\<close>

definition completed :: "runtime \<Rightarrow> PendingBarrier list \<Rightarrow> nat option list \<Rightarrow> nat \<Rightarrow> runtime \<Rightarrow> bool" where
  "completed s bs entries n s' \<longleftrightarrow> n \<le> length entries \<and>
     (\<forall>d. Some d \<in> set (take n entries) \<longrightarrow> pooled_ok (g_dispatches s') d \<and>
        (\<exists>ref. active_completion_signal s d = Ok ref \<and> quiet s' ref) \<and> (\<forall>b \<in> set bs. pb_retirement_dispatch b \<noteq> d)) \<and>
     (\<forall>d. pooled_ok (g_dispatches s) d \<longrightarrow> pooled_ok (g_dispatches s') d) \<and>
     (\<forall>d. Some d \<notin> set (take n entries) \<longrightarrow> active_completion_signal s' d = active_completion_signal s d) \<and>
     (\<forall>d es ref. entries = Some d # es \<longrightarrow> active_completion_signal s d = Ok ref \<longrightarrow> quiet s ref \<longrightarrow>
        (\<forall>b \<in> set bs. pb_retirement_dispatch b \<noteq> d) \<longrightarrow> 0 < n)"

lemma pooled_ok_host: "host s' = host s \<Longrightarrow> pooled_ok (g_dispatches s') d = pooled_ok (g_dispatches s) d"
proof -
  have "pooled_ok (g_dispatches (host s)) d = pooled_ok (g_dispatches s) d" for s by (auto simp: pooled_ok_def)
  then show "host s' = host s \<Longrightarrow> pooled_ok (g_dispatches s') d = pooled_ok (g_dispatches s) d" by metis
qed

lemma completed_Nil: "completed s bs entries 0 s' \<longleftrightarrow>
    (\<forall>d. pooled_ok (g_dispatches s) d \<longrightarrow> pooled_ok (g_dispatches s') d) \<and>
    (\<forall>d. active_completion_signal s' d = active_completion_signal s d) \<and>
    (\<forall>d es ref. entries = Some d # es \<longrightarrow> active_completion_signal s d = Ok ref \<longrightarrow> quiet s ref \<longrightarrow>
        (\<exists>b \<in> set bs. pb_retirement_dispatch b = d))"
  by (auto simp: completed_def)

text \<open>One completed dispatch in front of a completed prefix.\<close>

lemma completed_Suc:
  assumes "completed s2 bs entries n s'" and "host s1 = host s" and "g_dispatches s1 d = Some p"
    and s2: "s2 = put_dispatch d (p\<lparr>pd_completion_event := None\<rparr>) s1"
    and "active_completion_signal s d = Ok ref" and "quiet s' ref" and "\<forall>b \<in> set bs. pb_retirement_dispatch b \<noteq> d"
    and "Some d \<notin> set entries"
  shows "completed s bs (Some d # entries) (n + 1) s'"
proof -
  have pool: "pooled_ok (g_dispatches s2) x" if "pooled_ok (g_dispatches s) x \<or> x = d" for x
    using that pooled_ok_host [OF assms(2), of x] by (auto simp: s2 pooled_ok_def)
  have act: "active_completion_signal s2 x = active_completion_signal s x" if "x \<noteq> d" for x
    using that same_heaps_active [OF same_heaps_host [OF assms(2)], of x] by (simp add: s2 active_completion_signal_def get_dispatch_def)
  have "Some x \<in> set (take n entries) \<Longrightarrow> x \<noteq> d" for x using assms(8) by (auto dest: in_set_takeD)
  then show ?thesis using assms(1,5-7) pool act unfolding completed_def by auto
qed

lemma completed_loop_runs:
  assumes "kfd_inv s" and "g_queues s q = Some Q" and "set entries \<subseteq> set (live_dispatches Q)" and "distinct entries"
  shows "runs (completed_loop bs entries s) (\<lambda>(n, s'). kfd_inv s' \<and> still s s' \<and>
    (\<forall>q. map_option host_queue (g_queues s' q) = map_option host_queue (g_queues s q)) \<and> completed s bs entries n s')"
  using assms
proof (induction entries arbitrary: s Q)
  case Nil
  then show ?case by (simp add: completed_Nil)
next
  case (Cons entry entries)
  have q: "queue_inv (g_events s) (g_dispatches s) (g_next s) q Q"
    using invD(1) [OF Cons.prems(1) [unfolded kfd_inv_def] Cons.prems(2)] .
  then obtain d where d: "entry = Some d" using Cons.prems(3) by (cases entry) (auto simp: queue_inv_def)
  with Cons.prems(3) have mem: "d \<in> set (owned Q)" by (force simp: owned_def)
  from active_armed [OF Cons.prems(1,2) mem] obtain ref where ref: "active_completion_signal s d = Ok ref" "armed s ref" .
  let ?P = "\<lambda>(n, s'). kfd_inv s' \<and> still s s' \<and>
    (\<forall>q. map_option host_queue (g_queues s' q) = map_option host_queue (g_queues s q)) \<and> completed s bs (entry # entries) n s'"
  have key: "runs (if v \<noteq> 0 then Ok (0, s1) else if list_ex (\<lambda>b. pb_retirement_dispatch b = d) bs then Ok (0, s1)
      else obind (get_dispatch s1 d) (\<lambda>p.
        obind (completed_loop bs entries (put_dispatch d (p\<lparr>pd_completion_event := None\<rparr>) s1)) (\<lambda>(n, s2). Ok (n + 1, s2)))) ?P"
    if load: "host s1 = host s" "still s s1" "v = 0 \<longleftrightarrow> quiet s1 ref" for v s1
  proof (cases "v \<noteq> 0 \<or> list_ex (\<lambda>b. pb_retirement_dispatch b = d) bs")
    case True
    then have "completed s bs (entry # entries) 0 s1"
      using load ref(1) pooled_ok_host [OF load(1)] same_heaps_active [OF same_heaps_host [OF load(1)]]
      by (auto simp: completed_Nil d list_ex_iff still_def)
    moreover have "kfd_inv s1" using Cons.prems(1) load(1) by (metis kfd_inv_host)
    moreover have "\<forall>q. map_option host_queue (g_queues s1 q) = map_option host_queue (g_queues s q)"
      using same_heaps_host [OF load(1)] by (simp add: same_heaps_def)
    ultimately show ?thesis using True load(2) by auto
  next
    case False
    from q mem obtain p0 where "g_dispatches s d = Some p0" by (auto simp: queue_inv_def dispatch_ok_def)
    from host_dispatchD [OF load(1) this] obtain p where p: "g_dispatches s1 d = Some p" .
    let ?s = "put_dispatch d (p\<lparr>pd_completion_event := None\<rparr>) s1"
    from host_queueD [OF load(1) Cons.prems(2)] obtain Q1 where Q1: "g_queues s1 q = Some Q1" "host_queue Q1 = host_queue Q" .
    have "live_dispatches Q1 = live_dispatches Q" using Q1(2) by (metis host_owned(1))
    then have sub: "set entries \<subseteq> set (live_dispatches Q1)" using Cons.prems(3) by simp
    have "kfd_inv s1" using Cons.prems(1) load(1) by (metis kfd_inv_host)
    from inv_put_dispatch [where ds = "g_dispatches s1" and d = d, OF this [unfolded kfd_inv_def] p, of "p\<lparr>pd_completion_event := None\<rparr>"]
    have "kfd_inv ?s" by (simp add: kfd_inv_def)
    from Cons.IH [OF this _ sub] have IH: "runs (completed_loop bs entries ?s) (\<lambda>(n, s'). kfd_inv s' \<and> still ?s s' \<and>
      (\<forall>q. map_option host_queue (g_queues s' q) = map_option host_queue (g_queues ?s q)) \<and> completed ?s bs entries n s')"
      using Q1(1) Cons.prems(4) by simp
    have step: "still s1 ?s" by (rule still_put_dispatch [OF p]) (simp_all add: static_dispatch_def)
    have lat: "still s ?s" by (rule still_trans [OF load(2) step])
    have key: "runs (Ok (n + 1, s')) ?P" if s': "kfd_inv s'" "still ?s s'" "completed ?s bs entries n s'"
      "\<forall>q. map_option host_queue (g_queues s' q) = map_option host_queue (g_queues ?s q)" for n s'
    proof -
      have "quiet s' ref" using s'(2) step load(3) False unfolding still_def by blast
      moreover have "\<forall>b \<in> set bs. pb_retirement_dispatch b \<noteq> d" using False by (auto simp: list_ex_iff)
      moreover have "Some d \<notin> set entries" using Cons.prems(4) d by simp
      ultimately have "completed s bs (entry # entries) (n + 1) s'"
        unfolding d by (rule completed_Suc [OF s'(3) load(1) p refl ref(1)])
      moreover have "\<forall>q. map_option host_queue (g_queues s1 q) = map_option host_queue (g_queues s q)"
        using same_heaps_host [OF load(1)] by (simp add: same_heaps_def)
      ultimately show ?thesis using s' still_trans [OF lat s'(2)] by simp
    qed
    have "runs (obind (completed_loop bs entries ?s) (\<lambda>(n, s2). Ok (n + 1, s2))) ?P"
      by (rule runs_pairI [OF IH]) (elim conjE, rule key)
    with False p show ?thesis by (simp add: get_dispatch_def del: runs_obind)
  qed
  show ?case
    unfolding d completed_loop.simps ref(1) obind.simps
    by (rule runs_pairI [OF load_acquire_still [OF ref(2)]]) (elim conjE, rule key [unfolded d])
qed

text \<open>The completed dispatches move to the pool.\<close>

lemma live_recycle:
  assumes "n \<le> length (live_dispatches Q)" and "q_pending_dispatch_head Q \<le> length (q_pending_dispatches Q)"
  shows "live_dispatches (recycle_dispatches n Q) = drop n (live_dispatches Q)"
    and "q_available_dispatches (recycle_dispatches n Q) = q_available_dispatches Q @ map the (take n (live_dispatches Q))"
    and "q_pending_dispatch_head (recycle_dispatches n Q) \<le> length (q_pending_dispatches (recycle_dispatches n Q))"
    and "pending_work (recycle_dispatches n Q) + n = pending_work Q"
  using assms by (auto simp: recycle_dispatches_def live_dispatches_def Let_def pending_work_def min_def add.commute)

lemma recycle_fields [simp]:
  "q_pending_barriers (recycle_dispatches n Q) = q_pending_barriers Q"
  "q_pending_events (recycle_dispatches n Q) = q_pending_events Q"
  "q_kernarg_arenas (recycle_dispatches n Q) = q_kernarg_arenas Q"
  "q_queue (recycle_dispatches n Q) = q_queue Q" "static_queue (recycle_dispatches n Q) = static_queue Q"
  by (simp_all add: recycle_dispatches_def Let_def static_queue_def)

lemma inv_recycle:
  assumes inv: "kfd_inv s" and Q: "g_queues s q = Some Q" and n: "n \<le> length (live_dispatches Q)"
    and pool: "\<And>d. Some d \<in> set (take n (live_dispatches Q)) \<Longrightarrow> pooled_ok (g_dispatches s) d"
    and bar: "\<And>d b. Some d \<in> set (take n (live_dispatches Q)) \<Longrightarrow> b \<in> set (q_pending_barriers Q) \<Longrightarrow> pb_retirement_dispatch b \<noteq> d"
  shows "kfd_inv (put_queue q (recycle_dispatches n Q) s)"
proof -
  have q: "queue_inv (g_events s) (g_dispatches s) (g_next s) q Q"
    using invD(1) [OF inv [unfolded kfd_inv_def] Q] .
  then have head: "q_pending_dispatch_head Q \<le> length (q_pending_dispatches Q)" by (simp add: queue_inv_def)
  note rec = live_recycle [OF n head]
  let ?l = "live_dispatches Q"
  have "mset (owned (recycle_dispatches n Q)) = mset (map the (drop n ?l)) + mset (map the (take n ?l)) + mset (q_available_dispatches Q)"
    by (simp add: owned_def rec)
  also have "\<dots> = mset (map the (take n ?l @ drop n ?l)) + mset (q_available_dispatches Q)" by (simp only: map_append mset_append add.commute)
  also have "\<dots> = mset (owned Q)" by (simp add: owned_def)
  finally have m: "mset (owned (recycle_dispatches n Q)) = mset (owned Q)" .
  have own: "set (owned (recycle_dispatches n Q)) = set (owned Q)" "distinct (owned (recycle_dispatches n Q)) = distinct (owned Q)"
    using m by (metis set_mset_mset) (rule mset_eq_imp_distinct_iff [OF m])
  have bars: "Some (pb_retirement_dispatch b) \<in> set (drop n ?l)" if "b \<in> set (q_pending_barriers Q)" for b
  proof -
    have "Some (pb_retirement_dispatch b) \<in> set (take n ?l @ drop n ?l)" using q that by (simp add: queue_inv_def)
    then show ?thesis using bar [OF _ that] by (auto simp del: append_take_drop_id)
  qed
  have pools: "pooled_ok (g_dispatches s) d" if "d \<in> set (q_available_dispatches (recycle_dispatches n Q))" for d
  proof -
    have "None \<notin> set (take n ?l)" using q set_take_subset [of n ?l] unfolding queue_inv_def by blast
    then have "Some (the x) = x" if "x \<in> set (take n ?l)" for x using that by (cases x) auto
    then have "pooled_ok (g_dispatches s) (the x)" if "x \<in> set (take n ?l)" for x using that pool [of "the x"] by simp
    with that q show ?thesis by (auto simp: rec queue_inv_def)
  qed
  have "state_inv ((g_queues s)(q \<mapsto> recycle_dispatches n Q)) (g_events s) (g_dispatches s) (g_next s)"
  proof (rule inv_put_queue_same [OF inv [unfolded kfd_inv_def] Q])
    show "queue_inv (g_events s) (g_dispatches s) (g_next s) q (recycle_dispatches n Q)"
      using q bars pools own rec(3) in_set_dropD [of None n ?l] unfolding queue_inv_def rec(1) recycle_fields by blast
  qed (simp_all add: own waits_on_def)
  then show ?thesis by (simp add: kfd_inv_def)
qed

text \<open>Replies of the surroundings change nothing else.\<close>

definition same_globals :: "runtime \<Rightarrow> runtime \<Rightarrow> bool" where
  "same_globals s s' \<longleftrightarrow> g_queues s' = g_queues s \<and> g_events s' = g_events s \<and> g_dispatches s' = g_dispatches s \<and>
     g_signals s' = g_signals s \<and> g_next s' = g_next s \<and> g_initialized s' = g_initialized s \<and>
     g_kfd_session s' = g_kfd_session s \<and> g_device_count s' = g_device_count s \<and> g_default_queue s' = g_default_queue s"

lemma same_globals_inv: "same_globals s s' \<Longrightarrow> kfd_inv s' = kfd_inv s"
  by (simp add: same_globals_def kfd_inv_def)

lemma same_globals_signal: "same_globals s s' \<Longrightarrow> signal_at s' ref = signal_at s ref"
  by (cases ref) (simp_all add: same_globals_def get_event_def get_dispatch_def)

lemma same_globals_still:
  "same_globals s s' \<Longrightarrow> w_signals s' = w_signals s \<Longrightarrow> w_queues s' = w_queues s \<Longrightarrow> still s s'"
  using same_globals_signal [of s s'] by (intro stillI) (auto simp: same_globals_def static_def quiet_def completion_of_def)

lemma next_reply:
  "next_allocation s = (b, s') \<Longrightarrow> same_globals s s' \<and> still s s'"
  "next_full s = (c, s') \<Longrightarrow> same_globals s s' \<and> still s s'"
  "next_release s = (d, s') \<Longrightarrow> same_globals s s' \<and> still s s'"
  "next_clock s = (k, s') \<Longrightarrow> same_globals s s' \<and> still s s'"
  "next_memory s = (m, s') \<Longrightarrow> same_globals s s' \<and> still s s'"
  by (auto simp: next_allocation_def next_full_def next_release_def next_clock_def next_memory_def same_globals_def
      intro!: same_globals_still split: list.splits)

text \<open>
  Reaping retires dispatches from the head, only completed ones, and at least one when the queue is
  \<open>ready\<close>. No other queue changes its dispatches.
\<close>

definition oldest_done :: "runtime \<Rightarrow> lr_queue \<Rightarrow> bool" where
  "oldest_done s Q \<longleftrightarrow> (\<exists>d ds ref. live_dispatches Q = Some d # ds \<and> active_completion_signal s d = Ok ref \<and> quiet s ref)"

definition finished :: "runtime \<Rightarrow> nat \<Rightarrow> runtime \<Rightarrow> bool" where
  "finished s d s' \<longleftrightarrow> (\<exists>ref. active_completion_signal s d = Ok ref \<and> quiet s' ref)"

definition reaped :: "bool \<Rightarrow> runtime \<Rightarrow> nat \<Rightarrow> lr_queue \<Rightarrow> lr_status \<Rightarrow> runtime \<Rightarrow> lr_queue \<Rightarrow> bool" where
  "reaped ready s q Q status s' Q' \<longleftrightarrow> q_pending_events Q' = q_pending_events Q \<and>
     (\<forall>q2. q2 \<noteq> q \<longrightarrow> map_option live_dispatches (g_queues s' q2) = map_option live_dispatches (g_queues s q2)) \<and>
     (\<forall>d. active_completion_signal s' d = active_completion_signal s d \<or> Some d \<in> set (live_dispatches Q) \<and> finished s d s') \<and>
     (\<exists>n. live_dispatches Q' = drop n (live_dispatches Q) \<and>
        (\<forall>d. Some d \<in> set (take n (live_dispatches Q)) \<longrightarrow> finished s d s') \<and>
        (status = LR_SUCCESS \<longrightarrow> ready \<longrightarrow> 0 < n))"

lemma completed_reaped:
  assumes "completed s bs (live_dispatches Q) n s2" and "still s2 s'" and "\<And>d. active_completion_signal s' d = active_completion_signal s2 d"
    and "live_dispatches Q' = drop k (live_dispatches Q)" and "q_pending_events Q' = q_pending_events Q"
    and "k = n \<or> k = 0 \<and> status \<noteq> LR_SUCCESS"
    and "\<And>q2. q2 \<noteq> q \<Longrightarrow> map_option live_dispatches (g_queues s' q2) = map_option live_dispatches (g_queues s q2)"
  shows "reaped (oldest_done s Q \<and> (\<forall>b \<in> set bs. Some (pb_retirement_dispatch b) \<noteq> hd (live_dispatches Q))) s q Q status s' Q'"
proof -
  have quiet: "quiet s' ref" if "quiet s2 ref" for ref using that assms(2) by (simp add: still_def)
  have fin: "finished s d s'" if "Some d \<in> set (take n (live_dispatches Q))" for d
    using that assms(1) quiet by (auto simp: completed_def finished_def)
  have "active_completion_signal s' d = active_completion_signal s d \<or> Some d \<in> set (live_dispatches Q) \<and> finished s d s'" for d
    using assms(1,3) fin [of d] by (cases "Some d \<in> set (take n (live_dispatches Q))") (auto simp: completed_def dest: in_set_takeD)
  moreover have "0 < n" if "oldest_done s Q" "\<forall>b \<in> set bs. Some (pb_retirement_dispatch b) \<noteq> hd (live_dispatches Q)"
    using that assms(1) by (auto simp: completed_def oldest_done_def)
  ultimately show ?thesis
    unfolding reaped_def using assms(4-7) fin by (intro conjI) (auto intro!: exI [of _ k])
qed

lemma live_host: "map_option host_queue (g_queues s' q) = map_option host_queue (g_queues s q) \<Longrightarrow>
    map_option live_dispatches (g_queues s' q) = map_option live_dispatches (g_queues s q)"
  by (cases "g_queues s' q"; cases "g_queues s q") (auto dest: arg_cong [of _ _ live_dispatches])

lemma reap_tail_runs:
  assumes inv: "kfd_inv s2" and lat: "still s s2" and Q: "g_queues s q = Some Q"
    and queues: "\<forall>q. map_option host_queue (g_queues s2 q) = map_option host_queue (g_queues s q)"
    and comp: "completed s (q_pending_barriers Q) (live_dispatches Q) n s2"
  shows "runs (if n = 0 then Ok (LR_SUCCESS, s2) else case next_allocation s2 of
       (False, s3) \<Rightarrow> Ok (LR_ERROR_RUNTIME, s3)
     | (True, s3) \<Rightarrow> obind (get_queue s3 q) (\<lambda>queue3. Ok (LR_SUCCESS, put_queue q (recycle_dispatches n queue3) s3)))
     (\<lambda>(status, s'). kfd_inv s' \<and> still s s' \<and> (\<exists>Q'. g_queues s' q = Some Q' \<and>
        reaped (oldest_done s Q \<and> (\<forall>b \<in> set (q_pending_barriers Q). Some (pb_retirement_dispatch b) \<noteq> hd (live_dispatches Q))) s q Q status s' Q'))"
proof -
  have "map_option host_queue (g_queues s2 q) = Some (host_queue Q)" using queues Q by simp
  then obtain Q2 where Q2: "g_queues s2 q = Some Q2" "host_queue Q2 = host_queue Q" by auto
  have live: "live_dispatches Q2 = live_dispatches Q" "q_pending_events Q2 = q_pending_events Q"
    "q_pending_barriers Q2 = q_pending_barriers Q"
    using arg_cong [OF Q2(2), of live_dispatches] arg_cong [OF Q2(2), of q_pending_events]
      arg_cong [OF Q2(2), of q_pending_barriers] by simp_all
  have others: "map_option live_dispatches (g_queues s2 q2) = map_option live_dispatches (g_queues s q2)" for q2
    by (rule live_host) (use queues in simp)
  obtain b s3 where b: "next_allocation s2 = (b, s3)" by (cases "next_allocation s2")
  note reply = next_reply(1) [OF b]
  have s3: "g_queues s3 = g_queues s2" "kfd_inv s3" "g_dispatches s3 = g_dispatches s2" "still s s3" "still s2 s3"
    using reply inv same_globals_inv [of s2 s3] still_trans [OF lat] by (auto simp: same_globals_def)
  then have Q3: "g_queues s3 q = Some Q2" using Q2(1) by simp
  have act: "active_completion_signal s3 d = active_completion_signal s2 d" for d
    by (simp add: active_completion_signal_def get_dispatch_def s3(3))
  have n: "n \<le> length (live_dispatches Q2)" using comp by (simp add: completed_def live)
  let ?s = "put_queue q (recycle_dispatches n Q2) s3"
  have "kfd_inv ?s"
    by (rule inv_recycle [OF s3(2) Q3 n]) (use comp in \<open>auto simp: completed_def live s3(3)\<close>)
  moreover have step: "still s3 ?s" by (rule still_put_queue [OF Q3]) simp_all
  moreover have "reaped (oldest_done s Q \<and> (\<forall>b \<in> set (q_pending_barriers Q). Some (pb_retirement_dispatch b) \<noteq> hd (live_dispatches Q)))
      s q Q LR_SUCCESS ?s (recycle_dispatches n Q2)"
    using n invD(1) [OF inv [unfolded kfd_inv_def] Q2(1)] others act s3(1)
    by (intro completed_reaped [OF comp still_trans [OF s3(5) step], of _ n]) (auto simp: live_recycle queue_inv_def live)
  moreover have "reaped (oldest_done s Q \<and> (\<forall>b \<in> set (q_pending_barriers Q). Some (pb_retirement_dispatch b) \<noteq> hd (live_dispatches Q)))
      s q Q LR_ERROR_RUNTIME s3 Q2"
    using others act s3(1) by (intro completed_reaped [OF comp s3(5), of _ 0]) (auto simp: live)
  moreover have "reaped (oldest_done s Q \<and> (\<forall>b \<in> set (q_pending_barriers Q). Some (pb_retirement_dispatch b) \<noteq> hd (live_dispatches Q)))
      s q Q LR_SUCCESS s2 Q2" if "n = 0"
    using others by (intro completed_reaped [OF comp still_refl, of _ 0]) (auto simp: live that)
  ultimately show ?thesis using b Q2(1) Q3 s3 inv lat still_trans [OF s3(4) step]
    by (auto simp: get_queue_def split: bool.splits)
qed

lemma reap_rest_runs:
  assumes inv: "kfd_inv s" and Q: "g_queues s q = Some Q"
  shows "runs (obind (completed_loop (q_pending_barriers Q) (live_dispatches Q) s) (\<lambda>(n, s2).
     if n = 0 then Ok (LR_SUCCESS, s2)
     else case next_allocation s2 of
       (False, s3) \<Rightarrow> Ok (LR_ERROR_RUNTIME, s3)
     | (True, s3) \<Rightarrow> obind (get_queue s3 q) (\<lambda>queue3. Ok (LR_SUCCESS, put_queue q (recycle_dispatches n queue3) s3))))
     (\<lambda>(status, s'). kfd_inv s' \<and> still s s' \<and> (\<exists>Q'. g_queues s' q = Some Q' \<and>
        reaped (oldest_done s Q \<and> (\<forall>b \<in> set (q_pending_barriers Q). Some (pb_retirement_dispatch b) \<noteq> hd (live_dispatches Q))) s q Q status s' Q'))"
proof -
  have "distinct (live_dispatches Q)"
    using invD(1) [OF inv [unfolded kfd_inv_def] Q] by (auto simp: queue_inv_def owned_def distinct_map)
  note loop = completed_loop_runs [OF inv Q subset_refl this, of "q_pending_barriers Q"]
  show ?thesis by (rule runs_pairI [OF loop]) (elim conjE, rule reap_tail_runs [OF _ _ Q])
qed

section \<open>Steps of the bookkeeping\<close>

text \<open>
  The relation of every bookkeeping step: it is \<open>still\<close>, dispatches leave a queue from its head only,
  and a dispatch leaves, or stops watching its signal, only when that signal is finished.
\<close>

definition later :: "runtime \<Rightarrow> runtime \<Rightarrow> bool" where
  "later s s' \<longleftrightarrow> still s s' \<and> (\<forall>q Q Q'. g_queues s q = Some Q \<longrightarrow> g_queues s' q = Some Q' \<longrightarrow>
     (\<exists>n. live_dispatches Q' = drop n (live_dispatches Q)) \<and>
     (\<forall>d. Some d \<in> set (live_dispatches Q) \<longrightarrow> finished s d s' \<or>
        Some d \<in> set (live_dispatches Q') \<and> active_completion_signal s' d = active_completion_signal s d))"

lemma later_still: "later s s' \<Longrightarrow> still s s'"
  by (simp add: later_def)

lemma laterD:
  assumes "later s s'"
  shows "static s' = static s" and "quiet s ref \<Longrightarrow> quiet s' ref"
    and "g_queues s q = Some Q \<Longrightarrow> g_queues s' q = Some Q' \<Longrightarrow> advanced (q_queue Q) (q_queue Q')"
    and "g_events s e = Some ev \<Longrightarrow> g_events s' e = Some ev' \<Longrightarrow> ev_pending ev' \<Longrightarrow> ev_pending ev"
  using assms unfolding later_def still_def by blast+

lemma laterI:
  assumes "still s s'" and "\<And>q. map_option live_dispatches (g_queues s' q) = map_option live_dispatches (g_queues s q)"
    and "\<And>d. active_completion_signal s' d = active_completion_signal s d"
  shows "later s s'"
  unfolding later_def
proof (intro conjI allI impI)
  fix q Q Q' assume q: "g_queues s q = Some Q" "g_queues s' q = Some Q'"
  have live: "live_dispatches Q' = live_dispatches Q" using assms(2) [of q] q by simp
  then show "\<exists>n. live_dispatches Q' = drop n (live_dispatches Q)" by (intro exI [of _ 0]) simp
  fix d assume "Some d \<in> set (live_dispatches Q)"
  with live show "finished s d s' \<or> Some d \<in> set (live_dispatches Q') \<and> active_completion_signal s' d = active_completion_signal s d"
    using assms(3) by simp
qed (rule assms(1))

lemma later_refl [simp]: "later s s"
  by (rule laterI) simp_all

lemma finished_mono: "finished s d s1 \<Longrightarrow> still s1 s2 \<Longrightarrow> finished s d s2"
  by (auto simp: finished_def still_def)

lemma later_trans [trans]:
  assumes "later s s1" and "later s1 s2"
  shows "later s s2"
  unfolding later_def
proof (intro conjI allI impI)
  show "still s s2" using assms still_trans unfolding later_def by blast
  fix q Q Q2 assume q: "g_queues s q = Some Q" "g_queues s2 q = Some Q2"
  from static_dom(1) [OF laterD(1) [OF assms(1)], of q] q(1) obtain Q1 where Q1: "g_queues s1 q = Some Q1" by auto
  from assms(1) q(1) Q1 obtain m where m: "live_dispatches Q1 = drop m (live_dispatches Q)" unfolding later_def by blast
  from assms(2) q(2) Q1 obtain n where n: "live_dispatches Q2 = drop n (live_dispatches Q1)" unfolding later_def by blast
  show "\<exists>n. live_dispatches Q2 = drop n (live_dispatches Q)" using m n by (intro exI [of _ "n + m"]) (simp add: add.commute)
  fix d assume d: "Some d \<in> set (live_dispatches Q)"
  consider "finished s d s1" | "Some d \<in> set (live_dispatches Q1)" "active_completion_signal s1 d = active_completion_signal s d"
    using assms(1) q(1) Q1 d unfolding later_def by blast
  then show "finished s d s2 \<or> Some d \<in> set (live_dispatches Q2) \<and> active_completion_signal s2 d = active_completion_signal s d"
  proof cases
    case 1
    then show ?thesis using finished_mono later_still [OF assms(2)] by blast
  next
    case 2
    then have "finished s1 d s2 \<or> Some d \<in> set (live_dispatches Q2) \<and> active_completion_signal s2 d = active_completion_signal s1 d"
      using assms(2) q(2) Q1 unfolding later_def by blast
    with 2(2) show ?thesis by (simp add: finished_def)
  qed
qed

lemma later_host: "host s' = host s \<Longrightarrow> still s s' \<Longrightarrow> later s s'"
  using same_heaps_host [of s' s] same_heaps_active [of s s']
  by (intro laterI) (auto intro!: live_host simp: same_heaps_def)

lemma later_device_step: "later s (device_step s)"
  by (rule later_host) (simp_all add: still_device_step)

lemma load_acquire_runs:
  "armed s ref \<Longrightarrow> runs (load_acquire ref s) (\<lambda>(v, s'). host s' = host s \<and> later s s' \<and> (v = 0 \<longleftrightarrow> quiet s' ref))"
  using load_acquire_still by (rule runs_weaken) (auto intro: later_host)

lemma later_put_queue:
  assumes "g_queues s q = Some Q" and "static_queue Q' = static_queue Q" and "q_queue Q' = q_queue Q"
    and "live_dispatches Q' = live_dispatches Q"
  shows "later s (put_queue q Q' s)"
  using assms by (intro laterI still_put_queue) auto

lemma later_put_event:
  assumes "g_events s e = Some ev" and "static_event ev' = static_event ev"
    and "us_value (ev_signal ev') = us_value (ev_signal ev)" and "ev_pending ev' \<Longrightarrow> ev_pending ev"
  shows "later s (put_event e ev' s)"
  using assms
  by (intro laterI still_put_event) (auto simp: active_completion_signal_def get_dispatch_def)

lemma same_globals_later:
  "same_globals s s' \<Longrightarrow> w_signals s' = w_signals s \<Longrightarrow> w_queues s' = w_queues s \<Longrightarrow> later s s'"
  by (intro laterI same_globals_still) (auto simp: same_globals_def active_completion_signal_def get_dispatch_def)

lemma next_reply_later:
  "next_allocation s = (b, s') \<Longrightarrow> same_globals s s' \<and> later s s'"
  "next_full s = (c, s') \<Longrightarrow> same_globals s s' \<and> later s s'"
  "next_release s = (d, s') \<Longrightarrow> same_globals s s' \<and> later s s'"
  "next_clock s = (k, s') \<Longrightarrow> same_globals s s' \<and> later s s'"
  "next_memory s = (m, s') \<Longrightarrow> same_globals s s' \<and> later s s'"
  using next_reply(1) [of s b s'] next_reply(2) [of s c s'] next_reply(3) [of s d s'] next_reply(4) [of s k s'] next_reply(5) [of s m s']
  by (auto intro!: laterI simp: same_globals_def active_completion_signal_def get_dispatch_def)

lemma reaped_later:
  assumes "reaped ready s q Q status s' Q'" and "still s s'" and "g_queues s q = Some Q" and "g_queues s' q = Some Q'"
  shows "later s s'"
  unfolding later_def
proof (intro conjI allI impI)
  from assms(1) obtain n where n: "live_dispatches Q' = drop n (live_dispatches Q)"
    "\<And>d. Some d \<in> set (take n (live_dispatches Q)) \<Longrightarrow> finished s d s'" by (auto simp: reaped_def)
  fix q2 Q2 Q2' assume q2: "g_queues s q2 = Some Q2" "g_queues s' q2 = Some Q2'"
  have live: "live_dispatches Q2' = live_dispatches Q2" if "q2 \<noteq> q"
    using assms(1) that q2 unfolding reaped_def by (metis option.map(2) option.inject)
  show "\<exists>n. live_dispatches Q2' = drop n (live_dispatches Q2)"
    using live n(1) q2 assms(3,4) by (cases "q2 = q") (auto intro: exI [of _ 0])
  fix d assume d: "Some d \<in> set (live_dispatches Q2)"
  have act: "active_completion_signal s' d = active_completion_signal s d \<or> finished s d s'"
    using assms(1) by (auto simp: reaped_def)
  show "finished s d s' \<or> Some d \<in> set (live_dispatches Q2') \<and> active_completion_signal s' d = active_completion_signal s d"
  proof (cases "q2 = q")
    case True
    then have "Some d \<in> set (take n (live_dispatches Q) @ drop n (live_dispatches Q))" using d q2(1) assms(3) by simp
    then show ?thesis using n act True q2(2) assms(4) by (auto simp del: append_take_drop_id)
  qed (use live d act in auto)
qed (rule assms(2))

lemma reap_dispatches_runs:
  assumes inv: "kfd_inv s" and Q: "g_queues s q = Some Q"
  shows "runs (reap_direct_kfd_dispatches_locked q s) (\<lambda>(status, s'). kfd_inv s' \<and> later s s' \<and>
    (\<exists>Q'. g_queues s' q = Some Q' \<and> reaped (oldest_done s Q) s q Q status s' Q'))" (is "runs _ ?P")
proof -
  have main: "runs (obind (get_queue s1 q) (\<lambda>queue.
     obind (completed_loop (q_pending_barriers queue) (drop (q_pending_dispatch_head queue) (q_pending_dispatches queue)) s1) (\<lambda>(n, s2).
     if n = 0 then Ok (LR_SUCCESS, s2)
     else case next_allocation s2 of
       (False, s3) \<Rightarrow> Ok (LR_ERROR_RUNTIME, s3)
     | (True, s3) \<Rightarrow> obind (get_queue s3 q) (\<lambda>queue3. Ok (LR_SUCCESS, put_queue q (recycle_dispatches n queue3) s3))))) ?P"
    if s1: "kfd_inv s1" "still s s1" "g_queues s1 q = Some Q1" "host_queue Q1 = with_barriers (host_queue Q) (q_pending_barriers Q1)"
      "barriers_reaped 0 s (q_pending_barriers Q) s1 (q_pending_barriers Q1)"
      "\<forall>d. map_option host_dispatch (g_dispatches s1 d) = map_option host_dispatch (g_dispatches s d)"
      "\<forall>q2. q2 \<noteq> q \<longrightarrow> map_option host_queue (g_queues s1 q2) = map_option host_queue (g_queues s q2)" for s1 Q1
  proof -
    have live: "live_dispatches Q1 = live_dispatches Q" "q_pending_events Q1 = q_pending_events Q"
      using arg_cong [OF s1(4), of live_dispatches] arg_cong [OF s1(4), of q_pending_events] by simp_all
    have act: "active_completion_signal s1 d = active_completion_signal s d" for d by (rule active_cong) (use s1(6) in simp)
    have ready: "oldest_done s1 Q1 \<and> (\<forall>b \<in> set (q_pending_barriers Q1). Some (pb_retirement_dispatch b) \<noteq> hd (live_dispatches Q1))"
      if done_: "oldest_done s Q"
    proof -
      from done_ obtain d ds ref where d: "live_dispatches Q = Some d # ds"
        "active_completion_signal s d = Ok ref" "quiet s ref" by (auto simp: oldest_done_def)
      moreover have "quiet s1 ref" using d(3) s1(2) unfolding still_def by blast
      ultimately show ?thesis using barriers_reapedD(3) [OF s1(5) d(2,3)] by (auto simp: oldest_done_def live act)
    qed
    have others: "map_option live_dispatches (g_queues s1 q2) = map_option live_dispatches (g_queues s q2)" if "q2 \<noteq> q" for q2
      by (rule live_host) (use s1(7) that in simp)
    have "reaped (oldest_done s Q) s q Q status s' Q'"
      if "reaped (oldest_done s1 Q1 \<and> (\<forall>b \<in> set (q_pending_barriers Q1). Some (pb_retirement_dispatch b) \<noteq> hd (live_dispatches Q1)))
        s1 q Q1 status s' Q'" for status s' Q'
      using that ready others unfolding reaped_def live act finished_def by auto
    then show ?thesis
      using reap_rest_runs [OF s1(1,3)] s1(3) reaped_later [OF _ _ Q] still_trans [OF s1(2)]
      unfolding get_queue_def [of s1 q] s1(3) option.case obind.simps live_dispatches_def [symmetric]
      by (elim runs_weaken) blast
  qed
  show ?thesis
    unfolding reap_direct_kfd_dispatches_locked_def
    by (rule runs_obindI [OF reap_barriers_runs [OF assms]]) (elim conjE exE, rule main)
qed

end
