(* ===== verification/DirectKfdWait.thy ===== *)
theory DirectKfdWait
  imports DirectKfdRetire
begin

text \<open>
  Events, waiting, synchronisation and the search for room keep the invariant and stay within their
  loop bounds.
\<close>

section \<open>Events\<close>

lemma inv_host: "kfd_inv s \<Longrightarrow> host s' = host s \<Longrightarrow> kfd_inv s'"
  by (metis kfd_inv_host)

text \<open>A queue and an event change together.\<close>

lemma inv_queue_event:
  assumes inv: "state_inv qs es ds n" and Q: "qs q = Some Q" and ev: "es e = Some ev"
    and queue: "queue_inv (es(e \<mapsto> ev')) ds n q Q'" and own: "set (owned Q') \<subseteq> set (owned Q)"
    and waits: "\<And>x. es x \<noteq> None \<Longrightarrow> waits_on Q' x = waits_on Q x"
    and event: "event_inv (qs(q \<mapsto> Q')) n e ev'"
    and others: "\<And>x. x \<noteq> e \<Longrightarrow> x \<in> set (q_pending_events Q) \<Longrightarrow> x \<in> set (q_pending_events Q')"
    and elsewhere: "\<And>q2. q2 \<noteq> q \<Longrightarrow> \<not> recorded_on es q2 e"
  shows "state_inv (qs(q \<mapsto> Q')) (es(e \<mapsto> ev')) ds n"
proof -
  have dom: "(es(e \<mapsto> ev')) x \<noteq> None \<longleftrightarrow> es x \<noteq> None" for x using ev by auto
  have "queue_inv (es(e \<mapsto> ev')) ds n q2 Q2" if q2: "(qs(q \<mapsto> Q')) q2 = Some Q2" for q2 Q2
  proof (cases "q2 = q")
    case False
    with q2 have i: "queue_inv es ds n q2 Q2" using invD(1) [OF inv] by simp
    have "recorded_on (es(e \<mapsto> ev')) q2 x" if "recorded_on es q2 x" for x
      using that elsewhere [OF False] by (cases "x = e") (auto simp: recorded_on_def)
    then show ?thesis using i unfolding queue_inv_def dispatch_ok_def dom by blast
  qed (use q2 queue in simp)
  moreover have "event_inv (qs(q \<mapsto> Q')) n x y" if xy: "(es(e \<mapsto> ev')) x = Some y" for x y
  proof (cases "x = e")
    case False
    with xy have x: "es x = Some y" by simp
    have "\<exists>q2 Q2. ev_recorded_queue y = Some q2 \<and> (qs(q \<mapsto> Q')) q2 = Some Q2 \<and> x \<in> set (q_pending_events Q2)"
      if "ev_pending y"
    proof -
      from that invD(2) [OF inv x] obtain q2 Q2 where "ev_recorded_queue y = Some q2" "qs q2 = Some Q2" "x \<in> set (q_pending_events Q2)"
        by (auto simp: event_inv_def)
      with others [OF False] Q show ?thesis by (cases "q2 = q") auto
    qed
    then show ?thesis using invD(2) [OF inv x] waits [of x] x Q by (auto simp: event_inv_def)
  qed (use xy event in simp)
  moreover have "set (owned Q1) \<inter> set (owned Q2) = {}"
    if "(qs(q \<mapsto> Q')) q1 = Some Q1" "(qs(q \<mapsto> Q')) q2 = Some Q2" "q1 \<noteq> q2" for q1 q2 Q1 Q2
    using that own invD(3) [OF inv, of q Q q2 Q2] invD(3) [OF inv, of q1 Q1 q Q] invD(3) [OF inv, of q1 Q1 q2 Q2] Q
    by (cases "q1 = q"; cases "q2 = q") auto
  ultimately show ?thesis unfolding state_inv_def by blast
qed

lemma remove_pending_event:
  assumes "distinct xs" and "e \<in> set xs"
  shows "set (remove_direct_kfd_pending_event e xs) = set xs - {e}" and "distinct (remove_direct_kfd_pending_event e xs)"
    and "length (remove_direct_kfd_pending_event e xs) < length xs"
proof -
  obtain i where i: "find_index (\<lambda>x. x = e) xs = Some i"
    using assms(2) find_index_None [of "\<lambda>x. x = e" xs] by (cases "find_index (\<lambda>x. x = e) xs") auto
  note at = find_index_Some [OF i]
  then have "set xs = insert e (set (swap_remove i xs))" "distinct (swap_remove i xs) \<and> e \<notin> set (swap_remove i xs)"
    using set_swap_remove [of i xs] distinct_swap_remove [of i xs] assms(1) by auto
  then show "set (remove_direct_kfd_pending_event e xs) = set xs - {e}" "distinct (remove_direct_kfd_pending_event e xs)"
    "length (remove_direct_kfd_pending_event e xs) < length xs"
    using i at by (auto simp: remove_direct_kfd_pending_event_def)
qed

text \<open>The work left at a queue.\<close>

definition live_count :: "runtime \<Rightarrow> nat \<Rightarrow> nat" where
  "live_count s q = (case g_queues s q of None \<Rightarrow> 0 | Some Q \<Rightarrow> length (live_dispatches Q))"

definition event_count :: "runtime \<Rightarrow> nat \<Rightarrow> nat" where
  "event_count s q = (case g_queues s q of None \<Rightarrow> 0 | Some Q \<Rightarrow> length (q_pending_events Q))"

lemma count_cong:
  assumes "map_option host_queue (g_queues s' q) = map_option host_queue (g_queues s q)"
  shows "live_count s' q = live_count s q" and "event_count s' q = event_count s q"
  using assms by (auto simp: live_count_def event_count_def map_option_eq_Some split: option.splits)
    (metis host_owned(1) host_fields)+

text \<open>What an event step does to the queues: no dispatch moves, and the event leaves its queue.\<close>

definition event_gone :: "runtime \<Rightarrow> nat option \<Rightarrow> runtime \<Rightarrow> bool" where
  "event_gone s recorded s' \<longleftrightarrow> (\<forall>q. live_count s' q = live_count s q \<and> event_count s' q \<le> event_count s q \<and>
     (recorded = Some q \<longrightarrow> event_count s' q < event_count s q))"

lemma event_gone_refl [simp]: "event_gone s None s"
  by (simp add: event_gone_def)

lemma forget_runs:
  assumes inv: "kfd_inv s" and ev: "g_events s e = Some ev" and pend: "ev_pending ev"
  shows "runs (forget_pending_event e s) (\<lambda>s'. kfd_inv s' \<and> later s s' \<and> event_gone s (ev_recorded_queue ev) s' \<and>
    g_events s' = (g_events s)(e \<mapsto> ev\<lparr>ev_recorded_queue := None, ev_pending := False\<rparr>))"
proof -
  note si = inv [unfolded kfd_inv_def]
  from invD(2) [OF si ev] pend obtain q Q where q: "ev_recorded_queue ev = Some q" "g_queues s q = Some Q" "e \<in> set (q_pending_events Q)"
    by (auto simp: event_inv_def)
  have Q: "queue_inv (g_events s) (g_dispatches s) (g_next s) q Q" using invD(1) [OF si q(2)] .
  then have dis: "distinct (q_pending_events Q)" by (simp add: queue_inv_def)
  let ?Q = "Q\<lparr>q_pending_events := remove_direct_kfd_pending_event e (q_pending_events Q)\<rparr>"
  let ?ev = "ev\<lparr>ev_recorded_queue := None, ev_pending := False\<rparr>"
  note rem = remove_pending_event [OF dis q(3)]
  have own: "live_dispatches ?Q = live_dispatches Q" "owned ?Q = owned Q" by (simp_all add: owned_def live_dispatches_def)
  have dom: "((g_events s)(e \<mapsto> ?ev)) x \<noteq> None \<longleftrightarrow> g_events s x \<noteq> None" for x using ev by auto
  have "queue_inv ((g_events s)(e \<mapsto> ?ev)) (g_dispatches s) (g_next s) q ?Q"
    using Q rem unfolding queue_inv_def dispatch_ok_def dom own by (simp add: recorded_on_def)
  moreover have "event_inv ((g_queues s)(q \<mapsto> ?Q)) (g_next s) e ?ev"
    using invD(2) [OF si ev] q(2) by (auto simp: event_inv_def waits_on_def)
  ultimately have "state_inv ((g_queues s)(q \<mapsto> ?Q)) ((g_events s)(e \<mapsto> ?ev)) (g_dispatches s) (g_next s)"
    using ev q(1) rem(1) by (intro inv_queue_event [where e = e, OF si q(2) ev]) (auto simp: own waits_on_def recorded_on_def)
  moreover have "later s (put_event e ?ev ((put_queue q ?Q s)\<lparr>g_device_events := k\<rparr>))" for k
  proof -
    have "later s (put_queue q ?Q s)" by (rule later_put_queue [OF q(2)]) (simp_all add: static_queue_def live_dispatches_def)
    also have "later (put_queue q ?Q s) (put_event e ?ev (put_queue q ?Q s))"
      using ev by (intro later_put_event [where ev = ev]) (simp_all add: static_event_def)
    also have "later (put_event e ?ev (put_queue q ?Q s)) (put_event e ?ev ((put_queue q ?Q s)\<lparr>g_device_events := k\<rparr>))"
      by (rule same_globals_later) (simp_all add: same_globals_def put_event_def put_queue_def)
    finally show ?thesis .
  qed
  moreover have "event_gone s (Some q) (put_event e ?ev ((put_queue q ?Q s)\<lparr>g_device_events := k\<rparr>))" for k
    using q(2) rem(3) by (auto simp: event_gone_def live_count_def event_count_def own)
  ultimately show ?thesis
    using ev q(1,2)
    by (simp add: forget_pending_event_def get_event_def get_queue_def kfd_inv_def)
qed

text \<open>A change of an event that is not recorded and stays so.\<close>

lemma inv_put_idle_event:
  assumes "kfd_inv s" and "g_events s e = Some ev" and "\<not> ev_pending ev" and "\<not> ev_pending ev'"
    and "static_event ev' = static_event ev" and "ev_dependency_count ev' = ev_dependency_count ev"
    and "ev_dependency_queues ev' = ev_dependency_queues ev"
    and "\<And>bs. ev_pageable_copy_staging ev' = Some bs \<Longrightarrow> ev_pageable_copy_size ev' \<le> length bs"
  shows "kfd_inv (put_event e ev' s)"
proof -
  have page: "us_page (ev_signal ev') = us_page (ev_signal ev)"
    using assms(5) by (metis Pair_inject host_fields(1) static_event_def)
  have "event_inv (g_queues s) (g_next s) e ev'"
    using invD(2) [OF assms(1) [unfolded kfd_inv_def] assms(2)] assms(4,6-8) page by (simp add: event_inv_def)
  then show ?thesis
    using inv_put_event [where e = e, OF assms(1) [unfolded kfd_inv_def] assms(2)] assms(2,3)
    by (simp add: kfd_inv_def recorded_on_def)
qed

lemma pageable_runs:
  assumes inv: "kfd_inv s" and ev: "g_events s e = Some ev" and "\<not> ev_pending ev"
  shows "runs (finish_pageable_copy e s) (\<lambda>(status, s'). kfd_inv s' \<and> later s s' \<and> g_queues s' = g_queues s \<and>
    (\<exists>ev'. g_events s' e = Some ev' \<and> \<not> ev_pending ev'))"
proof (cases "ev_pageable_copy_staging ev")
  case None
  with assms show ?thesis by (simp add: finish_pageable_copy_def get_event_def)
next
  case (Some staging)
  have size: "ev_pageable_copy_size ev \<le> length staging"
    using invD(2) [OF inv [unfolded kfd_inv_def] ev] Some by (simp add: event_inv_def)
  let ?ev = "ev\<lparr>ev_pageable_copy_staging := None, ev_pageable_copy_destination := None, ev_pageable_copy_size := 0\<rparr>"
  have put: "kfd_inv (put_event e ?ev s2) \<and> later s (put_event e ?ev s2) \<and> g_queues s2 = g_queues s"
    if s2: "same_globals s s2" "later s s2" for s2
  proof -
    have ev2: "g_events s2 e = Some ev" using s2(1) ev by (simp add: same_globals_def)
    have "kfd_inv s2" using inv same_globals_inv [OF s2(1)] by simp
    from inv_put_idle_event [OF this ev2 assms(3), of ?ev] have "kfd_inv (put_event e ?ev s2)"
      using assms(3) by (simp add: static_event_def)
    moreover have "later s2 (put_event e ?ev s2)" by (rule later_put_event [OF ev2]) (simp_all add: static_event_def)
    ultimately show ?thesis using later_trans [OF s2(2)] s2(1) by (simp add: same_globals_def)
  qed
  have copy: "same_globals s (s\<lparr>g_host_memory := m\<rparr>) \<and> later s (s\<lparr>g_host_memory := m\<rparr>)" for m
    by (simp add: same_globals_def same_globals_later)
  have fin: "runs (case next_release s1 of (released, s2) \<Rightarrow>
       Ok (if released then LR_SUCCESS else LR_ERROR_RUNTIME, put_event e ?ev s2))
     (\<lambda>(status, s'). kfd_inv s' \<and> later s s' \<and> g_queues s' = g_queues s \<and> (\<exists>ev'. g_events s' e = Some ev' \<and> \<not> ev_pending ev'))"
    if s1: "same_globals s s1" "later s s1" for s1
  proof -
    obtain b s2 where b: "next_release s1 = (b, s2)" by (cases "next_release s1")
    have "same_globals s s2" "later s s2"
      using next_reply_later(3) [OF b] s1 later_trans [OF s1(2)] by (auto simp: same_globals_def)
    from put [OF this] show ?thesis using assms(3) by (simp add: b)
  qed
  show ?thesis
    using Some size ev fin [OF conjunct1 [OF copy] conjunct2 [OF copy]] fin [of s]
    by (auto simp: finish_pageable_copy_def get_event_def same_globals_def split: option.splits)
qed

lemma stamp_event_fields [simp]:
  "ev_pending (stamp_event clock t u result ev) = ev_pending ev"
  "ev_dependency_count (stamp_event clock t u result ev) = ev_dependency_count ev"
  "ev_dependency_queues (stamp_event clock t u result ev) = ev_dependency_queues ev"
  "ev_pageable_copy_staging (stamp_event clock t u result ev) = ev_pageable_copy_staging ev"
  "ev_pageable_copy_size (stamp_event clock t u result ev) = ev_pageable_copy_size ev"
  "ev_signal (stamp_event clock t u result ev) = ev_signal ev"
  "static_event (stamp_event clock t u result ev) = static_event ev"
  by (simp_all add: stamp_event_def Let_def static_event_def split: option.splits)

lemma finish_tail_runs:
  assumes inv: "kfd_inv s" and ev: "g_events s e = Some ev" and pend: "ev_pending ev"
  shows "runs (obind (forget_pending_event e s) (\<lambda>s3.
       obind (finish_pageable_copy e s3) (\<lambda>(result, s4).
       obind (get_event s4 e) (\<lambda>event4.
       Ok (result, put_event e (stamp_event clock t u result event4) s4)))))
     (\<lambda>(status, s'). kfd_inv s' \<and> later s s' \<and> event_gone s (ev_recorded_queue ev) s')" (is "runs _ ?P")
proof -
  let ?ev = "ev\<lparr>ev_recorded_queue := None, ev_pending := False\<rparr>"
  have copy: "runs (obind (finish_pageable_copy e s3) (\<lambda>(result, s4). obind (get_event s4 e) (\<lambda>event4.
       Ok (result, put_event e (stamp_event clock t u result event4) s4)))) ?P"
    if s3: "kfd_inv s3" "later s s3" "event_gone s (ev_recorded_queue ev) s3" "g_events s3 e = Some ?ev" for s3
  proof -
    have stamp: "runs (obind (get_event s4 e) (\<lambda>event4. Ok (result, put_event e (stamp_event clock t u result event4) s4))) ?P"
      if s4: "kfd_inv s4" "later s3 s4" "g_queues s4 = g_queues s3" "g_events s4 e = Some ev4" "\<not> ev_pending ev4" for s4 ev4 result
    proof -
      let ?s = "put_event e (stamp_event clock t u result ev4) s4"
      have "kfd_inv ?s"
        using invD(2) [OF s4(1) [unfolded kfd_inv_def] s4(4)] s4(5)
        by (intro inv_put_idle_event [OF s4(1,4,5)]) (simp_all add: event_inv_def)
      moreover have "later s4 ?s" by (rule later_put_event [OF s4(4)]) simp_all
      with s3(2) s4(2) have "later s ?s" by (blast intro: later_trans)
      moreover have "event_gone s (ev_recorded_queue ev) ?s"
        using s3(3) s4(3) by (simp add: event_gone_def live_count_def event_count_def)
      ultimately show ?thesis using s4(4) by (simp add: get_event_def)
    qed
    show ?thesis
      by (rule runs_pairI [OF pageable_runs [OF s3(1,4)]]) (simp, elim conjE exE, rule stamp)
  qed
  show ?thesis
    by (rule runs_obindI [OF forget_runs [OF assms]]) (elim conjE, rule copy, simp_all)
qed

lemma finish_event_runs:
  assumes inv: "kfd_inv s" and ev: "g_events s e = Some ev"
  shows "runs (finish_direct_kfd_event_wait_locked e s) (\<lambda>(status, s'). kfd_inv s' \<and> later s s' \<and>
    event_gone s (if ev_pending ev \<and> status = LR_SUCCESS then ev_recorded_queue ev else None) s')"
    (is "runs _ ?P")
proof (cases "ev_pending ev")
  case False
  with assms show ?thesis by (simp add: finish_direct_kfd_event_wait_locked_def get_event_def)
next
  case True
  have rest: "runs (if v \<noteq> 0 \<or> \<not> g_kfd_session s1 \<or> g_device_count s1 \<le> ev_device ev then Ok (LR_ERROR_RUNTIME, s1)
     else case next_clock s1 of (clock, s2) \<Rightarrow>
       obind (signal_at s2 (EventSignal e)) (\<lambda>sig.
       obind (forget_pending_event e s2) (\<lambda>s3.
       obind (finish_pageable_copy e s3) (\<lambda>(result, s4).
       obind (get_event s4 e) (\<lambda>event4.
       Ok (result, put_event e (stamp_event clock (us_start_ts sig) (us_end_ts sig) result event4) s4)))))) ?P"
    if s1: "host s1 = host s" "later s s1" for s1 v
  proof -
    have count: "live_count s1 q = live_count s q" "event_count s1 q = event_count s q" for q
      using count_cong [of s1 q s] same_heaps_host [OF s1(1)] by (simp_all add: same_heaps_def)
    from host_eventD [OF s1(1) ev] obtain ev1 where ev1: "g_events s1 e = Some ev1" "host_event ev1 = host_event ev" .
    have inv1: "kfd_inv s1" using inv s1(1) by (metis kfd_inv_host)
    obtain clock s2 where clock: "next_clock s1 = (clock, s2)" by (cases "next_clock s1")
    note reply = next_reply_later(4) [OF clock]
    have inv2: "kfd_inv s2" using inv1 reply same_globals_inv by blast
    have ev2: "g_events s2 e = Some ev1" "ev_pending ev1" "ev_recorded_queue ev1 = ev_recorded_queue ev"
      using ev1 True reply same_event [OF ev1(2)] by (simp_all add: same_globals_def)
    have lat: "later s s2" using later_trans [OF s1(2)] reply by blast
    have gone: "event_gone s2 = event_gone s"
      using count reply by (simp add: fun_eq_iff event_gone_def live_count_def event_count_def same_globals_def)
    obtain sig where sig: "signal_at s2 (EventSignal e) = Ok sig"
      using armed_event [OF inv2, of e] ev2(1) unfolding armed_def by blast
    have "runs (obind (forget_pending_event e s2) (\<lambda>s3.
       obind (finish_pageable_copy e s3) (\<lambda>(result, s4).
       obind (get_event s4 e) (\<lambda>event4.
       Ok (result, put_event e (stamp_event clock (us_start_ts sig) (us_end_ts sig) result event4) s4))))) ?P"
      using finish_tail_runs [OF inv2 ev2(1,2), of clock "us_start_ts sig" "us_end_ts sig"]
      by (rule runs_weaken) (auto simp: gone ev2(3) event_gone_def intro: later_trans [OF lat] split: if_splits)
    moreover have "?P (LR_ERROR_RUNTIME, s1)" using inv1 s1(2) count by (simp add: event_gone_def)
    ultimately show ?thesis by (simp add: clock sig del: runs_obind signal_at.simps)
  qed
  have armed: "armed s (EventSignal e)" using armed_event [OF inv] ev by simp
  have "runs (obind (load_acquire (EventSignal e) s) (\<lambda>(v, s1).
     if v \<noteq> 0 \<or> \<not> g_kfd_session s1 \<or> g_device_count s1 \<le> ev_device ev then Ok (LR_ERROR_RUNTIME, s1)
     else case next_clock s1 of (clock, s2) \<Rightarrow>
       obind (signal_at s2 (EventSignal e)) (\<lambda>sig.
       obind (forget_pending_event e s2) (\<lambda>s3.
       obind (finish_pageable_copy e s3) (\<lambda>(result, s4).
       obind (get_event s4 e) (\<lambda>event4.
       Ok (result, put_event e (stamp_event clock (us_start_ts sig) (us_end_ts sig) result event4) s4))))))) ?P"
    by (rule runs_pairI [OF load_acquire_runs [OF armed]]) (elim conjE, rule rest)
  with True ev show ?thesis
    by (simp add: finish_direct_kfd_event_wait_locked_def get_event_def [of s] del: runs_obind signal_at.simps)
qed

lemma event_gone_trans: "event_gone s a s1 \<Longrightarrow> event_gone s1 b s2 \<Longrightarrow> event_gone s a s2"
  unfolding event_gone_def by (metis dual_order.trans le_less_trans)

lemma event_gone_weaken: "event_gone s a s1 \<Longrightarrow> event_gone s None s1"
  by (auto simp: event_gone_def)

lemma event_gone_host:
  assumes "host s1 = host s"
  shows "event_gone s1 = event_gone s" and "event_gone s None s1"
  using count_cong [of s1 _ s] same_heaps_host [OF assms] by (simp_all add: same_heaps_def event_gone_def fun_eq_iff)

definition first_event_done :: "runtime \<Rightarrow> nat \<Rightarrow> bool" where
  "first_event_done s q \<longleftrightarrow> (\<exists>Q e es. g_queues s q = Some Q \<and> q_pending_events Q = e # es \<and> quiet s (EventSignal e))"

lemma reap_events_loop_runs:
  assumes "kfd_inv s" and "g_queues s q \<noteq> None" and "event_count s q < fuel"
  shows "runs (reap_events_loop fuel q s) (\<lambda>(status, s'). kfd_inv s' \<and> later s s' \<and>
    event_gone s (if status = LR_SUCCESS \<and> first_event_done s q then Some q else None) s')"
  using assms
proof (induction fuel arbitrary: s)
  case (Suc fuel)
  let ?P = "\<lambda>(status, s'). kfd_inv s' \<and> later s s' \<and>
    event_gone s (if status = LR_SUCCESS \<and> first_event_done s q then Some q else None) s'"
  from Suc.prems(2) obtain Q where Q: "g_queues s q = Some Q" by blast
  show ?case
  proof (cases "q_pending_events Q")
    case Nil
    with Q Suc.prems(1) show ?thesis by (simp add: get_queue_def first_event_done_def)
  next
    case (Cons e es)
    then have "recorded_on (g_events s) q e"
      using invD(1) [OF Suc.prems(1) [unfolded kfd_inv_def] Q] by (simp add: queue_inv_def)
    then obtain ev where ev: "g_events s e = Some ev" "ev_pending ev" "ev_recorded_queue ev = Some q" by (auto simp: recorded_on_def)
    have armed: "armed s (EventSignal e)" using armed_event [OF Suc.prems(1)] ev(1) by simp
    have rest: "runs (if v \<noteq> 0 then Ok (LR_SUCCESS, s1) else
        obind (finish_direct_kfd_event_wait_locked e s1) (\<lambda>(status, s2).
        if status \<noteq> LR_SUCCESS then Ok (status, s2) else reap_events_loop fuel q s2)) ?P"
      if s1: "host s1 = host s" "later s s1" "v = 0 \<longleftrightarrow> quiet s1 (EventSignal e)" for v s1
    proof (cases "v = 0")
      case False
      have "\<not> first_event_done s q" using False s1(2,3) Q Cons laterD(2) [OF s1(2)] by (auto simp: first_event_done_def)
      with False show ?thesis using Suc.prems(1) s1 event_gone_host(2) [OF s1(1)] by (simp, metis kfd_inv_host)
    next
      case True
      from host_eventD [OF s1(1) ev(1)] obtain ev1 where ev1: "g_events s1 e = Some ev1" "host_event ev1 = host_event ev" .
      then have rec: "ev_pending ev1" "ev_recorded_queue ev1 = Some q" using same_event [OF ev1(2)] ev by simp_all
      have inv1: "kfd_inv s1" using Suc.prems(1) s1(1) by (metis kfd_inv_host)
      have step: "runs (if status \<noteq> LR_SUCCESS then Ok (status, s2) else reap_events_loop fuel q s2) ?P"
        if s2: "kfd_inv s2" "later s1 s2" "event_gone s1 (if ev_pending ev1 \<and> status = LR_SUCCESS then ev_recorded_queue ev1 else None) s2"
        for status s2
      proof (cases "status = LR_SUCCESS")
        case False
        with s2 show ?thesis using later_trans [OF s1(2)] by (simp add: event_gone_host(1) [OF s1(1)])
      next
        case True
        have gone: "event_gone s (Some q) s2" using s2(3) True rec by (simp add: event_gone_host(1) [OF s1(1)])
        have lat: "later s s2" by (rule later_trans [OF s1(2) s2(2)])
        have "g_queues s2 q \<noteq> None" using Q static_dom(1) [OF laterD(1) [OF lat], of q] by simp
        moreover have "event_count s2 q < fuel" using gone Suc.prems(3) unfolding event_gone_def by fastforce
        ultimately have "runs (reap_events_loop fuel q s2) (\<lambda>(status, s'). kfd_inv s' \<and> later s2 s' \<and>
            event_gone s2 (if status = LR_SUCCESS \<and> first_event_done s2 q then Some q else None) s')"
          by (rule Suc.IH [OF s2(1)])
        then show ?thesis
          using True event_gone_trans [OF gone] event_gone_weaken [OF event_gone_trans [OF gone]] later_trans [OF lat]
          by (auto elim!: runs_weaken)
      qed
      have "runs (obind (finish_direct_kfd_event_wait_locked e s1) (\<lambda>(status, s2).
          if status \<noteq> LR_SUCCESS then Ok (status, s2) else reap_events_loop fuel q s2)) ?P"
        by (rule runs_pairI [OF finish_event_runs [OF inv1 ev1(1)]]) (elim conjE, rule step)
      with True show ?thesis by simp
    qed
    have "runs (obind (load_acquire (EventSignal e) s) (\<lambda>(v, s1). if v \<noteq> 0 then Ok (LR_SUCCESS, s1) else
        obind (finish_direct_kfd_event_wait_locked e s1) (\<lambda>(status, s2).
        if status \<noteq> LR_SUCCESS then Ok (status, s2) else reap_events_loop fuel q s2))) ?P"
      by (rule runs_pairI [OF load_acquire_runs [OF armed]]) (elim conjE, rule rest)
    with Q Cons show ?thesis by (simp add: get_queue_def [of s] del: runs_obind)
  qed
qed simp

lemma reap_events_runs:
  assumes "kfd_inv s" and "g_queues s q \<noteq> None"
  shows "runs (reap_completed_direct_kfd_events_locked q s) (\<lambda>(status, s'). kfd_inv s' \<and> later s s' \<and>
    event_gone s (if status = LR_SUCCESS \<and> first_event_done s q then Some q else None) s')"
  using reap_events_loop_runs [OF assms] assms(2)
  by (auto simp: reap_completed_direct_kfd_events_locked_def event_count_def simp del: reap_events_loop.simps)

section \<open>Waiting\<close>

lemma error_reason_runs:
  assumes "g_queues s q \<noteq> None"
  shows "runs (error_reason_acquire q s) (\<lambda>(v, s'). host s' = host s \<and> later s s')"
  using assms host_queueD [OF host_device_step]
  by (auto simp: error_reason_acquire_def Let_def later_device_step) (metis option.exhaust)

lemma armed_host: "host s' = host s \<Longrightarrow> armed s ref \<Longrightarrow> armed s' ref"
  unfolding armed_def using signal_at_host by metis

lemma queue_host: "host s' = host s \<Longrightarrow> g_queues s q \<noteq> None \<Longrightarrow> g_queues s' q \<noteq> None"
  using host_queueD by (metis not_None_eq)

lemma wait_signal_runs:
  assumes "armed s ref" and "g_queues s q \<noteq> None"
  shows "runs (wait_for_direct_kfd_signal_locked q ref s) (\<lambda>(status, s'). host s' = host s \<and> later s s' \<and>
    (status = LR_SUCCESS \<longrightarrow> quiet s' ref))"
  using assms
proof (induction q ref s rule: wait_for_direct_kfd_signal_locked.induct)
  case (1 q ref s)
  let ?P = "\<lambda>(status, s'). host s' = host s \<and> later s s' \<and> (status = LR_SUCCESS \<longrightarrow> quiet s' ref)"
  have reason: "runs (obind (error_reason_acquire q s1) (\<lambda>(reason, s2).
       if v = 0 then Ok (if reason = 0 then LR_SUCCESS else LR_ERROR_DEVICE_FAULT, s2)
       else if reason \<noteq> 0 then Ok (LR_ERROR_DEVICE_FAULT, s2)
       else if w_device s = [] then Err Waiting
       else wait_for_direct_kfd_signal_locked q ref s2)) ?P"
    if load: "load_acquire ref s = Ok (v, s1)" "host s1 = host s" "later s s1" "v = 0 \<longleftrightarrow> quiet s1 ref" for v s1
  proof (rule runs_obindI' [OF error_reason_runs [OF queue_host [OF load(2) "1.prems"(2)]]])
    fix x assume x: "error_reason_acquire q s1 = Ok x" "case x of (v, s') \<Rightarrow> host s' = host s1 \<and> later s1 s'"
    obtain reason s2 where s2: "x = (reason, s2)" by (cases x)
    have h: "host s2 = host s" and lat: "later s s2" "later s1 s2"
      using x(2) load(2,3) later_trans by (auto simp: s2)
    have "runs (wait_for_direct_kfd_signal_locked q ref s2) ?P" if "v \<noteq> 0" "reason = 0" "w_device s \<noteq> []"
      using "1.IH" [OF load(1) refl x(1) s2 [symmetric]] that armed_host [OF h "1.prems"(1)] queue_host [OF h "1.prems"(2)] h
        later_trans [OF lat(1)]
      by (auto elim!: runs_weaken)
    moreover have "quiet s2 ref" if "v = 0" using that load(4) laterD(2) [OF lat(2)] by simp
    ultimately show "runs (case x of (reason, s2) \<Rightarrow>
       if v = 0 then Ok (if reason = 0 then LR_SUCCESS else LR_ERROR_DEVICE_FAULT, s2)
       else if reason \<noteq> 0 then Ok (LR_ERROR_DEVICE_FAULT, s2)
       else if w_device s = [] then Err Waiting
       else wait_for_direct_kfd_signal_locked q ref s2) ?P"
      using h lat(1) by (simp add: s2)
  qed
  show ?case
    by (subst wait_for_direct_kfd_signal_locked.simps, rule runs_obindI' [OF load_acquire_runs [OF "1.prems"(1)]])
      (auto intro!: reason simp del: runs_obind)
qed

lemma live_count_queue: "g_queues s q = Some Q \<Longrightarrow> live_count s q = length (live_dispatches Q)"
  by (simp add: live_count_def)

lemma event_count_queue: "g_queues s q = Some Q \<Longrightarrow> event_count s q = length (q_pending_events Q)"
  by (simp add: event_count_def)

text \<open>The oldest piece of work at a queue is finished.\<close>

definition head_done :: "runtime \<Rightarrow> nat \<Rightarrow> bool" where
  "head_done s q \<longleftrightarrow> (\<exists>Q. g_queues s q = Some Q \<and> (if live_dispatches Q = [] then first_event_done s q else oldest_done s Q))"

lemma live_Cons:
  assumes "kfd_inv s" and "g_queues s q = Some Q" and "live_dispatches Q \<noteq> []"
  obtains d ds where "live_dispatches Q = Some d # ds" and "d \<in> set (owned Q)"
    and "q_pending_dispatches Q ! q_pending_dispatch_head Q = Some d"
    and "q_pending_dispatch_head Q < length (q_pending_dispatches Q)"
proof -
  from assms(3) obtain x ds where x: "live_dispatches Q = x # ds" by (cases "live_dispatches Q") auto
  moreover obtain d where d: "x = Some d"
    using invD(1) [OF assms(1) [unfolded kfd_inv_def] assms(2)] x by (cases x) (auto simp: queue_inv_def)
  moreover have "q_pending_dispatch_head Q < length (q_pending_dispatches Q)"
    using assms(3) by (simp add: live_dispatches_def)
  moreover from this have "q_pending_dispatches Q ! q_pending_dispatch_head Q = x"
    using x by (simp add: live_dispatches_def flip: hd_drop_conv_nth)
  ultimately show ?thesis using that by (simp add: owned_def)
qed

lemma wait_oldest_runs:
  assumes inv: "kfd_inv s" and Q: "g_queues s q = Some Q" and "live_dispatches Q \<noteq> [] \<or> q_pending_events Q \<noteq> []"
  shows "runs (wait_for_oldest q s) (\<lambda>(status, s'). host s' = host s \<and> later s s' \<and> (status = LR_SUCCESS \<longrightarrow> head_done s' q))"
proof (cases "live_dispatches Q = []")
  case False
  from live_Cons [OF inv Q False] obtain d ds where d: "live_dispatches Q = Some d # ds" "d \<in> set (owned Q)"
    "q_pending_dispatches Q ! q_pending_dispatch_head Q = Some d"
    "q_pending_dispatch_head Q < length (q_pending_dispatches Q)" .
  from active_armed [OF inv Q d(2)] obtain ref where ref: "active_completion_signal s d = Ok ref" "armed s ref" .
  have "head_done s' q" if s': "host s' = host s" "quiet s' ref" for s'
  proof -
    from host_queueD [OF s'(1) Q] obtain Q' where Q': "g_queues s' q = Some Q'" "host_queue Q' = host_queue Q" .
    have "live_dispatches Q' = live_dispatches Q" using Q'(2) by (metis host_owned(1))
    then show ?thesis
      using Q'(1) d(1) ref(1) s'(2) same_heaps_active [OF same_heaps_host [OF s'(1)], of d]
      by (simp add: head_done_def oldest_done_def)
  qed
  then have "runs (wait_for_direct_kfd_signal_locked q ref s) (\<lambda>(status, s'). host s' = host s \<and> later s s' \<and> (status = LR_SUCCESS \<longrightarrow> head_done s' q))"
    using wait_signal_runs [OF ref(2), of q] Q by (auto elim!: runs_weaken)
  with d Q ref(1) show ?thesis by (simp add: wait_for_oldest_def get_queue_def)
next
  case True
  with assms(3) obtain e es where e: "q_pending_events Q = e # es" by (cases "q_pending_events Q") auto
  have q: "queue_inv (g_events s) (g_dispatches s) (g_next s) q Q" using invD(1) [OF inv [unfolded kfd_inv_def] Q] .
  with e have "armed s (EventSignal e)" by (intro armed_event [OF inv]) (auto simp: queue_inv_def recorded_on_def)
  note wait = wait_signal_runs [OF this, of q]
  have "head_done s' q" if s': "host s' = host s" "quiet s' (EventSignal e)" for s'
  proof -
    from host_queueD [OF s'(1) Q] obtain Q' where Q': "g_queues s' q = Some Q'" "host_queue Q' = host_queue Q" .
    have "live_dispatches Q' = []" "q_pending_events Q' = e # es"
      using arg_cong [OF Q'(2), of live_dispatches] arg_cong [OF Q'(2), of q_pending_events] True e by simp_all
    then show ?thesis using Q'(1) s'(2) by (simp add: head_done_def first_event_done_def)
  qed
  then have "runs (wait_for_direct_kfd_signal_locked q (EventSignal e) s) (\<lambda>(status, s'). host s' = host s \<and> later s s' \<and> (status = LR_SUCCESS \<longrightarrow> head_done s' q))"
    using wait Q by (auto elim!: runs_weaken)
  moreover have "q_pending_dispatch_head Q = length (q_pending_dispatches Q)"
    using True q by (simp add: live_dispatches_def queue_inv_def)
  ultimately show ?thesis using Q e by (simp add: wait_for_oldest_def get_queue_def)
qed

section \<open>Synchronisation\<close>

definition work_count :: "runtime \<Rightarrow> nat \<Rightarrow> nat" where
  "work_count s q = live_count s q + event_count s q"

lemma work_count_host: "host s' = host s \<Longrightarrow> work_count s' q = work_count s q"
  using count_cong [of s' q s] same_heaps_host [of s' s] by (simp add: work_count_def same_heaps_def)

lemma pending_work_count:
  "queue_inv es ds n q Q \<Longrightarrow> g_queues s q = Some Q \<Longrightarrow> pending_work Q = work_count s q"
  by (simp add: pending_work_def work_count_def live_count_def event_count_def live_dispatches_def)

lemma queue_later: "later s s' \<Longrightarrow> g_queues s q \<noteq> None \<Longrightarrow> g_queues s' q \<noteq> None"
  using static_dom(1) [OF laterD(1)] by metis

text \<open>Reaping dispatches and then events: nothing is added, and the finished head goes.\<close>

lemma reap_work:
  assumes "kfd_inv s" and "g_queues s q \<noteq> None"
  shows "runs (reap_direct_kfd_dispatches_locked q s) (\<lambda>(status, s'). kfd_inv s' \<and> later s s' \<and>
    live_count s' q \<le> live_count s q \<and> event_count s' q = event_count s q \<and>
    (status = LR_SUCCESS \<longrightarrow> head_done s q \<longrightarrow> live_count s' q < live_count s q \<or> first_event_done s' q \<and> head_done s' q))"
proof -
  from assms(2) obtain Q where Q: "g_queues s q = Some Q" by blast
  have "live_count s' q \<le> live_count s q \<and> event_count s' q = event_count s q \<and>
    (status = LR_SUCCESS \<longrightarrow> head_done s q \<longrightarrow> live_count s' q < live_count s q \<or> first_event_done s' q \<and> head_done s' q)"
    if "g_queues s' q = Some Q'" "reaped (oldest_done s Q) s q Q status s' Q'" "later s s'" for status s' Q'
  proof -
    from that(2) obtain n where n: "live_dispatches Q' = drop n (live_dispatches Q)"
      "status = LR_SUCCESS \<longrightarrow> oldest_done s Q \<longrightarrow> 0 < n" "q_pending_events Q' = q_pending_events Q"
      by (auto simp: reaped_def)
    have "first_event_done s' q" if "first_event_done s q"
      using that n(3) Q \<open>g_queues s' q = Some Q'\<close> laterD(2) [OF \<open>later s s'\<close>] by (auto simp: first_event_done_def)
    moreover have "length (live_dispatches Q') < length (live_dispatches Q)"
      if "oldest_done s Q" "status = LR_SUCCESS" using n that by (auto simp: oldest_done_def)
    ultimately show ?thesis
      using n Q that(1) by (auto simp: live_count_def event_count_def head_done_def split: if_splits)
  qed
  with reap_dispatches_runs [OF assms(1) Q] show ?thesis by (fastforce elim!: runs_weaken)
qed

lemma reap_both_runs:
  assumes inv: "kfd_inv s" and q: "g_queues s q \<noteq> None"
    and go: "\<And>s'. kfd_inv s' \<Longrightarrow> later s s' \<Longrightarrow> work_count s' q \<le> work_count s q \<Longrightarrow>
      (head_done s q \<Longrightarrow> work_count s' q < work_count s q) \<Longrightarrow> runs (f s') P"
    and stop: "\<And>status s'. status \<noteq> LR_SUCCESS \<Longrightarrow> kfd_inv s' \<Longrightarrow> later s s' \<Longrightarrow> P (status, s')"
  shows "runs (obind (reap_direct_kfd_dispatches_locked q s) (\<lambda>(status, s2).
     if status \<noteq> LR_SUCCESS then Ok (status, s2)
     else
     obind (reap_completed_direct_kfd_events_locked q s2) (\<lambda>(status, s3).
     if status \<noteq> LR_SUCCESS then Ok (status, s3) else f s3))) P"
proof (rule runs_pairI [OF reap_work [OF inv q]], elim conjE)
  fix status s2
  assume s2: "kfd_inv s2" "later s s2" "live_count s2 q \<le> live_count s q" "event_count s2 q = event_count s q"
    "status = LR_SUCCESS \<longrightarrow> head_done s q \<longrightarrow> live_count s2 q < live_count s q \<or> first_event_done s2 q \<and> head_done s2 q"
  have q2: "g_queues s2 q \<noteq> None" by (rule queue_later [OF s2(2) q])
  have "runs (if status3 \<noteq> LR_SUCCESS then Ok (status3, s3) else f s3) P"
    if "status = LR_SUCCESS" and s3: "kfd_inv s3" "later s2 s3"
      "event_gone s2 (if status3 = LR_SUCCESS \<and> first_event_done s2 q then Some q else None) s3" for status3 s3
  proof -
    note gone = s3(3) [unfolded event_gone_def, THEN spec, of q]
    have lat: "later s s3" by (rule later_trans [OF s2(2) s3(2)])
    have "runs (f s3) P" if "status3 = LR_SUCCESS"
      using s2 gone \<open>status = LR_SUCCESS\<close> that by (intro go [OF s3(1) lat]) (auto simp: work_count_def)
    then show ?thesis using stop [OF _ s3(1) lat] by simp
  qed
  then have "runs (obind (reap_completed_direct_kfd_events_locked q s2) (\<lambda>(status, s3).
      if status \<noteq> LR_SUCCESS then Ok (status, s3) else f s3)) P" if "status = LR_SUCCESS"
    using that by (intro runs_pairI [OF reap_events_runs [OF s2(1) q2]]) blast
  then show "runs (if status \<noteq> LR_SUCCESS then Ok (status, s2) else
      obind (reap_completed_direct_kfd_events_locked q s2) (\<lambda>(status, s3).
      if status \<noteq> LR_SUCCESS then Ok (status, s3) else f s3)) P"
    using stop [OF _ s2(1,2)] by simp
qed

definition drained :: "runtime \<Rightarrow> nat \<Rightarrow> bool" where
  "drained s q \<longleftrightarrow> (\<exists>Q. g_queues s q = Some Q \<and> live_dispatches Q = [] \<and> q_pending_barriers Q = [] \<and> q_pending_events Q = [])"

lemma head_eq_length:
  assumes "kfd_inv s" and "g_queues s q = Some Q"
  shows "q_pending_dispatch_head Q = length (q_pending_dispatches Q) \<longleftrightarrow> live_dispatches Q = []"
    and "live_dispatches Q = [] \<Longrightarrow> q_pending_barriers Q = []"
  using invD(1) [OF assms(1) [unfolded kfd_inv_def] assms(2)]
  by (auto simp: queue_inv_def live_dispatches_def)

lemma synchronize_loop_runs:
  assumes "kfd_inv s" and "g_queues s q \<noteq> None" and "work_count s q < fuel"
  shows "runs (synchronize_loop fuel q s) (\<lambda>(status, s'). kfd_inv s' \<and> later s s' \<and> (status = LR_SUCCESS \<longrightarrow> drained s' q))"
  using assms
proof (induction fuel arbitrary: s)
  case (Suc fuel)
  let ?P = "\<lambda>(status, s'). kfd_inv s' \<and> later s s' \<and> (status = LR_SUCCESS \<longrightarrow> drained s' q)"
  from Suc.prems(2) obtain Q where Q: "g_queues s q = Some Q" by blast
  note live = head_eq_length [OF Suc.prems(1) Q]
  show ?case
  proof (cases "live_dispatches Q = [] \<and> q_pending_events Q = []")
    case True
    with Suc.prems(1) Q live show ?thesis by (simp add: get_queue_def drained_def)
  next
    case False
    then have work: "live_dispatches Q \<noteq> [] \<or> q_pending_events Q \<noteq> []" by blast
    have round: "runs (if status \<noteq> LR_SUCCESS then Ok (status, s1) else
       obind (reap_direct_kfd_dispatches_locked q s1) (\<lambda>(status, s2).
       if status \<noteq> LR_SUCCESS then Ok (status, s2)
       else
       obind (reap_completed_direct_kfd_events_locked q s2) (\<lambda>(status, s3).
       if status \<noteq> LR_SUCCESS then Ok (status, s3) else synchronize_loop fuel q s3))) ?P"
      if s1: "host s1 = host s" "later s s1" "status = LR_SUCCESS \<longrightarrow> head_done s1 q" for status s1
    proof (cases "status = LR_SUCCESS")
      case True
      have inv1: "kfd_inv s1" using Suc.prems(1) s1(1) by (metis kfd_inv_host)
      note q1 = queue_later [OF s1(2) Suc.prems(2)]
      have "runs (synchronize_loop fuel q s3) ?P"
        if "kfd_inv s3" "later s1 s3" "work_count s3 q < work_count s1 q" for s3
        using Suc.IH [OF that(1) queue_later [OF that(2) q1]] Suc.prems(3) that(3) work_count_host [OF s1(1)]
          later_trans [OF later_trans [OF s1(2) that(2)]]
        by (auto elim!: runs_weaken)
      with True s1(3) show ?thesis
        using later_trans [OF s1(2)] by (simp del: runs_obind) (rule reap_both_runs [OF inv1 q1], auto)
    qed (use Suc.prems(1) s1 in \<open>simp, metis kfd_inv_host\<close>)
    have "runs (obind (wait_for_oldest q s) (\<lambda>(wait_status, s1).
       if wait_status \<noteq> LR_SUCCESS then Ok (wait_status, s1) else
       obind (reap_direct_kfd_dispatches_locked q s1) (\<lambda>(status, s2).
       if status \<noteq> LR_SUCCESS then Ok (status, s2)
       else
       obind (reap_completed_direct_kfd_events_locked q s2) (\<lambda>(status, s3).
       if status \<noteq> LR_SUCCESS then Ok (status, s3) else synchronize_loop fuel q s3)))) ?P"
      by (rule runs_pairI [OF wait_oldest_runs [OF Suc.prems(1) Q work]]) (elim conjE, rule round)
    with False Q live show ?thesis by (auto simp: get_queue_def [of s] simp del: runs_obind)
  qed
qed simp

lemma synchronize_runs:
  assumes "kfd_inv s" and "g_queues s q \<noteq> None"
  shows "runs (synchronize_direct_kfd_queue_locked q s) (\<lambda>(status, s'). kfd_inv s' \<and> later s s' \<and> (status = LR_SUCCESS \<longrightarrow> drained s' q))"
proof -
  from assms(2) obtain Q where Q: "g_queues s q = Some Q" by blast
  have "pending_work Q = work_count s q"
    using pending_work_count invD(1) [OF assms(1) [unfolded kfd_inv_def] Q] Q by blast
  then show ?thesis
    using synchronize_loop_runs [OF assms, of "pending_work Q + 1"] Q
    by (simp add: synchronize_direct_kfd_queue_locked_def get_queue_def del: synchronize_loop.simps)
qed

section \<open>Room in the ring\<close>

text \<open>The fields of a queue the invariant reads.\<close>

definition core where
  "core Q = (q_pending_dispatches Q, q_pending_dispatch_head Q, q_pending_barriers Q, q_available_dispatches Q,
     q_kernarg_arenas Q, q_pending_events Q)"

lemma core_fields:
  assumes "core Q' = core Q"
  shows "live_dispatches Q' = live_dispatches Q" and "owned Q' = owned Q" and "waits_on Q' e = waits_on Q e"
    and "q_pending_events Q' = q_pending_events Q" and "queue_inv es ds n q Q' = queue_inv es ds n q Q"
  using assms by (auto simp: core_def live_dispatches_def owned_def waits_on_def queue_inv_def)

lemma inv_core:
  assumes "kfd_inv s" and "g_queues s q = Some Q" and "core Q' = core Q"
  shows "kfd_inv (put_queue q Q' s)"
  using inv_put_queue_same [OF assms(1) [unfolded kfd_inv_def] assms(2), of Q']
    invD(1) [OF assms(1) [unfolded kfd_inv_def] assms(2)] core_fields [OF assms(3)]
  by (simp add: kfd_inv_def)

lemma quiet_put_queue [simp]: "quiet (put_queue q Q s) ref = quiet s ref"
  by (simp add: quiet_def signal_at_put)

lemma count_core:
  assumes "g_queues s q = Some Q" and "core Q' = core Q"
  shows "work_count (put_queue q Q' s) q = work_count s q"
    and "head_done s q \<Longrightarrow> head_done (put_queue q Q' s) q"
proof -
  note f = core_fields [OF assms(2)]
  show "work_count (put_queue q Q' s) q = work_count s q"
    using assms(1) f by (simp add: work_count_def live_count_def event_count_def)
  show "head_done s q \<Longrightarrow> head_done (put_queue q Q' s) q"
    using assms(1) f by (auto simp: head_done_def first_event_done_def oldest_done_def)
qed

lemma head_done_host:
  assumes "host s' = host s" and "later s s'" and "head_done s q"
  shows "head_done s' q"
proof -
  from assms(3) obtain Q where Q: "g_queues s q = Some Q" "if live_dispatches Q = [] then first_event_done s q else oldest_done s Q"
    by (auto simp: head_done_def)
  from host_queueD [OF assms(1) Q(1)] obtain Q' where Q': "g_queues s' q = Some Q'" "host_queue Q' = host_queue Q" .
  have "live_dispatches Q' = live_dispatches Q" "q_pending_events Q' = q_pending_events Q"
    using arg_cong [OF Q'(2), of live_dispatches] arg_cong [OF Q'(2), of q_pending_events] by simp_all
  moreover have "quiet s' ref" if "quiet s ref" for ref using that by (rule laterD(2) [OF assms(2)])
  ultimately show ?thesis
    using Q Q'(1) same_heaps_active [OF same_heaps_host [OF assms(1)]]
    by (auto simp: head_done_def first_event_done_def oldest_done_def split: if_splits)
qed

lemma wait_capacity_runs:
  assumes inv: "kfd_inv s" and Q: "g_queues s q = Some Q" and work: "live_dispatches Q \<noteq> [] \<or> q_pending_events Q \<noteq> []"
  shows "runs (wait_for_capacity q unlocks s) (\<lambda>(status, s'). kfd_inv s' \<and> later s s' \<and> work_count s' q = work_count s q \<and>
    (status = LR_SUCCESS \<longrightarrow> head_done s' q))" (is "runs _ ?P")
proof (cases unlocks)
  case False
  have "runs (wait_for_oldest q s) ?P"
    using wait_oldest_runs [OF assms] by (rule runs_weaken) (auto intro: work_count_host inv_host [OF inv])
  with False show ?thesis by (simp add: wait_for_capacity_def)
next
  case True
  let ?Q = "Q\<lparr>q_active_synchronizers := q_active_synchronizers Q + 1, q_capacity_waiting := True\<rparr>"
  let ?s = "put_queue q ?Q s"
  have core: "core ?Q = core Q" by (simp add: core_def)
  note marked = inv_core [OF inv Q core]
  have lat: "later s ?s" by (rule later_put_queue [OF Q]) (simp_all add: static_queue_def live_dispatches_def)
  have "runs (obind (get_queue s1 q) (\<lambda>queue1.
      let s2 = put_queue q (queue1\<lparr>q_capacity_waiting := False,
                                   q_active_synchronizers := q_active_synchronizers queue1 - 1\<rparr>) s1
      in Ok (if q_destroying queue1 then LR_ERROR_INVALID_ARGUMENT else status, s2))) ?P"
    if s1: "host s1 = host ?s" "later ?s s1" "status = LR_SUCCESS \<longrightarrow> head_done s1 q" for status s1
  proof -
    have "g_queues ?s q = Some ?Q" by simp
    from host_queueD [OF s1(1) this] obtain Q1 where Q1: "g_queues s1 q = Some Q1" .
    let ?Q1 = "Q1\<lparr>q_capacity_waiting := False, q_active_synchronizers := q_active_synchronizers Q1 - 1\<rparr>"
    have core1: "core ?Q1 = core Q1" by (simp add: core_def)
    note inv2 = inv_core [OF inv_host [OF marked s1(1)] Q1 core1]
    have "later s1 (put_queue q ?Q1 s1)" by (rule later_put_queue [OF Q1]) (simp_all add: static_queue_def live_dispatches_def)
    then have "later s (put_queue q ?Q1 s1)" using later_trans [OF later_trans [OF lat s1(2)]] by blast
    moreover have "work_count (put_queue q ?Q1 s1) q = work_count s q"
      using count_core(1) [OF Q core] count_core(1) [OF Q1 core1] work_count_host [OF s1(1)] by simp
    ultimately show ?thesis using inv2 count_core(2) [OF Q1 core1] s1(3) Q1 by (simp add: get_queue_def Let_def)
  qed
  moreover have "runs (wait_for_oldest q ?s) (\<lambda>(status, s'). host s' = host ?s \<and> later ?s s' \<and> (status = LR_SUCCESS \<longrightarrow> head_done s' q))"
    using wait_oldest_runs [OF marked, of q ?Q] work core_fields(1,4) [OF core] by simp
  ultimately have "runs (obind (wait_for_oldest q ?s) (\<lambda>(status, s1). obind (get_queue s1 q) (\<lambda>queue1.
      let s2 = put_queue q (queue1\<lparr>q_capacity_waiting := False,
                                   q_active_synchronizers := q_active_synchronizers queue1 - 1\<rparr>) s1
      in Ok (if q_destroying queue1 then LR_ERROR_INVALID_ARGUMENT else status, s2)))) ?P"
    by - (rule runs_pairI, assumption, elim conjE, blast)
  with True Q show ?thesis by (simp add: wait_for_capacity_def get_queue_def [of s] del: runs_obind)
qed

definition has_room :: "runtime \<Rightarrow> nat \<Rightarrow> u64 \<Rightarrow> bool" where
  "has_room s q k \<longleftrightarrow> (\<exists>Q. g_queues s q = Some Q \<and> read_index_acquire (q_queue Q) \<le> write_index_relaxed (q_queue Q) \<and>
     write_index_relaxed (q_queue Q) - read_index_acquire (q_queue Q) \<le> packet_count (q_queue Q) - k)"

lemma advanced_room:
  assumes "advanced a b" and "read_index_acquire a \<le> write_index_relaxed a"
    and "write_index_relaxed a - read_index_acquire a \<le> c"
  shows "read_index_acquire b \<le> write_index_relaxed b" and "write_index_relaxed b - read_index_acquire b \<le> c"
    and "packet_count b = packet_count a"
proof -
  from assms(1) obtain n where n: "n \<le> aq_write_dispatch_id a - aq_read_dispatch_id a"
    and b: "b = a\<lparr>aq_read_dispatch_id := aq_read_dispatch_id a + n\<rparr>" by (auto simp: advanced_def)
  show "packet_count b = packet_count a" by (simp add: b packet_count_def)
  show "read_index_acquire b \<le> write_index_relaxed b" "write_index_relaxed b - read_index_acquire b \<le> c"
  proof (atomize (full), cases "aq_state a \<and> aq_control a")
    case True
    then have le: "aq_read_dispatch_id a \<le> aq_write_dispatch_id a" "aq_write_dispatch_id a - aq_read_dispatch_id a \<le> c"
      using assms(2,3) by (simp_all add: read_index_acquire_def write_index_relaxed_def)
    have sum: "unat (aq_read_dispatch_id a + n) = unat (aq_read_dispatch_id a) + unat n"
      "unat (aq_read_dispatch_id a) + unat n \<le> unat (aq_write_dispatch_id a)"
      using n le(1) unat_u64_less [of "aq_write_dispatch_id a"]
      by (auto simp: word_le_nat_alt unat_sub64 intro!: unat_add64)
    then show "read_index_acquire b \<le> write_index_relaxed b \<and> write_index_relaxed b - read_index_acquire b \<le> c"
      using True le by (simp add: b read_index_acquire_def write_index_relaxed_def word_le_nat_alt unat_sub64)
  qed (use assms in \<open>auto simp: b read_index_acquire_def write_index_relaxed_def\<close>)
qed

lemma has_room_later: 
  assumes "later s s'" and "has_room s q k"
  shows "has_room s' q k"
proof -
  from assms(2) obtain Q where Q: "g_queues s q = Some Q" "read_index_acquire (q_queue Q) \<le> write_index_relaxed (q_queue Q)"
    "write_index_relaxed (q_queue Q) - read_index_acquire (q_queue Q) \<le> packet_count (q_queue Q) - k"
    by (auto simp: has_room_def)
  obtain Q' where Q': "g_queues s' q = Some Q'" using queue_later [OF assms(1), of q] Q(1) by auto
  then have "advanced (q_queue Q) (q_queue Q')" by (rule laterD(3) [OF assms(1) Q(1)])
  from advanced_room [OF this Q(2,3)] Q' show ?thesis by (simp add: has_room_def)
qed

lemma ring_room_runs:
  assumes "g_queues s q \<noteq> None"
  shows "runs (ring_room q k s) (\<lambda>(room, s'). host s' = host s \<and> later s s' \<and> room \<noteq> Inl LR_SUCCESS \<and>
    (room = Inr True \<longrightarrow> has_room s' q k))"
proof -
  from assms obtain Q where "g_queues (device_step s) q = Some Q" using host_queueD [OF host_device_step] by (metis not_None_eq)
  then show ?thesis
    by (auto simp: ring_room_def load_read_index_def get_queue_def Let_def has_room_def later_device_step)
qed

text \<open>The second half of a round: the test after the reaping, and the wait.\<close>

lemma capacity_tail_runs:
  assumes inv: "kfd_inv s" and q: "g_queues s q \<noteq> None"
    and go: "\<And>s'. kfd_inv s' \<Longrightarrow> later s s' \<Longrightarrow> head_done s' q \<Longrightarrow> work_count s' q = work_count s q \<Longrightarrow> 0 < work_count s q \<Longrightarrow> runs (f s') P"
    and stop: "\<And>status s'. status \<noteq> LR_SUCCESS \<Longrightarrow> kfd_inv s' \<Longrightarrow> later s s' \<Longrightarrow> P (status, s')"
    and room: "\<And>s'. kfd_inv s' \<Longrightarrow> later s s' \<Longrightarrow> has_room s' q k \<Longrightarrow> P (LR_SUCCESS, s')"
  shows "runs (obind (ring_room q k s) (\<lambda>(room, s5).
     case room of Inl error \<Rightarrow> Ok (error, s5)
     | Inr enough \<Rightarrow>
     if enough then Ok (LR_SUCCESS, s5)
     else
     obind (get_queue s5 q) (\<lambda>queue5.
     if q_pending_dispatch_head queue5 = length (q_pending_dispatches queue5) \<and> q_pending_events queue5 = []
     then Ok (LR_ERROR_RUNTIME, s5)
     else
     obind (wait_for_capacity q unlocks s5) (\<lambda>(status, s6).
     if status \<noteq> LR_SUCCESS then Ok (status, s6) else f s6)))) P"
proof (rule runs_pairI [OF ring_room_runs [OF q]], elim conjE)
  fix room s5
  assume s5: "host s5 = host s" "later s s5" "room \<noteq> Inl LR_SUCCESS" "room = Inr True \<longrightarrow> has_room s5 q k"
  have inv5: "kfd_inv s5" by (rule inv_host [OF inv s5(1)])
  obtain Q where Q: "g_queues s5 q = Some Q" using queue_host [OF s5(1) q] by blast
  note live = head_eq_length(1) [OF inv5 Q]
  have wait: "runs (obind (wait_for_capacity q unlocks s5) (\<lambda>(status, s6).
      if status \<noteq> LR_SUCCESS then Ok (status, s6) else f s6)) P"
    if work: "live_dispatches Q \<noteq> [] \<or> q_pending_events Q \<noteq> []"
  proof (rule runs_pairI [OF wait_capacity_runs [OF inv5 Q work]], elim conjE)
    fix status s6
    assume s6: "kfd_inv s6" "later s5 s6" "work_count s6 q = work_count s5 q" "status = LR_SUCCESS \<longrightarrow> head_done s6 q"
    have lat: "later s s6" by (rule later_trans [OF s5(2) s6(2)])
    have "0 < work_count s5 q" using work Q by (auto simp: work_count_def live_count_def event_count_def)
    then show "runs (if status \<noteq> LR_SUCCESS then Ok (status, s6) else f s6) P"
      using go [OF s6(1) lat] stop [OF _ s6(1) lat] s6(3,4) work_count_host [OF s5(1)] by simp
  qed
  show "runs (case room of Inl error \<Rightarrow> Ok (error, s5)
     | Inr enough \<Rightarrow>
     if enough then Ok (LR_SUCCESS, s5)
     else
     obind (get_queue s5 q) (\<lambda>queue5.
     if q_pending_dispatch_head queue5 = length (q_pending_dispatches queue5) \<and> q_pending_events queue5 = []
     then Ok (LR_ERROR_RUNTIME, s5)
     else
     obind (wait_for_capacity q unlocks s5) (\<lambda>(status, s6).
     if status \<noteq> LR_SUCCESS then Ok (status, s6) else f s6))) P"
    using wait stop [OF _ inv5 s5(2)] room [OF inv5 s5(2)] s5(3,4) live Q
    by (auto simp: get_queue_def simp del: runs_obind split: sum.splits)
qed

lemma capacity_loop_runs:
  assumes "kfd_inv s" and "g_queues s q \<noteq> None" and "0 < fuel"
    and "work_count s q < fuel \<or> work_count s q \<le> fuel \<and> head_done s q"
  shows "runs (capacity_loop fuel q k unlocks s) (\<lambda>(status, s'). kfd_inv s' \<and> later s s' \<and> (status = LR_SUCCESS \<longrightarrow> has_room s' q k))"
  using assms
proof (induction fuel arbitrary: s)
  case (Suc fuel)
  let ?P = "\<lambda>(status, s'). kfd_inv s' \<and> later s s' \<and> (status = LR_SUCCESS \<longrightarrow> has_room s' q k)"
  let ?tail = "\<lambda>s4. obind (ring_room q k s4) (\<lambda>(room, s5).
     case room of Inl error \<Rightarrow> Ok (error, s5)
     | Inr enough \<Rightarrow>
     if enough then Ok (LR_SUCCESS, s5)
     else
     obind (get_queue s5 q) (\<lambda>queue5.
     if q_pending_dispatch_head queue5 = length (q_pending_dispatches queue5) \<and> q_pending_events queue5 = []
     then Ok (LR_ERROR_RUNTIME, s5)
     else
     obind (wait_for_capacity q unlocks s5) (\<lambda>(status, s6).
     if status \<noteq> LR_SUCCESS then Ok (status, s6) else capacity_loop fuel q k unlocks s6)))"
  let ?reap = "\<lambda>s2. obind (reap_direct_kfd_dispatches_locked q s2) (\<lambda>(status, s3).
     if status \<noteq> LR_SUCCESS then Ok (status, s3)
     else
     obind (reap_completed_direct_kfd_events_locked q s3) (\<lambda>(status, s4).
     if status \<noteq> LR_SUCCESS then Ok (status, s4) else ?tail s4))"
  let ?room = "\<lambda>s1. obind (ring_room q k s1) (\<lambda>(room, s2).
     case room of Inl error \<Rightarrow> Ok (error, s2)
     | Inr enough \<Rightarrow> if enough then Ok (LR_SUCCESS, s2) else ?reap s2)"
  from Suc.prems(2) obtain Q where Q: "g_queues s q = Some Q" by blast
  have tail: "runs (?tail s4) ?P" if s4: "kfd_inv s4" "later s s4" "work_count s4 q \<le> fuel" for s4
  proof (rule capacity_tail_runs [OF s4(1) queue_later [OF s4(2) Suc.prems(2)]])
    fix s' assume "kfd_inv s'" "later s4 s'" "head_done s' q" "work_count s' q = work_count s4 q" "0 < work_count s4 q"
    then show "runs (capacity_loop fuel q k unlocks s') ?P"
      using Suc.IH [of s'] s4(3) queue_later [OF later_trans [OF s4(2)] Suc.prems(2)] later_trans [OF s4(2)]
      by (auto elim!: runs_weaken intro: later_trans)
  qed (use later_trans [OF s4(2)] in auto)
  have reap: "runs (?reap s2) ?P"
    if s2: "kfd_inv s2" "later s s2" "work_count s2 q < Suc fuel \<or> work_count s2 q \<le> Suc fuel \<and> head_done s2 q" for s2
    by (rule reap_both_runs [OF s2(1) queue_later [OF s2(2) Suc.prems(2)]])
      (use s2(3) later_trans [OF s2(2)] in \<open>force intro!: tail simp del: runs_obind\<close>)+
  have room: "runs (?room s1) ?P"
    if s1: "kfd_inv s1" "later s s1" "work_count s1 q < Suc fuel \<or> work_count s1 q \<le> Suc fuel \<and> head_done s1 q" for s1
  proof (rule runs_pairI [OF ring_room_runs [OF queue_later [OF s1(2) Suc.prems(2)]]], elim conjE)
    fix room s2
    assume s2: "host s2 = host s1" "later s1 s2" "room \<noteq> Inl LR_SUCCESS" "room = Inr True \<longrightarrow> has_room s2 q k"
    have "runs (?reap s2) ?P"
      using s1(3) work_count_host [OF s2(1), of q] head_done_host [OF s2(1,2)]
      by (intro reap inv_host [OF s1(1) s2(1)] later_trans [OF s1(2) s2(2)]) auto
    then show "runs (case room of Inl error \<Rightarrow> Ok (error, s2)
        | Inr enough \<Rightarrow> if enough then Ok (LR_SUCCESS, s2) else ?reap s2) ?P"
      using s2(3,4) inv_host [OF s1(1) s2(1)] later_trans [OF s1(2) s2(2)] by (auto simp del: runs_obind split: sum.splits)
  qed
  have "runs (obind (reap_direct_kfd_dispatches_locked q s) (\<lambda>(status, s1).
      if status \<noteq> LR_SUCCESS then Ok (status, s1) else ?room s1)) ?P"
  proof (rule runs_pairI [OF reap_work [OF Suc.prems(1,2)]], elim conjE)
    fix status s1
    assume s1: "kfd_inv s1" "later s s1" "live_count s1 q \<le> live_count s q" "event_count s1 q = event_count s q"
      "status = LR_SUCCESS \<longrightarrow> head_done s q \<longrightarrow> live_count s1 q < live_count s q \<or> first_event_done s1 q \<and> head_done s1 q"
    have "runs (?room s1) ?P" if "status = LR_SUCCESS"
      using s1(3-5) Suc.prems(4) that by (intro room [OF s1(1,2)]) (auto simp: work_count_def)
    then show "runs (if status \<noteq> LR_SUCCESS then Ok (status, s1) else ?room s1) ?P"
      using s1(1,2) by (simp del: runs_obind)
  qed
  with room [OF Suc.prems(1) later_refl Suc.prems(4)] Q show ?case
    by (simp add: get_queue_def [of s] del: runs_obind)
qed simp

lemma static_at:
  assumes "static s' = static s"
  shows "map_option static_queue (g_queues s' q) = map_option static_queue (g_queues s q)"
    and "map_option static_event (g_events s' e) = map_option static_event (g_events s e)"
    and "map_option static_dispatch (g_dispatches s' d) = map_option static_dispatch (g_dispatches s d)"
    and "map_option host_signal (g_signals s' n) = map_option host_signal (g_signals s n)"
    and "g_initialized s' = g_initialized s" and "g_kfd_session s' = g_kfd_session s"
    and "g_device_count s' = g_device_count s" and "g_default_queue s' = g_default_queue s" and "g_next s' = g_next s"
    and "w_signals s' = w_signals s" and "w_queues s' = w_queues s"
  using assms unfolding static_def Pair_inject prod.inject by (simp_all only: fun_eq_iff simp_thms)

lemma later_queue:
  assumes "later s s'" and "g_queues s q = Some Q"
  obtains Q' where "g_queues s' q = Some Q'" and "advanced (q_queue Q) (q_queue Q')" and "q_ring Q' = q_ring Q"
    and "q_kernarg_arenas Q' = q_kernarg_arenas Q" and "q_device Q' = q_device Q" and "q_destroying Q' = q_destroying Q"
proof -
  obtain Q' where Q': "g_queues s' q = Some Q'" using queue_later [OF assms(1), of q] assms(2) by auto
  have "static s' = static s" by (rule laterD(1) [OF assms(1)])
  then have "static_queue Q' = static_queue Q" using static_at(1) [of s' s q] assms(2) Q' by simp
  then show ?thesis using that Q' laterD(3) [OF assms Q'] by (simp add: static_queue_def)
qed

lemma advanced_fields:
  assumes "advanced a b"
  shows "kfd_queue_bool b = kfd_queue_bool a" and "packet_count b = packet_count a"
    and "scratch_private_segment_size b = scratch_private_segment_size a" and "aq_state b = aq_state a"
  using assms by (auto simp: advanced_def kfd_queue_bool_def packet_count_def scratch_private_segment_size_def)

lemma capacity_runs:
  assumes inv: "kfd_inv s" and q: "g_queues s q \<noteq> None"
  shows "runs (ensure_direct_kfd_queue_capacity_locked q k unlocks s) (\<lambda>(status, s'). kfd_inv s' \<and> later s s' \<and>
    (status = LR_SUCCESS \<longrightarrow> has_room s' q k \<and> k \<noteq> 0 \<and>
       (\<exists>Q. g_queues s' q = Some Q \<and> kfd_queue_bool (q_queue Q) \<and> k \<le> packet_count (q_queue Q))))" (is "runs _ ?P")
proof -
  from q obtain Q where Q: "g_queues s q = Some Q" by blast
  have work: "pending_work Q = work_count s q"
    using pending_work_count invD(1) [OF inv [unfolded kfd_inv_def] Q] Q by blast
  have "runs (obind (error_reason_acquire q s) (\<lambda>(reason, s1).
      if reason \<noteq> 0 then Ok (LR_ERROR_DEVICE_FAULT, s1) else capacity_loop (pending_work Q + 1) q k unlocks s1)) ?P"
    if ok: "kfd_queue_bool (q_queue Q)" "k \<noteq> 0" "k \<le> packet_count (q_queue Q)"
  proof (rule runs_pairI [OF error_reason_runs [OF q]], elim conjE)
    fix reason s1 assume s1: "host s1 = host s" "later s s1"
    note inv1 = inv_host [OF inv s1(1)]
    have "runs (capacity_loop (pending_work Q + 1) q k unlocks s1)
        (\<lambda>(status, s'). kfd_inv s' \<and> later s1 s' \<and> (status = LR_SUCCESS \<longrightarrow> has_room s' q k))"
      using work_count_host [OF s1(1), of q] work
      by (intro capacity_loop_runs [OF inv1 queue_later [OF s1(2) q]]) simp_all
    moreover have "\<exists>Q'. g_queues s' q = Some Q' \<and> kfd_queue_bool (q_queue Q') \<and> k \<le> packet_count (q_queue Q')" if "later s s'" for s'
      using later_queue [OF that Q] ok(1,3) advanced_fields by metis
    ultimately show "runs (if reason \<noteq> 0 then Ok (LR_ERROR_DEVICE_FAULT, s1) else capacity_loop (pending_work Q + 1) q k unlocks s1) ?P"
      using inv1 s1(2) ok(2) later_trans [OF s1(2)] by (auto elim!: runs_weaken simp del: capacity_loop.simps)
  qed
  with inv Q show ?thesis
    by (auto simp: ensure_direct_kfd_queue_capacity_locked_def get_queue_def [of s] not_less simp del: runs_obind capacity_loop.simps)
qed

end
