(* ===== verification/DirectKfdSubmit.thy ===== *)
theory DirectKfdSubmit
  imports DirectKfdWait
begin

text \<open>
  The launch of \<open>DirectKfdLaunch\<close> keeps the invariant: growth of the scratch memory, the choice of a dispatch
  object, the kernarg segment, the submission and its rollback. A dispatch in flight keeps its kernarg bytes
  throughout.
\<close>

section \<open>Rings\<close>

text \<open>
  Every usable queue object has a ring that its indices fit, and so has every queue object the transport still
  delivers: \<open>AqlQueue::create\<close> promises a ring of a power of two of packets with both indices zero.
\<close>

definition ring_usable :: "AqlQueue \<Rightarrow> bytes \<Rightarrow> bool" where
  "ring_usable aql ring \<longleftrightarrow> (kfd_queue_bool aql \<longrightarrow> queue_ok (aql, ring))"

definition rings_ok :: "runtime \<Rightarrow> bool" where
  "rings_ok s \<longleftrightarrow> (\<forall>q Q. g_queues s q = Some Q \<longrightarrow> ring_usable (q_queue Q) (q_ring Q)) \<and>
     (\<forall>x \<in> set (w_queues s). ring_usable (fst (snd (snd x))) (snd (snd (snd x))))"

lemma rings_okD: "rings_ok s \<Longrightarrow> g_queues s q = Some Q \<Longrightarrow> ring_usable (q_queue Q) (q_ring Q)"
  by (simp add: rings_ok_def)

lemma ring_usable_advanced:
  assumes "advanced a b" and "ring_usable a ring"
  shows "ring_usable b ring"
proof -
  from assms(1) obtain n where n: "n \<le> aq_write_dispatch_id a - aq_read_dispatch_id a"
    and b: "b = a\<lparr>aq_read_dispatch_id := aq_read_dispatch_id a + n\<rparr>" by (auto simp: advanced_def)
  have "queue_ok (b, ring)" if ok: "queue_ok (a, ring)"
  proof -
    have le: "unat (aq_read_dispatch_id a) \<le> unat (aq_write_dispatch_id a)"
      using ok by (simp add: queue_ok_def ring_ok_def)
    have "unat (aq_read_dispatch_id a) + unat n \<le> unat (aq_write_dispatch_id a)"
      using n le by (simp add: word_le_nat_alt unat_sub)
    then show ?thesis
      unfolding b using device_refines [OF ok, of "aq_read_dispatch_id a + n"]
        unat_add64 [of "aq_read_dispatch_id a" n] unat_u64_less [of "aq_write_dispatch_id a"] by simp
  qed
  then show ?thesis using assms(2) advanced_fields(1) [OF assms(1)] by (simp add: ring_usable_def)
qed

section \<open>What a launch leaves alone\<close>

text \<open>The kernarg bytes of a dispatch object.\<close>

definition kernarg_of :: "runtime \<Rightarrow> lr_queue \<Rightarrow> nat \<Rightarrow> bytes option" where
  "kernarg_of s Q d = (case g_dispatches s d of None \<Rightarrow> None
     | Some p \<Rightarrow> (case slice_bytes (q_kernarg_arenas Q) (pd_kernarg p) of Ok bs \<Rightarrow> bs | _ \<Rightarrow> None))"

text \<open>
  No queue and no event comes or goes, dispatches leave a queue from its head only, the ones left keep their kernarg
  bytes and signal no new event, and no event becomes pending or changes its device or the handle of its signal.
\<close>

definition calm_queue :: "runtime \<Rightarrow> runtime \<Rightarrow> lr_queue \<Rightarrow> lr_queue \<Rightarrow> bool" where
  "calm_queue s s' Q Q' \<longleftrightarrow> (\<exists>n. live_dispatches Q' = drop n (live_dispatches Q)) \<and>
     (\<forall>d. Some d \<in> set (live_dispatches Q') \<longrightarrow> kernarg_of s' Q' d = kernarg_of s Q d) \<and>
     (\<forall>d e. Some d \<in> set (live_dispatches Q') \<longrightarrow> completion_of s' d = Some e \<longrightarrow> completion_of s d = Some e) \<and>
     q_device Q' = q_device Q"

definition calm_event :: "lr_event \<Rightarrow> lr_event \<Rightarrow> bool" where
  "calm_event ev ev' \<longleftrightarrow> (ev_pending ev' \<longrightarrow> ev_pending ev) \<and> ev_device ev' = ev_device ev \<and>
     host_signal (ev_signal ev') = host_signal (ev_signal ev)"

definition calm :: "runtime \<Rightarrow> runtime \<Rightarrow> bool" where
  "calm s s' \<longleftrightarrow> (\<forall>q. rel_option (calm_queue s s') (g_queues s q) (g_queues s' q)) \<and>
     (\<forall>e. rel_option calm_event (g_events s e) (g_events s' e))"

text \<open>Between the test for room and the submission, moreover, no ring changes but for the read index.\<close>

definition ring_kept :: "lr_queue \<Rightarrow> lr_queue \<Rightarrow> bool" where
  "ring_kept Q Q' \<longleftrightarrow> advanced (q_queue Q) (q_queue Q') \<and> q_ring Q' = q_ring Q"

definition mild :: "runtime \<Rightarrow> runtime \<Rightarrow> bool" where
  "mild s s' \<longleftrightarrow> calm s s' \<and> (\<forall>q. rel_option ring_kept (g_queues s q) (g_queues s' q)) \<and> w_queues s' = w_queues s"

lemma calm_queue_refl [simp]: "calm_queue s s Q Q"
  by (auto simp: calm_queue_def intro: exI [of _ 0])

lemma calm_event_refl [simp]: "calm_event ev ev"
  by (simp add: calm_event_def)

lemma ring_kept_refl [simp]: "ring_kept Q Q"
  by (simp add: ring_kept_def)

lemma calm_refl [simp]: "calm s s"
  by (auto simp: calm_def intro!: rel_option_reflI)

lemma mild_refl [simp]: "mild s s"
  by (auto simp: mild_def intro!: rel_option_reflI)

lemma rel_option_trans:
  "rel_option R x y \<Longrightarrow> rel_option S y z \<Longrightarrow> (\<And>a b c. R a b \<Longrightarrow> S b c \<Longrightarrow> T a c) \<Longrightarrow> rel_option T x z"
  by (cases x; cases y; cases z) auto

lemma calm_queue_trans:
  assumes "calm_queue s s1 Q Q1" and "calm_queue s1 s2 Q1 Q2"
  shows "calm_queue s s2 Q Q2"
proof -
  from assms obtain m n where "live_dispatches Q1 = drop m (live_dispatches Q)" "live_dispatches Q2 = drop n (live_dispatches Q1)"
    unfolding calm_queue_def by blast
  then have "live_dispatches Q2 = drop (n + m) (live_dispatches Q)" "set (live_dispatches Q2) \<subseteq> set (live_dispatches Q1)"
    using set_drop_subset [of n "live_dispatches Q1"] by (simp_all add: add.commute)
  then show ?thesis using assms unfolding calm_queue_def by auto
qed

lemma calm_event_trans: "calm_event a b \<Longrightarrow> calm_event b c \<Longrightarrow> calm_event a c"
  by (simp add: calm_event_def)

lemma ring_kept_trans: "ring_kept a b \<Longrightarrow> ring_kept b c \<Longrightarrow> ring_kept a c"
  unfolding ring_kept_def using advanced_trans by metis

lemma calm_trans [trans]:
  assumes "calm s s1" and "calm s1 s2"
  shows "calm s s2"
  unfolding calm_def
proof (intro conjI allI)
  fix q show "rel_option (calm_queue s s2) (g_queues s q) (g_queues s2 q)"
    using assms [unfolded calm_def] calm_queue_trans by (blast intro: rel_option_trans [of _ _ "g_queues s1 q"])
next
  fix e show "rel_option calm_event (g_events s e) (g_events s2 e)"
    using assms [unfolded calm_def] calm_event_trans by (blast intro: rel_option_trans [of _ _ "g_events s1 e"])
qed

lemma mild_trans [trans]:
  assumes "mild s s1" and "mild s1 s2"
  shows "mild s s2"
proof -
  have "rel_option ring_kept (g_queues s q) (g_queues s2 q)" for q
    using assms [unfolded mild_def] ring_kept_trans by (blast intro: rel_option_trans [of _ _ "g_queues s1 q"])
  then show ?thesis using assms calm_trans by (auto simp: mild_def)
qed

lemma mild_calm: "mild s s' \<Longrightarrow> calm s s'"
  by (simp add: mild_def)

lemma later_mild:
  assumes "later s s'"
  shows "mild s s'"
proof -
  note st = static_at [OF laterD(1) [OF assms]]
  have disp: "map_option pd_kernarg (g_dispatches s' d) = map_option pd_kernarg (g_dispatches s d)" for d
    using arg_cong [OF st(3) [of d], of "map_option snd"] by (simp add: option.map_comp comp_def static_dispatch_def)
  have kern: "kernarg_of s' Q' d = kernarg_of s Q d" if "q_kernarg_arenas Q' = q_kernarg_arenas Q" for Q Q' d
    using that disp [of d] by (cases "g_dispatches s d"; cases "g_dispatches s' d") (auto simp: kernarg_of_def)
  have "rel_option (calm_queue s s') (g_queues s q) (g_queues s' q) \<and> rel_option ring_kept (g_queues s q) (g_queues s' q)" for q
  proof (cases "g_queues s q")
    case None
    then show ?thesis using static_dom(1) [OF laterD(1) [OF assms], of q] by simp
  next
    case (Some Q)
    from later_queue [OF assms Some] obtain Q' where Q': "g_queues s' q = Some Q'" "advanced (q_queue Q) (q_queue Q')"
      "q_ring Q' = q_ring Q" "q_kernarg_arenas Q' = q_kernarg_arenas Q" "q_device Q' = q_device Q" .
    moreover have "\<exists>n. live_dispatches Q' = drop n (live_dispatches Q)"
      using assms Some Q'(1) unfolding later_def by blast
    moreover have "kernarg_of s' Q' d = kernarg_of s Q d" for d by (rule kern) (rule Q'(4))
    moreover have "completion_of s d = Some e" if "completion_of s' d = Some e" for d e
      using that laterD(1) [OF assms] later_still [OF assms] unfolding still_def by blast
    ultimately show ?thesis using Some by (simp add: calm_queue_def ring_kept_def)
  qed
  note queues = this
  have "rel_option calm_event (g_events s e) (g_events s' e)" for e
  proof (cases "g_events s e")
    case None
    then show ?thesis using st(2) [of e] by simp
  next
    case (Some ev)
    then obtain ev' where ev': "g_events s' e = Some ev'" "static_event ev' = static_event ev"
      using st(2) [of e] by (auto simp: map_option_eq_Some)
    then show ?thesis using Some laterD(4) [OF assms Some ev'(1)] by (simp add: calm_event_def static_event_def)
  qed
  then show ?thesis using queues st(11) by (simp add: mild_def calm_def)
qed

lemma rings_mild:
  assumes "mild s s'" and "rings_ok s"
  shows "rings_ok s'"
proof -
  have "ring_usable (q_queue Q') (q_ring Q')" if Q': "g_queues s' q = Some Q'" for q Q'
  proof -
    have "rel_option ring_kept (g_queues s q) (Some Q')" using assms(1) Q' unfolding mild_def by metis
    then obtain Q where Q: "g_queues s q = Some Q" "ring_kept Q Q'" by (auto simp: option_rel_Some2)
    then show ?thesis using ring_usable_advanced [of "q_queue Q" "q_queue Q'"] rings_okD [OF assms(2) Q(1)] by (simp add: ring_kept_def)
  qed
  then show ?thesis using assms by (simp add: rings_ok_def mild_def)
qed

lemma room_mild:
  assumes "mild s s'" and "has_room s q k"
  shows "has_room s' q k"
proof -
  from assms(2) obtain Q where Q: "g_queues s q = Some Q" "read_index_acquire (q_queue Q) \<le> write_index_relaxed (q_queue Q)"
    "write_index_relaxed (q_queue Q) - read_index_acquire (q_queue Q) \<le> packet_count (q_queue Q) - k"
    by (auto simp: has_room_def)
  have "rel_option ring_kept (Some Q) (g_queues s' q)" using assms(1) Q(1) unfolding mild_def by metis
  then obtain Q' where Q': "g_queues s' q = Some Q'" "advanced (q_queue Q) (q_queue Q')" by (auto simp: option_rel_Some1 ring_kept_def)
  from advanced_room [OF Q'(2) Q(2,3)] Q'(1) show ?thesis by (simp add: has_room_def)
qed

lemma calm_queueD:
  assumes "calm s s'" and "g_queues s q = Some Q"
  obtains Q' where "g_queues s' q = Some Q'" and "calm_queue s s' Q Q'"
proof -
  have "rel_option (calm_queue s s') (Some Q) (g_queues s' q)" using assms unfolding calm_def by metis
  then show ?thesis using that by (auto simp: option_rel_Some1)
qed

lemma calm_eventD:
  assumes "calm s s'" and "g_events s e = Some ev"
  obtains ev' where "g_events s' e = Some ev'" and "calm_event ev ev'"
proof -
  have "rel_option calm_event (Some ev) (g_events s' e)" using assms unfolding calm_def by metis
  then show ?thesis using that by (auto simp: option_rel_Some1)
qed

lemma calm_put_queue:
  assumes "g_queues s q = Some Q" and "live_dispatches Q' = live_dispatches Q" and "q_kernarg_arenas Q' = q_kernarg_arenas Q"
    and "q_device Q' = q_device Q"
  shows "calm s (put_queue q Q' s)"
proof -
  have "calm_queue s (put_queue q Q' s) Q Q'"
    using assms(2-4) by (auto simp: calm_queue_def kernarg_of_def intro: exI [of _ 0] split: option.splits)
  moreover have "calm_queue s (put_queue q Q' s) R R" for R
    by (auto simp: calm_queue_def kernarg_of_def intro: exI [of _ 0])
  ultimately show ?thesis using assms(1) by (auto simp: calm_def intro!: rel_option_reflI)
qed

lemma same_globals_calm:
  assumes "same_globals s s'"
  shows "calm s s'"
proof -
  have "kernarg_of s' = kernarg_of s" using assms by (auto simp: fun_eq_iff kernarg_of_def same_globals_def)
  moreover have "completion_of s' = completion_of s" using assms by (simp add: fun_eq_iff completion_of_def same_globals_def)
  ultimately have "calm_queue s s' Q Q" for Q by (auto simp: calm_queue_def intro: exI [of _ 0])
  then show ?thesis using assms by (auto simp: calm_def same_globals_def intro!: rel_option_reflI)
qed

section \<open>Scratch\<close>

lemma ring_usable_none [simp]: "ring_usable no_queue ring"
  by (simp add: ring_usable_def no_queue_def kfd_queue_bool_def)

lemma next_queue_reply:
  assumes "next_queue s = ((a, b, aql, ring), s')" and "rings_ok s"
  shows "ring_usable aql ring" and "same_globals s s'" and "rings_ok s'"
  using assms by (auto simp: next_queue_def rings_ok_def same_globals_def split: list.splits)

lemma put_ring:
  assumes "kfd_inv s" and "rings_ok s" and "g_queues s q = Some Q" and "ring_usable aql ring"
  shows "kfd_inv (put_queue q (Q\<lparr>q_queue := aql, q_ring := ring, q_error := r\<rparr>) s)"
    and "rings_ok (put_queue q (Q\<lparr>q_queue := aql, q_ring := ring, q_error := r\<rparr>) s)"
    and "calm s (put_queue q (Q\<lparr>q_queue := aql, q_ring := ring, q_error := r\<rparr>) s)"
proof -
  show "kfd_inv (put_queue q (Q\<lparr>q_queue := aql, q_ring := ring, q_error := r\<rparr>) s)"
    by (rule inv_core [OF assms(1,3)]) (simp add: core_def)
  show "rings_ok (put_queue q (Q\<lparr>q_queue := aql, q_ring := ring, q_error := r\<rparr>) s)"
    using assms(2,4) by (auto simp: rings_ok_def put_queue_def)
  show "calm s (put_queue q (Q\<lparr>q_queue := aql, q_ring := ring, q_error := r\<rparr>) s)"
    by (rule calm_put_queue [OF assms(3)]) (simp_all add: live_dispatches_def)
qed

definition sound :: "runtime \<Rightarrow> nat \<Rightarrow> runtime \<Rightarrow> bool" where
  "sound s q s' \<longleftrightarrow> kfd_inv s' \<and> rings_ok s' \<and> calm s s' \<and> g_queues s' q \<noteq> None"

lemma sound_trans [trans]: "sound s q s1 \<Longrightarrow> sound s1 q s2 \<Longrightarrow> sound s q s2"
  unfolding sound_def using calm_trans by blast

lemma sound_mild: "kfd_inv s' \<Longrightarrow> mild s s' \<Longrightarrow> rings_ok s \<Longrightarrow> g_queues s q \<noteq> None \<Longrightarrow> sound s q s'"
  unfolding sound_def using rings_mild mild_calm calm_queueD by (metis not_None_eq)

lemma set_aql_queue_runs:
  assumes "sound s q s" and "ring_usable aql ring"
  shows "runs (set_aql_queue q aql ring s) (sound s q)"
  using assms put_ring [of s q _ aql ring 0] by (auto simp: set_aql_queue_def sound_def)

lemma sound_next_queue:
  assumes "sound s q s" and "next_queue s = ((a, b, aql, ring), s')"
  shows "sound s q s'" and "sound s' q s'" and "ring_usable aql ring"
  using assms next_queue_reply [OF assms(2)] same_globals_calm [of s s'] same_globals_inv [of s s']
  by (auto simp: sound_def same_globals_def)

lemma release_aql_queue_runs:
  assumes "sound s q s"
  shows "runs (release_aql_queue q s) (\<lambda>(released, s'). sound s q s')"
proof -
  obtain a b aql ring s1 where reply: "next_queue s = ((a, b, aql, ring), s1)" by (metis prod.exhaust)
  note s1 = sound_next_queue [OF assms reply]
  obtain Q where Q: "g_queues s q = Some Q" "g_queues s1 q = Some Q"
    using assms next_queue_reply(2) [OF reply] by (auto simp: sound_def same_globals_def)
  have gone: "runs (obind (set_aql_queue q no_queue [] s1) (\<lambda>s2. Ok (a, s2))) (\<lambda>(released, s'). sound s q s')"
    using set_aql_queue_runs [OF s1(2) ring_usable_none, of "[]"] by simp (metis (mono_tags, lifting) runs_weaken sound_trans [OF s1(1)])
  have "Q\<lparr>q_queue := aql, q_ring := ring\<rparr> = Q\<lparr>q_queue := aql, q_ring := ring, q_error := q_error Q\<rparr>" by simp
  then have "sound s1 q (put_queue q (Q\<lparr>q_queue := aql, q_ring := ring\<rparr>) s1)"
    using put_ring [of s1 q Q aql ring "q_error Q"] s1(2,3) Q(2) by (simp add: sound_def)
  then have kept: "sound s q (put_queue q (Q\<lparr>q_queue := aql, q_ring := ring\<rparr>) s1)" by (rule sound_trans [OF s1(1)])
  show ?thesis
    using assms gone kept Q(1) reply by (simp add: release_aql_queue_def get_queue_def)
qed

lemma create_aql_queue_runs:
  assumes "sound s q s"
  shows "runs (create_aql_queue_for q s) (\<lambda>(reply, s'). sound s q s')"
proof -
  obtain a b aql ring s1 where reply: "next_queue s = ((a, b, aql, ring), s1)" by (metis prod.exhaust)
  note s1 = sound_next_queue [OF assms reply]
  show ?thesis
    using set_aql_queue_runs [OF s1(2,3)] reply
    by (simp add: create_aql_queue_for_def) (metis (mono_tags, lifting) runs_weaken sound_trans [OF s1(1)])
qed

lemma sound_self: "sound s q s' \<Longrightarrow> sound s' q s'"
  by (simp add: sound_def)

lemma scratch_runs:
  assumes "sound s q s"
  shows "runs (ensure_direct_kfd_queue_scratch_locked q private_size s) (\<lambda>(status, s'). sound s q s')" (is "runs _ ?P")
proof -
  have again: "runs (obind (release_aql_queue q s3) (\<lambda>(_, s4). obind (create_aql_queue_for q s4) (\<lambda>(_, s5).
      Ok (if scratch_error then LR_ERROR_NOT_SUPPORTED else LR_ERROR_RUNTIME, s5)))) ?P" if s3: "sound s q s3" for s3 scratch_error
  proof (rule runs_pairI [OF release_aql_queue_runs [OF sound_self [OF s3]]])
    fix r s4 assume "sound s3 q s4"
    with s3 have s4: "sound s q s4" by (rule sound_trans)
    show "runs (obind (create_aql_queue_for q s4) (\<lambda>(_, s5). Ok (if scratch_error then LR_ERROR_NOT_SUPPORTED else LR_ERROR_RUNTIME, s5))) ?P"
      by (rule runs_pairI [OF create_aql_queue_runs [OF sound_self [OF s4]]]) (simp add: sound_trans [OF s4])
  qed
  have rest: "runs (obind (release_aql_queue q s1) (\<lambda>(released, s2).
     if \<not> released then Ok (LR_ERROR_RUNTIME, s2)
     else
     obind (create_aql_queue_for q s2) (\<lambda>((created, scratch_error), s3).
     if created then Ok (LR_SUCCESS, s3)
     else
     obind (release_aql_queue q s3) (\<lambda>(_, s4).
     obind (create_aql_queue_for q s4) (\<lambda>(_, s5).
     Ok (if scratch_error then LR_ERROR_NOT_SUPPORTED else LR_ERROR_RUNTIME, s5)))))) ?P" if s1: "sound s q s1" for s1
  proof (rule runs_pairI [OF release_aql_queue_runs [OF sound_self [OF s1]]])
    fix released s2 assume "sound s1 q s2"
    with s1 have s2: "sound s q s2" by (rule sound_trans)
    have "runs (obind (create_aql_queue_for q s2) (\<lambda>(reply, s3).
       if fst reply then Ok (LR_SUCCESS, s3)
       else obind (release_aql_queue q s3) (\<lambda>(_, s4). obind (create_aql_queue_for q s4) (\<lambda>(_, s5).
         Ok (if snd reply then LR_ERROR_NOT_SUPPORTED else LR_ERROR_RUNTIME, s5))))) ?P"
      using again sound_trans [OF s2]
      by (intro runs_pairI [OF create_aql_queue_runs [OF sound_self [OF s2]]]) (simp del: runs_obind)
    then show "runs (if \<not> released then Ok (LR_ERROR_RUNTIME, s2)
     else
     obind (create_aql_queue_for q s2) (\<lambda>((created, scratch_error), s3).
     if created then Ok (LR_SUCCESS, s3)
     else
     obind (release_aql_queue q s3) (\<lambda>(_, s4).
     obind (create_aql_queue_for q s4) (\<lambda>(_, s5).
     Ok (if scratch_error then LR_ERROR_NOT_SUPPORTED else LR_ERROR_RUNTIME, s5))))) ?P"
      using s2 by (simp add: split_def del: runs_obind)
  qed
  have "runs (obind (synchronize_direct_kfd_queue_locked q s) (\<lambda>(sync_status, s1).
     if sync_status \<noteq> LR_SUCCESS then Ok (sync_status, s1)
     else
     obind (release_aql_queue q s1) (\<lambda>(released, s2).
     if \<not> released then Ok (LR_ERROR_RUNTIME, s2)
     else
     obind (create_aql_queue_for q s2) (\<lambda>((created, scratch_error), s3).
     if created then Ok (LR_SUCCESS, s3)
     else
     obind (release_aql_queue q s3) (\<lambda>(_, s4).
     obind (create_aql_queue_for q s4) (\<lambda>(_, s5).
     Ok (if scratch_error then LR_ERROR_NOT_SUPPORTED else LR_ERROR_RUNTIME, s5))))))) ?P"
  proof (rule runs_pairI [OF synchronize_runs], goal_cases)
    case (3 status s1)
    then have "sound s q s1" using assms by (intro sound_mild) (auto simp: sound_def intro: later_mild)
    then show ?case using rest by (simp del: runs_obind)
  qed (use assms in \<open>auto simp: sound_def\<close>)
  then show ?thesis
    using assms by (auto simp: ensure_direct_kfd_queue_scratch_locked_def get_queue_def sound_def simp del: runs_obind split: option.splits)
qed

end
