(* ===== verification/DirectKfdAcquire.thy ===== *)
theory DirectKfdAcquire
  imports DirectKfdSubmit
begin

text \<open>
  The resource block of a launch: the compaction of the pending dispatches, the search in the pool, the kernarg
  arenas and the creation of a dispatch object. The result is a dispatch object that belongs to no list, which the
  invariant of the state with the object back in the pool describes.
\<close>

section \<open>A dispatch object in hand\<close>

abbreviation with_pool :: "lr_queue \<Rightarrow> nat list \<Rightarrow> lr_queue" where
  "with_pool Q ds \<equiv> Q\<lparr>q_available_dispatches := ds\<rparr>"

definition holding :: "runtime \<Rightarrow> nat \<Rightarrow> nat \<Rightarrow> bool" where
  "holding s q d \<longleftrightarrow> (\<exists>Q. g_queues s q = Some Q \<and> kfd_inv (put_queue q (with_pool Q (q_available_dispatches Q @ [d])) s))"

text \<open>The object is ready for a launch with \<open>n\<close> bytes of kernarg storage.\<close>

definition held :: "runtime \<Rightarrow> nat \<Rightarrow> u64 \<Rightarrow> bool" where
  "held s d n \<longleftrightarrow> (\<exists>p. g_dispatches s d = Some p \<and> us_page (pd_completion_signal p) \<and>
     us_value (pd_completion_signal p) = 1 \<and> pd_completion_event p = None \<and> reusable n p)"

lemma live_with_pool [simp]: "live_dispatches (with_pool Q ds) = live_dispatches Q"
  by (simp add: live_dispatches_def)

lemma waits_with_pool [simp]: "waits_on (with_pool Q ds) = waits_on Q"
  by (simp add: waits_on_def fun_eq_iff)

lemma mild_put_queue:
  assumes "g_queues s q = Some Q" and "live_dispatches Q' = live_dispatches Q" and "q_kernarg_arenas Q' = q_kernarg_arenas Q"
    and "q_device Q' = q_device Q" and "q_queue Q' = q_queue Q" and "q_ring Q' = q_ring Q"
  shows "mild s (put_queue q Q' s)"
  using calm_put_queue [OF assms(1-4)] assms(1,5,6)
  by (auto simp: mild_def ring_kept_def put_queue_def intro!: rel_option_reflI)

lemma same_globals_mild: "same_globals s s' \<Longrightarrow> w_queues s' = w_queues s \<Longrightarrow> mild s s'"
  using same_globals_calm [of s s'] by (auto simp: mild_def same_globals_def intro!: rel_option_reflI)

lemma same_globals_maps:
  assumes "same_globals s s'"
  shows "g_queues s' = g_queues s" and "g_events s' = g_events s" and "g_dispatches s' = g_dispatches s" and "g_next s' = g_next s"
  using assms by (simp_all add: same_globals_def)

lemma inv_same_queue:
  assumes "kfd_inv s" and "g_queues s q = Some Q" and "queue_inv (g_events s) (g_dispatches s) (g_next s) q Q'"
    and "set (owned Q') \<subseteq> set (owned Q)" and "q_pending_barriers Q' = q_pending_barriers Q"
    and "q_pending_events Q' = q_pending_events Q"
  shows "kfd_inv (put_queue q Q' s)"
  using inv_put_queue_same [OF assms(1) [unfolded kfd_inv_def] assms(2-4)] assms(5,6)
  by (simp add: kfd_inv_def waits_on_def)

lemma inv_queueD: "kfd_inv s \<Longrightarrow> g_queues s q = Some Q \<Longrightarrow> queue_inv (g_events s) (g_dispatches s) (g_next s) q Q"
  unfolding kfd_inv_def by (rule invD(1))

lemma inv_permute_pool:
  assumes "kfd_inv s" and Q: "g_queues s q = Some Q" and "mset ds = mset (q_available_dispatches Q)"
  shows "kfd_inv (put_queue q (with_pool Q ds) s)"
proof (rule inv_same_queue [OF assms(1) Q])
  have m: "mset (owned (with_pool Q ds)) = mset (owned Q)" using assms(3) by (simp add: owned_def)
  have own: "set (owned (with_pool Q ds)) = set (owned Q)" "distinct (owned (with_pool Q ds)) = distinct (owned Q)"
    using m by (metis set_mset_mset) (rule mset_eq_imp_distinct_iff [OF m])
  have pool: "set ds = set (q_available_dispatches Q)" using assms(3) by (metis set_mset_mset)
  show "set (owned (with_pool Q ds)) \<subseteq> set (owned Q)" by (simp add: own)
  show "queue_inv (g_events s) (g_dispatches s) (g_next s) q (with_pool Q ds)"
    using inv_queueD [OF assms(1) Q] own pool by (simp add: queue_inv_def)
qed simp_all

section \<open>The pool\<close>

lemma compact_runs:
  assumes "kfd_inv s" and Q: "g_queues s q = Some Q"
  shows "kfd_inv (put_queue q (compact_dispatches b Q) s)" and "mild s (put_queue q (compact_dispatches b Q) s)"
proof -
  let ?Q = "compact_dispatches b Q"
  have live: "live_dispatches ?Q = live_dispatches Q" by (simp add: compact_dispatches_def live_dispatches_def)
  then have own: "owned ?Q = owned Q" by (simp add: owned_def compact_dispatches_def)
  have "queue_inv (g_events s) (g_dispatches s) (g_next s) q ?Q"
    using inv_queueD [OF assms] unfolding queue_inv_def live own by (simp add: compact_dispatches_def)
  then show "kfd_inv (put_queue q ?Q s)"
    by (rule inv_same_queue [OF assms]) (simp add: own, simp_all add: compact_dispatches_def)
  show "mild s (put_queue q ?Q s)"
    by (rule mild_put_queue [OF Q live]) (simp_all add: compact_dispatches_def)
qed

lemma search_reusable_runs:
  assumes "\<forall>d \<in> set ds. g_dispatches s d \<noteq> None"
  shows "runs (search_reusable n s ds) (\<lambda>found. \<forall>i. found = Some i \<longrightarrow>
    i < length ds \<and> (\<exists>p. g_dispatches s (ds ! i) = Some p \<and> reusable n p))"
  using assms
proof (induction ds)
  case (Cons d ds)
  then obtain p where "g_dispatches s d = Some p" by auto
  moreover from Cons have "runs (search_reusable n s ds) (\<lambda>found. \<forall>i. found = Some i \<longrightarrow>
    i < length ds \<and> (\<exists>p. g_dispatches s (ds ! i) = Some p \<and> reusable n p))" by simp
  ultimately show ?case by (auto elim!: runs_weaken)
qed simp

lemma owned_dispatch:
  assumes "kfd_inv s" and "g_queues s q = Some Q" and "d \<in> set (owned Q)"
  obtains p where "g_dispatches s d = Some p" and "us_page (pd_completion_signal p)" and "slice_ok (q_kernarg_arenas Q) (pd_kernarg p)"
  using inv_queueD [OF assms(1,2)] assms(3) by (auto simp: queue_inv_def dispatch_ok_def)

lemma find_reusable_runs:
  assumes "kfd_inv s" and Q: "g_queues s q = Some Q"
  shows "runs (find_reusable q n s) (\<lambda>found. \<forall>i. found = Some i \<longrightarrow> i < length (q_available_dispatches Q) \<and>
    (\<exists>p. g_dispatches s (q_available_dispatches Q ! i) = Some p \<and> reusable n p))"
proof -
  have "g_dispatches s d \<noteq> None" if "d \<in> set (q_available_dispatches Q)" for d
    by (rule owned_dispatch [OF assms, of d]) (use that in \<open>simp_all add: owned_def\<close>)
  then have "\<forall>d \<in> set (rev (q_available_dispatches Q)). g_dispatches s d \<noteq> None" by simp
  from search_reusable_runs [OF this, of n] show ?thesis
    using Q by (auto simp: find_reusable_def get_queue_def rev_nth elim!: runs_weaken)
qed

lemma take_reusable_runs:
  assumes inv: "kfd_inv s" and Q: "g_queues s q = Some Q" and i: "i < length (q_available_dispatches Q)"
    and p: "g_dispatches s (q_available_dispatches Q ! i) = Some p" "reusable n p"
  shows "runs (take_reusable q i s) (\<lambda>(d, s'). mild s s' \<and> holding s' q d \<and> held s' d n)"
proof -
  let ?d = "q_available_dispatches Q ! i"
  let ?Q = "with_pool Q (swap_remove i (q_available_dispatches Q))"
  let ?sig = "(pd_completion_signal p)\<lparr>us_start_ts := 0, us_end_ts := 0, us_value := 1\<rparr>"
  let ?p = "p\<lparr>pd_completion_signal := ?sig\<rparr>"
  have mem: "?d \<in> set (owned Q)" "?d \<in> set (q_available_dispatches Q)" using i by (simp_all add: owned_def)
  have page: "us_page (pd_completion_signal p)" using owned_dispatch [OF inv Q mem(1)] p(1) by auto
  have none: "pd_completion_event p = None"
    using inv_queueD [OF inv Q] mem(2) p(1) by (auto simp: queue_inv_def pooled_ok_def)
  have "kfd_inv (put_queue q (with_pool Q (swap_remove i (q_available_dispatches Q) @ [?d])) s)"
    using mset_swap_remove [OF i] by (intro inv_permute_pool [OF inv Q]) simp
  then have "state_inv ((g_queues s)(q \<mapsto> with_pool Q (swap_remove i (q_available_dispatches Q) @ [?d]))) (g_events s)
      ((g_dispatches s)(?d \<mapsto> ?p)) (g_next s)"
    unfolding kfd_inv_def using p(1) none page
    by (intro inv_put_dispatch [where ds = "g_dispatches s" and d = ?d]) auto
  then have "holding (put_dispatch ?d ?p (put_queue q ?Q s)) q ?d" by (simp add: holding_def kfd_inv_def)
  moreover have "held (put_dispatch ?d ?p (put_queue q ?Q s)) ?d n"
    using page none p(2) by (simp add: held_def reusable_def)
  moreover have "mild s (put_dispatch ?d ?p (put_queue q ?Q s))"
  proof (rule mild_trans)
    show "mild s (put_queue q ?Q s)" by (rule mild_put_queue [OF Q]) simp_all
    have "kernarg_of (put_dispatch ?d ?p (put_queue q ?Q s)) = kernarg_of (put_queue q ?Q s)"
      using p(1) by (auto simp: kernarg_of_def fun_eq_iff)
    moreover have "completion_of (put_dispatch ?d ?p (put_queue q ?Q s)) = completion_of (put_queue q ?Q s)"
      using p(1) by (simp add: fun_eq_iff completion_of_def)
    ultimately show "mild (put_queue q ?Q s) (put_dispatch ?d ?p (put_queue q ?Q s))"
      unfolding mild_def calm_def calm_queue_def by (auto simp: put_dispatch_def put_queue_def intro!: rel_option_reflI exI [of _ 0])
  qed
  ultimately show ?thesis
    using Q p(1) page by (simp add: take_reusable_def get_queue_def get_dispatch_def reset_signal_def Let_def)
qed

section \<open>The arenas\<close>

abbreviation with_arenas :: "lr_queue \<Rightarrow> KernargArena list \<Rightarrow> lr_queue" where
  "with_arenas Q as \<equiv> Q\<lparr>q_kernarg_arenas := as\<rparr>"

lemma owned_with_arenas [simp]: "live_dispatches (with_arenas Q as) = live_dispatches Q" "owned (with_arenas Q as) = owned Q"
  by (simp_all add: live_dispatches_def owned_def)

text \<open>The slices of the dispatch objects of a queue stay good when the arenas change.\<close>

lemma inv_arenas:
  assumes inv: "kfd_inv s" and Q: "g_queues s q = Some Q" and ok: "\<And>a. a \<in> set arenas \<Longrightarrow> arena_ok a"
    and slices: "\<And>d p. d \<in> set (owned Q) \<Longrightarrow> g_dispatches s d = Some p \<Longrightarrow> slice_ok (q_kernarg_arenas Q) (pd_kernarg p) \<Longrightarrow>
      slice_ok arenas (pd_kernarg p)"
  shows "kfd_inv (put_queue q (with_arenas Q arenas) s)"
proof (rule inv_same_queue [OF inv Q])
  have "dispatch_ok (g_events s) (g_dispatches s) (g_next s) arenas d" if "d \<in> set (owned Q)" for d
    using inv_queueD [OF inv Q] that slices [OF that] by (auto simp: queue_inv_def dispatch_ok_def)
  then show "queue_inv (g_events s) (g_dispatches s) (g_next s) q (with_arenas Q arenas)"
    using inv_queueD [OF inv Q] ok by (auto simp: queue_inv_def)
qed simp_all

lemma mild_arenas:
  assumes inv: "kfd_inv s" and Q: "g_queues s q = Some Q"
    and same: "\<And>d p. Some d \<in> set (live_dispatches Q) \<Longrightarrow> g_dispatches s d = Some p \<Longrightarrow> slice_ok (q_kernarg_arenas Q) (pd_kernarg p) \<Longrightarrow>
      slice_bytes arenas (pd_kernarg p) = slice_bytes (q_kernarg_arenas Q) (pd_kernarg p)"
  shows "mild s (put_queue q (with_arenas Q arenas) s)"
proof -
  let ?s = "put_queue q (with_arenas Q arenas) s"
  have "kernarg_of ?s (with_arenas Q arenas) d = kernarg_of s Q d" if d: "Some d \<in> set (live_dispatches Q)" for d
  proof -
    have "d \<in> set (owned Q)" using d by (force simp: owned_def)
    from owned_dispatch [OF inv Q this] obtain p where "g_dispatches s d = Some p" "slice_ok (q_kernarg_arenas Q) (pd_kernarg p)" .
    with same [OF d] show ?thesis by (simp add: kernarg_of_def)
  qed
  then have "calm_queue s ?s Q (with_arenas Q arenas)" by (auto simp: calm_queue_def intro: exI [of _ 0])
  moreover have "calm_queue s ?s R R" for R by (auto simp: calm_queue_def kernarg_of_def intro: exI [of _ 0])
  ultimately show ?thesis
    using Q by (auto simp: mild_def calm_def ring_kept_def put_queue_def intro!: rel_option_reflI)
qed

definition grown :: "KernargArena list \<Rightarrow> KernargArena list \<Rightarrow> bool" where
  "grown xs ys \<longleftrightarrow> length xs \<le> length ys \<and>
     (\<forall>a < length xs. ar_bytes (ys ! a) = ar_bytes (xs ! a) \<and> unat (ar_used (xs ! a)) \<le> unat (ar_used (ys ! a)))"

lemma grown_slice:
  assumes "grown xs ys" and "slice_ok xs sl"
  shows "slice_ok ys sl" and "slice_bytes ys sl = slice_bytes xs sl"
  using assms by (auto simp: grown_def slice_ok_def slice_bytes_def split: option.splits)

lemma grow_runs:
  assumes "kfd_inv s" and "g_queues s q = Some Q" and "grown (q_kernarg_arenas Q) arenas" and "\<And>a. a \<in> set arenas \<Longrightarrow> arena_ok a"
  shows "kfd_inv (put_queue q (with_arenas Q arenas) s)" and "mild s (put_queue q (with_arenas Q arenas) s)"
  using grown_slice [OF assms(3)] by (auto intro!: inv_arenas [OF assms(1,2,4)] mild_arenas [OF assms(1,2)])

text \<open>A slice that no dispatch object of the queue has.\<close>

definition fresh_slice :: "runtime \<Rightarrow> lr_queue \<Rightarrow> KernargSlice \<Rightarrow> bool" where
  "fresh_slice s Q region \<longleftrightarrow> slice_ok (q_kernarg_arenas Q) region \<and>
     (\<forall>d \<in> set (owned Q). \<forall>p. g_dispatches s d = Some p \<longrightarrow> slices_apart region (pd_kernarg p))"

lemma slices_apart_sym: "slices_apart x y = slices_apart y x"
  by (auto simp: slices_apart_def)

lemma fresh_above:
  assumes inv: "kfd_inv s" and Q: "g_queues s q = Some Q" and "slice_ok arenas region"
    and above: "\<And>a. sl_arena region = Some a \<Longrightarrow> a < length (q_kernarg_arenas Q) \<Longrightarrow>
      unat (ar_used (q_kernarg_arenas Q ! a)) \<le> unat (sl_offset region)"
  shows "fresh_slice (put_queue q (with_arenas Q arenas) s) (with_arenas Q arenas) region"
proof -
  have "slices_apart region (pd_kernarg p)" if "d \<in> set (owned Q)" "g_dispatches s d = Some p" for d p
  proof -
    have "slice_ok (q_kernarg_arenas Q) (pd_kernarg p)" using owned_dispatch [OF inv Q that(1)] that(2) by auto
    then show ?thesis using above by (auto simp: slice_ok_def slices_apart_def split: option.splits)
  qed
  then show ?thesis using assms(3) by (auto simp: fresh_slice_def)
qed

lemma room_in_arena:
  assumes "arena_ok a" and "n \<le> ar_size a - ar_used a"
  shows "unat (ar_used a + n) = unat (ar_used a) + unat n" and "unat (ar_used a) + unat n \<le> unat (ar_size a)"
proof -
  have le: "ar_used a \<le> ar_size a" using assms(1) by (simp add: arena_ok_def word_le_nat_alt)
  then show "unat (ar_used a) + unat n \<le> unat (ar_size a)"
    using assms(2) by (simp add: word_le_nat_alt unat_sub64)
  then show "unat (ar_used a + n) = unat (ar_used a) + unat n"
    using unat_u64_less [of "ar_size a"] by (intro unat_add64) simp
qed

definition allocated :: "runtime \<Rightarrow> nat \<Rightarrow> u64 \<Rightarrow> KernargSlice \<Rightarrow> bool" where
  "allocated s q n region \<longleftrightarrow> (\<exists>Q. g_queues s q = Some Q \<and> fresh_slice s Q region \<and>
     (n \<noteq> 0 \<longrightarrow> sl_arena region \<noteq> None \<and> sl_size region = n))"

lemma allocate_in_arena:
  assumes inv: "kfd_inv s" and Q: "g_queues s q = Some Q" and n: "n \<noteq> 0"
    and a: "a < length (q_kernarg_arenas Q)" "n \<le> ar_size (q_kernarg_arenas Q ! a) - ar_used (q_kernarg_arenas Q ! a)"
  defines "arena \<equiv> q_kernarg_arenas Q ! a"
  defines "s' \<equiv> put_queue q (with_arenas Q ((q_kernarg_arenas Q)[a := arena\<lparr>ar_used := ar_used arena + n\<rparr>])) s"
  shows "kfd_inv s' \<and> mild s s' \<and> allocated s' q n \<lparr>sl_arena = Some a, sl_offset = ar_used arena, sl_size = n\<rparr>"
proof -
  let ?as = "(q_kernarg_arenas Q)[a := arena\<lparr>ar_used := ar_used arena + n\<rparr>]"
  have all: "arena_ok b" if "b \<in> set (q_kernarg_arenas Q)" for b using inv_queueD [OF inv Q] that by (simp add: queue_inv_def)
  have ok: "arena_ok arena" using all a(1) by (simp add: arena_def)
  note room = room_in_arena [OF ok a(2) [folded arena_def]]
  have new: "arena_ok (arena\<lparr>ar_used := ar_used arena + n\<rparr>)" using ok room by (simp add: arena_ok_def)
  have "grown (q_kernarg_arenas Q) ?as"
    using room(1) a(1) by (auto simp: grown_def arena_def nth_list_update)
  moreover have "arena_ok b" if "b \<in> set ?as" for b using that all new by (auto dest: set_update_subset_insert [THEN subsetD])
  ultimately have "kfd_inv s'" "mild s s'" unfolding s'_def using grow_runs [OF inv Q] by blast+
  moreover have "fresh_slice s' (with_arenas Q ?as) \<lparr>sl_arena = Some a, sl_offset = ar_used arena, sl_size = n\<rparr>"
    unfolding s'_def using a(1) room n by (intro fresh_above [OF inv Q]) (auto simp: slice_ok_def arena_def)
  ultimately show ?thesis using n by (simp add: allocated_def s'_def)
qed

lemma allocate_arena:
  fixes g :: u64
  assumes inv: "kfd_inv s" and Q: "g_queues s q = Some Q" and n: "n \<noteq> 0"
  defines "arena \<equiv> \<lparr>ar_gpu_address = g, ar_bytes = replicate (unat (max kDirectKfdKernargArenaSize n)) 0,
     ar_size = max kDirectKfdKernargArenaSize n, ar_used = n\<rparr>"
  defines "s' \<equiv> put_queue q (with_arenas Q (q_kernarg_arenas Q @ [arena])) s"
  shows "kfd_inv s' \<and> mild s s' \<and> allocated s' q n \<lparr>sl_arena = Some (length (q_kernarg_arenas Q)), sl_offset = 0, sl_size = n\<rparr>"
proof -
  have all: "arena_ok b" if "b \<in> set (q_kernarg_arenas Q)" for b using inv_queueD [OF inv Q] that by (simp add: queue_inv_def)
  have "n \<le> max kDirectKfdKernargArenaSize n" by simp
  then have new: "arena_ok arena" by (simp only: arena_def arena_ok_def KernargArena.simps length_replicate word_le_nat_alt)
  have "grown (q_kernarg_arenas Q) (q_kernarg_arenas Q @ [arena])" by (auto simp: grown_def nth_append)
  moreover have "arena_ok b" if "b \<in> set (q_kernarg_arenas Q @ [arena])" for b using that all new by auto
  ultimately have "kfd_inv s'" "mild s s'" unfolding s'_def using grow_runs [OF inv Q] by blast+
  moreover have "fresh_slice s' (with_arenas Q (q_kernarg_arenas Q @ [arena]))
      \<lparr>sl_arena = Some (length (q_kernarg_arenas Q)), sl_offset = 0, sl_size = n\<rparr>"
    unfolding s'_def using n by (intro fresh_above [OF inv Q]) (auto simp: slice_ok_def arena_def)
  ultimately show ?thesis using n by (simp add: allocated_def s'_def)
qed

lemma allocate_runs:
  assumes inv: "kfd_inv s" and q: "g_queues s q \<noteq> None"
  shows "runs (allocate_direct_kfd_kernarg_locked q n s) (\<lambda>(r, s'). kfd_inv s' \<and> mild s s' \<and>
    (\<forall>region. r = Some region \<longrightarrow> allocated s' q n region))"
proof (cases "n = 0")
  case True
  from q obtain Q where "g_queues s q = Some Q" by blast
  with inv True show ?thesis
    by (auto simp: allocate_direct_kfd_kernarg_locked_def allocated_def fresh_slice_def slice_ok_def slices_apart_def)
next
  case n: False
  from q obtain Q where Q: "g_queues s q = Some Q" by blast
  show ?thesis
  proof (cases "find_index (\<lambda>arena. ar_size arena - ar_used arena \<ge> n) (q_kernarg_arenas Q)")
    case (Some a)
    from find_index_Some [OF this] allocate_in_arena [OF inv Q n, of a] show ?thesis
      using n Q Some by (simp add: allocate_direct_kfd_kernarg_locked_def get_queue_def Let_def)
  next
    case None
    obtain m s1 where m: "next_memory s = (m, s1)" by (cases "next_memory s")
    obtain b s2 where b: "next_allocation s1 = (b, s2)" by (cases "next_allocation s1")
    note r1 = next_reply_later(5) [OF m] and r2 = next_reply_later(1) [OF b]
    have inv2: "kfd_inv s1" "kfd_inv s2" "g_queues s2 q = Some Q" "mild s s1" "mild s s2"
      using inv Q r1 r2 same_globals_inv [of s s1] same_globals_inv [of s1 s2] same_globals_maps(1) [of s s1] same_globals_maps(1) [of s1 s2]
        mild_trans [OF later_mild later_mild, of s s1 s2] later_mild [of s s1] by simp_all
    show ?thesis
      using n Q None m b inv2 mild_trans [OF inv2(5)] allocate_arena [OF inv2(2,3) n]
      by (auto simp: allocate_direct_kfd_kernarg_locked_def get_queue_def Let_def split: option.splits bool.splits)
  qed
qed

text \<open>An allocation that is not used is taken back when it is the last one of its arena.\<close>

lemma rollback_slice:
  assumes "slice_ok arenas sl" and "sl_arena region = Some a" and "slice_ok arenas region" and "slices_apart region sl"
    and "sl_offset region + sl_size region = ar_used (arenas ! a)"
  shows "slice_ok (arenas[a := (arenas ! a)\<lparr>ar_used := sl_offset region\<rparr>]) sl"
proof (cases "sl_arena sl = Some a")
  case True
  have sum: "unat (sl_offset region) + unat (sl_size region) = unat (ar_used (arenas ! a))"
    using assms(2,3,5) unat_add64 [of "sl_offset region" "sl_size region"] unat_u64_less [of "ar_used (arenas ! a)"]
    by (simp add: slice_ok_def)
  have "unat (sl_offset sl) + unat (sl_size sl) \<le> unat (ar_used (arenas ! a))" "0 < unat (sl_size sl)"
    using assms(1) True by (auto simp: slice_ok_def unat_gt_0)
  then have "unat (sl_offset sl) + unat (sl_size sl) \<le> unat (sl_offset region)"
    using assms(2,4) True sum by (auto simp: slices_apart_def)
  then show ?thesis using assms(1) True by (simp add: slice_ok_def)
qed (use assms(1) in \<open>auto simp: slice_ok_def nth_list_update split: option.splits\<close>)

lemma rollback_runs:
  assumes inv: "kfd_inv s" and Q: "g_queues s q = Some Q" and fresh: "fresh_slice s Q region"
  shows "runs (rollback_direct_kfd_kernarg_locked q region s) (\<lambda>s'. kfd_inv s' \<and> mild s s')"
proof (cases "sl_arena region")
  case None
  with inv show ?thesis by (simp add: rollback_direct_kfd_kernarg_locked_def)
next
  case (Some a)
  have a: "a < length (q_kernarg_arenas Q)" using fresh Some by (simp add: fresh_slice_def slice_ok_def)
  let ?arena = "q_kernarg_arenas Q ! a"
  let ?as = "(q_kernarg_arenas Q)[a := ?arena\<lparr>ar_used := sl_offset region\<rparr>]"
  have "kfd_inv (put_queue q (with_arenas Q ?as) s)" if last: "sl_offset region + sl_size region = ar_used ?arena"
  proof (rule inv_arenas [OF inv Q])
    have all: "arena_ok b" if "b \<in> set (q_kernarg_arenas Q)" for b using inv_queueD [OF inv Q] that by (simp add: queue_inv_def)
    have "unat (sl_offset region) \<le> unat (ar_used ?arena)" using fresh Some by (simp add: fresh_slice_def slice_ok_def)
    then have "arena_ok (?arena\<lparr>ar_used := sl_offset region\<rparr>)" using all [OF nth_mem [OF a]] by (simp add: arena_ok_def)
    then show "arena_ok b" if "b \<in> set ?as" for b using that all by (auto dest: set_update_subset_insert [THEN subsetD])
    show "slice_ok ?as (pd_kernarg p)"
      if "d \<in> set (owned Q)" "g_dispatches s d = Some p" "slice_ok (q_kernarg_arenas Q) (pd_kernarg p)" for d p
      using that fresh by (intro rollback_slice [OF _ Some _ _ last]) (auto simp: fresh_slice_def)
  qed
  moreover have "mild s (put_queue q (with_arenas Q ?as) s)"
    using a by (intro mild_arenas [OF inv Q]) (auto simp: slice_bytes_def nth_list_update split: option.splits)
  ultimately show ?thesis using inv Q Some a by (simp add: rollback_direct_kfd_kernarg_locked_def Let_def)
qed

section \<open>A new dispatch object\<close>

lemma queue_inv_bigger:
  "queue_inv es ds n q Q \<Longrightarrow> d \<notin> set (owned Q) \<Longrightarrow> queue_inv es (ds(d \<mapsto> p)) (Suc n) q Q"
proof -
  assume inv: "queue_inv es ds n q Q" and d: "d \<notin> set (owned Q)"
  have "dispatch_ok es (ds(d \<mapsto> p)) (Suc n) as x" if "dispatch_ok es ds n as x" "x \<noteq> d" for as x
    using that by (auto simp: dispatch_ok_def)
  moreover have "pooled_ok (ds(d \<mapsto> p)) x = pooled_ok ds x" if "x \<noteq> d" for x using that by (simp add: pooled_ok_def)
  moreover have "apart (ds(d \<mapsto> p)) x y = apart ds x y" if "x \<noteq> d" "y \<noteq> d" for x y using that by (simp add: apart_def)
  moreover have "x \<noteq> d" if "x \<in> set (q_available_dispatches Q)" for x using that d by (auto simp: owned_def)
  moreover have "x \<noteq> d" if "x \<in> set (owned Q)" for x using that d by blast
  ultimately show ?thesis using inv unfolding queue_inv_def by (intro conjI ballI impI) simp_all
qed

lemma inv_new_dispatch:
  assumes inv: "kfd_inv s" and Q: "g_queues s q = Some Q" and p: "us_page (pd_completion_signal p)" "pd_completion_event p = None"
    and fresh: "fresh_slice s Q (pd_kernarg p)"
  defines "d \<equiv> g_next s"
  shows "holding (put_dispatch d p (s\<lparr>g_next := d + 1\<rparr>)) q d"
proof -
  note si = inv [unfolded kfd_inv_def]
  have new: "d \<notin> set (owned R)" if "g_queues s r = Some R" for r R
    using inv_queueD [OF inv that] by (auto simp: queue_inv_def dispatch_ok_def d_def)
  let ?Q = "with_pool Q (q_available_dispatches Q @ [d])" and ?ds = "(g_dispatches s)(d \<mapsto> p)"
  have own: "set (owned ?Q) = insert d (set (owned Q))" "distinct (owned ?Q)"
    using inv_queueD [OF inv Q] new [OF Q] by (auto simp: owned_def queue_inv_def)
  note old = queue_inv_bigger [OF inv_queueD [OF inv Q] new [OF Q], of p]
  have "apart ?ds d x \<and> apart ?ds x d" if "x \<in> set (owned Q)" for x
    using that fresh slices_apart_sym new [OF Q] by (auto simp: apart_def fresh_slice_def)
  moreover have "dispatch_ok (g_events s) ?ds (Suc (g_next s)) (q_kernarg_arenas Q) d"
    using p fresh by (simp add: dispatch_ok_def d_def fresh_slice_def)
  moreover have "pooled_ok ?ds d" using p(2) by (simp add: pooled_ok_def)
  ultimately have queue: "queue_inv (g_events s) ?ds (Suc (g_next s)) q ?Q"
    using old own unfolding queue_inv_def by (simp add: ball_Un)
  have "state_inv ((g_queues s)(q \<mapsto> ?Q)) (g_events s) ?ds (Suc (g_next s))"
    unfolding state_inv_def
  proof (intro conjI allI impI)
    fix r R assume "((g_queues s)(q \<mapsto> ?Q)) r = Some R"
    then show "queue_inv (g_events s) ?ds (Suc (g_next s)) r R"
      using queue queue_inv_bigger inv_queueD [OF inv] new by (cases "r = q") auto
  next
    fix r r' R R' assume r: "((g_queues s)(q \<mapsto> ?Q)) r = Some R" "((g_queues s)(q \<mapsto> ?Q)) r' = Some R'" "r \<noteq> r'"
    have other: "set (owned ?Q) \<inter> set (owned x) = {}" if "g_queues s y = Some x" "q \<noteq> y" for x y
      unfolding own(1) using new [OF that(1)] invD(3) [OF si Q that] by simp
    consider "r = q" | "r' = q" | "r \<noteq> q" "r' \<noteq> q" by blast
    then show "set (owned R) \<inter> set (owned R') = {}"
    proof cases
      case 1
      with r other [of r' R'] show ?thesis by simp
    next
      case 2
      with r other [of r R] show ?thesis by (simp add: Int_commute)
    next
      case 3
      with r invD(3) [OF si, of r R r' R'] show ?thesis by simp
    qed
  next
    fix e ev assume "g_events s e = Some ev"
    from invD(2) [OF si this] show "event_inv ((g_queues s)(q \<mapsto> ?Q)) (Suc (g_next s)) e ev"
      using Q by (auto simp: event_inv_def)
  qed
  then show ?thesis using Q by (simp add: holding_def kfd_inv_def put_queue_def put_dispatch_def d_def)
qed

lemma mild_new_dispatch:
  assumes inv: "kfd_inv s"
  shows "mild s (put_dispatch (g_next s) p (s\<lparr>g_next := k\<rparr>))"
proof -
  let ?s = "put_dispatch (g_next s) p (s\<lparr>g_next := k\<rparr>)"
  have "calm_queue s ?s Q Q" if Q: "g_queues s q = Some Q" for q Q
  proof -
    have "d \<noteq> g_next s" if "Some d \<in> set (live_dispatches Q)" for d
    proof -
      have "d \<in> set (owned Q)" using that by (force simp: owned_def)
      then show ?thesis using inv_queueD [OF inv Q] by (auto simp: queue_inv_def dispatch_ok_def)
    qed
    then show ?thesis by (auto simp: calm_queue_def kernarg_of_def completion_of_def put_dispatch_def intro: exI [of _ 0])
  qed
  then have "rel_option (calm_queue s ?s) (g_queues s q) (g_queues s q)" for q by (cases "g_queues s q") auto
  then show ?thesis by (auto simp: mild_def calm_def put_dispatch_def intro!: rel_option_reflI)
qed

lemma next_signal_reply:
  "next_signal s = (r, s') \<Longrightarrow> same_globals s s' \<and> mild s s'"
  by (auto simp: next_signal_def same_globals_def intro!: same_globals_mild split: list.splits)

lemma reply_inv:
  assumes "same_globals s s'" and "kfd_inv s" and "allocated s q n region"
  shows "kfd_inv s'" and "allocated s' q n region"
  using assms same_globals_inv [OF assms(1)] same_globals_maps [OF assms(1)] by (simp_all add: allocated_def fresh_slice_def)

lemma rollback_allocated:
  assumes "kfd_inv s" and "allocated s q n region"
  shows "runs (rollback_direct_kfd_kernarg_locked q region s) (\<lambda>s'. kfd_inv s' \<and> mild s s')"
  using assms(2) rollback_runs [OF assms(1)] by (auto simp: allocated_def)

lemma create_dispatch_runs:
  assumes inv: "kfd_inv s" and q: "g_queues s q \<noteq> None"
  shows "runs (create_dispatch q n s) (\<lambda>(r, s'). mild s s' \<and>
    (case r of None \<Rightarrow> kfd_inv s' | Some d \<Rightarrow> holding s' q d \<and> held s' d n))" (is "runs _ ?P")
proof -
  have "runs (case next_signal s1 of
            (None, s2) \<Rightarrow> obind (rollback_direct_kfd_kernarg_locked q region s2) (\<lambda>s3. Ok (None, s3))
          | (Some handle, s2) \<Rightarrow>
              (case next_allocation s2 of
                 (False, s3) \<Rightarrow> obind (rollback_direct_kfd_kernarg_locked q region s3) (\<lambda>s4. Ok (None, s4))
               | (True, s3) \<Rightarrow>
                   let d = g_next s3;
                       dispatch = \<lparr>pd_completion_signal = \<lparr>us_page = True, us_handle = handle, us_value = 1,
                                     us_start_ts = 0, us_end_ts = 0\<rparr>,
                                   pd_kernarg = region, pd_completion_event = None\<rparr>
                   in Ok (Some d, put_dispatch d dispatch (s3\<lparr>g_next := d + 1\<rparr>)))) ?P"
    if s1: "kfd_inv s1" "mild s s1" "allocated s1 q n region" for s1 region
  proof -
    obtain h s2 where h: "next_signal s1 = (h, s2)" by (cases "next_signal s1")
    obtain b s3 where b: "next_allocation s2 = (b, s3)" by (cases "next_allocation s2")
    note r2 = next_signal_reply [OF h] and r3 = next_reply_later(1) [OF b]
    note i2 = reply_inv [OF conjunct1 [OF r2] s1(1,3)]
    note i3 = reply_inv [OF conjunct1 [OF r3] i2]
    have m2: "mild s s2" by (rule mild_trans [OF s1(2) conjunct2 [OF r2]])
    have m3: "mild s s3" by (rule mild_trans [OF m2 later_mild [OF conjunct2 [OF r3]]])
    have undo: "runs (obind (rollback_direct_kfd_kernarg_locked q region x) (\<lambda>s3. Ok (None, s3))) ?P"
      if "kfd_inv x" "allocated x q n region" "mild s x" for x
      using runs_weaken [OF rollback_allocated [OF that(1,2)]] mild_trans [OF that(3)] by simp
    let ?p = "\<lambda>handle. \<lparr>pd_completion_signal = \<lparr>us_page = True, us_handle = handle, us_value = 1,
      us_start_ts = 0, us_end_ts = 0\<rparr>, pd_kernarg = region, pd_completion_event = None\<rparr>"
    let ?s = "\<lambda>handle. put_dispatch (g_next s3) (?p handle) (s3\<lparr>g_next := g_next s3 + 1\<rparr>)"
    have "holding (?s handle) q (g_next s3)" for handle
    proof -
      from i3(2) obtain Q where "g_queues s3 q = Some Q" "fresh_slice s3 Q region" by (auto simp: allocated_def)
      then show ?thesis by (intro inv_new_dispatch [OF i3(1)]) simp_all
    qed
    moreover have "held (?s handle) (g_next s3) n" for handle
      using i3(2) by (auto simp: held_def reusable_def allocated_def)
    moreover have "mild s (?s handle)" for handle
      using mild_trans [OF m3 mild_new_dispatch [OF i3(1)]] by simp
    ultimately show ?thesis
      using h b undo [OF i2 m2] undo [OF i3 m3] by (cases h; cases b) (simp_all add: Let_def del: runs_obind)
  qed
  note tail = this
  show ?thesis
    unfolding create_dispatch_def
    by (rule runs_pairI [OF allocate_runs [OF assms]], elim conjE) (use tail in \<open>auto simp del: runs_obind split: option.split\<close>)
qed

section \<open>The resource block\<close>

definition acquired :: "runtime \<Rightarrow> nat \<Rightarrow> u64 \<Rightarrow> lr_status + nat \<Rightarrow> runtime \<Rightarrow> bool" where
  "acquired s q n r s' \<longleftrightarrow> mild s s' \<and>
     (case r of Inl status \<Rightarrow> status \<noteq> LR_SUCCESS \<and> kfd_inv s' | Inr d \<Rightarrow> holding s' q d \<and> held s' d n)"

definition found_in :: "runtime \<Rightarrow> nat \<Rightarrow> u64 \<Rightarrow> nat option \<Rightarrow> bool" where
  "found_in s q n found \<longleftrightarrow> (\<forall>i. found = Some i \<longrightarrow> (\<exists>Q p. g_queues s q = Some Q \<and> i < length (q_available_dispatches Q) \<and>
     g_dispatches s (q_available_dispatches Q ! i) = Some p \<and> reusable n p))"

lemma search_or_reap_runs:
  assumes inv: "kfd_inv s" and q: "g_queues s q \<noteq> None"
  shows "runs (search_or_reap q n s) (\<lambda>(r, s'). kfd_inv s' \<and> mild s s' \<and>
    (case r of Inl status \<Rightarrow> status \<noteq> LR_SUCCESS | Inr found \<Rightarrow> found_in s' q n found))" (is "runs _ ?P")
proof -
  have find: "runs (find_reusable q n x) (found_in x q n)" if "kfd_inv x" "g_queues x q \<noteq> None" for x
  proof -
    from that(2) obtain Q where Q: "g_queues x q = Some Q" by blast
    from find_reusable_runs [OF that(1) Q] show ?thesis by (rule runs_weaken) (use Q in \<open>auto simp: found_in_def\<close>)
  qed
  obtain Q where Q: "g_queues s q = Some Q" using q by blast
  have again: "runs (obind (reap_direct_kfd_dispatches_locked q s) (\<lambda>(status, s1).
         if status \<noteq> LR_SUCCESS then Ok (Inl status, s1)
         else obind (find_reusable q n s1) (\<lambda>found. Ok (Inr found, s1)))) ?P"
  proof (rule runs_pairI [OF reap_dispatches_runs [OF inv Q]], elim conjE exE)
    fix status s1 Q1 assume s1: "kfd_inv s1" "later s s1" "g_queues s1 q = Some Q1"
    then have "g_queues s1 q \<noteq> None" by simp
    from find [OF s1(1) this] show "runs (if status \<noteq> LR_SUCCESS then Ok (Inl status, s1)
         else obind (find_reusable q n s1) (\<lambda>found. Ok (Inr found, s1))) ?P"
      using s1(1) later_mild [OF s1(2)] by (auto elim!: runs_weaken)
  qed
  show ?thesis
    unfolding search_or_reap_def
  proof (rule runs_obindI [OF find [OF assms]])
    fix found assume "found_in s q n found"
    with again inv show "runs (case found of None \<Rightarrow> obind (reap_direct_kfd_dispatches_locked q s) (\<lambda>(status, s1).
         if status \<noteq> LR_SUCCESS then Ok (Inl status, s1)
         else obind (find_reusable q n s1) (\<lambda>found. Ok (Inr found, s1))) | Some i \<Rightarrow> Ok (Inr (Some i), s)) ?P"
      by (cases found) (simp_all del: runs_obind)
  qed
qed

lemma acquire_rest_runs:
  assumes inv: "kfd_inv s1" and m: "mild s s1" and q: "g_queues s1 q \<noteq> None"
    and r: "case r of Inl status \<Rightarrow> status \<noteq> LR_SUCCESS | Inr found \<Rightarrow> found_in s1 q n found"
  shows "runs (case r of
            Inl status \<Rightarrow> Ok (Inl status, s1)
          | Inr (Some i) \<Rightarrow> obind (take_reusable q i s1) (\<lambda>(d, s4). Ok (Inr d, s4))
          | Inr None \<Rightarrow>
              obind (create_dispatch q n s1) (\<lambda>(created, s4).
              Ok (case created of None \<Rightarrow> Inl LR_ERROR_RUNTIME | Some d \<Rightarrow> Inr d, s4))) (\<lambda>(r, s'). acquired s q n r s')"
proof (cases r)
  case (Inl status)
  with r inv m show ?thesis by (simp add: acquired_def)
next
  case (Inr found)
  show ?thesis
  proof (cases found)
    case None
    have "runs (obind (create_dispatch q n s1) (\<lambda>(created, s4).
        Ok (case created of None \<Rightarrow> Inl LR_ERROR_RUNTIME | Some d \<Rightarrow> Inr d, s4))) (\<lambda>(r, s'). acquired s q n r s')"
      using mild_trans [OF m] by (intro runs_pairI [OF create_dispatch_runs [OF inv q]]) (auto simp: acquired_def split: option.splits)
    with Inr None show ?thesis by (simp del: runs_obind)
  next
    case (Some i)
    with r Inr obtain Q p where Q: "g_queues s1 q = Some Q" "i < length (q_available_dispatches Q)"
      "g_dispatches s1 (q_available_dispatches Q ! i) = Some p" "reusable n p" by (auto simp: found_in_def)
    have "runs (obind (take_reusable q i s1) (\<lambda>(d, s4). Ok (Inr d, s4))) (\<lambda>(r, s'). acquired s q n r s')"
      using mild_trans [OF m] by (intro runs_pairI [OF take_reusable_runs [OF inv Q]]) (simp add: acquired_def)
    with Inr Some show ?thesis by (simp del: runs_obind)
  qed
qed

lemma queue_mild: "mild s s' \<Longrightarrow> g_queues s q \<noteq> None \<Longrightarrow> g_queues s' q \<noteq> None"
  using calm_queueD [OF mild_calm] by (metis not_None_eq)

lemma acquire_runs:
  assumes inv: "kfd_inv s" and q: "g_queues s q \<noteq> None"
  shows "runs (acquire_dispatch q n s) (\<lambda>(r, s'). acquired s q n r s')"
proof -
  obtain b s1 where b: "next_full s = (b, s1)" by (cases "next_full s")
  note r1 = next_reply_later(2) [OF b]
  obtain Q where Q: "g_queues s1 q = Some Q" using q same_globals_maps(1) [OF conjunct1 [OF r1]] by auto
  have inv1: "kfd_inv s1" using inv same_globals_inv [OF conjunct1 [OF r1]] by simp
  let ?s = "put_queue q (compact_dispatches b Q) s1"
  note c = compact_runs [OF inv1 Q, of b]
  obtain a s2 where a: "next_allocation ?s = (a, s2)" by (cases "next_allocation ?s")
  note r2 = next_reply_later(1) [OF a]
  have m2: "mild s s2"
    using mild_trans [OF mild_trans [OF later_mild [OF conjunct2 [OF r1]] c(2)] later_mild [OF conjunct2 [OF r2]]] .
  have inv2: "kfd_inv s2" using c(1) same_globals_inv [OF conjunct1 [OF r2]] by simp
  have q2: "g_queues s2 q \<noteq> None" by (rule queue_mild [OF m2 q])
  have "runs (obind (search_or_reap q n s2) (\<lambda>(found, s3). case found of
            Inl status \<Rightarrow> Ok (Inl status, s3)
          | Inr (Some i) \<Rightarrow> obind (take_reusable q i s3) (\<lambda>(d, s4). Ok (Inr d, s4))
          | Inr None \<Rightarrow>
              obind (create_dispatch q n s3) (\<lambda>(created, s4).
              Ok (case created of None \<Rightarrow> Inl LR_ERROR_RUNTIME | Some d \<Rightarrow> Inr d, s4)))) (\<lambda>(r, s'). acquired s q n r s')"
    by (rule runs_pairI [OF search_or_reap_runs [OF inv2 q2]], elim conjE)
      (rule acquire_rest_runs [OF _ mild_trans [OF m2] queue_mild [OF _ q2]])
  then show ?thesis
    using inv2 m2 a b Q by (simp add: acquire_dispatch_def get_queue_def acquired_def del: runs_obind split: bool.split)
qed

end
