(* ===== verification/DirectKfdPublish.thy ===== *)
theory DirectKfdPublish
  imports DirectKfdAcquire
begin

text \<open>
  The second half of a launch, from the kernarg segment to the packets: the bytes of other dispatches are left alone, the
  bookkeeping of the dispatch and its barriers keeps the invariant, and a refused submission is taken back exactly.
\<close>

section \<open>The kernarg segment\<close>

lemma put_queue_again [simp]: "put_queue q Q (put_queue q Q' s) = put_queue q Q s"
  by (simp add: put_queue_def)

lemma put_queue_same: "g_queues s q = Some Q \<Longrightarrow> put_queue q Q s = s"
  by (simp add: put_queue_def fun_upd_idem)

lemma holdingD:
  assumes "holding s q d" and Q: "g_queues s q = Some Q"
  shows "kfd_inv s" and "kfd_inv (put_queue q (with_pool Q (q_available_dispatches Q @ [d])) s)" and "d \<notin> set (owned Q)"
proof -
  let ?Q = "with_pool Q (q_available_dispatches Q @ [d])"
  show ghost: "kfd_inv (put_queue q ?Q s)" using assms by (auto simp: holding_def)
  have inv: "queue_inv (g_events s) (g_dispatches s) (g_next s) q ?Q" using inv_queueD [OF ghost] by simp
  then show "d \<notin> set (owned Q)" by (auto simp: queue_inv_def owned_def)
  have "queue_inv (g_events s) (g_dispatches s) (g_next s) q Q"
    using inv by (auto simp: queue_inv_def owned_def)
  then have "kfd_inv (put_queue q Q (put_queue q ?Q s))"
    by (intro inv_same_queue [OF ghost, of q ?Q]) (auto simp: owned_def)
  then show "kfd_inv s" by (simp add: put_queue_same [OF Q])
qed

lemma slice_ok_bytes:
  assumes "slice_ok arenas sl" and "sl_arena sl = Some a" and "arena_ok (arenas ! a)"
  shows "slice_bytes arenas sl = Ok (Some (take (unat (sl_size sl)) (drop (unat (sl_offset sl)) (ar_bytes (arenas ! a)))))"
    and "a < length arenas" and "unat (sl_offset sl) + unat (sl_size sl) \<le> length (ar_bytes (arenas ! a))"
  using assms by (auto simp: slice_ok_def slice_bytes_def arena_ok_def)

lemma take_drop_splice:
  assumes "i + length bs \<le> length xs" and "j + n \<le> length xs" and "j + n \<le> i \<or> i + length bs \<le> j"
  shows "take n (drop j (splice xs i bs)) = take n (drop j xs)"
  using assms by (intro nth_equalityI) (auto simp: nth_splice)

lemma store_slice_other:
  assumes "slice_ok arenas region" and "length bs = unat (sl_size region)" and "slice_ok arenas sl" and "slices_apart region sl"
    and ok: "\<And>a. a < length arenas \<Longrightarrow> arena_ok (arenas ! a)"
  shows "slice_bytes (store_slice region bs arenas) sl = slice_bytes arenas sl"
proof (cases "sl_arena region = None \<or> sl_arena sl = None \<or> sl_arena sl \<noteq> sl_arena region")
  case True
  then show ?thesis by (auto simp: slice_bytes_def store_slice_def split: option.splits)
next
  case False
  then obtain a where a: "sl_arena region = Some a" "sl_arena sl = Some a" by auto
  with assms(1) have "a < length arenas" by (simp add: slice_ok_def)
  note r = slice_ok_bytes [OF assms(1) a(1) ok [OF this]] and x = slice_ok_bytes [OF assms(3) a(2) ok [OF this]]
  have "unat (sl_offset sl) + unat (sl_size sl) \<le> unat (sl_offset region) \<or> unat (sl_offset region) + length bs \<le> unat (sl_offset sl)"
    using assms(2,4) a by (auto simp: slices_apart_def)
  with r(3) x(3) assms(2) show ?thesis
    using take_drop_splice [of "unat (sl_offset region)" bs "ar_bytes (arenas ! a)" "unat (sl_offset sl)" "unat (sl_size sl)"] a r(2)
    by (simp add: slice_bytes_def store_slice_def)
qed

lemma store_slice_self:
  assumes "slice_ok arenas region" and "length bs = unat (sl_size region)" and a: "sl_arena region = Some a" and "arena_ok (arenas ! a)"
  shows "slice_bytes (store_slice region bs arenas) region = Ok (Some bs)"
proof -
  note r = slice_ok_bytes [OF assms(1) a assms(4)]
  have "take (length bs) (drop (unat (sl_offset region)) (splice (ar_bytes (arenas ! a)) (unat (sl_offset region)) bs)) = bs"
    using r(3) assms(2) by (simp add: splice_def)
  then show ?thesis using a r assms(2) by (simp add: slice_bytes_def store_slice_def)
qed

lemma store_slice_shape:
  assumes "slice_ok arenas region" and "length bs = unat (sl_size region)" and ok: "\<And>a. a < length arenas \<Longrightarrow> arena_ok (arenas ! a)"
  shows "slice_ok (store_slice region bs arenas) sl = slice_ok arenas sl"
    and "a \<in> set (store_slice region bs arenas) \<Longrightarrow> arena_ok a"
proof -
  have shape: "length (store_slice region bs arenas) = length arenas"
    "ar_used (store_slice region bs arenas ! i) = ar_used (arenas ! i) \<and> arena_ok (store_slice region bs arenas ! i)"
    if "i < length arenas" for i
    using assms(1,2) that ok [OF that] slice_ok_bytes(3) [OF assms(1) _ ok]
    by (auto simp: store_slice_def slice_ok_def nth_list_update arena_ok_def split: option.splits)
  then have len: "length (store_slice region bs arenas) = length arenas"
    by (simp add: store_slice_def split: option.splits)
  show "slice_ok (store_slice region bs arenas) sl = slice_ok arenas sl"
    using shape len by (auto simp: slice_ok_def split: option.splits)
  show "a \<in> set (store_slice region bs arenas) \<Longrightarrow> arena_ok a"
    using shape len by (metis in_set_conv_nth)
qed

lemma store_runs:
  assumes hold: "holding s q d" and Q: "g_queues s q = Some Q" and p: "g_dispatches s d = Some p"
    and bs: "length bs = unat (sl_size (pd_kernarg p))" and a: "sl_arena (pd_kernarg p) = Some a"
  defines "s' \<equiv> put_queue q (with_arenas Q (store_slice (pd_kernarg p) bs (q_kernarg_arenas Q))) s"
  shows "holding s' q d" and "mild s s'"
    and "kernarg_of s' (with_arenas Q (store_slice (pd_kernarg p) bs (q_kernarg_arenas Q))) d = Some bs"
proof -
  let ?as = "q_kernarg_arenas Q" and ?r = "pd_kernarg p"
  let ?Q = "with_pool Q (q_available_dispatches Q @ [d])"
  note h = holdingD [OF hold Q]
  have G: "g_queues (put_queue q ?Q s) q = Some ?Q" by simp
  have inv: "queue_inv (g_events s) (g_dispatches s) (g_next s) q ?Q" using inv_queueD [OF h(2) G] by simp
  have own: "d \<in> set (owned ?Q)" "set (owned Q) \<subseteq> set (owned ?Q)" by (auto simp: owned_def)
  have r: "slice_ok ?as ?r" using inv own(1) p by (auto simp: queue_inv_def dispatch_ok_def)
  have ok: "arena_ok (?as ! i)" if "i < length ?as" for i using inv that by (simp add: queue_inv_def)
  note shape = store_slice_shape [OF r bs ok]
  have "kfd_inv (put_queue q (with_arenas ?Q (store_slice ?r bs ?as)) (put_queue q ?Q s))"
    by (rule inv_arenas [OF h(2) G]) (use shape in auto)
  moreover have "with_arenas ?Q x = with_pool (with_arenas Q x) (q_available_dispatches Q @ [d])" for x by simp
  ultimately show "holding s' q d" by (simp add: holding_def s'_def)
  show "mild s s'" unfolding s'_def
  proof (rule mild_arenas [OF h(1) Q])
    fix x y assume x: "Some x \<in> set (live_dispatches Q)" "g_dispatches s x = Some y" "slice_ok ?as (pd_kernarg y)"
    have x': "x \<in> set (owned Q)" using x(1) by (force simp: owned_def)
    then have "x \<noteq> d" "x \<in> set (owned ?Q)" using h(3) own(2) by auto
    then have "slices_apart ?r (pd_kernarg y)" using inv own(1) p x(2) by (auto simp: queue_inv_def apart_def)
    from store_slice_other [OF r bs x(3) this ok] show "slice_bytes (store_slice ?r bs ?as) (pd_kernarg y) = slice_bytes ?as (pd_kernarg y)" .
  qed
  have "a < length ?as" using r a by (simp add: slice_ok_def)
  from store_slice_self [OF r bs a ok [OF this]] p
  show "kernarg_of s' (with_arenas Q (store_slice ?r bs ?as)) d = Some bs" by (simp add: kernarg_of_def s'_def)
qed

text \<open>The bytes a launch writes: the caller's arguments, zeros, and the hidden arguments.\<close>

definition launch_bytes :: "launch_request \<Rightarrow> lr_launch_config \<Rightarrow> bytes \<Rightarrow> bool" where
  "launch_bytes r config bs \<longleftrightarrow> (\<exists>old. length old = length bs \<and> unat (ki_kernarg_size (launch_kernel r)) \<le> length old \<and>
     hidden_populated (launch_kernel r) config
       (kernarg_segment (buffer_bytes (la_args r)) (unat (la_args_size r)) (unat (ki_kernarg_size (launch_kernel r))) old) bs)"

text \<open>What the caller of a launch provides.\<close>

definition launch_ok :: "launch_request \<Rightarrow> bool" where
  "launch_ok r \<longleftrightarrow> buffer_ok (la_args r) (la_args_size r) \<and>
     wf_arguments (ki_kernarg_size (launch_kernel r)) (ki_explicit_argument_size (launch_kernel r)) (ki_arguments (launch_kernel r))"

lemma length_kernarg_segment:
  assumes "buffer_ok args n" and "n = 0 \<or> args \<noteq> None" and "unat n \<le> k" and "k \<le> length buffer"
  shows "length (kernarg_segment (buffer_bytes args) (unat n) k buffer) = length buffer"
  using assms by (auto simp: kernarg_segment_def buffer_ok_def buffer_bytes_def)

text \<open>They stand in the slice of the dispatch, at the address \<open>addr\<close> of the GPU.\<close>

definition segment_written :: "runtime \<Rightarrow> nat \<Rightarrow> nat \<Rightarrow> launch_request \<Rightarrow> lr_launch_config \<Rightarrow> u64 \<Rightarrow> bool" where
  "segment_written s q d r config addr \<longleftrightarrow> (if ki_kernarg_size (launch_kernel r) = 0 then addr = 0 else
     (\<exists>Q p bs. g_queues s q = Some Q \<and> g_dispatches s d = Some p \<and> slice_gpu_address (q_kernarg_arenas Q) (pd_kernarg p) = Ok addr \<and>
        kernarg_of s Q d = Some bs \<and> launch_bytes r config bs))"

lemma write_kernargs_runs:
  assumes hold: "holding s q d" and held: "held s d n" and ok: "launch_ok r" and req: "kernarg_request_ok (launch_kernel r) (la_args r) (la_args_size r)"
    and n: "unat (ki_kernarg_size (launch_kernel r)) \<le> unat n"
  defines "k \<equiv> launch_kernel r"
  shows "runs (write_kernargs q d r config \<lparr>kr_storage_size = ucast (ki_kernarg_size k), kr_alignment = ki_kernarg_alignment k\<rparr> s)
    (\<lambda>(address, s'). holding s' q d \<and> held s' d n \<and> mild s s' \<and> (\<forall>addr. address = Some addr \<longrightarrow> segment_written s' q d r config addr))"
    (is "runs (write_kernargs q d r config ?req s) ?P")
proof (cases "ki_kernarg_size k = 0")
  case True
  then have "kr_storage_size ?req = 0" by simp
  with True hold held show ?thesis by (simp add: write_kernargs_def segment_written_def k_def)
next
  case False
  then have size: "kr_storage_size ?req \<noteq> 0" by simp (metis unat_eq_zero unat_u32_to_u64)
  obtain Q where Q: "g_queues s q = Some Q" using hold by (auto simp: holding_def)
  obtain p where p: "g_dispatches s d = Some p" "reusable n p" using held by (auto simp: held_def)
  have "n \<noteq> 0" using False n by (auto simp: k_def unat_eq_zero)
  with p(2) obtain a where a: "sl_arena (pd_kernarg p) = Some a" "n \<le> sl_size (pd_kernarg p)" by (auto simp: reusable_def)
  let ?as = "q_kernarg_arenas Q" and ?r = "pd_kernarg p"
  have inv: "queue_inv (g_events s) (g_dispatches s) (g_next s) q (with_pool Q (q_available_dispatches Q @ [d]))"
    using inv_queueD [OF holdingD(2) [OF hold Q]] by simp
  have sl: "slice_ok ?as ?r" using inv p(1) by (auto simp: queue_inv_def dispatch_ok_def owned_def)
  then have "a < length ?as" using a by (simp add: slice_ok_def)
  then have "arena_ok (?as ! a)" using inv by (simp add: queue_inv_def)
  note bytes = slice_ok_bytes [OF sl a(1) this]
  define old where "old = take (unat (sl_size ?r)) (drop (unat (sl_offset ?r)) (ar_bytes (?as ! a)))"
  have old: "length old = unat (sl_size ?r)" "unat (ki_kernarg_size k) \<le> length old"
    using bytes(3) n a(2) by (auto simp: old_def k_def word_le_nat_alt)
  have args: "buffer_ok (la_args r) (la_args_size r)" "wf_arguments (ki_kernarg_size k) (ki_explicit_argument_size k) (ki_arguments k)"
    using ok by (simp_all add: launch_ok_def k_def)
  let ?g = "ar_gpu_address (?as ! a) + sl_offset ?r"
  let ?m = "materialize_validated_kernarg_buffer (Ok ?req) (la_args r) (la_args_size r) (Some old) (sl_size ?r) ?g"
  have dest: "buffer_ok (Some old) (sl_size ?r)" using old(1) by (simp add: buffer_ok_def)
  note mat = materialize_validated_Ok [OF args(1) dest req [folded k_def], of ?g]
  let ?seg = "kernarg_segment (buffer_bytes (la_args r)) (unat (la_args_size r)) (unat (ki_kernarg_size k)) old"
  have seg: "length ?seg = length old"
    using req old(2) by (intro length_kernarg_segment [OF args(1)]) (auto simp: kernarg_request_ok_def k_def)
  let ?pop = "populate_light_rocr_hidden_kernargs k config (Some ?seg) (ucast (ki_kernarg_size k))"
  obtain written bs where pop: "?pop = Ok (written, bs)" "length bs = length old" "written \<Longrightarrow> hidden_populated k config ?seg bs"
  proof (cases "launch_shape_ok config")
    case True
    have "\<exists>bs. ?pop = Ok (True, bs) \<and> hidden_populated k config ?seg bs"
      using populate_hidden_valid [OF args(2) True, of "ucast (ki_kernarg_size k)" ?seg] seg old(2) by simp
    with that seg show ?thesis by (auto simp: hidden_populated_def)
  next
    case False
    with that seg show ?thesis by (simp add: populate_light_rocr_hidden_kernargs_def buffer_bytes_def)
  qed
  note store = store_runs [OF hold Q p(1) _ a(1), of bs]
  have "slice_gpu_address (store_slice ?r bs ?as) ?r = Ok ?g"
    using a(1) bytes(2) by (simp add: slice_gpu_address_def store_slice_def)
  then have done_: "?P (if written then Some ?g else None, put_queue q (with_arenas Q (store_slice ?r bs ?as)) s)"
    using store pop(2,3) old held p(1) False by (auto simp: held_def segment_written_def launch_bytes_def k_def)
  have fine: "?m \<noteq> Fault" "\<And>x y. ?m = Ok (x, y) \<Longrightarrow> x = Some ?seg \<and> kb_gpu_address y = ?g"
    using mat False by (auto simp: kernarg_info_def)
  have eq: "write_kernargs q d r config ?req s = (case ?m of Fault \<Rightarrow> Fault | Err _ \<Rightarrow> Ok (None, s)
     | Ok (kernarg, info) \<Rightarrow> (case populate_light_rocr_hidden_kernargs k config kernarg (ucast (ki_kernarg_size k)) of
          Fault \<Rightarrow> Fault | Err _ \<Rightarrow> Fault
        | Ok (written, bs) \<Rightarrow> Ok (if written then Some (kb_gpu_address info) else None,
            put_queue q (with_arenas Q (store_slice ?r bs ?as)) s)))"
    using size bytes a(1) Q p(1) unfolding k_def
    by (simp add: write_kernargs_def get_queue_def get_dispatch_def slice_gpu_address_def old_def Let_def)
  show ?thesis unfolding eq
    using fine pop(1) done_ hold held by (cases ?m) (auto simp del: if_split)
qed

end
