(* ===== verification/DirectKfdRollback.thy ===== *)
theory DirectKfdRollback
  imports DirectKfdPublish
begin

text \<open>
  The bookkeeping of a submission and its inverse. Retaining the dependencies of the barriers and releasing them again
  restores every dependency list exactly, so a refused launch leaves the events as they were.
\<close>

section \<open>Retained dependencies\<close>

text \<open>The events after the dependencies \<open>xs\<close> were retained for a queue.\<close>

definition retained :: "nat \<Rightarrow> nat list \<Rightarrow> (nat \<Rightarrow> lr_event option) \<Rightarrow> nat \<Rightarrow> lr_event option" where
  "retained q xs es e = map_option (retain_dependency q ^^ count_list xs e) (es e)"

lemma retained_simps [simp]:
  "retained q [] es = es" "retained q xs es e = None \<longleftrightarrow> es e = None"
  "retained q ys (retained q xs es) = retained q (xs @ ys) es"
proof -
  show "retained q [] es = es" by (simp add: retained_def fun_eq_iff option.map_id0)
  show "retained q xs es e = None \<longleftrightarrow> es e = None" by (simp add: retained_def)
  have "(retain_dependency q ^^ b) ((retain_dependency q ^^ a) ev) = (retain_dependency q ^^ (a + b)) ev" for a b ev
    by (metis add.commute comp_apply funpow_add)
  then show "retained q ys (retained q xs es) = retained q (xs @ ys) es"
    by (simp add: retained_def fun_eq_iff option.map_comp comp_def count_list_append)
qed

lemma retained_Cons:
  "es e = Some ev \<Longrightarrow> retained q xs (es(e \<mapsto> retain_dependency q ev)) = retained q (e # xs) es"
  by (auto simp: retained_def fun_eq_iff funpow_swap1)

lemma retain_all_eq:
  assumes "\<forall>e \<in> set xs. g_events s e \<noteq> None"
  shows "retain_all xs q s = Ok (s\<lparr>g_events := retained q xs (g_events s)\<rparr>)"
  using assms
proof (induction xs arbitrary: s)
  case (Cons e xs)
  then obtain ev where ev: "g_events s e = Some ev" by auto
  let ?s = "put_event e (retain_dependency q ev) s"
  have "\<forall>x \<in> set xs. g_events ?s x \<noteq> None" using Cons.prems by simp
  from Cons.IH [OF this] show ?case
    using ev retained_Cons [of "g_events s" e ev q xs]
    by (simp add: retain_direct_kfd_event_dependency_locked_def get_event_def put_event_def del: fun_upd_apply)
qed simp

lemma swap_remove_last: "swap_remove (length xs) (xs @ [x]) = xs"
  by (simp add: swap_remove_def list_update_append)

lemma find_index_append: "find_index P xs = None \<Longrightarrow> P x \<Longrightarrow> find_index P (xs @ [x]) = Some (length xs)"
  by (induction xs) (auto split: if_splits)

lemma find_index_update:
  "find_index P xs = Some i \<Longrightarrow> P y \<Longrightarrow> find_index P (xs[i := y]) = Some i"
proof (induction xs arbitrary: i)
  case (Cons x xs)
  then show ?case by (cases i) (auto split: if_splits)
qed simp

lemma release_retain:
  assumes "dependencies_ok (ev_dependency_queues ev) (ev_dependency_count ev)"
  shows "release_dependency q (retain_dependency q ev) = Ok ev"
proof (cases "dependency_entry q (ev_dependency_queues ev)")
  case None
  then show ?thesis
    using find_index_append [of "\<lambda>x. fst x = q" "ev_dependency_queues ev" "(q, 1)"]
    by (simp add: release_dependency_def retain_dependency_def dependency_entry_def swap_remove_last)
next
  case (Some i)
  let ?xs = "ev_dependency_queues ev"
  have i: "i < length ?xs" "fst (?xs ! i) = q" using find_index_Some [OF Some [unfolded dependency_entry_def]] by auto
  then have pos: "snd (?xs ! i) \<noteq> 0" using assms nth_mem [OF i(1)] unfolding dependencies_ok_def by blast
  have "dependency_entry q (?xs[i := (q, snd (?xs ! i) + 1)]) = Some i"
    using find_index_update [of "\<lambda>x. fst x = q" ?xs i] Some by (simp add: dependency_entry_def)
  moreover have "?xs[i := (q, snd (?xs ! i))] = ?xs" using i by (metis list_update_id prod.collapse)
  ultimately show ?thesis
    using Some i pos by (simp add: release_dependency_def retain_dependency_def Let_def)
qed

lemma funpow_dependencies_ok:
  "dependencies_ok (ev_dependency_queues ev) (ev_dependency_count ev) \<Longrightarrow>
   dependencies_ok (ev_dependency_queues ((retain_dependency q ^^ k) ev)) (ev_dependency_count ((retain_dependency q ^^ k) ev))"
  by (induction k) (simp_all add: dependencies_ok_retain(1))

lemma release_all_eq:
  assumes "\<forall>e \<in> set xs. es e \<noteq> None" and ok: "\<And>e ev. es e = Some ev \<Longrightarrow> dependencies_ok (ev_dependency_queues ev) (ev_dependency_count ev)"
    and "g_events s = retained q (ys @ xs) es"
  shows "release_all xs q s = Ok (s\<lparr>g_events := retained q ys es\<rparr>)"
  using assms(1,3)
proof (induction xs arbitrary: s)
  case Nil
  then show ?case by simp
next
  case (Cons e xs)
  then obtain ev where ev: "es e = Some ev" by auto
  let ?k = "count_list ys e + count_list xs e"
  have now: "g_events s e = Some (retain_dependency q ((retain_dependency q ^^ ?k) ev))"
    using Cons.prems(2) ev by (simp add: retained_def count_list_append)
  let ?s = "put_event e ((retain_dependency q ^^ ?k) ev) s"
  have step: "release_direct_kfd_event_dependency_locked e q s = Ok ?s"
    using now release_retain [OF funpow_dependencies_ok [OF ok [OF ev], where q = q and k = ?k], of q]
    by (simp add: release_direct_kfd_event_dependency_locked_def get_event_def)
  have "g_events ?s = retained q (ys @ xs) es"
    using Cons.prems(2) ev by (auto simp: retained_def fun_eq_iff count_list_append)
  from Cons.IH [OF _ this] Cons.prems(1) step show ?case by (simp add: put_event_def)
qed

text \<open>A queue that waits for retained dependencies.\<close>

abbreviation barriers_behind :: "nat \<Rightarrow> nat list list \<Rightarrow> PendingBarrier list" where
  "barriers_behind d ess \<equiv> map (\<lambda>es. \<lparr>pb_retirement_dispatch = d, pb_dependencies = es\<rparr>) ess"

lemma funpow_retain_fields:
  "ev_pending ((retain_dependency q ^^ k) ev) = ev_pending ev"
  "ev_recorded_queue ((retain_dependency q ^^ k) ev) = ev_recorded_queue ev"
  "ev_signal ((retain_dependency q ^^ k) ev) = ev_signal ev"
  "ev_device ((retain_dependency q ^^ k) ev) = ev_device ev"
  "ev_pageable_copy_staging ((retain_dependency q ^^ k) ev) = ev_pageable_copy_staging ev"
  "ev_pageable_copy_size ((retain_dependency q ^^ k) ev) = ev_pageable_copy_size ev"
  by (induction k) (simp_all add: retain_dependency_def Let_def)

lemma funpow_entry_count:
  assumes "dependencies_ok (ev_dependency_queues ev) (ev_dependency_count ev)"
  shows "entry_count (ev_dependency_queues ((retain_dependency q ^^ k) ev)) q' =
    entry_count (ev_dependency_queues ev) q' + (if q' = q then k else 0)"
  by (induction k) (auto simp: dependencies_ok_retain(2) [OF funpow_dependencies_ok [OF assms]])

lemma inv_retained:
  assumes inv: "state_inv qs es ds n" and Q: "qs q = Some Q" and d: "Some d \<in> set (live_dispatches Q)"
    and deps: "\<forall>e \<in> set (concat ess). es e \<noteq> None"
  shows "state_inv (qs(q \<mapsto> with_barriers Q (q_pending_barriers Q @ barriers_behind d ess))) (retained q (concat ess) es) ds n"
    (is "state_inv (qs(q \<mapsto> ?Q)) ?es ds n")
proof -
  have rec: "recorded_on ?es = recorded_on es"
    by (auto simp: recorded_on_def retained_def fun_eq_iff funpow_retain_fields)
  have dom: "?es e \<noteq> None \<longleftrightarrow> es e \<noteq> None" for e by simp
  have same: "queue_inv ?es ds n r R = queue_inv es ds n r R" for r R
    unfolding queue_inv_def dispatch_ok_def dom rec ..
  have "queue_inv es ds n q ?Q"
    using invD(1) [OF inv Q] d deps unfolding queue_inv_def by (simp add: ball_Un)
  then have queue: "queue_inv ?es ds n r R" if "(qs(q \<mapsto> ?Q)) r = Some R" for r R
    unfolding same using that invD(1) [OF inv, of r R] by (cases "r = q") auto
  have waits: "waits_on ?Q e = waits_on Q e + count_list (concat ess) e" for e
    by (simp add: waits_on_def count_list_append comp_def)
  have event: "event_inv (qs(q \<mapsto> ?Q)) n e ev'" if ev': "?es e = Some ev'" for e ev'
  proof -
    from ev' obtain ev where ev: "es e = Some ev" "ev' = (retain_dependency q ^^ count_list (concat ess) e) ev"
      by (auto simp: retained_def)
    from invD(2) [OF inv ev(1)] have old: "event_inv qs n e ev" .
    then have ok: "dependencies_ok (ev_dependency_queues ev) (ev_dependency_count ev)" by (simp add: event_inv_def)
    have cnt: "entry_count (ev_dependency_queues ev') r = (case (qs(q \<mapsto> ?Q)) r of None \<Rightarrow> 0 | Some R \<Rightarrow> waits_on R e)" for r
      using old Q by (cases "r = q") (auto simp: ev(2) funpow_entry_count [OF ok] waits event_inv_def)
    have pend: "\<exists>r R. ev_recorded_queue ev' = Some r \<and> (qs(q \<mapsto> ?Q)) r = Some R \<and> e \<in> set (q_pending_events R)" if "ev_pending ev'"
    proof -
      from that old obtain r R where "ev_recorded_queue ev' = Some r" "qs r = Some R" "e \<in> set (q_pending_events R)"
        by (auto simp: event_inv_def ev(2) funpow_retain_fields)
      then show ?thesis using Q by (cases "r = q") auto
    qed
    show ?thesis
      using old cnt pend funpow_dependencies_ok [OF ok, where q = q and k = "count_list (concat ess) e"]
      unfolding event_inv_def by (simp add: ev(2) funpow_retain_fields)
  qed
  have own: "set (owned R) \<inter> set (owned R') = {}"
    if r: "(qs(q \<mapsto> ?Q)) r = Some R" "(qs(q \<mapsto> ?Q)) r' = Some R'" "r \<noteq> r'" for r r' R R'
  proof -
    have "\<exists>X. qs r = Some X \<and> owned X = owned R" "\<exists>X. qs r' = Some X \<and> owned X = owned R'"
      using r(1,2) Q by (cases "r = q"; cases "r' = q"; auto)+
    then show ?thesis using invD(3) [OF inv] r(3) by metis
  qed
  show ?thesis unfolding state_inv_def using queue event own by blast
qed

lemma push_barriers_eq:
  assumes "g_queues s q = Some Q" and "\<forall>e \<in> set (concat ess). g_events s e \<noteq> None"
  shows "push_barriers q d ess s = Ok (put_queue q (with_barriers Q (q_pending_barriers Q @ barriers_behind d ess))
    (s\<lparr>g_events := retained q (concat ess) (g_events s)\<rparr>))"
  using assms
proof (induction ess arbitrary: s Q)
  case Nil
  then show ?case by (simp add: put_queue_same)
next
  case (Cons es ess)
  let ?s = "s\<lparr>g_events := retained q es (g_events s)\<rparr>"
  let ?b = "\<lparr>pb_retirement_dispatch = d, pb_dependencies = es\<rparr>"
  let ?t = "put_queue q (with_barriers Q (q_pending_barriers Q @ [?b])) ?s"
  have "push_barriers q d ess ?t = Ok (put_queue q (with_barriers Q (q_pending_barriers Q @ ?b # barriers_behind d ess))
      (?t\<lparr>g_events := retained q (concat ess) (g_events ?t)\<rparr>))"
    using Cons.IH [of ?t "with_barriers Q (q_pending_barriers Q @ [?b])"] Cons.prems(2) by simp
  then show ?case
    using Cons.prems by (simp add: retain_all_eq get_queue_def put_queue_def)
qed

lemma pop_barriers_eq:
  assumes "\<forall>e \<in> set (concat ess). es e \<noteq> None"
    and ok: "\<And>e ev. es e = Some ev \<Longrightarrow> dependencies_ok (ev_dependency_queues ev) (ev_dependency_count ev)"
    and "g_queues s q = Some (with_barriers Q (bs @ barriers_behind d ess))" and "g_events s = retained q (concat ess) es"
  shows "pop_barriers q (length ess) s = Ok (put_queue q (with_barriers Q bs) (s\<lparr>g_events := es\<rparr>))"
  using assms(1,3,4)
proof (induction ess arbitrary: s rule: rev_induct)
  case Nil
  then have es: "es = g_events s" by simp
  show ?case using Nil unfolding es by (simp add: put_queue_same)
next
  case (snoc xs ess)
  let ?s = "s\<lparr>g_events := retained q (concat ess) es\<rparr>"
  have rel: "release_all xs q s = Ok ?s"
    using snoc.prems by (intro release_all_eq [where es = es]) (auto intro: ok)
  let ?t = "put_queue q (with_barriers Q (bs @ barriers_behind d ess)) ?s"
  have "pop_barriers q (length ess) ?t = Ok (put_queue q (with_barriers Q bs) (?t\<lparr>g_events := es\<rparr>))"
    using snoc.prems by (intro snoc.IH) simp_all
  then show ?case
    using snoc.prems rel by (simp add: get_queue_def last_map butlast_append put_queue_def)
qed

end
