(* ===== verification/DirectKfdCommit.thy ===== *)
theory DirectKfdCommit
  imports DirectKfdRollback
begin

text \<open>
  The publication of a launch: either the dispatch is pending and its packets stand at the end of the ring, or
  the runtime is back in the state before the publication, with the dispatch object in the pool.
\<close>

section \<open>Packets\<close>

definition launch_packets ::
  "launch_request \<Rightarrow> lr_launch_config \<Rightarrow> u64 \<Rightarrow> u64 \<Rightarrow> nat \<Rightarrow> AqlBarrierAndParameters list \<Rightarrow> bytes list" where
  "launch_packets r config kernarg_address handle preceding barriers =
     map barrier_packet (take (unat (word_of_nat (length barriers) :: u64)) barriers) @
     [kernel_dispatch_bytes (build_aql_kernel_dispatch_packet
        (aql_dispatch_parameters config (ki_private_segment_size (launch_kernel r))
           (ki_group_segment_size (launch_kernel r) + cfg_shared_memory_bytes config)
           (rk_descriptor_gpu_address (ii_kernels (la_image r) ! la_kernel_index r)) kernarg_address handle)
        \<lparr>do_pending_dispatch_count = word_of_nat preceding, do_has_pending_dependencies = (length barriers \<noteq> 0)\<rparr>)]"

lemma room_for_one:
  assumes "queue_ok (aql, ring)" and "write_index_relaxed aql - read_index_acquire aql \<le> packet_count aql - 1"
  shows "unat (write_index_relaxed aql) < unat (read_index_acquire aql) + unat (packet_count aql)"
proof -
  have use: "usable_queue aql" and ok: "ring_ok (packet_count aql) ring (aq_read_dispatch_id aql) (aq_write_dispatch_id aql)"
    using assms(1) by (simp_all add: queue_ok_def)
  have pos: "0 < unat (packet_count aql)" using ok by (auto simp: ring_ok_def is_power_of_two_def unat_gt_0)
  have "unat (aq_write_dispatch_id aql) - unat (aq_read_dispatch_id aql) \<le> unat (packet_count aql) - 1"
    using assms(2) ok pos by (simp add: usable_indices [OF use] ring_ok_def word_le_nat_alt unat_sub unat_gt_0 Suc_le_eq)
  then show ?thesis using pos ok by (simp add: usable_indices [OF use] ring_ok_def)
qed

lemma producer_runs:
  assumes ok: "queue_ok (aql, ring)" and bs: "barriers_ok barriers"
    and room: "barriers = [] \<Longrightarrow> write_index_relaxed aql - read_index_acquire aql \<le> packet_count aql - 1"
  shows "\<exists>res aql' ring'. (if length barriers = 0
        then submit_aql_kernel_dispatch (direct_kfd_producer aql) parameters ordr True aql ring
        else submit_aql_barriers_and_kernel_dispatch (direct_kfd_producer aql) (Some barriers) (word_of_nat (length barriers))
               parameters ordr aql ring) = Ok (res, aql', ring') \<and>
    (if as_error res = SubmitNone
     then queue_ok (aql', ring') \<and> waiting (aql', ring') = waiting (aql, ring) @
       map barrier_packet (take (unat (word_of_nat (length barriers) :: u64)) barriers) @
       [kernel_dispatch_bytes (build_aql_kernel_dispatch_packet parameters ordr)]
     else aql' = aql \<and> ring' = ring)" (is "\<exists>res aql' ring'. ?m = _ \<and> _")
proof -
  let ?ps = "map barrier_packet (take (unat (word_of_nat (length barriers) :: u64)) barriers) @
    [kernel_dispatch_bytes (build_aql_kernel_dispatch_packet parameters ordr)]"
  note at = queue_ok_indices [OF ok, of "Some (\<lambda>aql. valid_direct_kfd_dispatch_packet (scratch_private_segment_size aql))"]
  have "batch_submitted read_index_acquire write_index_relaxed queue_frame (packet_count aql) aql ring ?ps ?m"
  proof (cases "barriers = []")
    case True
    then show ?thesis
      using kfd.dispatch_appends [OF at(1), of True parameters ordr] room_for_one [OF ok room [OF True]]
      by (simp add: at(2) direct_kfd_producer_def)
  next
    case False
    have "unat (word_of_nat (length barriers) :: u64) \<le> length barriers" by (simp add: unat_of_nat)
    then show ?thesis
      using kfd.barriers_and_dispatch_append [OF at(1), of "Some barriers" "word_of_nat (length barriers)" parameters ordr] bs False
      by (simp add: at(2) direct_kfd_producer_def)
  qed
  then obtain res aql' ring' where m: "?m = Ok (res, aql', ring')" and b:
    "batch_submitted read_index_acquire write_index_relaxed queue_frame (packet_count aql) aql ring ?ps (Ok (res, aql', ring'))"
    by (auto simp: batch_submitted_def)
  have "as_error res \<noteq> SubmitNone \<Longrightarrow> aql' = aql \<and> ring' = ring" using b by (simp add: batch_submitted_def)
  with m batch_refines [OF ok b] show ?thesis
    by (intro exI [of _ res] exI [of _ aql'] exI [of _ ring']) (auto simp: submit_event_def)
qed

lemma submit_launch_runs:
  assumes Q: "g_queues s q = Some Q" and ok: "queue_ok (q_queue Q, q_ring Q)" and bs: "barriers_ok barriers"
    and room: "barriers = [] \<Longrightarrow> write_index_relaxed (q_queue Q) - read_index_acquire (q_queue Q) \<le> packet_count (q_queue Q) - 1"
    and handle: "completion_signal_handle s d = Ok handle"
  shows "runs (submit_launch q d r config addr n barriers s) (\<lambda>(err, s').
    if err = SubmitNone
    then \<exists>aql ring. s' = put_queue q (Q\<lparr>q_queue := aql, q_ring := ring\<rparr>) s \<and> queue_ok (aql, ring) \<and>
      waiting (aql, ring) = waiting (q_queue Q, q_ring Q) @ launch_packets r config addr handle n barriers
    else s' = s)"
proof -
  let ?p = "aql_dispatch_parameters config (ki_private_segment_size (launch_kernel r))
           (ki_group_segment_size (launch_kernel r) + cfg_shared_memory_bytes config)
           (rk_descriptor_gpu_address (ii_kernels (la_image r) ! la_kernel_index r)) addr handle"
  let ?o = "\<lparr>do_pending_dispatch_count = word_of_nat n, do_has_pending_dependencies = (length barriers \<noteq> 0)\<rparr>"
  from producer_runs [OF ok bs room, of ?p ?o] obtain res aql ring where
    m: "(if length barriers = 0
        then submit_aql_kernel_dispatch (direct_kfd_producer (q_queue Q)) ?p ?o True (q_queue Q) (q_ring Q)
        else submit_aql_barriers_and_kernel_dispatch (direct_kfd_producer (q_queue Q)) (Some barriers) (word_of_nat (length barriers))
               ?p ?o (q_queue Q) (q_ring Q)) = Ok (res, aql, ring)" and
    res: "if as_error res = SubmitNone
     then queue_ok (aql, ring) \<and> waiting (aql, ring) = waiting (q_queue Q, q_ring Q) @ launch_packets r config addr handle n barriers
     else aql = q_queue Q \<and> ring = q_ring Q"
    by (auto simp: launch_packets_def)
  have "submit_launch q d r config addr n barriers s = Ok (as_error res, put_queue q (Q\<lparr>q_queue := aql, q_ring := ring\<rparr>) s)"
    unfolding submit_launch_def get_queue_def Q option.case obind.simps handle Let_def m submitted_value_def outcome.case prod.case ..
  then show ?thesis using res by (cases "as_error res = SubmitNone") (simp_all add: put_queue_same [OF Q], blast)
qed

section \<open>The dispatch becomes pending\<close>

abbreviation with_live :: "lr_queue \<Rightarrow> nat \<Rightarrow> lr_queue" where
  "with_live Q d \<equiv> Q\<lparr>q_pending_dispatches := q_pending_dispatches Q @ [Some d]\<rparr>"

lemma inv_push:
  assumes "holding s q d" and Q: "g_queues s q = Some Q"
  shows "kfd_inv (put_queue q (with_live Q d) s)" and "live_dispatches (with_live Q d) = live_dispatches Q @ [Some d]"
proof -
  let ?G = "with_pool Q (q_available_dispatches Q @ [d])"
  note h = holdingD [OF assms]
  have inv: "queue_inv (g_events s) (g_dispatches s) (g_next s) q ?G" using inv_queueD [OF h(2)] by simp
  have "q_pending_dispatch_head Q \<le> length (q_pending_dispatches Q)" using inv by (simp add: queue_inv_def)
  then show live: "live_dispatches (with_live Q d) = live_dispatches Q @ [Some d]" by (simp add: live_dispatches_def)
  have m: "mset (owned (with_live Q d)) = mset (owned ?G)" by (simp add: owned_def live)
  have own: "set (owned (with_live Q d)) = set (owned ?G)" "distinct (owned (with_live Q d)) = distinct (owned ?G)"
    using m by (metis set_mset_mset) (rule mset_eq_imp_distinct_iff [OF m])
  have "queue_inv (g_events s) (g_dispatches s) (g_next s) q (with_live Q d)"
    using inv unfolding queue_inv_def own live by auto
  then have "kfd_inv (put_queue q (with_live Q d) (put_queue q ?G s))"
    using own(1) by (intro inv_same_queue [OF h(2), of q ?G]) auto
  then show "kfd_inv (put_queue q (with_live Q d) s)" by simp
qed

section \<open>The completion event\<close>

definition armed_record :: "nat \<Rightarrow> ClockCounters \<Rightarrow> lr_event \<Rightarrow> lr_event" where
  "armed_record q clock ev = ev\<lparr>ev_signal := (ev_signal ev)\<lparr>us_start_ts := 0, us_end_ts := 0, us_value := 1\<rparr>,
     ev_pending := True, ev_completed := False, ev_start_tick := 0, ev_completion_tick := 0, ev_record_clock := clock,
     ev_completion_clock := no_clock, ev_recorded_queue := Some q\<rparr>"

abbreviation with_event :: "lr_queue \<Rightarrow> nat \<Rightarrow> lr_queue" where
  "with_event Q e \<equiv> Q\<lparr>q_queue := set_profiling_enabled True (q_queue Q), q_pending_events := q_pending_events Q @ [e]\<rparr>"

definition armed_state :: "nat \<Rightarrow> nat \<Rightarrow> nat \<Rightarrow> ClockCounters \<Rightarrow> lr_queue \<Rightarrow> PendingDispatch \<Rightarrow> lr_event \<Rightarrow> runtime \<Rightarrow> runtime" where
  "armed_state q d e clock Q p ev s =
     (put_queue q (with_event Q e) (put_dispatch d (p\<lparr>pd_completion_event := Some e\<rparr>) (put_event e (armed_record q clock ev) s)))
     \<lparr>g_device_events := (g_device_events s)(ev_device ev := g_device_events s (ev_device ev) @ [e])\<rparr>"

lemma event_page: "kfd_inv s \<Longrightarrow> g_events s e = Some ev \<Longrightarrow> us_page (ev_signal ev)"
  unfolding kfd_inv_def using invD(2) by (fastforce simp: event_inv_def)

lemma holding_cong:
  assumes "same_globals s s'" and "holding s q d"
  shows "holding s' q d"
  using assms same_globals_maps [OF assms(1)] by (auto simp: holding_def kfd_inv_def)

lemma arm_runs:
  assumes hold: "holding s q d" and Q: "g_queues s q = Some Q" and p: "g_dispatches s d = Some p" and ev: "g_events s e = Some ev"
  shows "runs (arm_completion_event q d e s) (\<lambda>(ok, s'). if ok
    then \<exists>clock s1. same_globals s s1 \<and> later s s1 \<and> s' = armed_state q d e clock Q p ev s1
    else holding s' q d \<and> later s s')"
proof -
  obtain c s1 where c: "next_clock s = (c, s1)" by (cases "next_clock s")
  obtain b s2 where b: "next_allocation s1 = (b, s2)" by (cases "next_allocation s1")
  note r1 = next_reply_later(4) [OF c] and r2 = next_reply_later(1) [OF b]
  have g: "same_globals s s2" using conjunct1 [OF r1] conjunct1 [OF r2] by (simp add: same_globals_def)
  have l: "later s s2" by (rule later_trans [OF conjunct2 [OF r1] conjunct2 [OF r2]])
  note maps = same_globals_maps [OF g]
  have page: "us_page (ev_signal ev)" by (rule event_page [OF holdingD(1) [OF hold Q] ev])
  have armed: "obind (get_event s2 e) (\<lambda>event. obind (arm_event q clock event) (\<lambda>event'. obind (get_dispatch s2 d) (\<lambda>dispatch.
      obind (push_pending_event q e (put_dispatch d (dispatch\<lparr>pd_completion_event := Some e\<rparr>) (put_event e event' s2))) (\<lambda>s3. Ok (True, s3))))) =
      Ok (True, armed_state q d e clock Q p ev s2)" for clock
    using Q p ev page maps
    by (simp add: get_event_def get_dispatch_def get_queue_def arm_event_def reset_signal_def push_pending_event_def armed_state_def
        armed_record_def put_event_def put_dispatch_def put_queue_def)
  show ?thesis
    using c b g holding_cong [OF conjunct1 [OF r1] hold] holding_cong [OF g hold] conjunct2 [OF r1] l
    by (cases c; cases b) (auto simp: arm_completion_event_def armed simp del: runs_obind)
qed

lemma inv_armed_queue:
  assumes inv: "state_inv qs es ds n" and L: "qs q = Some L" and ev: "es e = Some ev" "\<not> ev_pending ev"
  shows "state_inv (qs(q \<mapsto> with_event L e)) (es(e \<mapsto> armed_record q clock ev)) ds n"
proof -
  let ?L = "with_event L e" and ?ev = "armed_record q clock ev"
  have live: "live_dispatches ?L = live_dispatches L" "owned ?L = owned L" by (simp_all add: live_dispatches_def owned_def)
  have queue: "queue_inv es ds n q L" by (rule invD(1) [OF inv L])
  have fresh: "\<not> recorded_on es r e" for r using ev by (simp add: recorded_on_def)
  then have new: "e \<notin> set (q_pending_events L)" using queue by (auto simp: queue_inv_def)
  have dom: "(es(e \<mapsto> ?ev)) x \<noteq> None \<longleftrightarrow> es x \<noteq> None" for x using ev by auto
  have rec: "recorded_on (es(e \<mapsto> ?ev)) q x" if "x = e \<or> recorded_on es q x" for x
    using that fresh by (cases "x = e") (auto simp: recorded_on_def armed_record_def)
  have "queue_inv (es(e \<mapsto> ?ev)) ds n q ?L"
    using queue new rec unfolding queue_inv_def dispatch_ok_def dom live by auto
  moreover have "event_inv (qs(q \<mapsto> ?L)) n e ?ev"
    using invD(2) [OF inv ev(1)] L by (auto simp: event_inv_def armed_record_def waits_on_def split: if_splits)
  ultimately show ?thesis
    using fresh by (intro inv_queue_event [where e = e, OF inv L ev(1)]) (auto simp: live waits_on_def)
qed

lemma inv_armed:
  assumes hold: "holding s q d" and Q: "g_queues s q = Some Q" and p: "g_dispatches s d = Some p"
    and ev: "g_events s e = Some ev" "\<not> ev_pending ev"
  shows "kfd_inv (put_queue q (with_live (with_event Q e) d) (armed_state q d e clock Q p ev s))"
proof -
  let ?qs = "(g_queues s)(q \<mapsto> with_live Q d)"
  have inv: "state_inv ?qs (g_events s) (g_dispatches s) (g_next s)" using inv_push(1) [OF hold Q] by (simp add: kfd_inv_def)
  have L: "?qs q = Some (with_live Q d)" by simp
  note armed = inv_armed_queue [OF inv L ev, of clock]
  let ?L = "with_event (with_live Q d) e" and ?es = "(g_events s)(e \<mapsto> armed_record q clock ev)"
  have gone: "d \<notin> set (q_available_dispatches R)" if R: "(?qs(q \<mapsto> ?L)) r = Some R" for r R
  proof -
    have inL: "d \<in> set (map the (live_dispatches ?L))" "d \<in> set (owned ?L)"
      using inv_push(2) [OF hold Q] by (auto simp: owned_def live_dispatches_def)
    have "distinct (owned ?L)" using invD(1) [OF armed fun_upd_same] unfolding queue_inv_def by blast
    then show ?thesis
      using inL invD(3) [OF armed, of q ?L r R] R by (cases "r = q") (auto simp: owned_def)
  qed
  have "state_inv (?qs(q \<mapsto> ?L)) ?es ((g_dispatches s)(d \<mapsto> p\<lparr>pd_completion_event := Some e\<rparr>)) (g_next s)"
    by (rule inv_put_dispatch [where ds = "g_dispatches s" and d = d, OF armed p]) (use gone in \<open>blast | simp\<close>)+
  moreover have eq: "with_live (with_event Q e) d = ?L" by simp
  ultimately show ?thesis unfolding kfd_inv_def eq by (simp add: armed_state_def put_queue_def put_event_def put_dispatch_def)
qed

section \<open>Undoing\<close>

text \<open>The state between the bookkeeping and the packets.\<close>

definition booked :: "nat \<Rightarrow> nat \<Rightarrow> nat list list \<Rightarrow> lr_queue \<Rightarrow> runtime \<Rightarrow> runtime" where
  "booked q d ess Q s = put_queue q (with_barriers (with_live Q d) (q_pending_barriers Q @ barriers_behind d ess))
     (s\<lparr>g_events := retained q (concat ess) (g_events s)\<rparr>)"

lemma events_deps: "kfd_inv s \<Longrightarrow> g_events s e = Some ev \<Longrightarrow> dependencies_ok (ev_dependency_queues ev) (ev_dependency_count ev)"
  unfolding kfd_inv_def using invD(2) by (fastforce simp: event_inv_def)

lemma undo_bookkeeping:
  assumes Q: "g_queues s q = Some Q" and deps: "\<forall>e \<in> set (concat ess). g_events s e \<noteq> None"
    and ok: "\<And>e ev. g_events s e = Some ev \<Longrightarrow> dependencies_ok (ev_dependency_queues ev) (ev_dependency_count ev)"
  shows "undo_launch q d None (length ess) (booked q d ess Q s) = Ok (put_queue q (with_pool Q (q_available_dispatches Q @ [d])) s)"
proof -
  let ?L = "with_live Q d"
  have "pop_barriers q (length ess) (booked q d ess Q s) =
      Ok (put_queue q (with_barriers ?L (q_pending_barriers Q)) ((booked q d ess Q s)\<lparr>g_events := g_events s\<rparr>))"
    by (rule pop_barriers_eq [OF deps ok]) (simp_all add: booked_def put_queue_def)
  moreover have "put_queue q (with_barriers ?L (q_pending_barriers Q)) ((booked q d ess Q s)\<lparr>g_events := g_events s\<rparr>) =
      put_queue q ?L s"
    by (simp add: booked_def put_queue_def)
  ultimately have "pop_barriers q (length ess) (booked q d ess Q s) = Ok (put_queue q ?L s)" by simp
  moreover have "pop_dispatch q (put_queue q ?L s) = Ok (put_queue q (with_pool Q (q_available_dispatches Q @ [d])) s)"
    by (simp add: pop_dispatch_def get_queue_def)
  ultimately show ?thesis by (simp add: undo_launch_def)
qed

text \<open>A completion event that was armed and disarmed keeps everything but the words of its signal.\<close>

definition disarmed :: "lr_event \<Rightarrow> lr_event" where
  "disarmed ev = ev\<lparr>ev_signal := (ev_signal ev)\<lparr>us_start_ts := 0, us_end_ts := 0, us_value := 0\<rparr>,
     ev_recorded_queue := None, ev_pending := False\<rparr>"

abbreviation with_profiling :: "lr_queue \<Rightarrow> lr_queue" where
  "with_profiling Q \<equiv> Q\<lparr>q_queue := set_profiling_enabled True (q_queue Q)\<rparr>"

definition undone_state :: "nat \<Rightarrow> nat \<Rightarrow> lr_queue \<Rightarrow> lr_event \<Rightarrow> runtime \<Rightarrow> runtime" where
  "undone_state q e Q ev s = put_queue q (with_profiling Q) (put_event e (disarmed ev) s)"

lemma disarm_armed: "us_page (ev_signal ev) \<Longrightarrow> disarm_event ev (armed_record q clock ev) = Ok (disarmed ev)"
  by (simp add: disarm_event_def armed_record_def disarmed_def)

lemma disarm_retained:
  "disarm_event previous ev = Ok ev' \<Longrightarrow>
   disarm_event previous ((retain_dependency q ^^ k) ev) = Ok ((retain_dependency q ^^ k) ev')"
proof (induction k)
  case (Suc k)
  have "disarm_event previous (retain_dependency q x) = Ok (retain_dependency q y)" if "disarm_event previous x = Ok y" for x y
    using that by (cases "dependency_entry q (ev_dependency_queues x)") (auto simp: disarm_event_def retain_dependency_def Let_def split: if_splits)
  with Suc show ?case by simp
qed simp

lemma undo_event:
  assumes Q: "g_queues s q = Some Q" and p: "g_dispatches s d = Some p" "pd_completion_event p = None"
    and ev: "g_events s e = Some ev" and page: "us_page (ev_signal ev)"
  shows "undo_completion_event q d e ev (booked q d ess (with_event Q e) (armed_state q d e clock Q p ev s)) =
    Ok (booked q d ess (with_profiling Q) (undone_state q e Q ev s))"
proof -
  let ?k = "count_list (concat ess) e"
  have dis: "disarm_event ev ((retain_dependency q ^^ ?k) (armed_record q clock ev)) = Ok ((retain_dependency q ^^ ?k) (disarmed ev))"
    by (rule disarm_retained [OF disarm_armed [OF page]])
  have events: "(retained q (concat ess) ((g_events s)(e \<mapsto> armed_record q clock ev)))(e \<mapsto> (retain_dependency q ^^ ?k) (disarmed ev)) =
      retained q (concat ess) ((g_events s)(e \<mapsto> disarmed ev))"
    by (auto simp: retained_def fun_eq_iff)
  let ?B = "booked q d ess (with_event Q e) (armed_state q d e clock Q p ev s)"
  let ?X = "q_pending_barriers Q @ barriers_behind d ess"
  let ?B' = "(put_queue q (with_barriers (with_live (with_profiling Q) d) ?X) ?B)\<lparr>g_device_events := g_device_events s\<rparr>"
  have B: "g_queues ?B q = Some (with_barriers (with_live (with_event Q e) d) ?X)"
    "g_events ?B e = Some ((retain_dependency q ^^ ?k) (armed_record q clock ev))"
    "g_dispatches ?B d = Some (p\<lparr>pd_completion_event := Some e\<rparr>)"
    "g_device_events ?B = (g_device_events s)(ev_device ev := g_device_events s (ev_device ev) @ [e])"
    by (simp_all add: booked_def armed_state_def retained_def put_queue_def put_event_def put_dispatch_def)
  have dev: "ev_device ((retain_dependency q ^^ ?k) (armed_record q clock ev)) = ev_device ev"
    by (simp add: funpow_retain_fields armed_record_def)
  have popped: "(g_device_events ?B)(ev_device ev := butlast (g_device_events ?B (ev_device ev))) = g_device_events s"
    by (simp add: B(4))
  have pop: "pop_pending_event q e ?B = Ok ?B'"
    unfolding pop_pending_event_def get_queue_def get_event_def B(1,2) option.case obind.simps dev popped by (simp add: B(4))
  have p': "p\<lparr>pd_completion_event := None\<rparr> = p" using p(2) by simp
  have disp: "(g_dispatches s)(d \<mapsto> p) = g_dispatches s" using p(1) by (simp add: fun_upd_idem)
  have "put_event e ((retain_dependency q ^^ ?k) (disarmed ev)) (put_dispatch d p ?B') =
      booked q d ess (with_profiling Q) (undone_state q e Q ev s)"
    using events disp by (simp add: booked_def armed_state_def undone_state_def put_queue_def put_event_def put_dispatch_def)
  moreover have "g_dispatches ?B' d = Some (p\<lparr>pd_completion_event := Some e\<rparr>)"
    "g_events ?B' e = Some ((retain_dependency q ^^ ?k) (armed_record q clock ev))" using B by simp_all
  ultimately show ?thesis
    by (simp add: undo_completion_event_def pop get_dispatch_def get_event_def dis p')
qed

lemma undo_armed:
  assumes inv: "kfd_inv s" and Q: "g_queues s q = Some Q" and p: "g_dispatches s d = Some p" "pd_completion_event p = None"
    and ev: "g_events s e = Some ev" and deps: "\<forall>e \<in> set (concat ess). g_events s e \<noteq> None"
  shows "undo_launch q d (Some (e, ev)) (length ess) (booked q d ess (with_event Q e) (armed_state q d e clock Q p ev s)) =
    Ok (put_queue q (with_pool (with_profiling Q) (q_available_dispatches Q @ [d])) (undone_state q e Q ev s))"
proof -
  let ?s = "undone_state q e Q ev s"
  have "undo_launch q d None (length ess) (booked q d ess (with_profiling Q) ?s) =
      Ok (put_queue q (with_pool (with_profiling Q) (q_available_dispatches (with_profiling Q) @ [d])) ?s)"
  proof (rule undo_bookkeeping)
    show "g_queues ?s q = Some (with_profiling Q)" by (simp add: undone_state_def)
    show "\<forall>e \<in> set (concat ess). g_events ?s e \<noteq> None" using deps by (simp add: undone_state_def)
    show "dependencies_ok (ev_dependency_queues x) (ev_dependency_count x)" if "g_events ?s y = Some x" for x y
      using that events_deps [OF inv] events_deps [OF inv ev] by (auto simp: undone_state_def disarmed_def split: if_splits)
  qed
  then show ?thesis
    by (simp add: undo_launch_def undo_event [OF Q p ev event_page [OF inv ev]])
qed

section \<open>Publication\<close>

lemma inv_booked:
  assumes inv: "kfd_inv (put_queue q (with_live Q d) s)" and live: "live_dispatches (with_live Q d) = live_dispatches Q @ [Some d]"
    and deps: "\<forall>e \<in> set (concat ess). g_events s e \<noteq> None"
  shows "kfd_inv (booked q d ess Q s)"
  using inv_retained [OF inv [unfolded kfd_inv_def], of q "with_live Q d" d ess] live deps
  by (simp add: kfd_inv_def booked_def put_queue_def)

lemma book_eq:
  assumes Q: "g_queues s q = Some Q" and deps: "\<forall>e \<in> set (concat ess). g_events s e \<noteq> None"
  shows "obind (push_dispatch q d s) (push_barriers q d ess) = Ok (booked q d ess Q s)"
  using Q push_barriers_eq [of "put_queue q (with_live Q d) s" q "with_live Q d" ess d] deps
  by (simp add: push_dispatch_def get_queue_def booked_def put_queue_def)

lemma handle_booked:
  assumes "g_dispatches s d = Some p" and "\<And>e. pd_completion_event p = Some e \<Longrightarrow> g_events s e \<noteq> None"
  shows "completion_signal_handle (booked q d ess Q s) d = completion_signal_handle s d"
    and "\<exists>h. completion_signal_handle s d = Ok h"
  using assms
  by (auto simp: completion_signal_handle_def booked_def get_dispatch_def event_gpu_handle_def get_event_def retained_def
      funpow_retain_fields split: option.splits)

definition committed ::
  "nat \<Rightarrow> nat \<Rightarrow> launch_request \<Rightarrow> lr_launch_config \<Rightarrow> u64 \<Rightarrow> AqlBarrierAndParameters list \<Rightarrow> lr_queue \<Rightarrow> runtime \<Rightarrow> runtime \<Rightarrow> bool" where
  "committed q d r config addr barriers Q s s' \<longleftrightarrow> (\<exists>aql ring handle. completion_signal_handle s d = Ok handle \<and>
     s' = put_queue q ((with_barriers (with_live Q d) (q_pending_barriers Q @ barriers_behind d (dependency_chunks (launch_dependencies r))))
            \<lparr>q_queue := aql, q_ring := ring\<rparr>)
          (s\<lparr>g_events := retained q (concat (dependency_chunks (launch_dependencies r))) (g_events s)\<rparr>) \<and>
     queue_ok (aql, ring) \<and>
     waiting (aql, ring) = waiting (q_queue Q, q_ring Q) @ launch_packets r config addr handle (length (live_dispatches Q)) barriers)"

lemma publish_runs:
  assumes Q: "g_queues s q = Some Q" and ok: "queue_ok (q_queue Q, q_ring Q)" and bs: "barriers_ok barriers"
    and room: "barriers = [] \<Longrightarrow> write_index_relaxed (q_queue Q) - read_index_acquire (q_queue Q) \<le> packet_count (q_queue Q) - 1"
    and p: "g_dispatches s d = Some p" "\<And>e. pd_completion_event p = Some e \<Longrightarrow> g_events s e \<noteq> None"
    and deps: "\<forall>e \<in> set (concat (dependency_chunks (launch_dependencies r))). g_events s e \<noteq> None"
    and undo: "undo_launch q d prior (length barriers) (booked q d (dependency_chunks (launch_dependencies r)) Q s) = Ok u"
  shows "runs (publish_launch q d r config addr prior barriers s) (\<lambda>(status, s').
    if status = LR_SUCCESS then committed q d r config addr barriers Q s s' else s' = u)"
proof -
  let ?ess = "dependency_chunks (launch_dependencies r)"
  let ?B = "booked q d ?ess Q s" and ?Q = "with_barriers (with_live Q d) (q_pending_barriers Q @ barriers_behind d ?ess)"
  obtain handle where h: "completion_signal_handle s d = Ok handle" "completion_signal_handle ?B d = Ok handle"
    using handle_booked [OF p] by metis
  have B: "g_queues ?B q = Some ?Q" by (simp add: booked_def put_queue_def)
  let ?n = "length (live_dispatches Q)"
  have n: "length (q_pending_dispatches Q) - q_pending_dispatch_head Q = ?n" by (simp add: live_dispatches_def)
  have "runs (submit_launch q d r config addr ?n barriers ?B) (\<lambda>(err, s').
    if err = SubmitNone
    then \<exists>aql ring. s' = put_queue q (?Q\<lparr>q_queue := aql, q_ring := ring\<rparr>) ?B \<and> queue_ok (aql, ring) \<and>
      waiting (aql, ring) = waiting (q_queue ?Q, q_ring ?Q) @ launch_packets r config addr handle ?n barriers
    else s' = ?B)"
    by (rule submit_launch_runs [OF B _ bs _ h(2)]) (use ok room in simp_all)
  moreover have "put_queue q (?Q\<lparr>q_queue := aql, q_ring := ring\<rparr>) ?B =
      put_queue q (?Q\<lparr>q_queue := aql, q_ring := ring\<rparr>) (s\<lparr>g_events := retained q (concat ?ess) (g_events s)\<rparr>)" for aql ring
    by (simp add: booked_def)
  ultimately have sub: "runs (submit_launch q d r config addr ?n barriers ?B) (\<lambda>(err, s').
      if err = SubmitNone then committed q d r config addr barriers Q s s' else s' = ?B)"
    using h(1) by (elim runs_weaken) (auto simp: committed_def split: if_splits)
  have eq: "publish_launch q d r config addr prior barriers s =
      obind (submit_launch q d r config addr ?n barriers ?B) (\<lambda>(error, s3).
        if error \<noteq> SubmitNone
        then obind (undo_launch q d prior (length barriers) s3) (\<lambda>s4. Ok (aql_submit_status error, s4)) else Ok (LR_SUCCESS, s3))"
    using book_eq [OF Q deps, of d] Q
    by (simp add: publish_launch_def get_queue_def Let_def n push_dispatch_def)
  have "aql_submit_status err \<noteq> LR_SUCCESS" if "err \<noteq> SubmitNone" for err using that by (cases err) (simp_all add: aql_submit_status_def)
  then show ?thesis
    unfolding eq by (intro runs_pairI [OF sub]) (auto simp: undo)
qed

end
