(* ===== verification/DirectKfdLaunched.thy ===== *)
theory DirectKfdLaunched
  imports DirectKfdCommit
begin

text \<open>
  The whole launch. It never fails a check of the model, never exceeds a loop bound and keeps the invariant. A launch
  that succeeds has put one dispatch behind the others, whose packet names the kernarg bytes, the completion signal and the
  dependencies; one that fails has left the queues as they were, but for retired dispatches.
\<close>

section \<open>What a launch keeps\<close>

text \<open>Queue \<open>q\<close> gets the dispatches \<open>ds\<close>; the dispatches still in flight keep their place and their kernarg bytes.\<close>

definition kept_queue :: "runtime \<Rightarrow> runtime \<Rightarrow> nat option list \<Rightarrow> lr_queue \<Rightarrow> lr_queue \<Rightarrow> bool" where
  "kept_queue s s' ds Q Q' \<longleftrightarrow> q_device Q' = q_device Q \<and> (\<exists>n. live_dispatches Q' = drop n (live_dispatches Q) @ ds \<and>
     (\<forall>x. Some x \<in> set (drop n (live_dispatches Q)) \<longrightarrow> kernarg_of s' Q' x = kernarg_of s Q x))"

definition kept :: "runtime \<Rightarrow> nat \<Rightarrow> nat option list \<Rightarrow> runtime \<Rightarrow> bool" where
  "kept s q ds s' \<longleftrightarrow> (\<forall>x Q. g_queues s x = Some Q \<longrightarrow>
     (\<exists>Q'. g_queues s' x = Some Q' \<and> kept_queue s s' (if x = q then ds else []) Q Q'))"

lemma calm_kept: "calm s s' \<Longrightarrow> kept s q [] s'"
  unfolding kept_def
proof (intro allI impI)
  fix x Q assume "calm s s'" "g_queues s x = Some Q"
  then obtain Q' where "g_queues s' x = Some Q'" "calm_queue s s' Q Q'" by (rule calm_queueD)
  then show "\<exists>Q'. g_queues s' x = Some Q' \<and> kept_queue s s' (if x = q then [] else []) Q Q'"
    by (auto simp: calm_queue_def kept_queue_def)
qed

lemma kept_queue_trans:
  assumes "kept_queue s s1 [] Q Q1" and "kept_queue s1 s2 ds Q1 Q2"
  shows "kept_queue s s2 ds Q Q2"
proof -
  from assms obtain m n where m: "live_dispatches Q1 = drop m (live_dispatches Q)"
      "\<And>x. Some x \<in> set (drop m (live_dispatches Q)) \<Longrightarrow> kernarg_of s1 Q1 x = kernarg_of s Q x"
    and n: "live_dispatches Q2 = drop n (live_dispatches Q1) @ ds"
      "\<And>x. Some x \<in> set (drop n (live_dispatches Q1)) \<Longrightarrow> kernarg_of s2 Q2 x = kernarg_of s1 Q1 x"
    by (auto simp: kept_queue_def)
  have "set (drop (n + m) (live_dispatches Q)) \<subseteq> set (drop m (live_dispatches Q))" by (rule set_drop_subset_set_drop) simp
  then show ?thesis
    unfolding kept_queue_def using m n assms by (intro conjI exI [of _ "n + m"]) (auto simp: kept_queue_def add.commute)
qed

lemma kept_trans:
  assumes "kept s q [] s1" and "kept s1 q ds s2"
  shows "kept s q ds s2"
  unfolding kept_def
proof (intro allI impI)
  fix x Q assume "g_queues s x = Some Q"
  then obtain Q1 where Q1: "g_queues s1 x = Some Q1" "kept_queue s s1 (if x = q then [] else []) Q Q1"
    using assms(1) unfolding kept_def by blast
  then obtain Q2 where Q2: "g_queues s2 x = Some Q2" "kept_queue s1 s2 (if x = q then ds else []) Q1 Q2"
    using assms(2) unfolding kept_def by blast
  have "kept_queue s s1 [] Q Q1" using Q1(2) by simp
  from kept_queue_trans [OF this Q2(2)] Q2(1) show "\<exists>Q'. g_queues s2 x = Some Q' \<and> kept_queue s s2 (if x = q then ds else []) Q Q'"
    by blast
qed

text \<open>A change of one queue that adds dispatches and leaves the dispatch objects and arenas alone.\<close>

lemma kept_put:
  assumes Q: "g_queues s q = Some Q" and "live_dispatches Q' = live_dispatches Q @ ds" and "q_kernarg_arenas Q' = q_kernarg_arenas Q"
    and "q_device Q' = q_device Q" and queues: "g_queues s' = (g_queues s)(q \<mapsto> Q')"
    and disp: "\<And>x. map_option pd_kernarg (g_dispatches s' x) = map_option pd_kernarg (g_dispatches s x)"
  shows "kept s q ds s'"
proof -
  have kern: "kernarg_of s' R' x = kernarg_of s R x" if "q_kernarg_arenas R' = q_kernarg_arenas R" for R R' x
    using that disp [of x] by (cases "g_dispatches s x"; cases "g_dispatches s' x") (auto simp: kernarg_of_def)
  have "kernarg_of s' Q' x = kernarg_of s Q x" "kernarg_of s' R x = kernarg_of s R x" for x R by (rule kern, simp add: assms(3))+
  then show ?thesis
    using Q assms(2,4) queues by (auto simp: kept_def kept_queue_def intro: exI [of _ 0])
qed

section \<open>A launch that was sent\<close>

definition launch_sent :: "nat \<Rightarrow> nat \<Rightarrow> launch_request \<Rightarrow> lr_launch_config \<Rightarrow> bytes list \<Rightarrow> runtime \<Rightarrow> bool" where
  "launch_sent q d r config before s \<longleftrightarrow> (\<exists>Q addr handle barriers m. g_queues s q = Some Q \<and>
     segment_written s q d r config addr \<and> completion_signal_handle s d = Ok handle \<and>
     barrier_parameters s (dependency_chunks (launch_dependencies r)) = Ok barriers \<and>
     waiting (q_queue Q, q_ring Q) = drop m before @ launch_packets r config addr handle (length (live_dispatches Q) - 1) barriers)"

text \<open>The handles of the events of a list do not change.\<close>

definition same_handles :: "runtime \<Rightarrow> runtime \<Rightarrow> bool" where
  "same_handles s s' \<longleftrightarrow> (\<forall>e. map_option (host_signal \<circ> ev_signal) (g_events s' e) = map_option (host_signal \<circ> ev_signal) (g_events s e))"

lemma calm_handles: "calm s s' \<Longrightarrow> same_handles s s'"
  unfolding same_handles_def
proof
  fix e assume "calm s s'"
  then have "rel_option calm_event (g_events s e) (g_events s' e)" unfolding calm_def by blast
  then show "map_option (host_signal \<circ> ev_signal) (g_events s' e) = map_option (host_signal \<circ> ev_signal) (g_events s e)"
    by (cases rule: option.rel_cases) (auto simp: calm_event_def)
qed

lemma same_handles_trans: "same_handles s s1 \<Longrightarrow> same_handles s1 s2 \<Longrightarrow> same_handles s s2"
  by (simp add: same_handles_def)

lemma event_gpu_handle_cong: "same_handles s s' \<Longrightarrow> event_gpu_handle s' e = event_gpu_handle s e"
proof -
  assume "same_handles s s'"
  then have eq: "map_option (host_signal \<circ> ev_signal) (g_events s' e) = map_option (host_signal \<circ> ev_signal) (g_events s e)"
    by (simp add: same_handles_def)
  show ?thesis
  proof (cases "g_events s e")
    case None
    with eq show ?thesis by (simp add: event_gpu_handle_def get_event_def)
  next
    case (Some ev)
    with eq obtain ev' where ev': "g_events s' e = Some ev'" "host_signal (ev_signal ev') = host_signal (ev_signal ev)" by auto
    from arg_cong [OF ev'(2), of us_page] arg_cong [OF ev'(2), of us_handle] show ?thesis
      using Some ev'(1) by (simp add: event_gpu_handle_def get_event_def)
  qed
qed

lemma barrier_parameters_cong:
  assumes "same_handles s s'"
  shows "barrier_parameters s' ess = barrier_parameters s ess"
proof -
  have "event_handles s' es = event_handles s es" for es by (induction es) (simp_all add: event_gpu_handle_cong [OF assms])
  then show ?thesis by (induction ess) simp_all
qed

lemma barrier_parameters_runs:
  assumes "\<forall>e \<in> set (concat ess). g_events s e \<noteq> None" and "\<forall>es \<in> set ess. length es \<le> 5"
  shows "\<exists>ps. barrier_parameters s ess = Ok ps \<and> length ps = length ess \<and> barriers_ok ps"
proof -
  have "\<exists>hs. event_handles s es = Ok hs \<and> length hs = length es" if "\<forall>e \<in> set es. g_events s e \<noteq> None" for es
    using that
  proof (induction es)
    case (Cons e es)
    then obtain hs ev where "event_handles s es = Ok hs" "length hs = length es" "g_events s e = Some ev" by auto
    then show ?case by (simp add: event_gpu_handle_def get_event_def)
  qed simp
  with assms show ?thesis
  proof (induction ess)
    case (Cons es ess)
    then obtain ps hs where "barrier_parameters s ess = Ok ps \<and> length ps = length ess \<and> barriers_ok ps"
      "event_handles s es = Ok hs \<and> length hs = length es" by fastforce
    with Cons.prems show ?case by (auto simp: barriers_ok_def)
  qed (simp add: barriers_ok_def)
qed

lemma concat_dependency_chunks [simp]: "concat (dependency_chunks es) = es"
  by (induction es rule: dependency_chunks.induct) simp_all

lemma length_dependency_chunk: "c \<in> set (dependency_chunks es) \<Longrightarrow> length c \<le> 5"
  by (induction es rule: dependency_chunks.induct) auto

lemma length_dependency_chunks [simp]: "length (dependency_chunks es) = (length es + 4) div 5"
proof (induction es rule: dependency_chunks.induct)
  case (2 e es)
  then show ?case by (cases "length es < 5") (auto simp: not_less)
qed simp

lemma segment_cong:
  assumes "segment_written s q d r config addr" and Q: "g_queues s q = Some Q" "g_queues s' q = Some Q'"
    and "q_kernarg_arenas Q' = q_kernarg_arenas Q" and "map_option pd_kernarg (g_dispatches s' d) = map_option pd_kernarg (g_dispatches s d)"
  shows "segment_written s' q d r config addr"
proof (cases "ki_kernarg_size (launch_kernel r) = 0")
  case False
  with assms(1) Q(1) obtain p bs where p: "g_dispatches s d = Some p" "slice_gpu_address (q_kernarg_arenas Q) (pd_kernarg p) = Ok addr"
    "kernarg_of s Q d = Some bs" "launch_bytes r config bs" by (auto simp: segment_written_def)
  with assms(5) obtain p' where p': "g_dispatches s' d = Some p'" "pd_kernarg p' = pd_kernarg p" by auto
  with p assms(4) have "kernarg_of s' Q' d = Some bs" by (simp add: kernarg_of_def)
  with False p p' Q assms(4) show ?thesis by (simp add: segment_written_def)
qed (use assms(1) in \<open>simp add: segment_written_def\<close>)

definition waiting_at :: "runtime \<Rightarrow> nat \<Rightarrow> bytes list" where
  "waiting_at s q = (case g_queues s q of None \<Rightarrow> [] | Some Q \<Rightarrow> waiting (q_queue Q, q_ring Q))"

definition launch_outcome :: "runtime \<Rightarrow> nat \<Rightarrow> launch_request \<Rightarrow> lr_launch_config \<Rightarrow> lr_status \<Rightarrow> runtime \<Rightarrow> bool" where
  "launch_outcome s q r config status s' \<longleftrightarrow> kfd_inv s' \<and> rings_ok s' \<and>
     (if status = LR_SUCCESS then \<exists>d. kept s q [Some d] s' \<and> launch_sent q d r config (waiting_at s q) s' else kept s q [] s')"

lemma sent_drop:
  assumes "launch_sent q d r config (drop m before) s"
  shows "launch_sent q d r config before s"
proof -
  from assms obtain Q addr handle barriers k where "g_queues s q = Some Q"
    "segment_written s q d r config addr" "completion_signal_handle s d = Ok handle"
    "barrier_parameters s (dependency_chunks (launch_dependencies r)) = Ok barriers"
    "waiting (q_queue Q, q_ring Q) = drop k (drop m before) @ launch_packets r config addr handle (length (live_dispatches Q) - 1) barriers"
    unfolding launch_sent_def by blast
  then show ?thesis unfolding launch_sent_def
    by (intro exI [of _ Q] exI [of _ addr] exI [of _ handle] exI [of _ barriers] exI [of _ "k + m"]) simp
qed

lemma outcome_trans:
  assumes "kept s q [] s1" and "waiting_at s1 q = drop m (waiting_at s q)" and "launch_outcome s1 q r config status s'"
  shows "launch_outcome s q r config status s'"
  using assms(3) kept_trans [OF assms(1)] sent_drop [of q _ r config m "waiting_at s q" s', folded assms(2)]
  unfolding launch_outcome_def by (cases "status = LR_SUCCESS") (simp, blast, simp)

lemma waiting_mild:
  assumes "mild s s'" and Q: "g_queues s q = Some Q" and ok: "queue_ok (q_queue Q, q_ring Q)"
  obtains m where "waiting_at s' q = drop m (waiting_at s q)"
proof -
  have "rel_option ring_kept (Some Q) (g_queues s' q)" using assms(1) Q unfolding mild_def by metis
  then obtain Q' where Q': "g_queues s' q = Some Q'" "advanced (q_queue Q) (q_queue Q')" "q_ring Q' = q_ring Q"
    by (auto simp: option_rel_Some1 ring_kept_def)
  from Q'(2) obtain n where n: "n \<le> aq_write_dispatch_id (q_queue Q) - aq_read_dispatch_id (q_queue Q)"
    and b: "q_queue Q' = (q_queue Q)\<lparr>aq_read_dispatch_id := aq_read_dispatch_id (q_queue Q) + n\<rparr>" by (auto simp: advanced_def)
  have le: "unat (aq_read_dispatch_id (q_queue Q)) \<le> unat (aq_write_dispatch_id (q_queue Q))"
    using ok by (simp add: queue_ok_def ring_ok_def)
  then have sum: "unat (aq_read_dispatch_id (q_queue Q)) + unat n \<le> unat (aq_write_dispatch_id (q_queue Q))"
    using n by (simp add: word_le_nat_alt unat_sub)
  then have "unat (aq_read_dispatch_id (q_queue Q) + n) = unat (aq_read_dispatch_id (q_queue Q)) + unat n"
    using unat_u64_less [of "aq_write_dispatch_id (q_queue Q)"] by (intro unat_add64) simp
  with sum have "waiting (q_queue Q', q_ring Q') = drop (unat n) (waiting (q_queue Q, q_ring Q))"
    unfolding b Q'(3) using device_refines [OF ok, of "aq_read_dispatch_id (q_queue Q) + n"] by simp
  then show ?thesis using that Q Q'(1) by (simp add: waiting_at_def)
qed

lemma retained_handles: "same_handles s (put_queue q Q (s\<lparr>g_events := retained q xs (g_events s)\<rparr>))"
  by (auto simp: same_handles_def retained_def option.map_comp comp_def funpow_retain_fields)

lemma commit_outcome:
  assumes com: "committed q d r config addr barriers Q s s'" and Q: "g_queues s q = Some Q" and rings: "rings_ok s"
    and inv: "kfd_inv (put_queue q (with_live Q d) s)" and live: "live_dispatches (with_live Q d) = live_dispatches Q @ [Some d]"
    and seg: "segment_written s q d r config addr" and deps: "\<forall>e \<in> set (launch_dependencies r). g_events s e \<noteq> None"
    and bar: "barrier_parameters s (dependency_chunks (launch_dependencies r)) = Ok barriers"
  shows "launch_outcome s q r config LR_SUCCESS s'"
proof -
  let ?ess = "dependency_chunks (launch_dependencies r)"
  let ?L = "with_barriers (with_live Q d) (q_pending_barriers Q @ barriers_behind d ?ess)"
  from com obtain aql ring handle where h: "completion_signal_handle s d = Ok handle"
    and s': "s' = put_queue q (?L\<lparr>q_queue := aql, q_ring := ring\<rparr>) (s\<lparr>g_events := retained q (concat ?ess) (g_events s)\<rparr>)"
    and ok: "queue_ok (aql, ring)" and w: "waiting (aql, ring) = waiting (q_queue Q, q_ring Q) @
      launch_packets r config addr handle (length (live_dispatches Q)) barriers"
    by (auto simp: committed_def)
  let ?Q = "?L\<lparr>q_queue := aql, q_ring := ring\<rparr>"
  have Q': "g_queues s' q = Some ?Q" "g_dispatches s' = g_dispatches s" by (simp_all add: s')
  have "kfd_inv (booked q d ?ess Q s)" using inv_booked [OF inv live, of ?ess] deps by simp
  then have "kfd_inv (put_queue q ?Q (booked q d ?ess Q s))"
    by (rule inv_core [of _ _ ?L]) (simp_all add: booked_def core_def)
  then have i: "kfd_inv s'" by (simp add: s' booked_def)
  have "rings_ok s'" using rings ok by (auto simp: rings_ok_def s' ring_usable_def put_queue_def)
  moreover have lv: "live_dispatches ?Q = live_dispatches Q @ [Some d]" using live by (simp add: live_dispatches_def)
  then have "kept s q [Some d] s'" by (intro kept_put [OF Q _ _ _ _]) (simp_all add: s')
  moreover have same: "same_handles s s'" unfolding s' by (rule retained_handles)
  then have "event_gpu_handle s' = event_gpu_handle s" using event_gpu_handle_cong by blast
  from h [folded this] have "completion_signal_handle s' d = Ok handle"
    unfolding completion_signal_handle_def get_dispatch_def Q'(2) by (simp only: \<open>event_gpu_handle s' = event_gpu_handle s\<close>)
  moreover have "segment_written s' q d r config addr" by (rule segment_cong [OF seg Q Q'(1)]) (simp_all add: Q'(2))
  ultimately have "launch_sent q d r config (waiting_at s q) s'"
    unfolding launch_sent_def using Q' w bar barrier_parameters_cong [OF same] Q lv
    by (intro exI [of _ ?Q] exI [of _ addr] exI [of _ handle] exI [of _ barriers] exI [of _ 0]) (simp add: waiting_at_def)
  then show ?thesis using i \<open>rings_ok s'\<close> \<open>kept s q [Some d] s'\<close> by (auto simp: launch_outcome_def)
qed

section \<open>From the dispatch object to the packets\<close>

lemma return_dispatch_runs:
  assumes "holding s q d" and "rings_ok s"
  shows "runs (return_dispatch q d s) (\<lambda>s'. kfd_inv s' \<and> rings_ok s' \<and> kept s q [] s')"
proof -
  from assms(1) obtain Q where Q: "g_queues s q = Some Q" "kfd_inv (put_queue q (with_pool Q (q_available_dispatches Q @ [d])) s)"
    by (auto simp: holding_def)
  have "mild s (put_queue q (with_pool Q (q_available_dispatches Q @ [d])) s)" by (rule mild_put_queue [OF Q(1)]) simp_all
  with Q show ?thesis
    using rings_mild [OF _ assms(2)] calm_kept [OF mild_calm] by (simp add: return_dispatch_def get_queue_def)
qed

text \<open>What the publication needs of the state and the request.\<close>

definition ready :: "runtime \<Rightarrow> nat \<Rightarrow> launch_request \<Rightarrow> AqlBarrierAndParameters list \<Rightarrow> bool" where
  "ready s q r barriers \<longleftrightarrow> rings_ok s \<and> (\<exists>Q. g_queues s q = Some Q \<and> kfd_queue_bool (q_queue Q)) \<and>
     (barriers = [] \<longrightarrow> has_room s q 1) \<and> (\<forall>e \<in> set (launch_dependencies r). g_events s e \<noteq> None) \<and>
     barrier_parameters s (dependency_chunks (launch_dependencies r)) = Ok barriers"

lemma event_mild: "mild s s' \<Longrightarrow> g_events s e \<noteq> None \<Longrightarrow> g_events s' e \<noteq> None"
  using calm_eventD [OF mild_calm] by (metis not_None_eq)

lemma ready_mild:
  assumes "mild s s'" and "ready s q r barriers"
  shows "ready s' q r barriers"
proof -
  from assms(2) obtain Q where Q: "g_queues s q = Some Q" "kfd_queue_bool (q_queue Q)" by (auto simp: ready_def)
  have "rel_option ring_kept (Some Q) (g_queues s' q)" using assms(1) Q(1) unfolding mild_def by metis
  then obtain Q' where "g_queues s' q = Some Q'" "kfd_queue_bool (q_queue Q')"
    using Q(2) advanced_fields(1) by (auto simp: option_rel_Some1 ring_kept_def)
  then show ?thesis
    using assms(2) rings_mild [OF assms(1)] room_mild [OF assms(1)] event_mild [OF assms(1)]
      barrier_parameters_cong [OF calm_handles [OF mild_calm [OF assms(1)]]] by (auto simp: ready_def)
qed

lemma readyD:
  assumes "ready s q r barriers" and Q: "g_queues s q = Some Q"
  shows "queue_ok (q_queue Q, q_ring Q)" and "barriers_ok barriers" and "length barriers = length (dependency_chunks (launch_dependencies r))"
    and "barriers = [] \<Longrightarrow> write_index_relaxed (q_queue Q) - read_index_acquire (q_queue Q) \<le> packet_count (q_queue Q) - 1"
    and "\<forall>e \<in> set (concat (dependency_chunks (launch_dependencies r))). g_events s e \<noteq> None"
proof -
  show "queue_ok (q_queue Q, q_ring Q)" using assms rings_okD [OF _ Q] by (auto simp: ready_def ring_usable_def)
  show deps: "\<forall>e \<in> set (concat (dependency_chunks (launch_dependencies r))). g_events s e \<noteq> None"
    using assms(1) by (simp add: ready_def)
  from barrier_parameters_runs [OF this] show "barriers_ok barriers" "length barriers = length (dependency_chunks (launch_dependencies r))"
    using assms(1) length_dependency_chunk by (auto simp: ready_def)
  show "write_index_relaxed (q_queue Q) - read_index_acquire (q_queue Q) \<le> packet_count (q_queue Q) - 1" if "barriers = []"
    using assms that by (auto simp: ready_def has_room_def)
qed

lemma publish_finish:
  assumes "runs m (\<lambda>(status, s'). if status = LR_SUCCESS then C s' else s' = u)" and "\<And>s'. C s' \<Longrightarrow> P LR_SUCCESS s'"
    and "\<And>status. status \<noteq> LR_SUCCESS \<Longrightarrow> P status u"
  shows "runs m (\<lambda>(status, s'). P status s')"
proof (rule runs_weaken [OF assms(1)], clarify)
  fix status s' assume "if status = LR_SUCCESS then C s' else s' = u"
  then show "P status s'" using assms(2,3) by (cases "status = LR_SUCCESS") auto
qed

lemma publish_plain:
  assumes hold: "holding s q d" and held: "held s d n" and ready: "ready s q r barriers" and seg: "segment_written s q d r config addr"
  shows "runs (publish_launch q d r config addr None barriers s) (\<lambda>(status, s'). launch_outcome s q r config status s')"
proof -
  from ready obtain Q where Q: "g_queues s q = Some Q" by (auto simp: ready_def)
  note rd = readyD [OF ready Q] and h = holdingD [OF hold Q] and push = inv_push [OF hold Q]
  obtain p where p: "g_dispatches s d = Some p" "pd_completion_event p = None" using held by (auto simp: held_def)
  let ?u = "put_queue q (with_pool Q (q_available_dispatches Q @ [d])) s"
  have undo: "undo_launch q d None (length barriers) (booked q d (dependency_chunks (launch_dependencies r)) Q s) = Ok ?u"
    unfolding rd(3) by (rule undo_bookkeeping [OF Q rd(5) events_deps [OF h(1)]])
  have "mild s ?u" by (rule mild_put_queue [OF Q]) simp_all
  then have failed: "launch_outcome s q r config status ?u" if "status \<noteq> LR_SUCCESS" for status
    using that h(2) rings_mild [of s ?u] calm_kept [OF mild_calm] ready by (auto simp: launch_outcome_def ready_def)
  have sent: "launch_outcome s q r config LR_SUCCESS s'" if "committed q d r config addr barriers Q s s'" for s'
    using that ready by (intro commit_outcome [OF _ Q _ push seg]) (auto simp: ready_def)
  show ?thesis
    by (rule publish_finish [where P = "launch_outcome s q r config", OF publish_runs [OF Q rd(1,2,4) p(1) _ rd(5) undo] sent failed])
      (simp_all add: p(2))
qed

text \<open>The same with a completion event, armed in the state \<open>s\<close>.\<close>

lemma queue_ok_profiling: "queue_ok (set_profiling_enabled b aql, ring) = queue_ok (aql, ring)"
  "waiting (set_profiling_enabled b aql, ring) = waiting (aql, ring)"
  "read_index_acquire (set_profiling_enabled b aql) = read_index_acquire aql"
  "write_index_relaxed (set_profiling_enabled b aql) = write_index_relaxed aql"
  "packet_count (set_profiling_enabled b aql) = packet_count aql"
  "kfd_queue_bool (set_profiling_enabled b aql) = kfd_queue_bool aql"
  by (auto simp: set_profiling_enabled_def queue_ok_def waiting_def usable_queue_def kfd_queue_bool_def packet_count_def
      read_index_acquire_def write_index_relaxed_def)

lemma inv_undone:
  assumes hold: "holding s q d" and Q: "g_queues s q = Some Q" and ev: "g_events s e = Some ev" "\<not> ev_pending ev"
  shows "kfd_inv (put_queue q (with_pool (with_profiling Q) (q_available_dispatches Q @ [d])) (undone_state q e Q ev s))"
proof -
  let ?G = "with_pool Q (q_available_dispatches Q @ [d])"
  let ?P = "with_pool (with_profiling Q) (q_available_dispatches Q @ [d])"
  have "kfd_inv (put_queue q ?P (put_queue q ?G s))"
    by (rule inv_core [OF holdingD(2) [OF hold Q], of q ?G]) (simp_all add: core_def)
  then have "kfd_inv (put_queue q ?P s)" by simp
  then have "kfd_inv (put_event e (disarmed ev) (put_queue q ?P s))"
  proof (rule inv_put_idle_event)
    show "ev_pageable_copy_size (disarmed ev) \<le> length bs" if "ev_pageable_copy_staging (disarmed ev) = Some bs" for bs
      using that invD(2) [OF holdingD(1) [OF hold Q, unfolded kfd_inv_def] ev(1)] by (simp add: disarmed_def event_inv_def)
  qed (use ev in \<open>simp_all add: disarmed_def static_event_def host_signal_def\<close>)
  moreover have "put_event e (disarmed ev) (put_queue q ?P s) = put_queue q ?P (undone_state q e Q ev s)"
    by (simp add: undone_state_def put_queue_def put_event_def)
  ultimately show ?thesis by simp
qed

lemma undone_outcome:
  assumes hold: "holding s q d" and Q: "g_queues s q = Some Q" and ev: "g_events s e = Some ev" "\<not> ev_pending ev"
    and rings: "rings_ok s" and "status \<noteq> LR_SUCCESS"
  shows "launch_outcome s q r config status
    (put_queue q (with_pool (with_profiling Q) (q_available_dispatches Q @ [d])) (undone_state q e Q ev s))"
proof -
  let ?u = "put_queue q (with_pool (with_profiling Q) (q_available_dispatches Q @ [d])) (undone_state q e Q ev s)"
  have "rings_ok ?u"
    using rings Q by (auto simp: rings_ok_def undone_state_def ring_usable_def queue_ok_profiling put_queue_def put_event_def)
  moreover have "kept s q [] ?u"
    by (rule kept_put [OF Q, where Q' = "with_pool (with_profiling Q) (q_available_dispatches Q @ [d])"])
      (simp_all add: undone_state_def live_dispatches_def)
  ultimately show ?thesis using inv_undone [OF hold Q ev] assms(6) by (simp add: launch_outcome_def)
qed

lemma armed_ready:
  assumes "ready s q r barriers" and Q: "g_queues s q = Some Q" and ev: "g_events s e = Some ev"
  shows "ready (armed_state q d e clock Q p ev s) q r barriers"
proof -
  let ?s = "armed_state q d e clock Q p ev s"
  have s: "g_queues ?s = (g_queues s)(q \<mapsto> with_event Q e)" "g_events ?s = (g_events s)(e \<mapsto> armed_record q clock ev)"
    "w_queues ?s = w_queues s"
    by (simp_all add: armed_state_def put_queue_def put_event_def put_dispatch_def)
  have "same_handles s ?s" using ev by (auto simp: same_handles_def s(2) armed_record_def host_signal_def)
  then show ?thesis
    using assms(1) Q barrier_parameters_cong
    by (auto simp: ready_def rings_ok_def s ring_usable_def queue_ok_profiling has_room_def)
qed

lemma publish_armed:
  assumes hold: "holding s q d" and held: "held s d n" and ready: "ready s q r barriers" and seg: "segment_written s q d r config addr"
    and Q: "g_queues s q = Some Q" and p: "g_dispatches s d = Some p" and ev: "g_events s e = Some ev" "\<not> ev_pending ev"
  shows "runs (publish_launch q d r config addr (Some (e, ev)) barriers (armed_state q d e clock Q p ev s))
    (\<lambda>(status, s'). launch_outcome s q r config status s')"
proof -
  let ?s = "armed_state q d e clock Q p ev s" and ?Q = "with_event Q e"
  have s: "g_queues ?s = (g_queues s)(q \<mapsto> ?Q)" "g_events ?s = (g_events s)(e \<mapsto> armed_record q clock ev)"
    "g_dispatches ?s = (g_dispatches s)(d \<mapsto> p\<lparr>pd_completion_event := Some e\<rparr>)"
    by (simp_all add: armed_state_def put_queue_def put_event_def put_dispatch_def)
  have Q': "g_queues ?s q = Some ?Q" by (simp add: s)
  note ready' = armed_ready [OF ready Q ev(1), of d clock p]
  note rd = readyD [OF ready' Q']
  have none: "pd_completion_event p = None" using held p by (simp add: held_def)
  let ?u = "put_queue q (with_pool (with_profiling Q) (q_available_dispatches Q @ [d])) (undone_state q e Q ev s)"
  have undo: "undo_launch q d (Some (e, ev)) (length barriers) (booked q d (dependency_chunks (launch_dependencies r)) ?Q ?s) = Ok ?u"
    unfolding rd(3) using ready by (intro undo_armed [OF holdingD(1) [OF hold Q] Q p none ev(1)]) (simp add: ready_def)
  have failed: "launch_outcome s q r config status ?u" if "status \<noteq> LR_SUCCESS" for status
    using ready that by (intro undone_outcome [OF hold Q ev]) (simp_all add: ready_def)
  have sent: "launch_outcome s q r config LR_SUCCESS s'" if com: "committed q d r config addr barriers ?Q ?s s'" for s'
  proof (rule outcome_trans)
    show "kept s q [] ?s" by (rule kept_put [OF Q _ _ _ s(1)]) (use p in \<open>simp_all add: s(3) live_dispatches_def\<close>)
    show "waiting_at ?s q = drop 0 (waiting_at s q)" using Q by (simp add: waiting_at_def s queue_ok_profiling)
    have "live_dispatches (with_live ?Q d) = live_dispatches ?Q @ [Some d]"
      using inv_push(2) [OF hold Q] by (simp add: live_dispatches_def)
    moreover have "segment_written ?s q d r config addr" by (rule segment_cong [OF seg Q Q']) (simp_all add: s(3) p)
    ultimately show "launch_outcome ?s q r config LR_SUCCESS s'"
      using ready' by (intro commit_outcome [OF com Q' _ inv_armed [OF hold Q p ev]]) (auto simp: ready_def)
  qed
  show ?thesis
    by (rule publish_finish [where P = "launch_outcome s q r config", OF publish_runs [OF Q' rd(1,2,4) _ _ rd(5) undo] sent failed])
      (auto simp: s split: if_splits)
qed

lemma outcome_mild:
  assumes "mild s s1" and "ready s q r barriers" and "launch_outcome s1 q r config status s'"
  shows "launch_outcome s q r config status s'"
proof -
  from assms(2) obtain Q where Q: "g_queues s q = Some Q" by (auto simp: ready_def)
  from waiting_mild [OF assms(1) Q readyD(1) [OF assms(2) Q]] obtain m where "waiting_at s1 q = drop m (waiting_at s q)" .
  from outcome_trans [OF calm_kept [OF mild_calm [OF assms(1)]] this assms(3)] show ?thesis .
qed

lemma returned_outcome:
  assumes "holding s q d" and "rings_ok s" and "status \<noteq> LR_SUCCESS"
  shows "runs (obind (return_dispatch q d s) (\<lambda>s'. Ok (status, s'))) (\<lambda>(status, s'). launch_outcome s q r config status s')"
  by (rule runs_obindI [OF return_dispatch_runs [OF assms(1,2)]]) (use assms(3) in \<open>simp add: launch_outcome_def\<close>)

lemma arm_and_publish_runs:
  assumes hold: "holding s q d" and held: "held s d n" and ready: "ready s q r barriers" and seg: "segment_written s q d r config addr"
    and ev: "g_events s e = Some ev" "\<not> ev_pending ev"
  shows "runs (obind (arm_completion_event q d e s) (\<lambda>(ok, s2).
      if \<not> ok then obind (return_dispatch q d s2) (\<lambda>s3. Ok (LR_ERROR_RUNTIME, s3))
      else publish_launch q d r config addr (Some (e, ev)) barriers s2)) (\<lambda>(status, s'). launch_outcome s q r config status s')"
proof -
  from ready obtain Q where Q: "g_queues s q = Some Q" by (auto simp: ready_def)
  obtain p where p: "g_dispatches s d = Some p" using held by (auto simp: held_def)
  show ?thesis
  proof (rule runs_pairI [OF arm_runs [OF hold Q p ev(1)]])
    fix ok s2 assume s2: "if ok then \<exists>clock s1. same_globals s s1 \<and> later s s1 \<and> s2 = armed_state q d e clock Q p ev s1
      else holding s2 q d \<and> later s s2"
    show "runs (if \<not> ok then obind (return_dispatch q d s2) (\<lambda>s3. Ok (LR_ERROR_RUNTIME, s3))
      else publish_launch q d r config addr (Some (e, ev)) barriers s2) (\<lambda>(status, s'). launch_outcome s q r config status s')"
    proof (cases ok)
      case False
      with s2 have m: "holding s2 q d" "mild s s2" using later_mild by auto
      have "rings_ok s2" using ready_mild [OF m(2) ready] by (simp add: ready_def)
      from returned_outcome [OF m(1) this, of LR_ERROR_RUNTIME r config] show ?thesis
        using False outcome_mild [OF m(2) ready] by (auto elim!: runs_weaken simp del: runs_obind)
    next
      case True
      with s2 obtain clock s1 where s1: "same_globals s s1" "later s s1" "s2 = armed_state q d e clock Q p ev s1" by auto
      note maps = same_globals_maps [OF s1(1)]
      have "runs (publish_launch q d r config addr (Some (e, ev)) barriers (armed_state q d e clock Q p ev s1))
          (\<lambda>(status, s'). launch_outcome s1 q r config status s')"
        using held Q p ev maps segment_cong [OF seg Q, of s1 Q]
        by (intro publish_armed [where n = n, OF holding_cong [OF s1(1) hold] _ ready_mild [OF later_mild [OF s1(2)] ready]]) (simp_all add: held_def)
      then show ?thesis
        unfolding s1(3) using True outcome_mild [OF later_mild [OF s1(2)] ready] by (auto elim!: runs_weaken)
    qed
  qed
qed

lemma launch_dispatch_runs:
  assumes hold: "holding s q d" and held: "held s d n" and ready: "ready s q r barriers" and ok: "launch_ok r"
    and req: "kernarg_request_ok (launch_kernel r) (la_args r) (la_args_size r)"
    and n: "unat (ki_kernarg_size (launch_kernel r)) \<le> unat n"
    and event: "\<And>e. la_completion_event r = Some e \<Longrightarrow> \<exists>ev. g_events s e = Some ev \<and> \<not> ev_pending ev"
  defines "k \<equiv> launch_kernel r"
  shows "runs (launch_dispatch q d r config \<lparr>kr_storage_size = ucast (ki_kernarg_size k), kr_alignment = ki_kernarg_alignment k\<rparr> barriers s)
    (\<lambda>(status, s'). launch_outcome s q r config status s')"
  unfolding launch_dispatch_def k_def
proof (rule runs_pairI [OF write_kernargs_runs [OF hold held ok req n]], elim conjE)
  fix address s1 assume s1: "holding s1 q d" "held s1 d n" "mild s s1" "\<forall>addr. address = Some addr \<longrightarrow> segment_written s1 q d r config addr"
  note ready1 = ready_mild [OF s1(3) ready]
  have "runs (case address of
       None \<Rightarrow> obind (return_dispatch q d s1) (\<lambda>s2. Ok (LR_ERROR_INVALID_ARGUMENT, s2))
     | Some kernarg_address \<Rightarrow>
         (case la_completion_event r of
            None \<Rightarrow> publish_launch q d r config kernarg_address None barriers s1
          | Some e \<Rightarrow>
              obind (get_event s1 e) (\<lambda>previous.
              obind (arm_completion_event q d e s1) (\<lambda>(ok, s2).
              if \<not> ok then obind (return_dispatch q d s2) (\<lambda>s3. Ok (LR_ERROR_RUNTIME, s3))
              else publish_launch q d r config kernarg_address (Some (e, previous)) barriers s2))))
     (\<lambda>(status, s'). launch_outcome s1 q r config status s')"
  proof (cases address)
    case None
    then show ?thesis using returned_outcome [OF s1(1)] ready1 by (simp add: ready_def del: runs_obind)
  next
    case (Some addr)
    note seg = s1(4) [rule_format, OF Some]
    show ?thesis
    proof (cases "la_completion_event r")
      case None
      then show ?thesis using Some publish_plain [OF s1(1,2) ready1 seg] by simp
    next
      case e: (Some e)
      from event [OF e] obtain ev where "g_events s e = Some ev" "\<not> ev_pending ev" by blast
      with calm_eventD [OF mild_calm [OF s1(3)]] obtain ev1 where "g_events s1 e = Some ev1" "\<not> ev_pending ev1"
        unfolding calm_event_def by metis
      then show ?thesis using Some e arm_and_publish_runs [OF s1(1,2) ready1 seg] by (simp add: get_event_def del: runs_obind)
    qed
  qed
  then show "runs (case address of
       None \<Rightarrow> obind (return_dispatch q d s1) (\<lambda>s2. Ok (LR_ERROR_INVALID_ARGUMENT, s2))
     | Some kernarg_address \<Rightarrow>
         (case la_completion_event r of
            None \<Rightarrow> publish_launch q d r config kernarg_address None barriers s1
          | Some e \<Rightarrow>
              obind (get_event s1 e) (\<lambda>previous.
              obind (arm_completion_event q d e s1) (\<lambda>(ok, s2).
              if \<not> ok then obind (return_dispatch q d s2) (\<lambda>s3. Ok (LR_ERROR_RUNTIME, s3))
              else publish_launch q d r config kernarg_address (Some (e, previous)) barriers s2))))
     (\<lambda>(status, s'). launch_outcome s q r config status s')"
    by (rule runs_weaken) (use outcome_mild [OF s1(3) ready] in auto)
qed

section \<open>The whole launch\<close>

definition scratch_suffices :: "runtime \<Rightarrow> nat \<Rightarrow> launch_request \<Rightarrow> bool" where
  "scratch_suffices s q r \<longleftrightarrow> (\<exists>Q. g_queues s q = Some Q \<and>
     ki_private_segment_size (launch_kernel r) \<le> scratch_private_segment_size (q_queue Q))"

text \<open>
  The outcome, seen from the call: the packets are behind those that waited, unless the ring was replaced by one with
  more scratch memory.
\<close>

definition submitted_outcome :: "runtime \<Rightarrow> nat \<Rightarrow> launch_request \<Rightarrow> lr_status \<Rightarrow> runtime \<Rightarrow> bool" where
  "submitted_outcome s q r status s' \<longleftrightarrow> kfd_inv s' \<and> rings_ok s' \<and>
     (if status = LR_SUCCESS
      then \<exists>config d before. la_config r = Some config \<and> kept s q [Some d] s' \<and> launch_sent q d r config before s' \<and>
        (scratch_suffices s q r \<longrightarrow> before = waiting_at s q)
      else kept s q [] s')"

lemma allocation_covers: "kernarg_allocation_size x = Some n \<Longrightarrow> unat x \<le> unat n"
  using page_round_overflows [of x] unat_page_round [of x] page_round_bounds(1) [of "unat x"]
  by (auto simp: kernarg_allocation_size_def split: if_splits)

definition layout_ok :: "launch_request \<Rightarrow> lr_status + KernargBufferRequirements \<times> u64 \<Rightarrow> bool" where
  "layout_ok r layout \<longleftrightarrow> (case layout of Inl status \<Rightarrow> status \<noteq> LR_SUCCESS
     | Inr (requirements, n) \<Rightarrow> kernarg_request_ok (launch_kernel r) (la_args r) (la_args_size r) \<and>
         requirements = \<lparr>kr_storage_size = ucast (ki_kernarg_size (launch_kernel r)), kr_alignment = ki_kernarg_alignment (launch_kernel r)\<rparr> \<and>
         unat (ki_kernarg_size (launch_kernel r)) \<le> unat n)"

lemma argument_layout_runs: "runs (argument_layout r) (layout_ok r)"
proof (cases "kernarg_buffer_requirements (launch_kernel r) (la_args r) (la_args_size r)")
  case (Ok req)
  then have ok: "kernarg_request_ok (launch_kernel r) (la_args r) (la_args_size r)"
    "req = \<lparr>kr_storage_size = ucast (ki_kernarg_size (launch_kernel r)), kr_alignment = ki_kernarg_alignment (launch_kernel r)\<rparr>"
    by (simp_all add: kernarg_buffer_requirements_def validate_kernarg_request_Ok)
  show ?thesis
  proof (cases "kernarg_allocation_size (kr_storage_size req)")
    case (Some n)
    from allocation_covers [OF this] Some Ok ok show ?thesis by (simp add: argument_layout_def layout_ok_def)
  qed (simp add: argument_layout_def layout_ok_def Ok)
next
  case Fault
  then show ?thesis using validate_kernarg_request_not_Fault by (simp add: kernarg_buffer_requirements_def)
qed (simp add: argument_layout_def layout_ok_def)

lemma scratch_unchanged:
  assumes "scratch_suffices s q r" and "ensure_direct_kfd_queue_scratch_locked q (ki_private_segment_size (launch_kernel r)) s = Ok (LR_SUCCESS, s')"
  shows "s' = s"
  using assms by (auto simp: scratch_suffices_def ensure_direct_kfd_queue_scratch_locked_def get_queue_def split: if_splits)

lemma launch_rest_runs:
  assumes inv: "kfd_inv s" and ready: "ready s q r barriers" and ok: "launch_ok r"
    and event: "\<And>e. la_completion_event r = Some e \<Longrightarrow> \<exists>ev. g_events s e = Some ev \<and> \<not> ev_pending ev"
  shows "runs (launch_with_barriers q r config barriers s) (\<lambda>(status, s'). launch_outcome s q r config status s')"
  unfolding launch_with_barriers_def
proof (rule runs_obindI [OF argument_layout_runs])
  fix layout assume layout: "layout_ok r layout"
  have q: "g_queues s q \<noteq> None" and rings: "rings_ok s" using ready by (auto simp: ready_def)
  have failed: "launch_outcome s q r config status x" if "status \<noteq> LR_SUCCESS" "kfd_inv x" "mild s x" for status x
    using that rings_mild [OF that(3) rings] calm_kept [OF mild_calm [OF that(3)]] by (simp add: launch_outcome_def)
  show "runs (case layout of Inl status \<Rightarrow> Ok (status, s)
     | Inr (requirements, allocation_size) \<Rightarrow>
     obind (acquire_dispatch q allocation_size s) (\<lambda>(acquired, s4).
     case acquired of
       Inl status \<Rightarrow> Ok (status, s4)
     | Inr d \<Rightarrow> launch_dispatch q d r config requirements barriers s4)) (\<lambda>(status, s'). launch_outcome s q r config status s')"
  proof (cases layout)
    case (Inl status)
    then show ?thesis using layout failed [OF _ inv] by (simp add: layout_ok_def)
  next
    case (Inr x)
    obtain requirements n where x: "x = (requirements, n)" by (cases x)
    have "runs (obind (acquire_dispatch q n s) (\<lambda>(acquired, s4). case acquired of
        Inl status \<Rightarrow> Ok (status, s4) | Inr d \<Rightarrow> launch_dispatch q d r config requirements barriers s4))
      (\<lambda>(status, s'). launch_outcome s q r config status s')"
    proof (rule runs_pairI [OF acquire_runs [OF inv q]])
      fix a s4 assume a: "acquired s q n a s4"
      then have m: "mild s s4" by (simp add: acquired_def)
      have event4: "\<exists>ev. g_events s4 e = Some ev \<and> \<not> ev_pending ev" if "la_completion_event r = Some e" for e
        using event [OF that] calm_eventD [OF mild_calm [OF m], of e] by (metis calm_event_def)
      show "runs (case a of Inl status \<Rightarrow> Ok (status, s4) | Inr d \<Rightarrow> launch_dispatch q d r config requirements barriers s4)
          (\<lambda>(status, s'). launch_outcome s q r config status s')"
      proof (cases a)
        case (Inl status)
        then show ?thesis using a failed m by (simp add: acquired_def)
      next
        case d: (Inr d)
        have "runs (launch_dispatch q d r config requirements barriers s4) (\<lambda>(status, s'). launch_outcome s4 q r config status s')"
          using a d layout Inr x launch_dispatch_runs [OF _ _ ready_mild [OF m ready] ok _ _ event4, of d n config] by (simp add: acquired_def layout_ok_def)
        then show ?thesis using d outcome_mild [OF m ready] by (auto elim!: runs_weaken)
      qed
    qed
    then show ?thesis using Inr x by simp
  qed
qed

lemma launch_refused_runs:
  assumes "g_queues s q \<noteq> None"
  shows "runs (launch_refused q r s) (\<lambda>refused. case refused of Some status \<Rightarrow> status \<noteq> LR_SUCCESS
     | None \<Rightarrow> la_config r \<noteq> None \<and> (\<forall>e. la_completion_event r = Some e \<longrightarrow> (\<exists>ev. g_events s e = Some ev \<and> \<not> ev_pending ev)))"
  using assms by (auto simp: launch_refused_def get_queue_def completion_event_usable_def split: option.splits)

lemma kept_failed:
  assumes "sound s q s'" and "status \<noteq> LR_SUCCESS"
  shows "submitted_outcome s q r status s'"
  using assms calm_kept by (auto simp: submitted_outcome_def sound_def)

lemma capacity_ready:
  assumes s: "sound s q s" and deps: "\<forall>e \<in> set (launch_dependencies r). g_events s e \<noteq> None" and lat: "later s s1" and inv: "kfd_inv s1"
    and room: "has_room s1 q (word_of_nat ((length (launch_dependencies r) + 4) div 5) + 1)"
    and Q: "g_queues s1 q = Some Q" "kfd_queue_bool (q_queue Q)"
  obtains barriers where "barrier_parameters s1 (dependency_chunks (launch_dependencies r)) = Ok barriers" and "ready s1 q r barriers"
proof -
  have deps1: "\<forall>e \<in> set (launch_dependencies r). g_events s1 e \<noteq> None"
    using deps event_mild [OF later_mild [OF lat]] by blast
  obtain barriers where b: "barrier_parameters s1 (dependency_chunks (launch_dependencies r)) = Ok barriers"
    "length barriers = length (dependency_chunks (launch_dependencies r))"
    using barrier_parameters_runs [of "dependency_chunks (launch_dependencies r)" s1] deps1 length_dependency_chunk by auto
  have "has_room s1 q 1" if "barriers = []"
  proof -
    have "(length (launch_dependencies r) + 4) div 5 = 0" using b(2) that by simp
    then show ?thesis using room by simp
  qed
  then have "ready s1 q r barriers"
    using b Q deps1 rings_mild [OF later_mild [OF lat]] s by (auto simp: ready_def sound_def)
  with b(1) show ?thesis by (rule that)
qed

lemma waiting_after:
  assumes m: "mild s s'" and rings: "rings_ok s" and Q': "g_queues s' q = Some Q'" "kfd_queue_bool (q_queue Q')"
  obtains k where "waiting_at s' q = drop k (waiting_at s q)"
proof -
  have "rel_option ring_kept (g_queues s q) (Some Q')" using m Q'(1) unfolding mild_def by metis
  then obtain Q where Q: "g_queues s q = Some Q" "ring_kept Q Q'" by (auto simp: option_rel_Some2)
  then have "kfd_queue_bool (q_queue Q)" using Q'(2) advanced_fields(1) by (auto simp: ring_kept_def)
  then have "queue_ok (q_queue Q, q_ring Q)" using rings_okD [OF rings Q(1)] by (simp add: ring_usable_def)
  from waiting_mild [OF m Q(1) this] that show ?thesis by blast
qed

lemma outcome_submitted:
  assumes s1: "sound s q s1" and same: "scratch_suffices s q r \<Longrightarrow> s1 = s" and m: "mild s1 s3" and ready: "ready s3 q r barriers"
    and config: "la_config r = Some config" and out: "launch_outcome s3 q r config status s'"
  shows "submitted_outcome s q r status s'"
proof -
  have "kept s q [] s3" using s1 m calm_kept [OF calm_trans [OF _ mild_calm]] by (auto simp: sound_def)
  note keep = kept_trans [OF this]
  have sent: "\<exists>before. launch_sent q d r config before s' \<and> (scratch_suffices s q r \<longrightarrow> before = waiting_at s q)"
    if sent: "launch_sent q d r config (waiting_at s3 q) s'" for d
  proof (cases "scratch_suffices s q r")
    case True
    then have s: "s1 = s" by (rule same)
    obtain Q3 where "g_queues s3 q = Some Q3" "kfd_queue_bool (q_queue Q3)" using ready by (auto simp: ready_def)
    then obtain k where "waiting_at s3 q = drop k (waiting_at s q)"
      using waiting_after [OF m] s1 s by (auto simp: sound_def)
    then show ?thesis using sent sent_drop by metis
  qed (use sent in auto)
  show ?thesis
  proof (cases "status = LR_SUCCESS")
    case True
    with out obtain d where d: "kept s3 q [Some d] s'" "launch_sent q d r config (waiting_at s3 q) s'" by (auto simp: launch_outcome_def)
    from sent [OF d(2)] keep [OF d(1)] config out True show ?thesis unfolding submitted_outcome_def launch_outcome_def by auto
  qed (use out keep in \<open>auto simp: submitted_outcome_def launch_outcome_def\<close>)
qed

text \<open>The launch after the scratch memory is there.\<close>

lemma soundD:
  assumes "sound s q s'"
  shows "kfd_inv s'" and "g_queues s' q \<noteq> None"
  using assms by (auto simp: sound_def)

lemma launch_with_scratch_runs:
  assumes s1: "sound s q s1" and same: "scratch_suffices s q r \<Longrightarrow> s1 = s" and ok: "launch_ok r" and config: "la_config r = Some config"
    and deps: "\<forall>e \<in> set (launch_dependencies r). g_events s1 e \<noteq> None"
    and event: "\<And>e. la_completion_event r = Some e \<Longrightarrow> \<exists>ev. g_events s1 e = Some ev \<and> \<not> ev_pending ev"
  shows "runs (launch_with_scratch q r config s1) (\<lambda>(status, s'). submitted_outcome s q r status s')" (is "runs _ ?P")
  unfolding launch_with_scratch_def Let_def
proof (rule runs_pairI [OF capacity_runs [OF soundD(1,2) [OF s1]]], elim conjE)
  let ?k = "word_of_nat ((length (launch_dependencies r) + 4) div 5) + 1"
  fix status s2 assume s2: "kfd_inv s2" "later s1 s2" "status = LR_SUCCESS \<longrightarrow> has_room s2 q ?k \<and> ?k \<noteq> 0 \<and>
      (\<exists>Q. g_queues s2 q = Some Q \<and> kfd_queue_bool (q_queue Q) \<and> ?k \<le> packet_count (q_queue Q))"
  obtain b s3 where b: "next_allocation s2 = (b, s3)" by (cases "next_allocation s2")
  note r3 = next_reply_later(1) [OF b]
  have l3: "later s1 s3" by (rule later_trans [OF s2(2) conjunct2 [OF r3]])
  have inv3: "kfd_inv s3" using s2(1) same_globals_inv [OF conjunct1 [OF r3]] by simp
  have failed: "submitted_outcome s q r st x" if "st \<noteq> LR_SUCCESS" "kfd_inv x" "later s1 x" for st x
    using kept_failed [OF sound_trans [OF s1 sound_mild [OF that(2) later_mild [OF that(3)]]] that(1)] s1 by (auto simp: sound_def)
  show "runs (if status \<noteq> LR_SUCCESS then Ok (status, s2) else case next_allocation s2 of (False, s3) \<Rightarrow> Ok (LR_ERROR_RUNTIME, s3)
     | (True, s3) \<Rightarrow> obind (barrier_parameters s3 (dependency_chunks (launch_dependencies r))) (\<lambda>barriers. launch_with_barriers q r config barriers s3)) ?P"
  proof (cases "status = LR_SUCCESS \<and> b")
    case False
    then show ?thesis using failed s2(1,2) inv3 l3 b by auto
  next
    case True
    then obtain Q where Q: "g_queues s2 q = Some Q" "kfd_queue_bool (q_queue Q)" and room: "has_room s2 q ?k" using s2(3) by blast
    have Q3: "g_queues s3 q = Some Q" using Q(1) same_globals_maps(1) [OF conjunct1 [OF r3]] by simp
    from capacity_ready [OF sound_self [OF s1] deps l3 inv3 room_mild [OF later_mild [OF conjunct2 [OF r3]] room] Q3 Q(2)]
    obtain barriers where bar: "barrier_parameters s3 (dependency_chunks (launch_dependencies r)) = Ok barriers" "ready s3 q r barriers" .
    have event3: "\<exists>ev. g_events s3 e = Some ev \<and> \<not> ev_pending ev" if "la_completion_event r = Some e" for e
      using event [OF that] calm_eventD [OF mild_calm [OF later_mild [OF l3]], of e] by (metis calm_event_def)
    have "runs (launch_with_barriers q r config barriers s3) ?P"
      by (rule runs_weaken [OF launch_rest_runs [OF inv3 bar(2) ok event3]])
        (use outcome_submitted [OF s1 same later_mild [OF l3] bar(2) config] in auto)
    then show ?thesis using True b bar(1) by simp
  qed
qed

lemma submit_runs:
  assumes inv: "kfd_inv s" and rings: "rings_ok s" and q: "g_queues s q \<noteq> None" and ok: "launch_ok r"
    and deps: "\<forall>e \<in> set (launch_dependencies r). g_events s e \<noteq> None"
  shows "runs (submit_direct_kfd_kernel_impl_locked q r s) (\<lambda>(status, s'). submitted_outcome s q r status s')" (is "runs _ ?P")
  unfolding submit_direct_kfd_kernel_impl_locked_def
proof (rule runs_obindI [OF launch_refused_runs [OF q]])
  have self: "sound s q s" using assms by (simp add: sound_def)
  fix refused assume refused: "case refused of Some status \<Rightarrow> status \<noteq> LR_SUCCESS
     | None \<Rightarrow> la_config r \<noteq> None \<and> (\<forall>e. la_completion_event r = Some e \<longrightarrow> (\<exists>ev. g_events s e = Some ev \<and> \<not> ev_pending ev))"
  have rest: "runs (obind (ensure_direct_kfd_queue_scratch_locked q (ki_private_segment_size (launch_kernel r)) s) (\<lambda>(status, s1).
     if status \<noteq> LR_SUCCESS then Ok (status, s1) else launch_with_scratch q r config s1)) ?P"
    if config: "la_config r = Some config"
      and event: "\<And>e. la_completion_event r = Some e \<Longrightarrow> \<exists>ev. g_events s e = Some ev \<and> \<not> ev_pending ev" for config
  proof (rule runs_obindI' [OF scratch_runs [OF self]], clarify)
    fix status s1 assume run: "ensure_direct_kfd_queue_scratch_locked q (ki_private_segment_size (launch_kernel r)) s = Ok (status, s1)"
      and s1: "sound s q s1"
    then have c: "calm s s1" by (simp add: sound_def)
    have deps1: "\<forall>e \<in> set (launch_dependencies r). g_events s1 e \<noteq> None"
      using deps calm_eventD [OF c] by (metis not_None_eq)
    have event1: "\<exists>ev. g_events s1 e = Some ev \<and> \<not> ev_pending ev" if "la_completion_event r = Some e" for e
      using event [OF that] calm_eventD [OF c, of e] by (metis calm_event_def)
    have same: "s1 = s" if "status = LR_SUCCESS" "scratch_suffices s q r"
      using scratch_unchanged [OF that(2)] run that(1) by simp
    show "runs (if status \<noteq> LR_SUCCESS then Ok (status, s1) else launch_with_scratch q r config s1) ?P"
      using kept_failed [OF s1] launch_with_scratch_runs [OF s1 _ ok config deps1 event1] same by simp
  qed
  show "runs (case (refused, la_config r) of (Some status, _) \<Rightarrow> Ok (status, s) | (None, None) \<Rightarrow> Fault
     | (None, Some config) \<Rightarrow> obind (ensure_direct_kfd_queue_scratch_locked q (ki_private_segment_size (launch_kernel r)) s) (\<lambda>(status, s1).
       if status \<noteq> LR_SUCCESS then Ok (status, s1) else launch_with_scratch q r config s1)) ?P"
  proof (cases refused)
    case None
    with refused obtain config where "la_config r = Some config" by auto
    with None refused rest show ?thesis by (simp del: runs_obind)
  qed (use refused kept_failed [OF self] in simp)
qed

end
