(* ===== verification/DirectKfdCalls.thy ===== *)
theory DirectKfdCalls
  imports DirectKfdLaunched
begin

text \<open>
  The calls of \<open>DirectKfdEvents\<close> on queues and events keep the invariant, use no object that is gone and end within
  their bounds; what a call that reports success has done.
\<close>

section \<open>A barrier of its own\<close>

lemma barrier_runs:
  assumes ok: "queue_ok (aql, ring)" and "length (bp_dependency_signals p) = 5"
  obtains res aql' ring' where
    "submitted_value (submit_aql_barrier_and (light_rocr_kfd_producer_ops (Some aql) None) p aql ring) = Ok (res, aql', ring')"
    and "as_error res = SubmitNone \<Longrightarrow> queue_ok (aql', ring') \<and> waiting (aql', ring') = waiting (aql, ring) @ [barrier_packet p]"
    and "as_error res \<noteq> SubmitNone \<Longrightarrow> aql' = aql \<and> ring' = ring"
proof -
  note at = queue_ok_indices [OF ok, of None]
  have "batch_submitted read_index_acquire write_index_relaxed queue_frame (packet_count aql) aql ring [barrier_packet p]
      (submit_aql_barrier_and (light_rocr_kfd_producer_ops (Some aql) None) p aql ring)"
    using kfd.barriers_append [OF at(1), of "Some [p]" 1] assms(2) by (simp add: at(2) submit_aql_barrier_and_def barriers_ok_def)
  then obtain res aql' ring' where m: "submit_aql_barrier_and (light_rocr_kfd_producer_ops (Some aql) None) p aql ring = Ok (res, aql', ring')"
    and b: "batch_submitted read_index_acquire write_index_relaxed queue_frame (packet_count aql) aql ring [barrier_packet p] (Ok (res, aql', ring'))"
    by (auto simp: batch_submitted_def)
  have "as_error res \<noteq> SubmitNone \<Longrightarrow> aql' = aql \<and> ring' = ring" using b by (simp add: batch_submitted_def)
  with m batch_refines [OF ok b] show ?thesis
    by (intro that [of res aql' ring']) (auto simp: submit_event_def submitted_value_def)
qed

lemma sound_put_queue:
  assumes s: "sound s q s" and Q: "g_queues s q = Some Q" and core: "core Q' = core Q" and "q_device Q' = q_device Q"
    and ring: "ring_usable (q_queue Q') (q_ring Q')"
  shows "sound s q (put_queue q Q' s)"
proof -
  have "rings_ok (put_queue q Q' s)" using s ring by (auto simp: sound_def rings_ok_def put_queue_def)
  moreover have "calm s (put_queue q Q' s)"
    using core core_fields(1) [OF core] assms(4) by (intro calm_put_queue [OF Q]) (simp_all add: core_def)
  ultimately show ?thesis using inv_core [OF _ Q core] s by (simp add: sound_def)
qed

lemma state_inv_more:
  assumes "state_inv qs es ds n" and "n \<le> k"
  shows "state_inv qs es ds k"
proof -
  have "dispatch_ok es ds k arenas d" if "dispatch_ok es ds n arenas d" for arenas d
    using that assms(2) by (auto simp: dispatch_ok_def)
  moreover have "q < k" if "queue_inv es ds n q Q" for q Q using that assms(2) by (simp add: queue_inv_def)
  ultimately have "queue_inv es ds k q Q" if "queue_inv es ds n q Q" for q Q
    using that unfolding queue_inv_def by blast
  moreover have "event_inv qs k e ev" if "event_inv qs n e ev" for e ev
    using that assms(2) by (auto simp: event_inv_def)
  ultimately show ?thesis using assms(1) unfolding state_inv_def by blast
qed

text \<open>New pointers and the signals of calls do not touch queues, events and dispatches.\<close>

lemma sound_signals:
  assumes "sound s q s1" and "g_next s1 \<le> k"
  shows "sound s q (s1\<lparr>g_next := k, g_signals := x\<rparr>)"
proof -
  let ?s = "s1\<lparr>g_next := k, g_signals := x\<rparr>"
  have "kernarg_of ?s = kernarg_of s1" by (simp add: fun_eq_iff kernarg_of_def)
  moreover have "completion_of ?s = completion_of s1" by (simp add: fun_eq_iff completion_of_def)
  ultimately have "calm_queue s1 ?s Q Q" for Q by (auto simp: calm_queue_def intro: exI [of _ 0])
  then have "calm s1 ?s" by (auto simp: calm_def intro!: rel_option_reflI)
  moreover have "kfd_inv ?s" using assms state_inv_more by (auto simp: sound_def kfd_inv_def)
  ultimately show ?thesis using assms(1) calm_trans by (auto simp: sound_def rings_ok_def)
qed

lemma sound_own:
  assumes "sound s q s1"
  shows "sound s q (s1\<lparr>g_signals := x\<rparr>)"
proof -
  have "s1\<lparr>g_signals := x\<rparr> = s1\<lparr>g_next := g_next s1, g_signals := x\<rparr>" by simp
  then show ?thesis using sound_signals [OF assms order.refl, of x] by metis
qed

lemma sound_extend:
  assumes "sound s q s1" and "mild s1 s2" and "kfd_inv s2"
  shows "sound s q s2"
proof (rule sound_trans [OF assms(1)])
  have "rings_ok s1" "g_queues s1 q \<noteq> None" using assms(1) by (simp_all add: sound_def)
  then show "sound s1 q s2" by (rule sound_mild [OF assms(3,2)])
qed

lemma sound_later: "sound s q s1 \<Longrightarrow> later s1 s2 \<Longrightarrow> kfd_inv s2 \<Longrightarrow> sound s q s2"
  by (rule sound_extend [OF _ later_mild])

lemma sound_reply:
  assumes "sound s q s1" and "same_globals s1 s2 \<and> mild s1 s2"
  shows "sound s q s2"
  using sound_extend [OF assms(1)] same_globals_inv [of s1 s2] soundD(1) [OF assms(1)] assms(2) by simp

text \<open>The barrier of a synchronisation.\<close>

abbreviation sync_barrier :: "u64 \<Rightarrow> AqlBarrierAndParameters" where
  "sync_barrier handle \<equiv> \<lparr>bp_dependency_signals = replicate 5 0, bp_completion_signal = handle\<rparr>"

definition synchronizing :: "runtime \<Rightarrow> nat \<Rightarrow> nat \<Rightarrow> runtime \<Rightarrow> bool" where
  "synchronizing s q n s' \<longleftrightarrow> (\<exists>handle m. g_signals s' n =
       Some \<lparr>us_page = True, us_handle = handle, us_value = 1, us_start_ts = 0, us_end_ts = 0\<rparr> \<and>
     waiting_at s' q = drop m (waiting_at s q) @ [barrier_packet (sync_barrier handle)])"

lemma submit_synchronization_runs:
  assumes s: "sound s q s" and Q: "g_queues s q = Some Q" "kfd_queue_bool (q_queue Q)"
  shows "runs (submit_synchronization q handle s) (\<lambda>(prepared, s'). sound s q s' \<and>
    (case prepared of Inl status \<Rightarrow> status \<noteq> LR_SUCCESS | Inr n \<Rightarrow> synchronizing s q n s'))"
proof -
  let ?n = "g_next s"
  let ?s1 = "s\<lparr>g_next := ?n + 1, g_signals := (g_signals s)(?n := Some
      \<lparr>us_page = True, us_handle = handle, us_value = 1, us_start_ts = 0, us_end_ts = 0\<rparr>)\<rparr>"
  have snd1: "sound s q ?s1" by (rule sound_signals [OF s]) simp
  have ringok: "queue_ok (q_queue Q, q_ring Q)" using rings_okD [OF _ Q(1)] Q(2) s by (auto simp: sound_def ring_usable_def)
  from barrier_runs [OF ringok, of "sync_barrier handle"] obtain res aql ring where
    sub: "submitted_value (submit_aql_barrier_and (light_rocr_kfd_producer_ops (Some (q_queue Q)) None)
                 (sync_barrier handle) (q_queue Q) (q_ring Q)) = Ok (res, aql, ring)"
    and good: "as_error res = SubmitNone \<Longrightarrow> queue_ok (aql, ring) \<and> waiting (aql, ring) = waiting (q_queue Q, q_ring Q) @ [barrier_packet (sync_barrier handle)]"
    and bad: "as_error res \<noteq> SubmitNone \<Longrightarrow> aql = q_queue Q \<and> ring = q_ring Q" by auto
  show ?thesis
  proof (cases "as_error res = SubmitNone")
    case False
    have "put_queue q (Q\<lparr>q_queue := aql, q_ring := ring\<rparr>) ?s1 = ?s1" using bad [OF False] Q(1) by (simp add: put_queue_def fun_upd_idem)
    moreover have "sound s q (?s1\<lparr>g_signals := (g_signals ?s1)(?n := None)\<rparr>)"
      by (rule sound_own [OF snd1])
    ultimately show ?thesis using False Q(1) sub by (simp add: submit_synchronization_def Let_def get_queue_def)
  next
    case True
    let ?Q = "Q\<lparr>q_queue := aql, q_ring := ring, q_active_synchronizers := q_active_synchronizers Q + 1\<rparr>"
    have "sound ?s1 q (put_queue q ?Q ?s1)"
      using good [OF True] Q(1) by (intro sound_put_queue [OF sound_self [OF snd1]]) (auto simp: core_def ring_usable_def)
    then have "sound s q (put_queue q ?Q ?s1)" by (rule sound_trans [OF snd1])
    moreover have "synchronizing s q ?n (put_queue q ?Q ?s1)"
      using good [OF True] Q(1) by (auto simp: synchronizing_def waiting_at_def put_queue_def intro: exI [of _ 0])
    ultimately show ?thesis using True Q(1) sub by (simp add: submit_synchronization_def Let_def get_queue_def)
  qed
qed

lemma synchronizing_before:
  assumes "mild s s1" and "rings_ok s" and "g_queues s1 q = Some Q" and "kfd_queue_bool (q_queue Q)" and "synchronizing s1 q n s'"
  shows "synchronizing s q n s'"
proof -
  from waiting_after [OF assms(1-4)] obtain k where "waiting_at s1 q = drop k (waiting_at s q)" .
  with assms(5) show ?thesis by (auto simp: synchronizing_def)
qed

lemma prepare_runs:
  assumes s: "sound s q s"
  shows "runs (prepare_direct_kfd_queue_synchronization_locked q s) (\<lambda>(prepared, s'). sound s q s' \<and>
    (case prepared of Inl status \<Rightarrow> status \<noteq> LR_SUCCESS | Inr n \<Rightarrow> synchronizing s q n s'))" (is "runs _ ?P")
  unfolding prepare_direct_kfd_queue_synchronization_locked_def
proof (rule runs_pairI [OF capacity_runs [OF soundD [OF s]]], elim conjE)
  fix status s1 assume s1: "kfd_inv s1" "later s s1" "status = LR_SUCCESS \<longrightarrow> has_room s1 q 1 \<and> (1 :: u64) \<noteq> 0 \<and>
      (\<exists>Q. g_queues s1 q = Some Q \<and> kfd_queue_bool (q_queue Q) \<and> 1 \<le> packet_count (q_queue Q))"
  have snd1: "sound s q s1" by (rule sound_later [OF s s1(2,1)])
  obtain h s2 where h: "next_signal s1 = (h, s2)" by (cases "next_signal s1")
  obtain b s3 where b: "next_allocation s2 = (b, s3)" by (cases "next_allocation s2")
  note r2 = next_signal_reply [OF h]
  have r3: "same_globals s2 s3 \<and> mild s2 s3" using next_reply_later(1) [OF b] later_mild by blast
  have snd2: "sound s q s2" by (rule sound_reply [OF snd1 r2])
  have snd3: "sound s q s3" by (rule sound_reply [OF snd2 r3])
  have m3: "mild s s3" using mild_trans [OF later_mild [OF s1(2)] mild_trans [OF conjunct2 [OF r2] conjunct2 [OF r3]]] .
  have barrier: "runs (submit_synchronization q handle s3) ?P" if ok: "status = LR_SUCCESS" for handle
  proof -
    obtain Q where Q: "g_queues s3 q = Some Q" "kfd_queue_bool (q_queue Q)"
      using s1(3) ok same_globals_maps(1) [OF conjunct1 [OF r3]] same_globals_maps(1) [OF conjunct1 [OF r2]] by auto
    have rings: "rings_ok s" using s by (simp add: sound_def)
    show ?thesis
      using submit_synchronization_runs [OF sound_self [OF snd3] Q]
      by (rule runs_weaken) (auto intro: sound_trans [OF snd3] synchronizing_before [OF m3 rings Q] split: sum.splits)
  qed
  show "runs (if status \<noteq> LR_SUCCESS then Ok (Inl status, s1)
     else case next_signal s1 of (None, s2) \<Rightarrow> Ok (Inl LR_ERROR_RUNTIME, s2)
     | (Some handle, s2) \<Rightarrow> (case next_allocation s2 of (False, s3) \<Rightarrow> Ok (Inl LR_ERROR_RUNTIME, s3)
       | (True, s3) \<Rightarrow> submit_synchronization q handle s3)) ?P"
    using snd1 snd2 snd3 barrier h b by (cases "status = LR_SUCCESS"; cases h; cases b) simp_all
qed

section \<open>Queue synchronisation\<close>

lemma sound_reap:
  assumes "sound s q s"
  shows "runs (if w = LR_SUCCESS then reap_direct_kfd_dispatches_locked q s else Ok (w, s)) (\<lambda>(r, s'). sound s q s')"
    and "runs (if w = LR_SUCCESS then reap_completed_direct_kfd_events_locked q s else Ok (w, s)) (\<lambda>(r, s'). sound s q s')"
proof -
  from soundD [OF assms] obtain Q where Q: "kfd_inv s" "g_queues s q = Some Q" by blast
  have "runs (reap_direct_kfd_dispatches_locked q s) (\<lambda>(r, s'). sound s q s')"
    by (rule runs_weaken [OF reap_dispatches_runs [OF Q]]) (auto intro: sound_later [OF assms])
  then show "runs (if w = LR_SUCCESS then reap_direct_kfd_dispatches_locked q s else Ok (w, s)) (\<lambda>(r, s'). sound s q s')"
    using assms by simp
  have "runs (reap_completed_direct_kfd_events_locked q s) (\<lambda>(r, s'). sound s q s')"
    by (rule runs_weaken [OF reap_events_runs [OF soundD [OF assms]]]) (auto intro: sound_later [OF assms])
  then show "runs (if w = LR_SUCCESS then reap_completed_direct_kfd_events_locked q s else Ok (w, s)) (\<lambda>(r, s'). sound s q s')"
    using assms by simp
qed

lemma finish_synchronization_runs:
  assumes s: "sound s q s"
  shows "runs (finish_direct_kfd_queue_synchronization_locked q n w s) (\<lambda>(status, s'). sound s q s' \<and>
    (status = LR_SUCCESS \<longrightarrow> w = LR_SUCCESS))"
proof -
  have tail: "runs (case next_release s2 of (released, s3) \<Rightarrow>
     obind (get_queue s3 q) (\<lambda>queue.
     Ok (if \<not> released \<and> r = LR_SUCCESS then LR_ERROR_RUNTIME else r,
         (put_queue q (queue\<lparr>q_active_synchronizers := q_active_synchronizers queue - 1\<rparr>) s3)
         \<lparr>g_signals := (g_signals s3)(n := None)\<rparr>))) (\<lambda>(status, s'). sound s q s' \<and> (status = LR_SUCCESS \<longrightarrow> r = LR_SUCCESS))"
    if s2: "sound s q s2" for s2 r
  proof -
    obtain b s3 where b: "next_release s2 = (b, s3)" by (cases "next_release s2")
    have "same_globals s2 s3 \<and> mild s2 s3" using next_reply_later(3) [OF b] later_mild by blast
    then have s3: "sound s q s3" by (rule sound_reply [OF s2])
    then obtain Q where Q: "g_queues s3 q = Some Q" by (auto simp: sound_def)
    let ?s = "put_queue q (Q\<lparr>q_active_synchronizers := q_active_synchronizers Q - 1\<rparr>) s3"
    have "ring_usable (q_queue Q) (q_ring Q)" using rings_okD [OF _ Q] s3 by (simp add: sound_def)
    then have "sound s3 q ?s" by (intro sound_put_queue [OF sound_self [OF s3] Q]) (simp_all add: core_def)
    then have s4: "sound s q ?s" by (rule sound_trans [OF s3])
    show ?thesis using b Q sound_own [OF s4] by (simp add: get_queue_def)
  qed
  have events: "runs (obind (if r = LR_SUCCESS then reap_completed_direct_kfd_events_locked q s1 else Ok (r, s1)) (\<lambda>(result2, s2).
     case next_release s2 of (released, s3) \<Rightarrow>
     obind (get_queue s3 q) (\<lambda>queue.
     Ok (if \<not> released \<and> result2 = LR_SUCCESS then LR_ERROR_RUNTIME else result2,
         (put_queue q (queue\<lparr>q_active_synchronizers := q_active_synchronizers queue - 1\<rparr>) s3)
         \<lparr>g_signals := (g_signals s3)(n := None)\<rparr>))))
     (\<lambda>(status, s'). sound s q s' \<and> (status = LR_SUCCESS \<longrightarrow> r = LR_SUCCESS))" if s1: "sound s q s1" for s1 r
  proof (rule runs_obindI' [OF sound_reap(2) [OF sound_self [OF s1], of r]], clarify)
    fix r2 s2 assume r2: "(if r = LR_SUCCESS then reap_completed_direct_kfd_events_locked q s1 else Ok (r, s1)) = Ok (r2, s2)" "sound s1 q s2"
    have "r2 = LR_SUCCESS \<longrightarrow> r = LR_SUCCESS" using r2(1) by (auto split: if_splits)
    then show "runs (case next_release s2 of (released, s3) \<Rightarrow>
     obind (get_queue s3 q) (\<lambda>queue.
     Ok (if \<not> released \<and> r2 = LR_SUCCESS then LR_ERROR_RUNTIME else r2,
         (put_queue q (queue\<lparr>q_active_synchronizers := q_active_synchronizers queue - 1\<rparr>) s3)
         \<lparr>g_signals := (g_signals s3)(n := None)\<rparr>))) (\<lambda>(status, s'). sound s q s' \<and> (status = LR_SUCCESS \<longrightarrow> r = LR_SUCCESS))"
      using tail [OF sound_trans [OF s1 r2(2)], of r2] by (elim runs_weaken) auto
  qed
  show ?thesis
    unfolding finish_direct_kfd_queue_synchronization_locked_def
  proof (rule runs_obindI' [OF sound_reap(1) [OF s, of w]], clarify)
    fix r s1 assume r: "(if w = LR_SUCCESS then reap_direct_kfd_dispatches_locked q s else Ok (w, s)) = Ok (r, s1)" "sound s q s1"
    have "r = LR_SUCCESS \<longrightarrow> w = LR_SUCCESS" using r(1) by (auto split: if_splits)
    then show "runs (obind (if r = LR_SUCCESS then reap_completed_direct_kfd_events_locked q s1 else Ok (r, s1)) (\<lambda>(result2, s2).
     case next_release s2 of (released, s3) \<Rightarrow>
     obind (get_queue s3 q) (\<lambda>queue.
     Ok (if \<not> released \<and> result2 = LR_SUCCESS then LR_ERROR_RUNTIME else result2,
         (put_queue q (queue\<lparr>q_active_synchronizers := q_active_synchronizers queue - 1\<rparr>) s3)
         \<lparr>g_signals := (g_signals s3)(n := None)\<rparr>)))) (\<lambda>(status, s'). sound s q s' \<and> (status = LR_SUCCESS \<longrightarrow> w = LR_SUCCESS))"
      using events [OF r(2), of r] by (elim runs_weaken) auto
  qed
qed

text \<open>
  A synchronisation that succeeds put a barrier behind every packet that waited, and saw the signal of the barrier at
  zero before it returned.
\<close>

definition synchronized :: "runtime \<Rightarrow> nat \<Rightarrow> runtime \<Rightarrow> bool" where
  "synchronized s q s' \<longleftrightarrow> (\<exists>n s1 s2. calm s s1 \<and> synchronizing s q n s1 \<and> later s1 s2 \<and> quiet s2 (OwnSignal n) \<and> calm s2 s')"

lemma lr_queue_synchronize_runs:
  assumes inv: "kfd_inv s" and rings: "rings_ok s"
  shows "runs (lr_queue_synchronize q s) (\<lambda>(status, s'). kfd_inv s' \<and> rings_ok s' \<and> calm s s' \<and>
    (status = LR_SUCCESS \<longrightarrow> synchronized s q s'))" (is "runs _ ?P")
proof (cases "g_queues s q")
  case (Some Q)
  have self: "sound s q s" using assms Some by (simp add: sound_def)
  have "runs (obind (prepare_direct_kfd_queue_synchronization_locked q s) (\<lambda>(prepared, s1).
          case prepared of
            Inl status \<Rightarrow> Ok (status, s1)
          | Inr n \<Rightarrow>
              obind (wait_for_direct_kfd_signal_locked q (OwnSignal n) s1) (\<lambda>(wait_status, s2).
              finish_direct_kfd_queue_synchronization_locked q n wait_status s2))) ?P"
  proof (rule runs_pairI [OF prepare_runs [OF self]], elim conjE)
    fix prepared s1 assume s1: "sound s q s1"
      and prep: "case prepared of Inl status \<Rightarrow> status \<noteq> LR_SUCCESS | Inr n \<Rightarrow> synchronizing s q n s1"
    show "runs (case prepared of Inl status \<Rightarrow> Ok (status, s1)
          | Inr n \<Rightarrow> obind (wait_for_direct_kfd_signal_locked q (OwnSignal n) s1) (\<lambda>(wait_status, s2).
              finish_direct_kfd_queue_synchronization_locked q n wait_status s2)) ?P"
    proof (cases prepared)
      case (Inl status)
      then show ?thesis using s1 prep by (simp add: sound_def)
    next
      case (Inr n)
      then have sync: "synchronizing s q n s1" using prep by simp
      then have armed: "armed s1 (OwnSignal n)" by (auto simp: armed_def synchronizing_def)
      have "runs (obind (wait_for_direct_kfd_signal_locked q (OwnSignal n) s1) (\<lambda>(wait_status, s2).
              finish_direct_kfd_queue_synchronization_locked q n wait_status s2)) ?P"
      proof (rule runs_pairI [OF wait_signal_runs [OF armed soundD(2) [OF s1]]], elim conjE)
        fix w s2 assume w: "host s2 = host s1" "later s1 s2" "w = LR_SUCCESS \<longrightarrow> quiet s2 (OwnSignal n)"
        have s2: "sound s q s2" by (rule sound_later [OF s1 w(2) inv_host [OF soundD(1) [OF s1] w(1)]])
        show "runs (finish_direct_kfd_queue_synchronization_locked q n w s2) ?P"
          using finish_synchronization_runs [OF sound_self [OF s2], of n w]
          by (rule runs_weaken) (use s1 s2 w sync in \<open>auto simp: sound_def synchronized_def intro: calm_trans\<close>)
      qed
      then show ?thesis using Inr by simp
    qed
  qed
  then show ?thesis using Some assms by (simp add: lr_queue_synchronize_def del: runs_obind)
qed (use assms in \<open>simp add: lr_queue_synchronize_def\<close>)

section \<open>Waiting for an event\<close>

lemma forget_idle: "forget_pending_event e s = Ok s' \<Longrightarrow> \<exists>ev. g_events s' e = Some ev \<and> \<not> ev_pending ev"
  by (auto simp: forget_pending_event_def get_event_def get_queue_def put_event_def split: option.splits)

lemma pageable_idle:
  "finish_pageable_copy e s = Ok (r, s') \<Longrightarrow> g_events s e = Some ev \<Longrightarrow> \<not> ev_pending ev \<Longrightarrow>
   \<exists>ev'. g_events s' e = Some ev' \<and> \<not> ev_pending ev'"
  by (cases "ev_pageable_copy_staging ev") (auto simp: finish_pageable_copy_def get_event_def put_event_def split_def)

text \<open>A wait that succeeds leaves the event completed and not pending.\<close>

definition completed_event :: "runtime \<Rightarrow> nat \<Rightarrow> bool" where
  "completed_event s e \<longleftrightarrow> (\<exists>ev. g_events s e = Some ev \<and> ev_completed ev \<and> \<not> ev_pending ev)"

lemma finish_wait_completed:
  assumes "finish_direct_kfd_event_wait_locked e s = Ok (LR_SUCCESS, s')"
  shows "completed_event s' e"
proof -
  from assms obtain ev where ev: "g_events s e = Some ev"
    by (cases "g_events s e") (auto simp: finish_direct_kfd_event_wait_locked_def get_event_def)
  show ?thesis
  proof (cases "ev_pending ev")
    case False
    then show ?thesis using assms ev
      by (auto simp: finish_direct_kfd_event_wait_locked_def get_event_def completed_event_def split: if_splits)
  next
    case True
    with assms ev obtain s2 s3 s4 ev4 clock t u where "forget_pending_event e s2 = Ok s3" "finish_pageable_copy e s3 = Ok (LR_SUCCESS, s4)"
      "g_events s4 e = Some ev4" "s' = put_event e (stamp_event clock t u LR_SUCCESS ev4) s4"
      by (auto simp: finish_direct_kfd_event_wait_locked_def get_event_def simp del: signal_at.simps split: if_splits prod.splits option.splits)
    moreover from forget_idle [OF this(1)] pageable_idle [OF this(2)] this(3) have "\<not> ev_pending ev4" by auto
    ultimately show ?thesis
      by (auto simp: completed_event_def put_event_def stamp_event_def Let_def split: option.splits)
  qed
qed

lemma finish_wait_runs:
  assumes s: "sound s q s" and ev: "g_events s e \<noteq> None"
  shows "runs (finish_direct_kfd_event_wait_locked e s) (\<lambda>(status, s'). sound s q s' \<and> (status = LR_SUCCESS \<longrightarrow> completed_event s' e))"
proof -
  from ev obtain v where v: "g_events s e = Some v" by blast
  have "runs (obind (finish_direct_kfd_event_wait_locked e s) Ok) (\<lambda>(status, s'). sound s q s' \<and> (status = LR_SUCCESS \<longrightarrow> completed_event s' e))"
    by (rule runs_obindI' [OF finish_event_runs [OF soundD(1) [OF s] v]])
      (auto intro: sound_later [OF s] finish_wait_completed)
  then show ?thesis by (simp only: obind_Ok_right)
qed

lemma wait_event_tail_runs:
  assumes s: "sound s q s" and ev: "g_events s e \<noteq> None"
  shows "runs (obind (wait_for_direct_kfd_signal_locked q (EventSignal e) s) (\<lambda>(w, s1).
      obind (if w = LR_SUCCESS then reap_direct_kfd_dispatches_locked q s1 else Ok (w, s1)) (\<lambda>(r1, s2).
      if r1 = LR_SUCCESS then finish_direct_kfd_event_wait_locked e s2 else Ok (r1, s2))))
    (\<lambda>(status, s'). sound s q s' \<and> (status = LR_SUCCESS \<longrightarrow> completed_event s' e))" (is "runs _ ?P")
proof (rule runs_pairI [OF wait_signal_runs [OF armed_event [OF soundD(1) [OF s] ev] soundD(2) [OF s]]], elim conjE)
  fix w s1 assume s1: "host s1 = host s" "later s s1"
  have snd1: "sound s q s1" by (rule sound_later [OF s s1(2) inv_host [OF soundD(1) [OF s] s1(1)]])
  show "runs (obind (if w = LR_SUCCESS then reap_direct_kfd_dispatches_locked q s1 else Ok (w, s1)) (\<lambda>(r1, s2).
      if r1 = LR_SUCCESS then finish_direct_kfd_event_wait_locked e s2 else Ok (r1, s2))) ?P"
  proof (rule runs_pairI [OF sound_reap(1) [OF sound_self [OF snd1]]])
    fix r s2 assume "sound s1 q s2"
    then have snd2: "sound s q s2" by (rule sound_trans [OF snd1])
    have "g_events s2 e \<noteq> None" using snd2 ev by (auto simp: sound_def elim: calm_eventD)
    from finish_wait_runs [OF sound_self [OF snd2] this]
    have "runs (finish_direct_kfd_event_wait_locked e s2) ?P" by (rule runs_weaken) (auto intro: sound_trans [OF snd2])
    then show "runs (if r = LR_SUCCESS then finish_direct_kfd_event_wait_locked e s2 else Ok (r, s2)) ?P"
      using snd2 by simp
  qed
qed

text \<open>What every call keeps.\<close>

definition steady :: "runtime \<Rightarrow> runtime \<Rightarrow> bool" where
  "steady s s' \<longleftrightarrow> kfd_inv s' \<and> rings_ok s' \<and> calm s s'"

lemma sound_steady: "sound s q s' \<longleftrightarrow> steady s s' \<and> g_queues s' q \<noteq> None"
  by (auto simp: sound_def steady_def)

lemma steady_trans [trans]: "steady s s1 \<Longrightarrow> steady s1 s2 \<Longrightarrow> steady s s2"
  unfolding steady_def using calm_trans by blast

text \<open>Changes of an event that the invariant does not see.\<close>

definition event_core where
  "event_core ev = (us_page (ev_signal ev), ev_dependency_count ev, ev_dependency_queues ev, ev_pending ev, ev_recorded_queue ev,
     ev_pageable_copy_staging ev, ev_pageable_copy_size ev, ev_device ev, host_signal (ev_signal ev))"

lemma rings_put_event [simp]: "rings_ok (put_event e ev s) = rings_ok s"
  by (simp add: rings_ok_def put_event_def)

lemma steady_put_event:
  assumes s: "steady s s1" and ev: "g_events s1 e = Some ev" and core: "event_core ev' = event_core ev"
  shows "steady s (put_event e ev' s1)"
proof -
  have inv: "state_inv (g_queues s1) (g_events s1) (g_dispatches s1) (g_next s1)" using s by (simp add: steady_def kfd_inv_def)
  have "kfd_inv (put_event e ev' s1)"
    unfolding kfd_inv_def globals_put
    using invD(2) [OF inv ev] core ev by (intro inv_put_event [OF inv ev]) (auto simp: event_inv_def event_core_def recorded_on_def)
  moreover have "calm s1 (put_event e ev' s1)"
  proof -
    have "kernarg_of (put_event e ev' s1) = kernarg_of s1" by (simp add: fun_eq_iff kernarg_of_def)
    then have "calm_queue s1 (put_event e ev' s1) Q Q" for Q by (auto simp: calm_queue_def intro: exI [of _ 0])
    moreover have "calm_event ev ev'" using core by (auto simp: calm_event_def event_core_def)
    ultimately show ?thesis using ev by (auto simp: calm_def intro!: rel_option_reflI)
  qed
  ultimately show ?thesis using s calm_trans by (auto simp: steady_def)
qed

lemma sound_put_event:
  "sound s q s1 \<Longrightarrow> g_events s1 e = Some ev \<Longrightarrow> event_core ev' = event_core ev \<Longrightarrow> sound s q (put_event e ev' s1)"
  by (simp add: sound_steady steady_put_event)

lemma steady_event: "steady s s' \<Longrightarrow> g_events s e \<noteq> None \<Longrightarrow> g_events s' e \<noteq> None"
  by (auto simp: steady_def elim: calm_eventD)

lemma event_queue:
  assumes "kfd_inv s" and "g_events s e = Some ev" and "ev_pending ev"
  obtains q where "ev_recorded_queue ev = Some q" and "g_queues s q \<noteq> None"
  using invD(2) [OF assms(1) [unfolded kfd_inv_def] assms(2)] assms(3) by (auto simp: event_inv_def)

lemma wait_event_runs:
  assumes inv: "kfd_inv s" and rings: "rings_ok s" and ev: "g_events s e \<noteq> None"
  shows "runs (wait_for_direct_kfd_event_locked e s) (\<lambda>(status, s'). steady s s' \<and> (status = LR_SUCCESS \<longrightarrow> completed_event s' e))"
    (is "runs _ ?P")
proof -
  from ev obtain v where v: "g_events s e = Some v" by blast
  show ?thesis
  proof (cases "ev_pending v")
    case False
    then show ?thesis using assms v
      by (simp add: wait_for_direct_kfd_event_locked_def get_event_def steady_def completed_event_def)
  next
    case True
    from event_queue [OF inv v True] obtain q where q: "ev_recorded_queue v = Some q" "g_queues s q \<noteq> None" .
    have s: "sound s q s" using inv rings q(2) by (simp add: sound_def)
    have "wait_for_direct_kfd_event_locked e s = obind (wait_for_direct_kfd_signal_locked q (EventSignal e) s) (\<lambda>(w, s1).
      obind (if w = LR_SUCCESS then reap_direct_kfd_dispatches_locked q s1 else Ok (w, s1)) (\<lambda>(r1, s2).
      if r1 = LR_SUCCESS then finish_direct_kfd_event_wait_locked e s2 else Ok (r1, s2)))"
      using True v q(1) by (auto simp: wait_for_direct_kfd_event_locked_def get_event_def intro!: obind_cong)
    then show ?thesis using wait_event_tail_runs [OF s ev] by (auto simp: sound_steady elim: runs_weaken)
  qed
qed

lemma lr_event_synchronize_runs:
  assumes inv: "kfd_inv s" and rings: "rings_ok s"
  shows "runs (lr_event_synchronize e s) (\<lambda>(status, s'). steady s s' \<and>
    (status = LR_SUCCESS \<longrightarrow> (\<exists>ev. g_events s' e = Some ev \<and> \<not> ev_pending ev)))" (is "runs _ ?P")
proof (cases "g_events s e")
  case None
  then show ?thesis using assms by (simp add: lr_event_synchronize_def steady_def)
next
  case (Some ev)
  show ?thesis
  proof (cases "ev_pending ev")
    case False
    then show ?thesis using assms Some by (auto simp: lr_event_synchronize_def steady_def)
  next
    case True
    from event_queue [OF inv Some True] obtain q where q: "ev_recorded_queue ev = Some q" "g_queues s q \<noteq> None" .
    then obtain Q where Q: "g_queues s q = Some Q" by blast
    let ?s = "put_event e (ev\<lparr>ev_active_synchronizers := ev_active_synchronizers ev + 1\<rparr>)
      (put_queue q (Q\<lparr>q_active_synchronizers := q_active_synchronizers Q + 1\<rparr>) s)"
    have ring: "ring_usable (q_queue R) (q_ring R)" if "sound s q x" "g_queues x q = Some R" for x R
      using rings_okD [OF _ that(2)] that(1) by (simp add: sound_def)
    have s0: "sound s q s" using inv rings q(2) by (simp add: sound_def)
    have "sound s q (put_queue q (Q\<lparr>q_active_synchronizers := q_active_synchronizers Q + 1\<rparr>) s)"
      using ring [OF s0 Q] by (intro sound_put_queue [OF s0 Q]) (simp_all add: core_def)
    then have s1: "sound s q ?s" by (rule sound_put_event) (simp_all add: Some event_core_def)
    have tail: "runs (obind (get_queue s3 q) (\<lambda>queue3. obind (get_event s3 e) (\<lambda>event3. Ok (r,
        put_event e (event3\<lparr>ev_active_synchronizers := ev_active_synchronizers event3 - 1\<rparr>)
        (put_queue q (queue3\<lparr>q_active_synchronizers := q_active_synchronizers queue3 - 1\<rparr>) s3))))) ?P"
      if s3: "sound s q s3" and r: "r = LR_SUCCESS \<longrightarrow> completed_event s3 e" for s3 r
    proof -
      obtain R where R: "g_queues s3 q = Some R" using s3 by (auto simp: sound_def)
      obtain v where v: "g_events s3 e = Some v" using s3 Some by (auto simp: sound_def elim: calm_eventD)
      let ?t = "put_queue q (R\<lparr>q_active_synchronizers := q_active_synchronizers R - 1\<rparr>) s3"
      have "sound s3 q ?t"
        using ring [OF s3 R] by (intro sound_put_queue [OF sound_self [OF s3] R]) (simp_all add: core_def)
      then have "sound s q ?t" by (rule sound_trans [OF s3])
      then have "sound s q (put_event e (v\<lparr>ev_active_synchronizers := ev_active_synchronizers v - 1\<rparr>) ?t)"
        by (rule sound_put_event) (simp_all add: v event_core_def)
      then show ?thesis using R v r by (auto simp: get_queue_def get_event_def sound_steady completed_event_def)
    qed
    have "g_events ?s e \<noteq> None" by simp
    note wait = wait_event_tail_runs [OF sound_self [OF s1] this]
    have "runs (obind (obind (wait_for_direct_kfd_signal_locked q (EventSignal e) ?s) (\<lambda>(w, s1).
        obind (if w = LR_SUCCESS then reap_direct_kfd_dispatches_locked q s1 else Ok (w, s1)) (\<lambda>(r1, s2).
        if r1 = LR_SUCCESS then finish_direct_kfd_event_wait_locked e s2 else Ok (r1, s2)))) (\<lambda>(r, s3).
      obind (get_queue s3 q) (\<lambda>queue3. obind (get_event s3 e) (\<lambda>event3. Ok (r,
        put_event e (event3\<lparr>ev_active_synchronizers := ev_active_synchronizers event3 - 1\<rparr>)
        (put_queue q (queue3\<lparr>q_active_synchronizers := q_active_synchronizers queue3 - 1\<rparr>) s3)))))) ?P"
      by (rule runs_pairI [OF wait]) (elim conjE, rule tail, rule sound_trans [OF s1])
    then show ?thesis
      using True Some q(1) Q inv rings
      by (simp add: lr_event_synchronize_def get_queue_def [of s] obind_assoc split_def steady_def del: runs_obind)
  qed
qed

section \<open>Waiting for the consumers of an event\<close>

lemma later_signals: "later s s' \<Longrightarrow> w_signals s' = w_signals s"
  by (rule static_at(10) [OF laterD(1)])

lemma reply_signals [simp]:
  "next_release s = (b, s') \<Longrightarrow> w_signals s' = w_signals s" "next_allocation s = (b, s') \<Longrightarrow> w_signals s' = w_signals s"
  "w_signals (snd (next_release s)) = w_signals s"
  by (auto simp: next_release_def next_allocation_def split: list.splits)

lemma submit_synchronization_signals:
  "submit_synchronization q handle s = Ok (r, s') \<Longrightarrow> w_signals s' = w_signals s"
  by (auto simp: submit_synchronization_def Let_def put_queue_def split: if_splits)

lemma runs_OkD: "runs m P \<Longrightarrow> m = Ok x \<Longrightarrow> P x"
  by (simp add: runs_def)

lemma prepare_signals:
  assumes "kfd_inv s" and "g_queues s q \<noteq> None" and "prepare_direct_kfd_queue_synchronization_locked q s = Ok (Inr n, s')"
  shows "length (w_signals s') < length (w_signals s)"
proof -
  from assms(3) obtain status s1 where s1: "ensure_direct_kfd_queue_capacity_locked q 1 True s = Ok (status, s1)"
    and rest: "(if status \<noteq> LR_SUCCESS then Ok (Inl status, s1)
     else case next_signal s1 of (None, s2) \<Rightarrow> Ok (Inl LR_ERROR_RUNTIME, s2)
     | (Some handle, s2) \<Rightarrow> (case next_allocation s2 of (False, s3) \<Rightarrow> Ok (Inl LR_ERROR_RUNTIME, s3)
       | (True, s3) \<Rightarrow> submit_synchronization q handle s3)) = Ok (Inr n, s')"
    by (auto simp: prepare_direct_kfd_queue_synchronization_locked_def)
  have "later s s1" using runs_OkD [OF capacity_runs [OF assms(1,2)] s1] by simp
  then have w1: "w_signals s1 = w_signals s" by (rule later_signals)
  from rest obtain h s2 s3 where h: "next_signal s1 = (Some h, s2)" "next_allocation s2 = (True, s3)" "submit_synchronization q h s3 = Ok (Inr n, s')"
    by (auto split: if_splits prod.splits option.splits bool.splits)
  then have "w_signals s' = w_signals s2" using submit_synchronization_signals by simp
  moreover have "length (w_signals s2) < length (w_signals s1)" using h(1) by (auto simp: next_signal_def split: list.splits)
  ultimately show ?thesis by (simp add: w1)
qed

lemma finish_synchronization_signals:
  assumes s: "sound s q s" and run: "finish_direct_kfd_queue_synchronization_locked q n w s = Ok (status, s')"
  shows "w_signals s' = w_signals s"
proof -
  note run = run [unfolded finish_direct_kfd_queue_synchronization_locked_def]
  from run obtain r1 s1 where r1: "(if w = LR_SUCCESS then reap_direct_kfd_dispatches_locked q s else Ok (w, s)) = Ok (r1, s1)"
    unfolding obind_eq_Ok by auto
  note run = run [unfolded r1 obind.simps prod.case]
  from run obtain r2 s2 where r2: "(if r1 = LR_SUCCESS then reap_completed_direct_kfd_events_locked q s1 else Ok (r1, s1)) = Ok (r2, s2)"
    unfolding obind_eq_Ok by auto
  have r3: "w_signals s' = w_signals s2"
    using run [unfolded r2 obind.simps prod.case] by (auto simp: put_queue_def split_def)
  from soundD [OF s] obtain Q where Q: "kfd_inv s" "g_queues s q = Some Q" by blast
  have s1: "kfd_inv s1 \<and> later s s1"
    using runs_OkD [OF reap_dispatches_runs [OF Q]] r1 Q(1) by (cases "w = LR_SUCCESS") auto
  then have "g_queues s1 q \<noteq> None" using queue_later Q(2) by blast
  then have "later s1 s2"
    using runs_OkD [OF reap_events_runs [of s1 q]] r2 s1 by (cases "r1 = LR_SUCCESS") auto
  then show ?thesis using r3 s1 later_signals by simp
qed

lemma synchronize_signals:
  assumes inv: "kfd_inv s" and rings: "rings_ok s" and run: "lr_queue_synchronize q s = Ok (LR_SUCCESS, s')"
  shows "length (w_signals s') < length (w_signals s)"
proof -
  from run obtain Q prepared s1 where Q: "g_queues s q = Some Q"
    and p: "prepare_direct_kfd_queue_synchronization_locked q s = Ok (prepared, s1)"
    and rest: "(case prepared of Inl status \<Rightarrow> Ok (status, s1) | Inr n \<Rightarrow>
              obind (wait_for_direct_kfd_signal_locked q (OwnSignal n) s1) (\<lambda>(wait_status, s2).
              finish_direct_kfd_queue_synchronization_locked q n wait_status s2)) = Ok (LR_SUCCESS, s')"
    by (auto simp: lr_queue_synchronize_def split: if_splits option.splits)
  have self: "sound s q s" using inv rings Q by (simp add: sound_def)
  note prep = runs_OkD [OF prepare_runs [OF self] p, unfolded prod.case]
  from prep rest obtain n w s2 where n: "prepared = Inr n" "synchronizing s q n s1" "sound s q s1"
    and w: "wait_for_direct_kfd_signal_locked q (OwnSignal n) s1 = Ok (w, s2)"
      "finish_direct_kfd_queue_synchronization_locked q n w s2 = Ok (LR_SUCCESS, s')"
    by (cases prepared) auto
  have "armed s1 (OwnSignal n)" using n(2) by (auto simp: armed_def synchronizing_def)
  from runs_OkD [OF wait_signal_runs [OF this soundD(2) [OF n(3)]] w(1)]
  have s2: "host s2 = host s1" "later s1 s2" by auto
  have "sound s q s2" by (rule sound_later [OF n(3) s2(2) inv_host [OF soundD(1) [OF n(3)] s2(1)]])
  from finish_synchronization_signals [OF sound_self [OF this] w(2)] later_signals [OF s2(2)]
    prepare_signals [OF inv soundD(2) [OF self] p [unfolded n(1)]]
  show ?thesis by simp
qed

lemma consumers_loop_runs:
  assumes "kfd_inv s" and "rings_ok s" and "g_events s e \<noteq> None" and "length (w_signals s) < fuel"
  shows "runs (consumers_loop fuel e s) (\<lambda>(status, s'). steady s s' \<and>
    (status = LR_SUCCESS \<longrightarrow> (\<exists>ev. g_events s' e = Some ev \<and> ev_dependency_count ev = 0)))"
  using assms
proof (induction fuel arbitrary: s)
  case (Suc fuel)
  let ?P = "\<lambda>s (status, s'). steady s s' \<and> (status = LR_SUCCESS \<longrightarrow> (\<exists>ev. g_events s' e = Some ev \<and> ev_dependency_count ev = 0))"
  from Suc.prems(3) obtain ev where ev: "g_events s e = Some ev" by blast
  have self: "steady s s" using Suc.prems by (simp add: steady_def)
  have more: "runs (obind (lr_queue_synchronize q s1) (\<lambda>(status, s2).
         obind (get_event s2 e) (\<lambda>event1.
         let s3 = put_event e (event1\<lparr>ev_active_synchronizers := ev_active_synchronizers event1 - 1\<rparr>) s2 in
         if status \<noteq> LR_SUCCESS then Ok (status, s3) else consumers_loop fuel e s3))) (?P s)"
    if s1: "steady s s1" "g_events s1 e \<noteq> None" "w_signals s1 = w_signals s" for q s1
  proof -
    have inv1: "kfd_inv s1" "rings_ok s1" using s1(1) by (simp_all add: steady_def)
    show ?thesis
    proof (rule runs_obindI' [OF lr_queue_synchronize_runs [OF inv1]], clarify)
      fix status s2 assume run: "lr_queue_synchronize q s1 = Ok (status, s2)" and s2: "kfd_inv s2" "rings_ok s2" "calm s1 s2"
      have st2: "steady s s2" using steady_trans [OF s1(1)] s2 by (simp add: steady_def)
      obtain v where v: "g_events s2 e = Some v" using steady_event [OF _ s1(2), of s2] s2 by (auto simp: steady_def)
      let ?s3 = "put_event e (v\<lparr>ev_active_synchronizers := ev_active_synchronizers v - 1\<rparr>) s2"
      have s3: "steady s ?s3" by (rule steady_put_event [OF st2 v]) (simp add: event_core_def)
      have "runs (consumers_loop fuel e ?s3) (?P s)" if "status = LR_SUCCESS"
      proof -
        have "length (w_signals ?s3) < length (w_signals s1)" using synchronize_signals [OF inv1] run that by (simp add: put_event_def)
        then have "length (w_signals ?s3) < fuel" using s1(3) Suc.prems(4) by simp
        then have "runs (consumers_loop fuel e ?s3) (?P ?s3)" using s3 by (intro Suc.IH) (simp_all add: steady_def)
        then show ?thesis by (rule runs_weaken) (auto intro: steady_trans [OF s3])
      qed
      then show "runs (obind (get_event s2 e) (\<lambda>event1.
         let s3 = put_event e (event1\<lparr>ev_active_synchronizers := ev_active_synchronizers event1 - 1\<rparr>) s2 in
         if status \<noteq> LR_SUCCESS then Ok (status, s3) else consumers_loop fuel e s3)) (?P s)"
        using v s3 by (simp add: get_event_def Let_def)
    qed
  qed
  let ?s1 = "put_event e (ev\<lparr>ev_active_synchronizers := ev_active_synchronizers ev + 1\<rparr>) s"
  have "steady s ?s1" by (rule steady_put_event [OF self ev]) (simp add: event_core_def)
  note more = more [OF this]
  show ?case
    using ev self more by (cases "ev_dependency_queues ev") (auto simp: get_event_def [of s] put_event_def simp del: runs_obind)
qed simp

lemma consumers_runs:
  assumes "kfd_inv s" and "rings_ok s" and "g_events s e \<noteq> None"
  shows "runs (wait_for_direct_kfd_event_consumers e s) (\<lambda>(status, s'). steady s s' \<and>
    (status = LR_SUCCESS \<longrightarrow> (\<exists>ev. g_events s' e = Some ev \<and> ev_dependency_count ev = 0)))"
  unfolding wait_for_direct_kfd_event_consumers_def by (rule consumers_loop_runs [OF assms]) simp

section \<open>Recording an event\<close>

text \<open>The event is pending on the queue, and its barrier stands at the end of the ring.\<close>

definition recorded_at :: "runtime \<Rightarrow> nat \<Rightarrow> nat \<Rightarrow> bool" where
  "recorded_at s e q \<longleftrightarrow> (\<exists>ev before. g_events s e = Some ev \<and> ev_pending ev \<and> ev_recorded_queue ev = Some q \<and>
     waiting_at s q = before @ [barrier_packet (sync_barrier (us_handle (ev_signal ev)))])"

definition record_outcome :: "runtime \<Rightarrow> nat \<Rightarrow> lr_status \<Rightarrow> runtime \<Rightarrow> bool" where
  "record_outcome s e status s' \<longleftrightarrow> kfd_inv s' \<and> rings_ok s' \<and> (\<forall>q. kept s q [] s') \<and> (\<forall>x. g_events s x \<noteq> None \<longrightarrow> g_events s' x \<noteq> None) \<and>
     (status = LR_SUCCESS \<longrightarrow> (\<exists>q. recorded_at s' e q))"

lemma record_trans: "steady s s1 \<Longrightarrow> record_outcome s1 e status s' \<Longrightarrow> record_outcome s e status s'"
  unfolding record_outcome_def using kept_trans [OF calm_kept] steady_event by (auto simp: steady_def)

lemma record_failed: "steady s s' \<Longrightarrow> status \<noteq> LR_SUCCESS \<Longrightarrow> record_outcome s e status s'"
  unfolding record_outcome_def using calm_kept steady_event by (auto simp: steady_def)

lemma submit_record_runs:
  assumes inv: "kfd_inv s" and rings: "rings_ok s" and Q: "g_queues s q = Some Q" "kfd_queue_bool (q_queue Q)"
    and ev: "g_events s e = Some ev" "\<not> ev_pending ev"
  shows "runs (submit_record e q clock s) (\<lambda>(status, s'). record_outcome s e status s')"
proof -
  have page: "us_page (ev_signal ev)" by (rule event_page [OF inv ev(1)])
  let ?ev = "armed_record q clock ev" and ?E = "with_event Q e"
  let ?s1 = "(put_queue q ?E (put_event e ?ev s))\<lparr>g_device_events := (g_device_events s)(ev_device ev := g_device_events s (ev_device ev) @ [e])\<rparr>"
  have si: "state_inv (g_queues s) (g_events s) (g_dispatches s) (g_next s)" using inv by (simp add: kfd_inv_def)
  have inv1: "kfd_inv ?s1" using inv_armed_queue [OF si Q(1) ev, of clock] by (simp add: kfd_inv_def put_queue_def put_event_def)
  have ok: "queue_ok (q_queue ?E, q_ring ?E)"
    using rings_okD [OF rings Q(1)] Q(2) by (simp add: ring_usable_def queue_ok_profiling)
  let ?p = "sync_barrier (us_handle (ev_signal ?ev))"
  from barrier_runs [OF ok, of ?p] obtain res aql ring where
    sub: "submitted_value (submit_aql_barrier_and (light_rocr_kfd_producer_ops (Some (q_queue ?E)) None) ?p (q_queue ?E) (q_ring ?E)) = Ok (res, aql, ring)"
    and good: "as_error res = SubmitNone \<Longrightarrow> queue_ok (aql, ring) \<and> waiting (aql, ring) = waiting (q_queue ?E, q_ring ?E) @ [barrier_packet ?p]"
    and bad: "as_error res \<noteq> SubmitNone \<Longrightarrow> aql = q_queue ?E \<and> ring = q_ring ?E" by auto
  have arm: "arm_event q clock ev = Ok ?ev" using page by (simp add: arm_event_def reset_signal_def armed_record_def)
  have push: "push_pending_event q e (put_event e ?ev s) = Ok ?s1"
    using Q(1) by (simp add: push_pending_event_def get_queue_def get_event_def armed_record_def put_event_def put_queue_def)
  have start: "submit_record e q clock s = (let s2 = put_queue q (?E\<lparr>q_queue := aql, q_ring := ring\<rparr>) ?s1 in
     if as_error res \<noteq> SubmitNone
     then obind (pop_pending_event q e s2) (\<lambda>s3. obind (get_event s3 e) (\<lambda>event3. obind (disarm_event ev event3) (\<lambda>event'.
       Ok (direct_kfd_event_submit_status (as_error res), put_event e event' s3))))
     else Ok (LR_SUCCESS, s2))"
    using ev(1) arm push sub by (simp add: submit_record_def get_event_def get_queue_def put_queue_def)
  show ?thesis
  proof (cases "as_error res = SubmitNone")
    case True
    let ?s2 = "put_queue q (?E\<lparr>q_queue := aql, q_ring := ring\<rparr>) ?s1"
    have "kfd_inv ?s2" by (rule inv_core [OF inv1, of q ?E]) (simp_all add: core_def)
    moreover have "rings_ok ?s2"
      using rings good [OF True] by (auto simp: rings_ok_def ring_usable_def put_queue_def put_event_def)
    moreover have "kept s x [] ?s2" for x
      using kept_put [OF Q(1), of "?E\<lparr>q_queue := aql, q_ring := ring\<rparr>" "[]" ?s2] by (simp add: live_dispatches_def kept_def put_queue_def put_event_def)
    moreover have "recorded_at ?s2 e q"
      using good [OF True] by (auto simp: recorded_at_def waiting_at_def put_queue_def put_event_def armed_record_def)
    ultimately show ?thesis
      using start True by (auto simp: record_outcome_def put_queue_def put_event_def)
  next
    case False
    let ?u = "undone_state q e Q ev s"
    have status: "direct_kfd_event_submit_status (as_error res) \<noteq> LR_SUCCESS" by (simp add: direct_kfd_event_submit_status_def)
    have run: "submit_record e q clock s = Ok (direct_kfd_event_submit_status (as_error res), ?u)"
      using start False bad [OF False] disarm_armed [OF page, of q clock]
      by (simp add: pop_pending_event_def get_queue_def get_event_def put_queue_def put_event_def undone_state_def armed_record_def)
    have "kfd_inv (put_queue q (with_profiling Q) s)" by (rule inv_core [OF inv Q(1)]) (simp add: core_def)
    then have "kfd_inv (put_event e (disarmed ev) (put_queue q (with_profiling Q) s))"
      using ev invD(2) [OF si ev(1)] by (intro inv_put_idle_event) (auto simp: disarmed_def static_event_def host_signal_def event_inv_def)
    then have "kfd_inv ?u" by (simp add: undone_state_def put_queue_def put_event_def kfd_inv_def)
    moreover have "rings_ok ?u"
      using rings Q by (auto simp: rings_ok_def undone_state_def ring_usable_def queue_ok_profiling put_queue_def put_event_def)
    moreover have "kept s x [] ?u" for x
      using kept_put [OF Q(1), of "with_profiling Q" "[]" ?u] by (simp add: live_dispatches_def kept_def undone_state_def put_queue_def put_event_def)
    ultimately show ?thesis using run status by (auto simp: record_outcome_def undone_state_def)
  qed
qed

lemma record_on_queue_runs:
  assumes inv: "kfd_inv s" and rings: "rings_ok s" and q: "g_queues s q \<noteq> None" and ev: "g_events s e = Some ev" "\<not> ev_pending ev"
  shows "runs (record_on_queue e q s) (\<lambda>(status, s'). record_outcome s e status s')" (is "runs _ ?P")
  unfolding record_on_queue_def
proof (rule runs_pairI [OF capacity_runs [OF inv q]], elim conjE)
  fix status s1 assume s1: "kfd_inv s1" "later s s1" "status = LR_SUCCESS \<longrightarrow> has_room s1 q 1 \<and> (1 :: u64) \<noteq> 0 \<and>
      (\<exists>Q. g_queues s1 q = Some Q \<and> kfd_queue_bool (q_queue Q) \<and> 1 \<le> packet_count (q_queue Q))"
  obtain c s2 where c: "next_clock s1 = (c, s2)" by (cases "next_clock s1")
  obtain b s3 where b: "next_allocation s2 = (b, s3)" by (cases "next_allocation s2")
  note r2 = next_reply_later(4) [OF c] and r3 = next_reply_later(1) [OF b]
  have l2: "later s s2" by (rule later_trans [OF s1(2) conjunct2 [OF r2]])
  have l3: "later s s3" by (rule later_trans [OF l2 conjunct2 [OF r3]])
  have inv2: "kfd_inv s2" "kfd_inv s3" using s1(1) same_globals_inv [OF conjunct1 [OF r2]] same_globals_inv [OF conjunct1 [OF r3]] by simp_all
  have steady: "steady s x" if "kfd_inv x" "later s x" for x
    using that rings_mild [OF later_mild [OF that(2)] rings] mild_calm [OF later_mild [OF that(2)]] by (simp add: steady_def)
  have failed: "record_outcome s e st x" if "st \<noteq> LR_SUCCESS" "kfd_inv x" "later s x" for st x
    by (rule record_failed [OF steady [OF that(2,3)] that(1)])
  have sub: "runs (submit_record e q clock s3) ?P" if ok: "status = LR_SUCCESS" for clock
  proof -
    obtain Q where Q: "g_queues s3 q = Some Q" "kfd_queue_bool (q_queue Q)"
      using s1(3) ok same_globals_maps(1) [OF conjunct1 [OF r2]] same_globals_maps(1) [OF conjunct1 [OF r3]] by auto
    note st = steady [OF inv2(2) l3]
    obtain ev3 where ev3: "g_events s3 e = Some ev3" "\<not> ev_pending ev3"
      using calm_eventD [OF _ ev(1), of s3] st ev(2) by (metis calm_event_def steady_def)
    have "rings_ok s3" using st by (simp add: steady_def)
    from submit_record_runs [OF inv2(2) this Q ev3]
    show ?thesis by (rule runs_weaken) (auto intro: record_trans [OF st])
  qed
  show "runs (if status \<noteq> LR_SUCCESS then Ok (status, s1)
     else case next_clock s1 of (None, s2) \<Rightarrow> Ok (LR_ERROR_RUNTIME, s2)
     | (Some clock, s2) \<Rightarrow> (case next_allocation s2 of (False, s3) \<Rightarrow> Ok (LR_ERROR_RUNTIME, s3)
       | (True, s3) \<Rightarrow> submit_record e q clock s3)) ?P"
    using s1(1,2) failed l2 l3 inv2 sub c b by (cases "status = LR_SUCCESS"; cases c; cases b) simp_all
qed

lemma wait_idle_runs:
  assumes inv: "kfd_inv s" and rings: "rings_ok s" and ev: "g_events s e = Some ev"
  shows "runs (if ev_pending ev then wait_for_direct_kfd_event_locked e s else Ok (LR_SUCCESS, s)) (\<lambda>(status, s'). steady s s' \<and>
    (status = LR_SUCCESS \<longrightarrow> (\<exists>ev'. g_events s' e = Some ev' \<and> \<not> ev_pending ev')))"
proof (cases "ev_pending ev")
  case True
  then show ?thesis using wait_event_runs [OF inv rings, of e] ev by (auto simp: completed_event_def elim!: runs_weaken)
qed (use assms in \<open>auto simp: steady_def\<close>)

lemma consumers_idle_runs:
  assumes st: "steady s s1" and ev: "g_events s1 e = Some ev" "\<not> ev_pending ev"
  shows "runs (wait_for_direct_kfd_event_consumers e s1) (\<lambda>(status, s'). steady s s' \<and> (\<exists>ev'. g_events s' e = Some ev' \<and> \<not> ev_pending ev' \<and>
    (status = LR_SUCCESS \<longrightarrow> ev_dependency_count ev' = 0)))"
proof -
  have "kfd_inv s1" "rings_ok s1" "g_events s1 e \<noteq> None" using st ev by (simp_all add: steady_def)
  note run = consumers_runs [OF this]
  have "\<exists>ev'. g_events s' e = Some ev' \<and> \<not> ev_pending ev'" if "steady s1 s'" for s'
    using that ev calm_eventD [OF _ ev(1), of s'] by (metis calm_event_def steady_def)
  then show ?thesis using run by (elim runs_weaken) (use steady_trans [OF st] in fastforce)
qed

lemma event_record_runs:
  assumes inv: "kfd_inv s" and rings: "rings_ok s"
  shows "runs (event_record_impl e queue use_default s) (\<lambda>(status, s'). record_outcome s e status s')" (is "runs _ ?P")
proof (cases "g_events s e")
  case None
  then show ?thesis using record_failed [of s s] assms by (simp add: event_record_impl_def steady_def)
next
  case (Some ev)
  have failed: "record_outcome s e st x" if "steady s x" "st \<noteq> LR_SUCCESS" for st x by (rule record_failed [OF that])
  have self: "steady s s" using assms by (simp add: steady_def)
  have target: "runs (case (if use_default then g_default_queue s2 (ev_device ev) else queue) of
             None \<Rightarrow> Ok (LR_ERROR_INVALID_ARGUMENT, s2)
           | Some q \<Rightarrow>
               (case g_queues s2 q of None \<Rightarrow> Ok (LR_ERROR_INVALID_ARGUMENT, s2)
                | Some found \<Rightarrow>
                    if \<not> valid_direct_kfd_queue_locked s2 q \<or> q_device found \<noteq> ev_device ev
                    then Ok (LR_ERROR_INVALID_ARGUMENT, s2)
                    else record_on_queue e q s2)) ?P"
    if s2: "steady s s2" and v: "g_events s2 e = Some v" "\<not> ev_pending v" for s2 v
  proof -
    have "runs (record_on_queue e q s2) ?P" if q: "g_queues s2 q = Some Q" for q Q
    proof -
      have "kfd_inv s2" "rings_ok s2" "g_queues s2 q \<noteq> None" using s2 q by (simp_all add: steady_def)
      from record_on_queue_runs [OF this v] show ?thesis by (rule runs_weaken) (auto intro: record_trans [OF s2])
    qed
    then show ?thesis using failed [OF s2] by (simp split: option.splits)
  qed
  have consumers: "runs (obind (wait_for_direct_kfd_event_consumers e s1) (\<lambda>(consumer_status, s2).
          if consumer_status \<noteq> LR_SUCCESS then Ok (consumer_status, s2)
          else (case (if use_default then g_default_queue s2 (ev_device ev) else queue) of
             None \<Rightarrow> Ok (LR_ERROR_INVALID_ARGUMENT, s2)
           | Some q \<Rightarrow>
               (case g_queues s2 q of None \<Rightarrow> Ok (LR_ERROR_INVALID_ARGUMENT, s2)
                | Some found \<Rightarrow>
                    if \<not> valid_direct_kfd_queue_locked s2 q \<or> q_device found \<noteq> ev_device ev
                    then Ok (LR_ERROR_INVALID_ARGUMENT, s2)
                    else record_on_queue e q s2)))) ?P"
    if s1: "steady s s1" and v: "g_events s1 e = Some v" "\<not> ev_pending v" for s1 v
    by (rule runs_pairI [OF consumers_idle_runs [OF s1 v]]) (use failed target in \<open>auto simp del: runs_obind\<close>)
  have "runs (obind (if ev_pending ev then wait_for_direct_kfd_event_locked e s else Ok (LR_SUCCESS, s)) (\<lambda>(wait_status, s1).
          if wait_status \<noteq> LR_SUCCESS then Ok (wait_status, s1)
          else
          obind (wait_for_direct_kfd_event_consumers e s1) (\<lambda>(consumer_status, s2).
          if consumer_status \<noteq> LR_SUCCESS then Ok (consumer_status, s2)
          else (case (if use_default then g_default_queue s2 (ev_device ev) else queue) of
             None \<Rightarrow> Ok (LR_ERROR_INVALID_ARGUMENT, s2)
           | Some q \<Rightarrow>
               (case g_queues s2 q of None \<Rightarrow> Ok (LR_ERROR_INVALID_ARGUMENT, s2)
                | Some found \<Rightarrow>
                    if \<not> valid_direct_kfd_queue_locked s2 q \<or> q_device found \<noteq> ev_device ev
                    then Ok (LR_ERROR_INVALID_ARGUMENT, s2)
                    else record_on_queue e q s2))))) ?P"
    by (rule runs_pairI [OF wait_idle_runs [OF inv rings Some]]) (use failed consumers in \<open>auto simp del: runs_obind\<close>)
  then show ?thesis using Some failed [OF self] by (simp add: event_record_impl_def del: runs_obind)
qed

end
