(* ===== verification/DirectKfdQueues.thy ===== *)
theory DirectKfdQueues
  imports DirectKfdEvents
begin

text \<open>
  The life of a direct-KFD queue (\<open>src/queue.cpp\<close>): creation, destruction, the release of its pool and
  arenas, the replacement of a default queue whose transport queue is gone, and the synchronisation of all queues
  of a device.
\<close>

section \<open>Creation\<close>

definition new_queue :: "nat \<Rightarrow> bool \<Rightarrow> AqlQueue \<Rightarrow> bytes \<Rightarrow> lr_queue" where
  "new_queue device is_default aql ring =
     \<lparr>q_device = device, q_is_default = is_default, q_queue = aql, q_ring = ring, q_error = 0,
      q_pending_dispatches = [], q_pending_dispatch_head = 0, q_pending_barriers = [],
      q_available_dispatches = [], q_kernarg_arenas = [], q_pending_events = [],
      q_active_synchronizers = 0, q_capacity_waiting = False, q_destroying = False, q_registered = False\<rparr>"

definition delete_queue :: "nat \<Rightarrow> runtime \<Rightarrow> runtime" where
  "delete_queue q s = s\<lparr>g_queues := (g_queues s)(q := None)\<rparr>"

definition push_device_queue :: "nat \<Rightarrow> nat \<Rightarrow> runtime \<Rightarrow> runtime" where
  "push_device_queue device q s =
     s\<lparr>g_device_queues := (g_device_queues s)(device := g_device_queues s device @ [q])\<rparr>"

text \<open>
  A queue that could not be registered is released and deleted; when the release fails, the
  device keeps the object.
\<close>

definition create_direct_kfd_queue :: "nat \<Rightarrow> bool \<Rightarrow> runtime \<Rightarrow> (lr_status + nat) run" where
  "create_direct_kfd_queue device is_default s =
     (if \<not> g_kfd_session s then Ok (Inl LR_ERROR_RUNTIME, s)
      else
      case next_allocation s of
        (False, s1) \<Rightarrow> Ok (Inl LR_ERROR_RUNTIME, s1)
      | (True, s1) \<Rightarrow>
      case next_queue s1 of ((created, _, aql, ring), s2) \<Rightarrow>
      let q = g_next s2;
          s3 = put_queue q (new_queue device is_default aql ring) (s2\<lparr>g_next := q + 1\<rparr>)
      in
      case (if created then next_allocation s3 else (False, s3)) of
        (False, s4) \<Rightarrow>
          obind (release_aql_queue q s4) (\<lambda>(released, s5).
          Ok (Inl LR_ERROR_RUNTIME, if released then delete_queue q s5 else push_device_queue device q s5))
      | (True, s4) \<Rightarrow>
          obind (get_queue s4 q) (\<lambda>queue.
          Ok (Inr q, push_device_queue device q (put_queue q (queue\<lparr>q_registered := True\<rparr>) s4))))"

definition lr_queue_create :: "nat \<Rightarrow> runtime \<Rightarrow> (lr_status + nat) run" where
  "lr_queue_create device s =
     (if \<not> g_initialized s then Ok (Inl LR_ERROR_NOT_INITIALIZED, s)
      else if g_device_count s \<le> device \<or> \<not> g_opened s device \<or> g_default_queue s device = None
      then Ok (Inl LR_ERROR_INVALID_ARGUMENT, s)
      else create_direct_kfd_queue device False s)"

section \<open>Release of the pool and the arenas\<close>

text \<open>The loops keep what the transport does not release.\<close>

primrec release_dispatches :: "nat list \<Rightarrow> runtime \<Rightarrow> (lr_status \<times> nat list) run" where
  "release_dispatches [] s = Ok ((LR_SUCCESS, []), s)"
| "release_dispatches (d # ds) s =
     obind (get_dispatch s d) (\<lambda>_.
     case next_release s of (released, s1) \<Rightarrow>
     obind (release_dispatches ds (if released then s1\<lparr>g_dispatches := (g_dispatches s1)(d := None)\<rparr> else s1))
       (\<lambda>((result, left), s2).
     Ok (if released then (result, left) else (LR_ERROR_RUNTIME, d # left), s2)))"

definition release_direct_kfd_dispatch_pool_locked :: "nat \<Rightarrow> runtime \<Rightarrow> lr_status run" where
  "release_direct_kfd_dispatch_pool_locked q s =
     obind (get_queue s q) (\<lambda>queue.
     obind (release_dispatches (q_available_dispatches queue) s) (\<lambda>((result, left), s1).
     Ok (result, put_queue q (queue\<lparr>q_available_dispatches := left\<rparr>) s1)))"

primrec release_arenas :: "KernargArena list \<Rightarrow> runtime \<Rightarrow> (lr_status \<times> KernargArena list) \<times> runtime" where
  "release_arenas [] s = ((LR_SUCCESS, []), s)"
| "release_arenas (arena # arenas) s =
     (case next_release s of (released, s1) \<Rightarrow>
      case release_arenas arenas s1 of ((result, left), s2) \<Rightarrow>
      (if released then (result, left) else (LR_ERROR_RUNTIME, arena # left), s2))"

definition release_direct_kfd_kernarg_arenas_locked :: "nat \<Rightarrow> runtime \<Rightarrow> lr_status run" where
  "release_direct_kfd_kernarg_arenas_locked q s =
     obind (get_queue s q) (\<lambda>queue.
     case release_arenas (q_kernarg_arenas queue) s of ((result, left), s1) \<Rightarrow>
     Ok (result, put_queue q (queue\<lparr>q_kernarg_arenas := left\<rparr>) s1))"

section \<open>Destruction\<close>

text \<open>The steps of \<open>lr_queue_destroy\<close> after the queue is marked; a status other than success unmarks it.\<close>

definition release_queue_contents :: "nat \<Rightarrow> runtime \<Rightarrow> lr_status run" where
  "release_queue_contents q s =
     obind (release_direct_kfd_dispatch_pool_locked q s) (\<lambda>(pool_status, s1).
     if pool_status \<noteq> LR_SUCCESS then Ok (pool_status, s1)
     else
     obind (release_direct_kfd_kernarg_arenas_locked q s1) (\<lambda>(arena_status, s2).
     if arena_status \<noteq> LR_SUCCESS then Ok (arena_status, s2)
     else
     obind (release_aql_queue q s2) (\<lambda>(released, s3).
     Ok (if released then LR_SUCCESS else LR_ERROR_RUNTIME, s3))))"

definition synchronize_for_destruction :: "nat \<Rightarrow> runtime \<Rightarrow> lr_status run" where
  "synchronize_for_destruction q s =
     obind (prepare_direct_kfd_queue_synchronization_locked q s) (\<lambda>(prepared, s1).
     case prepared of
       Inl status \<Rightarrow> Ok (status, s1)
     | Inr n \<Rightarrow>
         obind (wait_for_direct_kfd_signal_locked q (OwnSignal n) s1) (\<lambda>(wait_status, s2).
         finish_direct_kfd_queue_synchronization_locked q n wait_status s2))"

definition lr_queue_destroy :: "nat \<Rightarrow> runtime \<Rightarrow> lr_status run" where
  "lr_queue_destroy q s =
     (if \<not> g_initialized s then Ok (LR_ERROR_NOT_INITIALIZED, s)
      else case g_queues s q of None \<Rightarrow> Ok (LR_ERROR_INVALID_ARGUMENT, s)
      | Some queue \<Rightarrow>
          if \<not> q_registered queue \<or> q_is_default queue \<or> g_device_count s \<le> q_device queue \<or> q_destroying queue
          then Ok (LR_ERROR_INVALID_ARGUMENT, s)
          else if q \<notin> set (g_device_queues s (q_device queue)) then Ok (LR_ERROR_RUNTIME, s)
          else if q_active_synchronizers queue \<noteq> 0 then Err Waiting
          else
          let failed = (\<lambda>status s. obind (get_queue s q) (\<lambda>queue.
                Ok (status, put_queue q (queue\<lparr>q_destroying := False\<rparr>) s)))
          in
          obind (synchronize_for_destruction q (put_queue q (queue\<lparr>q_destroying := True\<rparr>) s)) (\<lambda>(status, s1).
          if status \<noteq> LR_SUCCESS then failed status s1
          else
          obind (get_queue s1 q) (\<lambda>queue1.
          if q_active_synchronizers queue1 \<noteq> 0 then Err Waiting
          else
          obind (release_queue_contents q s1) (\<lambda>(status, s2).
          if status \<noteq> LR_SUCCESS then failed status s2
          else
          Ok (LR_SUCCESS, delete_queue q (s2\<lparr>g_device_queues := (g_device_queues s2)(q_device queue :=
                remove1 q (g_device_queues s2 (q_device queue)))\<rparr>))))))"

section \<open>The default queue\<close>

text \<open>A default queue without a transport queue is deleted and created again.\<close>

definition restore_direct_kfd_default_queue_locked :: "nat \<Rightarrow> runtime \<Rightarrow> lr_status run" where
  "restore_direct_kfd_default_queue_locked device s =
     (case g_default_queue s device of None \<Rightarrow> Ok (LR_SUCCESS, s)
      | Some q \<Rightarrow>
          obind (get_queue s q) (\<lambda>queue.
          if kfd_queue_bool (q_queue queue) then Ok (LR_SUCCESS, s)
          else
          obind (release_aql_queue q s) (\<lambda>(released, s1).
          if \<not> released then Ok (LR_ERROR_RUNTIME, s1)
          else
          obind (release_direct_kfd_dispatch_pool_locked q s1) (\<lambda>(pool_status, s2).
          if pool_status \<noteq> LR_SUCCESS then Ok (LR_ERROR_RUNTIME, s2)
          else
          obind (release_direct_kfd_kernarg_arenas_locked q s2) (\<lambda>(arena_status, s3).
          if arena_status \<noteq> LR_SUCCESS then Ok (LR_ERROR_RUNTIME, s3)
          else if q \<notin> set (g_device_queues s3 device) then Ok (LR_ERROR_RUNTIME, s3)
          else
          obind (create_direct_kfd_queue device True
            (delete_queue q (s3\<lparr>g_device_queues := (g_device_queues s3)(device := remove1 q (g_device_queues s3 device)),
                                g_default_queue := (g_default_queue s3)(device := None)\<rparr>))) (\<lambda>(created, s4).
          case created of
            Inl status \<Rightarrow> Ok (status, s4)
          | Inr fresh \<Rightarrow> Ok (LR_SUCCESS, s4\<lparr>g_default_queue := (g_default_queue s4)(device := Some fresh)\<rparr>)))))))"

section \<open>All queues of a device\<close>

primrec synchronize_queues_locked :: "nat list \<Rightarrow> runtime \<Rightarrow> lr_status run" where
  "synchronize_queues_locked [] s = Ok (LR_SUCCESS, s)"
| "synchronize_queues_locked (q # qs) s =
     obind (synchronize_direct_kfd_queue_locked q s) (\<lambda>(status, s1).
     if status \<noteq> LR_SUCCESS then Ok (status, s1) else synchronize_queues_locked qs s1)"

definition synchronize_direct_kfd_device_locked :: "nat \<Rightarrow> runtime \<Rightarrow> lr_status run" where
  "synchronize_direct_kfd_device_locked device s = synchronize_queues_locked (g_device_queues s device) s"

text \<open>The three loops of \<open>synchronize_direct_kfd_device\<close>: submit all barriers, wait for all, retire all.\<close>

primrec prepare_queues :: "nat list \<Rightarrow> runtime \<Rightarrow> (lr_status \<times> (nat \<times> nat) list) run" where
  "prepare_queues [] s = Ok ((LR_SUCCESS, []), s)"
| "prepare_queues (q # qs) s =
     obind (prepare_direct_kfd_queue_synchronization_locked q s) (\<lambda>(prepared, s1).
     case prepared of
       Inl status \<Rightarrow> Ok ((status, []), s1)
     | Inr n \<Rightarrow>
         obind (prepare_queues qs s1) (\<lambda>((status, entries), s2). Ok ((status, (q, n) # entries), s2)))"

primrec wait_queues :: "(nat \<times> nat) list \<Rightarrow> runtime \<Rightarrow> lr_status list run" where
  "wait_queues [] s = Ok ([], s)"
| "wait_queues (entry # entries) s =
     obind (wait_for_direct_kfd_signal_locked (fst entry) (OwnSignal (snd entry)) s) (\<lambda>(wait_status, s1).
     obind (wait_queues entries s1) (\<lambda>(statuses, s2). Ok (wait_status # statuses, s2)))"

primrec finish_queues :: "((nat \<times> nat) \<times> lr_status) list \<Rightarrow> lr_status \<Rightarrow> runtime \<Rightarrow> lr_status run" where
  "finish_queues [] result s = Ok (result, s)"
| "finish_queues (x # xs) result s =
     obind (finish_direct_kfd_queue_synchronization_locked (fst (fst x)) (snd (fst x)) (snd x) s) (\<lambda>(status, s1).
     finish_queues xs (if result = LR_SUCCESS \<and> status \<noteq> LR_SUCCESS then status else result) s1)"

definition synchronize_direct_kfd_device :: "nat \<Rightarrow> runtime \<Rightarrow> lr_status run" where
  "synchronize_direct_kfd_device device s =
     (if list_ex (\<lambda>q. case g_queues s q of None \<Rightarrow> False
                     | Some queue \<Rightarrow> q_capacity_waiting queue \<or> q_destroying queue) (g_device_queues s device)
      then Err Waiting
      else
      case next_allocation s of
        (False, s1) \<Rightarrow> Ok (LR_ERROR_RUNTIME, s1)
      | (True, s1) \<Rightarrow>
          obind (prepare_queues (g_device_queues s1 device) s1) (\<lambda>((result, entries), s2).
          obind (wait_queues entries s2) (\<lambda>(statuses, s3).
          finish_queues (zip entries statuses) result s3)))"

section \<open>Shutdown\<close>

text \<open>One pass over the queues of a device; a queue that fails a step stays, and the first failure is the result.\<close>

primrec release_queues_loop :: "nat \<Rightarrow> nat list \<Rightarrow> lr_status \<Rightarrow> runtime \<Rightarrow> (lr_status \<times> nat list) run" where
  "release_queues_loop device [] result s = Ok ((result, []), s)"
| "release_queues_loop device (q # qs) result s =
     obind (synchronize_direct_kfd_queue_locked q s) (\<lambda>(sync_status, s1).
     obind (if sync_status \<noteq> LR_SUCCESS then Ok (sync_status, s1) else release_queue_contents q s1) (\<lambda>(status, s2).
     if status \<noteq> LR_SUCCESS
     then
     obind (release_queues_loop device qs (if result = LR_SUCCESS then status else result) s2) (\<lambda>((final, left), s3).
     Ok ((final, q # left), s3))
     else
     release_queues_loop device qs result
       (delete_queue q (s2\<lparr>g_default_queue := (g_default_queue s2)(device :=
          (if g_default_queue s2 device = Some q then None else g_default_queue s2 device))\<rparr>))))"

primrec release_devices :: "nat list \<Rightarrow> lr_status \<Rightarrow> runtime \<Rightarrow> lr_status run" where
  "release_devices [] result s = Ok (result, s)"
| "release_devices (device # devices) result s =
     obind (release_queues_loop device (g_device_queues s device) result s) (\<lambda>((final, left), s1).
     release_devices devices final (s1\<lparr>g_device_queues := (g_device_queues s1)(device := left)\<rparr>))"

definition release_direct_kfd_queues_locked :: "lr_status \<Rightarrow> runtime \<Rightarrow> lr_status run" where
  "release_direct_kfd_queues_locked result s = release_devices [0 ..< g_device_count s] result s"

end
