(* ===== verification/CodeFreeze.thy ===== *)
theory CodeFreeze
  imports DirectKfdQueues CodeCache ExecutableImage
begin

text \<open>
  The transport side of loading code: \<open>light-rocr/transport/kfd/executable_image.cpp\<close>, which places an img in GPU
  memory, and \<open>light-rocr/transport/kfd/code_cache.cpp\<close>, which makes the GPU drop stale instructions with one packet on a queue
  and waits for it. The memory and the signal come from the transport's replies.
\<close>

unbundle bit_operations_syntax

section \<open>Images in GPU memory\<close>

record MemoryAllocation =
  al_gpu_address :: u64
  al_bytes :: bytes

text \<open>\<open>ei_allocation\<close> is \<open>None\<close> when the img owns no memory.\<close>

record KfdExecutableImage =
  ei_allocation :: "MemoryAllocation option"
  ei_image :: ExecutableImageInfo

definition no_image_info :: ExecutableImageInfo where
  "no_image_info = \<lparr>ii_code_object = default_CodeObject, ii_allocation_size = 0, ii_gpu_address = 0, ii_kernels = [],
     ii_valid = False\<rparr>"

definition no_image :: KfdExecutableImage where
  "no_image = \<lparr>ei_allocation = None, ei_image = no_image_info\<rparr>"

text \<open>
  A release that fails leaves the memory with the image; the image stays valid only when
  the failure was the unmapping (a second reply).
\<close>

definition release_image :: "KfdExecutableImage \<Rightarrow> runtime \<Rightarrow> (bool \<times> KfdExecutableImage) \<times> runtime" where
  "release_image img s =
     (case ei_allocation img of None \<Rightarrow> ((True, img\<lparr>ei_image := no_image_info\<rparr>), s)
      | Some _ \<Rightarrow>
          (case next_release s of
             (True, s1) \<Rightarrow> ((True, \<lparr>ei_allocation = None, ei_image = no_image_info\<rparr>), s1)
           | (False, s1) \<Rightarrow>
               (case next_release s1 of (unmap, s2) \<Rightarrow>
                  ((False, if unmap then img else img\<lparr>ei_image := no_image_info\<rparr>), s2))))"

text \<open>
  The error and the image. A failed allocation whose cleanup failed, and a failed materialisation whose memory could not be
  released, keep the memory.
\<close>

definition kfd_materialize_executable_image ::
  "bytes option \<Rightarrow> u64 \<Rightarrow> CodeObject \<Rightarrow> runtime \<Rightarrow> (ExecutableImageError \<times> KfdExecutableImage) run" where
  "kfd_materialize_executable_image hsaco hsaco_size code_object s =
     (case executable_image_requirements hsaco hsaco_size code_object of
        Fault \<Rightarrow> Fault
      | Err error \<Rightarrow> Ok ((error, no_image), s)
      | Ok allocation_size \<Rightarrow>
          (case next_memory s of
             (None, s1) \<Rightarrow>
               (case next_release s1 of (cleaned, s2) \<Rightarrow>
                  Ok ((AllocationFailed, if cleaned then no_image
                        else no_image\<lparr>ei_allocation := Some \<lparr>al_gpu_address = 0, al_bytes = []\<rparr>\<rparr>), s2))
           | (Some gpu_address, s1) \<Rightarrow>
               (case materialize_executable_image hsaco hsaco_size code_object
                       (Some (replicate (unat allocation_size) 0)) allocation_size gpu_address of
                  Fault \<Rightarrow> Fault
                | Err error \<Rightarrow>
                    (case next_release s1 of (released, s2) \<Rightarrow>
                       Ok ((error, if released then no_image
                             else no_image\<lparr>ei_allocation := Some \<lparr>al_gpu_address = gpu_address,
                                    al_bytes = replicate (unat allocation_size) 0\<rparr>\<rparr>), s2))
                | Ok (bs, info) \<Rightarrow>
                    Ok ((ImageNoError, \<lparr>ei_allocation = Some \<lparr>al_gpu_address = gpu_address, al_bytes = bs\<rparr>,
                                        ei_image = info\<rparr>), s1))))"

section \<open>The operation on the code cache\<close>

datatype CodeCacheError =
    CodeCacheSuccess | CodeCacheInvalidArgument | AllocateState | AllocateCommand | AllocateSignal
  | CodeCacheQueueFull | ReservePacket | RingDoorbell | WaitForCompletion | DestroyQueue | ReleaseSignal
  | ReleaseCommand

record CodeCacheOperationState =
  cs_command :: "MemoryAllocation option"
  cs_signal :: "nat option"
  cs_submitted_queue :: "nat option"
  cs_submitted :: bool

definition merge_cleanup_failure :: "CodeCacheError \<Rightarrow> CodeCacheError \<Rightarrow> CodeCacheError" where
  "merge_cleanup_failure primary cleanup =
     (if cleanup = CodeCacheSuccess then primary
      else if primary = CodeCacheSuccess then cleanup
      else primary)"

definition append_cleanup_failure :: "CodeCacheError \<Rightarrow> CodeCacheError \<Rightarrow> CodeCacheError" where
  "append_cleanup_failure status additional =
     (if additional = CodeCacheSuccess then status
      else if status = CodeCacheSuccess then additional
      else status)"

definition release_resources ::
  "CodeCacheOperationState \<Rightarrow> runtime \<Rightarrow> (CodeCacheError \<times> CodeCacheOperationState) \<times> runtime" where
  "release_resources state s =
     (let (status1, state1, s1) =
        (case cs_signal state of None \<Rightarrow> (CodeCacheSuccess, state, s)
         | Some n \<Rightarrow>
             (case next_release s of
                (True, s1) \<Rightarrow> (CodeCacheSuccess, state\<lparr>cs_signal := None\<rparr>, s1\<lparr>g_signals := (g_signals s1)(n := None)\<rparr>)
              | (False, s1) \<Rightarrow> (append_cleanup_failure CodeCacheSuccess ReleaseSignal, state, s1)))
      in case cs_command state1 of None \<Rightarrow> ((status1, state1), s1)
         | Some _ \<Rightarrow>
             (case next_release s1 of
                (True, s2) \<Rightarrow> ((status1, state1\<lparr>cs_command := None\<rparr>), s2)
              | (False, s2) \<Rightarrow> ((append_cleanup_failure status1 ReleaseCommand, state1), s2)))"

definition owns_resources :: "CodeCacheOperationState \<Rightarrow> bool" where
  "owns_resources state \<longleftrightarrow> cs_command state \<noteq> None \<or> cs_signal state \<noteq> None"

text \<open>
  An operation whose packet may still be read by the GPU is released only after its queue was
  destroyed.
\<close>

definition release_operation_resources ::
  "CodeCacheOperationState \<Rightarrow> runtime \<Rightarrow> (CodeCacheError \<times> CodeCacheOperationState option) \<times> runtime" where
  "release_operation_resources state s =
     (case release_resources (state\<lparr>cs_submitted := False, cs_submitted_queue := None\<rparr>) s of ((status, state1), s1) \<Rightarrow>
        ((status, if owns_resources state1 then Some state1 else None), s1))"

definition release_operation ::
  "nat \<Rightarrow> CodeCacheOperationState option \<Rightarrow> runtime \<Rightarrow> (CodeCacheError \<times> CodeCacheOperationState option) run" where
  "release_operation q operation s =
     (case operation of None \<Rightarrow> Ok ((CodeCacheSuccess, None), s)
      | Some state \<Rightarrow>
          if \<not> cs_submitted state
          then case release_resources state s of ((status, state1), s1) \<Rightarrow>
            Ok ((status, if owns_resources state1 then Some state1 else None), s1)
          else if cs_submitted_queue state \<noteq> Some q then Ok ((CodeCacheInvalidArgument, operation), s)
          else
          (case cs_signal state of None \<Rightarrow> Ok ((CodeCacheInvalidArgument, operation), s)
           | Some n \<Rightarrow>
               obind (load_acquire (OwnSignal n) s) (\<lambda>(v, s1).
               if v = 0 then Ok (release_operation_resources state s1)
               else
               obind (release_aql_queue q s1) (\<lambda>(released, s2).
               if \<not> released then Ok ((DestroyQueue, operation), s2)
               else Ok (release_operation_resources state s2)))))"

definition finish_before_submission ::
  "CodeCacheError \<Rightarrow> CodeCacheOperationState \<Rightarrow> nat \<Rightarrow> runtime \<Rightarrow> (CodeCacheError \<times> CodeCacheOperationState option) run" where
  "finish_before_submission status state q s =
     obind (release_operation q (Some state) s) (\<lambda>((cleanup, operation), s1).
     Ok ((merge_cleanup_failure status cleanup, operation), s1))"

section \<open>The packet\<close>

definition indirect_buffer_bytes :: "AqlPm4IndirectBufferPacket \<Rightarrow> bytes" where
  "indirect_buffer_bytes p =
     le_bytes 2 (pm_header p) @ le_bytes 2 (pm_vendor_header p) @ concat (map (le_bytes 4) (pm_indirect_buffer p)) @
     le_bytes 4 (pm_dword_count_remaining p) @ concat (map (le_bytes 4) (pm_reserved p)) @
     le_bytes 8 (pm_completion_signal p)"

text \<open>The header word is invalid while the rest is written.\<close>

definition publish_cache_packet :: "bytes \<Rightarrow> nat \<Rightarrow> bytes \<Rightarrow> ('e, bytes) outcome" where
  "publish_cache_packet ring slot packet =
     obind (write_bytes ring slot (le_bytes 4 (1 :: u32))) (\<lambda>ring1.
     obind (write_bytes ring1 (slot + 4) (drop 4 packet)) (\<lambda>ring2.
     write_bytes ring2 slot (take 4 packet)))"

text \<open>\<open>wait_until_equal(0, time_point::max())\<close>.\<close>

function wait_until_zero :: "signal_ref \<Rightarrow> runtime \<Rightarrow> (stuck, runtime) outcome" where
  "wait_until_zero ref s =
     obind (load_acquire ref s) (\<lambda>(v, s1).
     if v = 0 then Ok s1
     else if w_device s = [] then Err Waiting
     else wait_until_zero ref s1)"
  by pat_completeness auto

termination
  by (relation "measure (\<lambda>(ref, s). length (w_device s))")
    (auto simp: load_acquire_def Let_def length_greater_0_conv [symmetric] simp del: length_greater_0_conv)

declare wait_until_zero.simps [simp del]

section \<open>Freezing\<close>

text \<open>From the check for room to the end, with the command in place.\<close>

definition submit_invalidate ::
  "nat \<Rightarrow> CodeCacheOperationState \<Rightarrow> nat \<Rightarrow> AqlPm4IndirectBufferPacket \<Rightarrow> runtime \<Rightarrow>
   (CodeCacheError \<times> CodeCacheOperationState option) run" where
  "submit_invalidate q state n packet s =
     obind (load_read_index q s) (\<lambda>(read_index, s1).
     obind (get_queue s1 q) (\<lambda>queue.
     let aql = q_queue queue; write_index = write_index_relaxed aql in
     if write_index < read_index \<or> write_index - read_index \<ge> packet_count aql
     then finish_before_submission CodeCacheQueueFull state q s1
     else
     case add_write_index_scacq_screl [] 1 aql of ((error, previous), aql1) \<Rightarrow>
     if error \<noteq> PrimitiveNone
     then finish_before_submission ReservePacket state q (put_queue q (queue\<lparr>q_queue := aql1\<rparr>) s1)
     else
     obind (publish_cache_packet (q_ring queue) (unat (previous AND (packet_count aql - 1)) * 64)
              (indirect_buffer_bytes packet)) (\<lambda>ring.
     let submitted = state\<lparr>cs_submitted := True, cs_submitted_queue := Some q\<rparr> in
     case store_doorbell_screlease previous aql1 of (doorbell, aql2) \<Rightarrow>
     let s2 = put_queue q (queue\<lparr>q_queue := aql2, q_ring := ring\<rparr>) s1 in
     if doorbell \<noteq> PrimitiveNone then finish_before_submission RingDoorbell submitted q s2
     else
     obind (wait_until_zero (OwnSignal n) s2) (\<lambda>s3.
     obind (release_operation q (Some submitted) s3) (\<lambda>((cleanup, operation), s4).
     Ok ((merge_cleanup_failure CodeCacheSuccess cleanup, operation), s4))))))"

text \<open>A signal object; one whose creation failed may own its page all the same.\<close>

definition add_signal :: "u64 \<Rightarrow> u64 \<Rightarrow> runtime \<Rightarrow> runtime" where
  "add_signal handle initial_value s =
     s\<lparr>g_next := g_next s + 1, g_signals := (g_signals s)(g_next s := Some
         \<lparr>us_page = True, us_handle = handle, us_value = initial_value, us_start_ts = 0, us_end_ts = 0\<rparr>)\<rparr>"

text \<open>With the command's memory and the signal in place.\<close>

definition freeze_with_signal ::
  "nat \<Rightarrow> ExecutableImageInfo \<Rightarrow> u64 \<Rightarrow> CodeCacheOperationState \<Rightarrow> nat \<Rightarrow> u64 \<Rightarrow> runtime \<Rightarrow>
   (CodeCacheError \<times> CodeCacheOperationState option) run" where
  "freeze_with_signal q info command_address state n handle s =
     (case build_code_cache_invalidate (ii_gpu_address info) (ii_allocation_size info) command_address handle of
        Fault \<Rightarrow> Fault
      | Err _ \<Rightarrow> finish_before_submission CodeCacheInvalidArgument state q s
      | Ok (command, packet) \<Rightarrow>
          obind (write_bytes (replicate 4096 0) 0 (concat (map (le_bytes 4) command))) (\<lambda>bs.
          submit_invalidate q (state\<lparr>cs_command := Some \<lparr>al_gpu_address = command_address, al_bytes = bs\<rparr>\<rparr>) n packet s))"

definition freeze_with_command ::
  "nat \<Rightarrow> ExecutableImageInfo \<Rightarrow> u64 \<Rightarrow> CodeCacheOperationState \<Rightarrow> runtime \<Rightarrow>
   (CodeCacheError \<times> CodeCacheOperationState option) run" where
  "freeze_with_command q info command_address state s =
     (case next_signal s of
        (None, s1) \<Rightarrow>
          (case next_release s1 of (cleaned, s2) \<Rightarrow>
             if cleaned then finish_before_submission AllocateSignal state q s2
             else finish_before_submission AllocateSignal (state\<lparr>cs_signal := Some (g_next s2)\<rparr>) q (add_signal 0 0 s2))
      | (Some handle, s1) \<Rightarrow>
          freeze_with_signal q info command_address (state\<lparr>cs_signal := Some (g_next s1)\<rparr>) (g_next s1) handle
            (add_signal handle 1 s1))"

definition freeze_executable_image ::
  "nat \<Rightarrow> KfdExecutableImage \<Rightarrow> runtime \<Rightarrow> (CodeCacheError \<times> CodeCacheOperationState option) run" where
  "freeze_executable_image q img s =
     obind (get_queue s q) (\<lambda>queue.
     if \<not> g_kfd_session s \<or> \<not> kfd_queue_bool (q_queue queue) \<or> \<not> ii_valid (ei_image img) \<or>
        ei_allocation img = None \<or> ii_allocation_size (ei_image img) = 0 \<or>
        \<not> aq_ring (q_queue queue) \<or> packet_count (q_queue queue) = 0 \<or>
        aq_doorbell_address (q_queue queue) = 0
     then Ok ((CodeCacheInvalidArgument, None), s)
     else
     case next_allocation s of
       (False, s1) \<Rightarrow> Ok ((AllocateState, None), s1)
     | (True, s1) \<Rightarrow>
     let state = \<lparr>cs_command = None, cs_signal = None, cs_submitted_queue = None, cs_submitted = False\<rparr> in
     case next_memory s1 of
       (None, s2) \<Rightarrow>
         (case next_release s2 of (cleaned, s3) \<Rightarrow>
            finish_before_submission AllocateCommand
              (if cleaned then state else state\<lparr>cs_command := Some \<lparr>al_gpu_address = 0, al_bytes = []\<rparr>\<rparr>) q s3)
     | (Some command_address, s2) \<Rightarrow>
         freeze_with_command q (ei_image img) command_address
           (state\<lparr>cs_command := Some \<lparr>al_gpu_address = command_address, al_bytes = replicate 4096 0\<rparr>\<rparr>) s2)"

end
