(* ===== verification/Spec2Isabelle.thy ===== *)
theory Spec2Isabelle
  imports LoaderProperties ImageProperties DispatchProperties DirectKfdCalls CodeFreeze
begin

text \<open>
  A verification library for the code-object loader and the image builder of the light ROCm runtime.
\<close>

section \<open>The loader\<close>

text \<open>
  C1. The code-object loader is total and memory safe: for every buffer of the stated size (or a null pointer),
  \<open>parse_code_object\<close> returns a result without a read outside the buffer, and a result without an
  error is a well-formed code object. Its segments are those of the program headers, valid and
  disjoint in file and memory. Its kernels have distinct names, well-formed arguments and descriptors that agree with
  the metadata and lie, with their entry points, in file-backed and executable bytes. Its plan is the
  plan of the segments with checked, ordered relocations.
\<close>

theorem loader_total:
  assumes "buffer_ok buffer fsize"
  shows "\<exists>r. parse_code_object buffer fsize = Ok r \<and>
    (parse_ok r \<longrightarrow> wf_code_object (buffer_bytes buffer) (pr_code_object r))"
  by (rule parse_code_object_total [OF assms])

theorem loader_total_witness: "wf_code_object sample_elf sample_code_object"
proof -
  from loader_total [OF sample_buffer_ok] show ?thesis
    using sample_parse_ok
    by (simp add: sample_parsed buffer_bytes_def) (simp add: sample_result_def)
qed

section \<open>The loader and the image builder\<close>

lemma accepted_code_object:
  assumes "buffer_ok (Some data) n" and "parse_code_object (Some data) n = Ok r" and "parse_ok r"
  shows "wf_code_object data (pr_code_object r)" and "unat n = length data"
  using parse_code_object_total [OF assms(1)] assms by (auto simp: buffer_bytes_def buffer_ok_def)

text \<open>
  C3. What the loader accepts, the image builder's own validation accepts, up to placement: for a code object
  that parsed without error, \<open>validate_plan\<close> succeeds exactly when the image is non-empty and small enough
  to round up to pages, its alignment is at most a page and divides its address, its relocations are of the supported kinds and
  disjoint, and, if there are kernels, the image address is a multiple of 64. No copy, zero-fill,
  protection or kernel check can fail otherwise.
\<close>

theorem loader_plan_accepted:
  assumes "buffer_ok (Some data) n" and "parse_code_object (Some data) n = Ok r" and "parse_ok r"
  shows "(\<exists>a. validate_plan (Some data) n (pr_code_object r) = Ok a) \<longleftrightarrow> placeable (pr_code_object r)"
proof -
  note wf = accepted_code_object [OF assms]
  let ?s = "page_round (unat (plan_image_size (co_load_plan (pr_code_object r))))"
  have "?s < 2 ^ 64" if "placeable (pr_code_object r)"
    using that page_round_bounds(2) [of "unat (plan_image_size (co_load_plan (pr_code_object r)))"]
    by (simp add: placeable_def Let_def)
  then have "\<exists>a :: u64. unat a = ?s" if "placeable (pr_code_object r)"
    using that by (intro exI [of _ "word_of_nat ?s"] unat_of_nat64) blast
  then show ?thesis
    unfolding validate_plan_Ok plan_valid_iff_placeable [OF wf(1), folded wf(2)] by blast
qed

theorem loader_plan_accepted_witness: "placeable sample_code_object"
proof -
  have "validate_plan (Some sample_elf) 120 sample_code_object = Ok 4096"
    unfolding validate_plan_Ok
    by (simp add: sample_code_object_def sample_plan_valid) (simp add: sample_plan_def sample_page_round)
  then show ?thesis
    using loader_plan_accepted [OF sample_buffer_ok sample_parsed sample_parse_ok]
    by (auto simp: sample_result_def)
qed

text \<open>
  C18. When the builder refuses a code object the loader accepted, its error is one of the placement
  errors: never an invalid copy, zero fill or protection.
\<close>

theorem loader_plan_errors:
  assumes "buffer_ok (Some data) n" and "parse_code_object (Some data) n = Ok r" and "parse_ok r"
    and "validate_plan (Some data) n (pr_code_object r) = Err e"
  shows "e \<in> placement_errors"
  using accepted_code_object [OF assms(1-3)] assms(4) by (rule validate_plan_placement_errors)

theorem loader_plan_errors_witness:
  "\<exists>e. validate_plan (Some wide_elf) 120 (pr_code_object wide_result) = Err e \<and> e \<in> placement_errors"
proof -
  have "validate_plan (Some wide_elf) 120 (pr_code_object wide_result) = Err UnsupportedAlignment"
    by (simp add: validate_plan_def validate_image_geometry_def wide_result_def checked_add_def is_power_of_two_def)
  with loader_plan_errors [OF wide_buffer_ok wide_parsed wide_parse_ok] show ?thesis by blast
qed

text \<open>
  C2. End to end, loading means what the ELF program headers say: after parsing and materialising a code object at any
  address, every segment's file bytes stand at its virtual address relative to the image,
  followed by zeros up to its memory size, except where a relocation was applied; neither step reads or writes outside its buffers.
\<close>

theorem loaded_segments:
  assumes "buffer_ok (Some data) n" and "parse_code_object (Some data) n = Ok r" and "parse_ok r"
    and "buffer_ok destination m"
  shows "valid (materialize_executable_image (Some data) n (pr_code_object r) destination m gpu)
    (\<lambda>(after, info). \<forall>s \<in> set (co_load_segments (pr_code_object r)). \<forall>j < unat (ls_memory_size s).
       let plan = co_load_plan (pr_code_object r);
           i = unat (ls_virtual_address s) - unat (plan_image_virtual_address plan) + j in
       at_target plan i \<or>
       after ! i = (if j < unat (ls_file_size s) then data ! (unat (ls_file_offset s) + j) else 0))"
proof -
  let ?co = "pr_code_object r"
  note wf = accepted_code_object [OF assms(1-3)]
  have plan: "wf_plan (co_load_segments ?co) (co_load_plan ?co)"
    and segs: "wf_segments (length data) (co_load_segments ?co)"
    using wf(1) unfolding wf_code_object_def segments_ok_def by blast+
  have byte: "at_target (co_load_plan ?co) i \<or>
      after ! i = (if j < unat (ls_file_size s) then data ! (unat (ls_file_offset s) + j) else 0)"
    if "materialized (co_load_plan ?co) data bias k before after" "unat (plan_image_size (co_load_plan ?co)) \<le> k"
      and s: "s \<in> set (co_load_segments ?co)" "j < unat (ls_memory_size s)"
      and i: "i = unat (ls_virtual_address s) - unat (plan_image_virtual_address (co_load_plan ?co)) + j"
    for after before bias k s j i
  proof -
    have "in_image (co_load_plan ?co) (ls_virtual_address s) (ls_memory_size s)"
      using s by (intro live_in_image [OF plan segs s(1)]) auto
    with s(2) that(2) have "i < k" by (auto simp: i in_image_def)
    with that(1) have "at_target (co_load_plan ?co) i \<or> after ! i = loaded_byte (co_load_plan ?co) data i"
      by (auto simp: materialized_def)
    then show ?thesis using loaded_segment_byte [OF plan segs s] by (simp add: i)
  qed
  show ?thesis
  proof (rule valid_weaken [OF materialize_valid [OF assms(1,4), where co = ?co and gpu = gpu]])
    fix result :: "bytes \<times> ExecutableImageInfo"
    obtain after info where result: "result = (after, info)" by (cases result)
    let ?k = "unat (ii_allocation_size info)"
    assume "case result of (after, info) \<Rightarrow>
      plan_valid (length (buffer_bytes (Some data))) (co_load_plan ?co) (co_kernels ?co) \<and>
      image_described ?co gpu info \<and>
      materialized (co_load_plan ?co) (buffer_bytes (Some data)) (gpu - plan_image_virtual_address (co_load_plan ?co))
        (unat (ii_allocation_size info)) (buffer_bytes destination) after"
    then have m: "materialized (co_load_plan ?co) data (gpu - plan_image_virtual_address (co_load_plan ?co)) ?k
        (buffer_bytes destination) after"
      and k: "unat (plan_image_size (co_load_plan ?co)) \<le> ?k"
      by (auto simp: result buffer_bytes_def image_described_def page_round_bounds(1))
    show "case result of (after, info) \<Rightarrow>
      \<forall>s \<in> set (co_load_segments ?co). \<forall>j < unat (ls_memory_size s).
        let plan = co_load_plan ?co; i = unat (ls_virtual_address s) - unat (plan_image_virtual_address plan) + j in
        at_target plan i \<or>
        after ! i = (if j < unat (ls_file_size s) then data ! (unat (ls_file_offset s) + j) else 0)"
      unfolding result prod.case Let_def by (intro ballI allI impI byte [OF m k _ _ refl])
  qed
qed

theorem loaded_segments_witness:
  "\<exists>after info. materialize_executable_image (Some sample_elf) 120 sample_code_object
     (Some (replicate 4096 0)) 4096 65536 = Ok (after, info) \<and>
     after ! 0 = 0x7f \<and> after ! 1 = 0x45 \<and> after ! 150 = 0"
proof -
  have size: "plan_image_size sample_plan = 200" and base: "plan_image_virtual_address sample_plan = 4096"
    by (simp_all add: sample_plan_def)
  have "\<exists>after info. materialize_executable_image (Some sample_elf) 120 sample_code_object
      (Some (replicate 4096 0)) 4096 65536 = Ok (after, info)"
    unfolding materialize_Ok_iff [OF sample_buffer_ok destination_ok]
    by (simp add: sample_code_object_def sample_plan_valid sample_page_round sample_placement_ok size)
  then obtain after info where run: "materialize_executable_image (Some sample_elf) 120 sample_code_object
      (Some (replicate 4096 0)) 4096 65536 = Ok (after, info)"
    by blast
  have co: "pr_code_object sample_result = sample_code_object"
    "co_load_segments sample_code_object = [sample_segment]" "co_load_plan sample_code_object = sample_plan"
    by (simp_all add: sample_result_def sample_code_object_def)
  note all = loaded_segments [OF sample_buffer_ok sample_parsed sample_parse_ok destination_ok, of 65536,
      unfolded co run valid.simps prod.case Let_def, THEN bspec [of _ _ sample_segment], rule_format]
  have "after ! j = (if j < 120 then sample_elf ! j else 0)" if "j < 200" for j
  proof -
    have "j < unat (ls_memory_size sample_segment)" using that by (simp add: sample_segment_def)
    from all [OF _ this] show ?thesis
      by (simp add: at_target_def sample_plan_def sample_segment_def)
  qed
  then show ?thesis using run by (simp add: sample_elf_def)
qed

end
